(* ===== verification/Prelude.thy ===== *)
theory Prelude
  imports Main "HOL-Library.Word" "HOL-Library.Signed_Division"
begin

unbundle bit_operations_syntax

text \<open>
  What every component of the model shares: the outcome type of C++ code that may abort or
  run into undefined behaviour, checked array access, the rounding macros of
  \<^verbatim>\<open>lib/utility.h\<close>, and the generic lemmas on results, lists and words that the
  component theories use.

  A \<open>result\<close> is the value of a piece of code that may not return normally: \<open>Ok x\<close> for a
  normal return, \<open>Fault f\<close> for an execution that stops at a failed \<^verbatim>\<open>ASSERT\<close> or that
  does something the language leaves undefined (a null dereference, an access outside an
  array, the use of a deleted object), that never ends, or that leaves the simulation for good
  (\<open>Halted\<close>: the machine was halted or the thread finished), or that gives up the processor here
  until another thread wakes it (\<open>Asleep\<close>).
\<close>

section \<open>Outcomes\<close>

datatype fault =
    AssertFailed
  | NullDereference
  | OutOfRange
  | UseAfterFree
  | Uninitialised
  | DivideTrap
  | Diverges
  | Halted
  | Asleep

datatype 'a result = Ok 'a | Fault fault

named_theorems result_simps \<open>equations that evaluate the outcome combinators\<close>
named_theorems wf_intros \<open>preservation of the components' well-formedness predicates\<close>

primrec rbind :: "'a result \<Rightarrow> ('a \<Rightarrow> 'b result) \<Rightarrow> 'b result" where
  "rbind (Ok x) k = k x"
| "rbind (Fault f) k = Fault f"

definition ASSERT :: "bool \<Rightarrow> 'a result \<Rightarrow> 'a result" where
  "ASSERT c k = (if c then k else Fault AssertFailed)"

primrec is_ok :: "'a result \<Rightarrow> bool" where
  "is_ok (Ok x) = True"
| "is_ok (Fault f) = False"

definition arr_get :: "'a list \<Rightarrow> int \<Rightarrow> 'a result" where
  "arr_get xs i = (if 0 \<le> i \<and> i < int (length xs) then Ok (xs ! nat i) else Fault OutOfRange)"

definition arr_set :: "'a list \<Rightarrow> int \<Rightarrow> 'a \<Rightarrow> 'a list result" where
  "arr_set xs i v =
     (if 0 \<le> i \<and> i < int (length xs) then Ok (xs[nat i := v]) else Fault OutOfRange)"

text \<open>
  A C++ pointer to an object that only this pointer refers to: null, a live object, an object that
  was deleted, or a pointer that was never set. Deleting through it and reading through it are
  faults when there is no object.
\<close>

datatype 'a ptr = Null | Ptr 'a | Dangling | Wild

primrec deref_ptr :: "'a ptr \<Rightarrow> 'a result" where
  "deref_ptr Null = Fault NullDereference"
| "deref_ptr (Ptr x) = Ok x"
| "deref_ptr Dangling = Fault UseAfterFree"
| "deref_ptr Wild = Fault Uninitialised"

text \<open>
  The counting loop \<open>for (i = from; i < to; i++) body(i)\<close> over a state, stopped by the first
  fault of its body.
\<close>

function for_loop :: "int \<Rightarrow> int \<Rightarrow> (int \<Rightarrow> 's \<Rightarrow> 's result) \<Rightarrow> 's \<Rightarrow> 's result" where
  "for_loop i n body s =
     (if i < n then rbind (body i s) (\<lambda>s'. for_loop (i + 1) n body s') else Ok s)"
  by pat_completeness auto
termination
  by (relation "measure (\<lambda>(i, n, body, s). nat (n - i))") auto

declare for_loop.simps [simp del]

section \<open>Rounding division (lib/utility.h)\<close>

text \<open>C++ division truncates towards zero, which is \<open>sdiv\<close> and \<open>smod\<close> on \<open>int\<close>.\<close>

definition divRoundDown :: "int \<Rightarrow> int \<Rightarrow> int" where
  "divRoundDown n s = n sdiv s"

definition divRoundUp :: "int \<Rightarrow> int \<Rightarrow> int" where
  "divRoundUp n s = n sdiv s + (if n smod s > 0 then 1 else 0)"

section \<open>Lemmas on outcomes\<close>

lemma ASSERT_True [simp, result_simps]: "ASSERT True k = k"
  by (simp add: ASSERT_def)

lemma ASSERT_False [simp, result_simps]: "ASSERT False k = Fault AssertFailed"
  by (simp add: ASSERT_def)

lemma ASSERT_eq_Ok [simp]: "ASSERT c k = Ok x \<longleftrightarrow> c \<and> k = Ok x"
  by (simp add: ASSERT_def)

lemma rbind_eq_Ok: "rbind m k = Ok y \<longleftrightarrow> (\<exists>x. m = Ok x \<and> k x = Ok y)"
  by (cases m) auto

lemma rbind_OkE [elim]:
  assumes "rbind m k = Ok y"
  obtains x where "m = Ok x" and "k x = Ok y"
  using assms by (auto simp: rbind_eq_Ok)

lemma is_ok_iff: "is_ok m \<longleftrightarrow> (\<exists>x. m = Ok x)"
  by (cases m) auto

lemma arr_get_Ok [simp]:
  "0 \<le> i \<Longrightarrow> i < int (length xs) \<Longrightarrow> arr_get xs i = Ok (xs ! nat i)"
  by (simp add: arr_get_def)

lemma arr_get_nat: "n < length xs \<Longrightarrow> arr_get xs (int n) = Ok (xs ! n)"
  by (simp add: arr_get_def)

lemma arr_get_eq_Ok:
  "arr_get xs i = Ok x \<longleftrightarrow> 0 \<le> i \<and> i < int (length xs) \<and> x = xs ! nat i"
  by (auto simp: arr_get_def)

lemma arr_get_eq_Fault:
  "arr_get xs i = Fault f \<longleftrightarrow> \<not> (0 \<le> i \<and> i < int (length xs)) \<and> f = OutOfRange"
  by (auto simp: arr_get_def)

lemma arr_set_Ok [simp]:
  "0 \<le> i \<Longrightarrow> i < int (length xs) \<Longrightarrow> arr_set xs i v = Ok (xs[nat i := v])"
  by (simp add: arr_set_def)

lemma arr_set_eq_Ok:
  "arr_set xs i v = Ok ys \<longleftrightarrow> 0 \<le> i \<and> i < int (length xs) \<and> ys = xs[nat i := v]"
  by (auto simp: arr_set_def)

section \<open>Lemmas on counting loops\<close>

lemma for_loop_done [simp]: "n \<le> i \<Longrightarrow> for_loop i n body s = Ok s"
  by (simp add: for_loop.simps)

lemma for_loop_step:
  "i < n \<Longrightarrow> for_loop i n body s = rbind (body i s) (for_loop (i + 1) n body)"
  by (subst for_loop.simps) simp

text \<open>
  Total correctness of a counting loop: an invariant of the counter and the state that the
  body keeps without a fault holds when the loop is left.
\<close>

lemma for_loop_total:
  assumes "I i s" and "i \<le> n"
    and "\<And>k t. i \<le> k \<Longrightarrow> k < n \<Longrightarrow> I k t \<Longrightarrow> \<exists>t'. body k t = Ok t' \<and> I (k + 1) t'"
  shows "\<exists>s'. for_loop i n body s = Ok s' \<and> I n s'"
  using assms
proof (induction i n body s rule: for_loop.induct)
  case (1 i n body s)
  show ?case
  proof (cases "i < n")
    case True
    with 1 obtain t where t: "body i s = Ok t" "I (i + 1) t"
      by (metis order_refl)
    have "\<exists>s'. for_loop (i + 1) n body t = Ok s' \<and> I n s'"
      by (rule "1.IH") (use True t "1.prems" in auto)
    with True t show ?thesis by (simp add: for_loop_step)
  next
    case False
    with 1 show ?thesis by simp
  qed
qed

lemma for_loop_nat:
  assumes "I a s" "a \<le> b"
    and "\<And>k t. a \<le> k \<Longrightarrow> k < b \<Longrightarrow> I k t \<Longrightarrow> \<exists>t'. body (int k) t = Ok t' \<and> I (Suc k) t'"
  shows "\<exists>s'. for_loop (int a) (int b) body s = Ok s' \<and> I b s'"
proof -
  have "\<exists>s'. for_loop (int a) (int b) body s = Ok s' \<and> I (nat (int b)) s'"
  proof (rule for_loop_total [where I = "\<lambda>i. I (nat i)"])
    fix k :: int and t assume k: "int a \<le> k" "k < int b" "I (nat k) t"
    have "a \<le> nat k" "nat k < b" "int (nat k) = k" "nat (k + 1) = Suc (nat k)" using k by linarith+
    with assms(3) [of "nat k" t] k(3) show "\<exists>t'. body k t = Ok t' \<and> I (nat (k + 1)) t'" by simp
  qed (use assms in simp_all)
  then show ?thesis by simp
qed

text \<open>Partial correctness: what the body keeps when it returns holds when the loop returns.\<close>

lemma for_loop_partial:
  assumes "for_loop i n body s = Ok s'" and "I i s" and "i \<le> n"
    and "\<And>k t t'. i \<le> k \<Longrightarrow> k < n \<Longrightarrow> I k t \<Longrightarrow> body k t = Ok t' \<Longrightarrow> I (k + 1) t'"
  shows "I n s'"
  using assms
proof (induction i n body s rule: for_loop.induct)
  case (1 i n body s)
  show ?case
  proof (cases "i < n")
    case True
    with "1.prems"(1) obtain t where t: "body i s = Ok t" "for_loop (i + 1) n body t = Ok s'"
      by (auto simp: for_loop_step)
    show ?thesis
      by (rule "1.IH" [OF True t(2)]) (use True t "1.prems" in auto)
  next
    case False
    with 1 show ?thesis by simp
  qed
qed

lemma for_loop_split:
  "i \<le> k \<Longrightarrow> k \<le> n \<Longrightarrow> for_loop i n body s = rbind (for_loop i k body s) (for_loop k n body)"
proof (induction i k body s rule: for_loop.induct)
  case (1 i k body s)
  show ?case
  proof (cases "i < k")
    case True
    have "for_loop (i + 1) n body t = rbind (for_loop (i + 1) k body t) (for_loop k n body)" for t
      by (rule "1.IH") (use True "1.prems" in auto)
    with True "1.prems" show ?thesis by (cases "body i s") (simp_all add: for_loop_step)
  qed (use "1.prems" in simp)
qed

section \<open>Lemmas on rounding division\<close>

lemma sdiv_nonneg: "0 \<le> n \<Longrightarrow> 0 < s \<Longrightarrow> n sdiv s = n div s" for n s :: int
  by (cases "n = 0") (simp_all add: signed_divide_int_def)

lemma smod_nonneg: "0 \<le> n \<Longrightarrow> 0 < s \<Longrightarrow> n smod s = n mod s" for n s :: int
  by (cases "n = 0") (simp_all add: signed_modulo_int_def)

lemma divRoundDown_nonneg: "0 \<le> n \<Longrightarrow> 0 < s \<Longrightarrow> divRoundDown n s = n div s"
  by (simp add: divRoundDown_def sdiv_nonneg)

lemma divRoundUp_nonneg:
  "0 \<le> n \<Longrightarrow> 0 < s \<Longrightarrow> divRoundUp n s = n div s + (if n mod s > 0 then 1 else 0)"
  by (simp add: divRoundUp_def sdiv_nonneg smod_nonneg)

text \<open>Rounding up gives the least number of chunks of size \<open>s\<close> that hold \<open>n\<close> units.\<close>

lemma divRoundUp_covers:
  assumes "0 \<le> n" "0 < s"
  shows "n \<le> divRoundUp n s * s" "divRoundUp n s * s < n + s"
proof -
  have m: "0 \<le> n mod s" "n mod s < s" using assms by simp_all
  have e: "divRoundUp n s * s = n - n mod s + (if n mod s > 0 then s else 0)"
    unfolding divRoundUp_nonneg [OF assms] by (simp add: algebra_simps minus_mod_eq_mult_div)
  show "n \<le> divRoundUp n s * s"
    using m unfolding e by (cases "0 < n mod s"; simp only: if_True if_False; linarith)
  show "divRoundUp n s * s < n + s"
    using m assms unfolding e by (cases "0 < n mod s"; simp only: if_True if_False; linarith)
qed

lemma divRoundUp_ge0: "0 \<le> n \<Longrightarrow> 0 < s \<Longrightarrow> 0 \<le> divRoundUp n s"
  by (simp add: divRoundUp_nonneg pos_imp_zdiv_nonneg_iff)

lemma div_less_divRoundUp:
  assumes "0 \<le> i" "i < n" "0 < s"
  shows "i div s < divRoundUp n s"
proof (rule ccontr)
  assume "\<not> i div s < divRoundUp n s"
  then have "divRoundUp n s * s \<le> i div s * s"
    using assms(3) by (simp add: mult_right_mono)
  also have "\<dots> \<le> i" using assms by (metis div_mult_mod_eq le_add_same_cancel1 pos_mod_sign)
  finally show False using divRoundUp_covers(1) [of n s] assms by simp
qed

section \<open>Lemmas on machine integers\<close>

lemma unat_and_mask: "unat (a AND mask n) = unat a mod 2 ^ n" for a :: "'a::len word"
  by (metis take_bit_eq_mask take_bit_eq_mod unsigned_take_bit_eq)

lemma sint_small: "unat v < 2 ^ 31 \<Longrightarrow> sint v = int (unat v)" for v :: "32 word"
proof -
  assume a: "unat v < 2 ^ 31"
  have "uint v = int (unat v)" by simp
  with a have "uint v < int (2 ^ 31)" by (metis of_nat_less_iff)
  moreover have "- (2 ^ 31) \<le> uint v" by (rule order_trans [OF _ uint_ge_0]) simp
  ultimately show ?thesis by (simp add: sint_uint signed_take_bit_int_eq_self_iff)
qed

lemma uint_less_int: "uint v < int n \<longleftrightarrow> unat v < n"
  by (metis of_nat_less_iff of_nat_unat)

end
