(* ===== verification/Bitmap.thy ===== *)
theory Bitmap
  imports Prelude
begin

unbundle bit_operations_syntax

text \<open>
  The bitmap of \<^verbatim>\<open>lib/bitmap.cc\<close>: an array of 32-bit words in which bit
  \<open>which mod 32\<close> of word \<open>which div 32\<close> records whether slot \<open>which\<close> is in use. It allocates
  physical pages, process ids, semaphore slots and disk sectors.

  The theory translates every operation of the class, gives it the abstraction \<open>marked\<close> (the
  set of slots in use), and states the contract that clients rely on as the locale
  \<open>slot_allocator\<close>, interpreted on the bitmap operations at the end. What a client that
  allocates several slots in a row may conclude is proved once inside the locale.
\<close>

section \<open>The class\<close>

definition BitsInByte :: int where
  "BitsInByte = 8"

definition BitsInWord :: int where
  "BitsInWord = 4 * BitsInByte"

record bitmap =
  numBits :: int
  numWords :: int
  bwords :: "32 word list"

definition Bitmap_Test :: "bitmap \<Rightarrow> int \<Rightarrow> bool result" where
  "Bitmap_Test b which =
     ASSERT (0 \<le> which \<and> which < numBits b)
       (rbind (arr_get (bwords b) (which div BitsInWord)) (\<lambda>w.
          Ok (w AND push_bit (nat (which mod BitsInWord)) 1 \<noteq> 0)))"

definition Bitmap_Mark :: "bitmap \<Rightarrow> int \<Rightarrow> bitmap result" where
  "Bitmap_Mark b which =
     ASSERT (0 \<le> which \<and> which < numBits b)
       (rbind (arr_get (bwords b) (which div BitsInWord)) (\<lambda>w.
        rbind (arr_set (bwords b) (which div BitsInWord)
                (w OR push_bit (nat (which mod BitsInWord)) 1)) (\<lambda>ws.
        let b' = b\<lparr>bwords := ws\<rparr> in
        rbind (Bitmap_Test b' which) (\<lambda>t. ASSERT t (Ok b')))))"

definition Bitmap_Clear :: "bitmap \<Rightarrow> int \<Rightarrow> bitmap result" where
  "Bitmap_Clear b which =
     ASSERT (0 \<le> which \<and> which < numBits b)
       (rbind (arr_get (bwords b) (which div BitsInWord)) (\<lambda>w.
        rbind (arr_set (bwords b) (which div BitsInWord)
                (w AND NOT (push_bit (nat (which mod BitsInWord)) 1))) (\<lambda>ws.
        let b' = b\<lparr>bwords := ws\<rparr> in
        rbind (Bitmap_Test b' which) (\<lambda>t. ASSERT (\<not> t) (Ok b')))))"

definition Bitmap_new :: "int \<Rightarrow> bitmap result" where
  "Bitmap_new numItems =
     ASSERT (numItems > 0)
       (let nw = divRoundUp numItems BitsInWord in
        for_loop 0 numItems (\<lambda>i b. Bitmap_Clear b i)
          \<lparr>numBits = numItems, numWords = nw, bwords = replicate (nat nw) 0\<rparr>)"

function FindAndSet_from :: "bitmap \<Rightarrow> int \<Rightarrow> (int \<times> bitmap) result" where
  "FindAndSet_from b i =
     (if i < numBits b
      then rbind (Bitmap_Test b i) (\<lambda>t.
             if \<not> t then rbind (Bitmap_Mark b i) (\<lambda>b'. Ok (i, b'))
             else FindAndSet_from b (i + 1))
      else Ok (-1, b))"
  by pat_completeness auto
termination
  by (relation "measure (\<lambda>(b, i). nat (numBits b - i))") auto

definition Bitmap_FindAndSet :: "bitmap \<Rightarrow> (int \<times> bitmap) result" where
  "Bitmap_FindAndSet b = FindAndSet_from b 0"

definition Bitmap_NumClear :: "bitmap \<Rightarrow> int result" where
  "Bitmap_NumClear b =
     for_loop 0 (numBits b) (\<lambda>i count.
       rbind (Bitmap_Test b i) (\<lambda>t. Ok (if \<not> t then count + 1 else count))) 0"

text \<open>\<open>Print\<close> is modelled by the sequence of numbers it writes.\<close>

definition Bitmap_Print :: "bitmap \<Rightarrow> int list result" where
  "Bitmap_Print b =
     for_loop 0 (numBits b) (\<lambda>i out.
       rbind (Bitmap_Test b i) (\<lambda>t. Ok (if t then out @ [i] else out))) []"

definition Bitmap_SelfTest :: "bitmap \<Rightarrow> bitmap result" where
  "Bitmap_SelfTest b =
     ASSERT (numBits b \<ge> BitsInWord)
     (rbind (Bitmap_NumClear b) (\<lambda>n. ASSERT (n = numBits b)
     (rbind (Bitmap_FindAndSet b) (\<lambda>(i, b). ASSERT (i = 0)
     (rbind (Bitmap_Mark b 31) (\<lambda>b.
      rbind (Bitmap_Test b 0) (\<lambda>t0. rbind (Bitmap_Test b 31) (\<lambda>t31. ASSERT (t0 \<and> t31)
     (rbind (Bitmap_FindAndSet b) (\<lambda>(i, b). ASSERT (i = 1)
     (rbind (Bitmap_Clear b 0) (\<lambda>b.
      rbind (Bitmap_Clear b 1) (\<lambda>b.
      rbind (Bitmap_Clear b 31) (\<lambda>b.
      rbind (for_loop 0 (numBits b) (\<lambda>i b. Bitmap_Mark b i) b) (\<lambda>b.
      rbind (Bitmap_FindAndSet b) (\<lambda>(i, b). ASSERT (i = -1)
     (for_loop 0 (numBits b) (\<lambda>i b. Bitmap_Clear b i) b)))))))))))))))))"

declare FindAndSet_from.simps [simp del]

section \<open>Abstraction and well-formedness\<close>

definition wf_bitmap :: "bitmap \<Rightarrow> bool" where
  "wf_bitmap b \<longleftrightarrow>
     0 < numBits b \<and> numWords b = divRoundUp (numBits b) BitsInWord
     \<and> int (length (bwords b)) = numWords b"

definition slot_bit :: "bitmap \<Rightarrow> int \<Rightarrow> bool" where
  "slot_bit b i = bit (bwords b ! nat (i div BitsInWord)) (nat (i mod BitsInWord))"

definition marked :: "bitmap \<Rightarrow> int set" where
  "marked b = {i. 0 \<le> i \<and> i < numBits b \<and> slot_bit b i}"


lemma slot_index:
  assumes "wf_bitmap b" "0 \<le> i" "i < numBits b"
  shows "i div BitsInWord < int (length (bwords b))" "nat (i div BitsInWord) < length (bwords b)"
    "nat (i mod BitsInWord) < 32"
proof -
  show "i div BitsInWord < int (length (bwords b))"
    using div_less_divRoundUp [of i "numBits b" BitsInWord] assms
    by (simp add: wf_bitmap_def BitsInWord_def BitsInByte_def)
  then show "nat (i div BitsInWord) < length (bwords b)"
    using assms(2) by (simp add: nat_less_iff BitsInWord_def BitsInByte_def)
  show "nat (i mod BitsInWord) < 32" by (simp add: BitsInWord_def BitsInByte_def nat_less_iff)
qed

lemma BitsInWord_div_ge0: "0 \<le> i \<Longrightarrow> 0 \<le> i div BitsInWord"
  by (simp add: BitsInWord_def BitsInByte_def)

lemma slot_position_inj:
  assumes "nat (i div BitsInWord) = nat (j div BitsInWord)"
    and "nat (i mod BitsInWord) = nat (j mod BitsInWord)" and "0 \<le> i" "0 \<le> j"
  shows "i = j"
proof -
  have "i div 32 = j div 32" "i mod 32 = j mod 32"
    using assms by (simp_all add: BitsInWord_def BitsInByte_def eq_nat_nat_iff)
  then show ?thesis by (metis div_mult_mod_eq)
qed

lemma Test_correct:
  assumes "wf_bitmap b" "0 \<le> i" "i < numBits b"
  shows "Bitmap_Test b i = Ok (i \<in> marked b)"
  using assms slot_index(1) [OF assms] BitsInWord_div_ge0 [OF assms(2)]
  by (simp add: Bitmap_Test_def marked_def slot_bit_def bit_iff_and_push_bit_not_eq_0)

text \<open>Writing one word of the map changes the bit of one slot only.\<close>

lemma slot_bit_update:
  assumes "wf_bitmap b" "0 \<le> i" "i < numBits b" "0 \<le> j" "j < numBits b"
    and "\<And>k. k < 32 \<Longrightarrow> bit w k = (if k = nat (i mod BitsInWord) then v
            else bit (bwords b ! nat (i div BitsInWord)) k)"
  shows "slot_bit (b\<lparr>bwords := (bwords b)[nat (i div BitsInWord) := w]\<rparr>) j
           = (if j = i then v else slot_bit b j)"
  using assms slot_index [OF assms(1-3)] slot_index [OF assms(1,4,5)] slot_position_inj [of i j]
  by (auto simp: slot_bit_def nth_list_update)

lemma Mark_correct:
  assumes "wf_bitmap b" "0 \<le> i" "i < numBits b"
  shows "\<exists>b'. Bitmap_Mark b i = Ok b' \<and> wf_bitmap b' \<and> numBits b' = numBits b
    \<and> marked b' = insert i (marked b)"
proof -
  let ?w = "bwords b ! nat (i div BitsInWord) OR push_bit (nat (i mod BitsInWord)) 1"
  let ?b = "b\<lparr>bwords := (bwords b)[nat (i div BitsInWord) := ?w]\<rparr>"
  have wf: "wf_bitmap ?b" using assms by (simp add: wf_bitmap_def)
  have "slot_bit ?b j = (if j = i then True else slot_bit b j)"
    if "0 \<le> j" "j < numBits b" for j
    by (rule slot_bit_update [OF assms that])
       (use slot_index(3) [OF assms] in \<open>auto simp: bit_or_iff bit_exp_iff\<close>)
  then have m: "marked ?b = insert i (marked b)"
    using assms by (auto simp: marked_def)
  have "Bitmap_Mark b i = Ok ?b"
    using assms slot_index(1) [OF assms] BitsInWord_div_ge0 [OF assms(2)]
      Test_correct [OF wf, of i] m
    by (simp add: Bitmap_Mark_def Let_def)
  with wf m show ?thesis by simp
qed

lemma Clear_correct:
  assumes "wf_bitmap b" "0 \<le> i" "i < numBits b"
  shows "\<exists>b'. Bitmap_Clear b i = Ok b' \<and> wf_bitmap b' \<and> numBits b' = numBits b
    \<and> marked b' = marked b - {i}"
proof -
  let ?w = "bwords b ! nat (i div BitsInWord) AND NOT (push_bit (nat (i mod BitsInWord)) 1)"
  let ?b = "b\<lparr>bwords := (bwords b)[nat (i div BitsInWord) := ?w]\<rparr>"
  have wf: "wf_bitmap ?b" using assms by (simp add: wf_bitmap_def)
  have "slot_bit ?b j = (if j = i then False else slot_bit b j)"
    if "0 \<le> j" "j < numBits b" for j
    by (rule slot_bit_update [OF assms that])
       (use slot_index(3) [OF assms] in
         \<open>auto simp: bit_and_iff bit_not_iff bit_exp_iff\<close>)
  then have m: "marked ?b = marked b - {i}"
    using assms by (auto simp: marked_def split: if_splits)
  have "Bitmap_Clear b i = Ok ?b"
    using assms slot_index(1) [OF assms] BitsInWord_div_ge0 [OF assms(2)]
      Test_correct [OF wf, of i] m
    by (simp add: Bitmap_Clear_def Let_def)
  with wf m show ?thesis by simp
qed

lemma marked_range: "marked b \<subseteq> {0..<numBits b}"
  by (auto simp: marked_def)

lemma finite_marked [simp]: "finite (marked b)"
  by (rule finite_subset [OF marked_range]) simp

lemma FindAndSet_from_full:
  assumes "wf_bitmap b" "0 \<le> i" "\<And>j. i \<le> j \<Longrightarrow> j < numBits b \<Longrightarrow> j \<in> marked b"
  shows "FindAndSet_from b i = Ok (-1, b)"
  using assms
proof (induction b i rule: FindAndSet_from.induct)
  case (1 b i)
  show ?case
  proof (cases "i < numBits b")
    case True
    then have "Bitmap_Test b i = Ok True" using 1 by (simp add: Test_correct)
    with 1 True show ?thesis by (subst FindAndSet_from.simps) simp
  next
    case False
    then show ?thesis by (subst FindAndSet_from.simps) simp
  qed
qed

lemma FindAndSet_from_free:
  assumes "wf_bitmap b" "0 \<le> i" "i \<le> k" "k < numBits b" "k \<notin> marked b"
    and "\<And>j. i \<le> j \<Longrightarrow> j < k \<Longrightarrow> j \<in> marked b"
  shows "\<exists>b'. FindAndSet_from b i = Ok (k, b') \<and> wf_bitmap b' \<and> numBits b' = numBits b
    \<and> marked b' = insert k (marked b)"
  using assms
proof (induction b i rule: FindAndSet_from.induct)
  case (1 b i)
  have i: "i < numBits b" using 1 by simp
  show ?case
  proof (cases "i = k")
    case True
    with 1 i obtain b' where "Bitmap_Mark b k = Ok b'" "wf_bitmap b'" "numBits b' = numBits b"
        "marked b' = insert k (marked b)"
      using Mark_correct [of b k] by auto
    with 1 i True show ?thesis by (subst FindAndSet_from.simps) (simp add: Test_correct)
  next
    case False
    then have "Bitmap_Test b i = Ok True" using 1 i by (simp add: Test_correct)
    with 1 i False show ?thesis by (subst FindAndSet_from.simps) simp
  qed
qed

lemma FindAndSet_full:
  "wf_bitmap b \<Longrightarrow> marked b = {0..<numBits b} \<Longrightarrow> Bitmap_FindAndSet b = Ok (-1, b)"
  unfolding Bitmap_FindAndSet_def by (rule FindAndSet_from_full) auto

lemma FindAndSet_free:
  assumes "wf_bitmap b" "marked b \<noteq> {0..<numBits b}"
  shows "\<exists>k b'. Bitmap_FindAndSet b = Ok (k, b') \<and> 0 \<le> k \<and> k < numBits b \<and> k \<notin> marked b
    \<and> (\<forall>j. 0 \<le> j \<longrightarrow> j < k \<longrightarrow> j \<in> marked b)
    \<and> wf_bitmap b' \<and> numBits b' = numBits b \<and> marked b' = insert k (marked b)"
proof -
  let ?P = "\<lambda>n. int n < numBits b \<and> int n \<notin> marked b"
  obtain m where m: "0 \<le> m" "m < numBits b" "m \<notin> marked b"
    using assms marked_range [of b] by fastforce
  define k where "k = (LEAST n. ?P n)"
  have k: "?P k" unfolding k_def by (rule LeastI [of ?P "nat m"]) (use m in simp)
  have below: "j \<in> marked b" if "0 \<le> j" "j < int k" for j
    using not_less_Least [of "nat j" ?P] that k unfolding k_def [symmetric] by auto
  show ?thesis
    using FindAndSet_from_free [of b 0 "int k"] assms(1) k below
    unfolding Bitmap_FindAndSet_def by fastforce
qed

lemma interval_Suc: "0 \<le> i \<Longrightarrow> {0..<i + 1} = insert i {0..<i}" for i :: int
  by auto

lemma NumClear_correct:
  assumes "wf_bitmap b"
  shows "Bitmap_NumClear b = Ok (numBits b - int (card (marked b)))"
proof -
  let ?I = "\<lambda>i n. n = int (card ({0..<i} - marked b))"
  have "\<exists>n. Bitmap_NumClear b = Ok n \<and> ?I (numBits b) n"
    unfolding Bitmap_NumClear_def
    by (rule for_loop_total [where I = ?I])
       (use assms in \<open>auto simp: wf_bitmap_def Test_correct interval_Suc insert_Diff_if\<close>)
  moreover have "int (card ({0..<numBits b} - marked b)) = numBits b - int (card (marked b))"
    using card_mono [OF _ marked_range [of b]] assms
    by (simp add: card_Diff_subset marked_range of_nat_diff wf_bitmap_def)
  ultimately show ?thesis by simp
qed

lemma Print_correct:
  assumes "wf_bitmap b"
  shows "\<exists>out. Bitmap_Print b = Ok out \<and> set out = marked b \<and> sorted out \<and> distinct out"
proof -
  let ?I = "\<lambda>i out. set out = marked b \<inter> {0..<i} \<and> sorted out \<and> distinct out"
  have "\<exists>out. Bitmap_Print b = Ok out \<and> ?I (numBits b) out"
    unfolding Bitmap_Print_def
    by (rule for_loop_total [where I = ?I])
       (use assms in \<open>auto simp: wf_bitmap_def Test_correct interval_Suc sorted_append\<close>)
  moreover have "marked b \<inter> {0..<numBits b} = marked b"
    using marked_range [of b] by auto
  ultimately show ?thesis by simp
qed

text \<open>Marking or clearing every slot in turn, as the constructor and the self test do.\<close>

lemma Mark_all:
  assumes "wf_bitmap b"
  shows "\<exists>b'. for_loop 0 (numBits b) (\<lambda>i b. Bitmap_Mark b i) b = Ok b' \<and> wf_bitmap b'
    \<and> numBits b' = numBits b \<and> marked b' = {0..<numBits b}"
proof -
  let ?I = "\<lambda>i b'. wf_bitmap b' \<and> numBits b' = numBits b \<and> {0..<i} \<subseteq> marked b'"
  have "\<exists>b'. for_loop 0 (numBits b) (\<lambda>i b. Bitmap_Mark b i) b = Ok b' \<and> ?I (numBits b) b'"
  proof (rule for_loop_total [where I = ?I])
    fix k t assume k: "0 \<le> k" "k < numBits b" "?I k t"
    then show "\<exists>t'. Bitmap_Mark t k = Ok t' \<and> ?I (k + 1) t'"
      using Mark_correct [of t k] by (fastforce simp: interval_Suc)
  qed (use assms in \<open>auto simp: wf_bitmap_def\<close>)
  then show ?thesis using marked_range by (metis order_antisym)
qed

lemma Clear_all:
  assumes "wf_bitmap b"
  shows "\<exists>b'. for_loop 0 (numBits b) (\<lambda>i b. Bitmap_Clear b i) b = Ok b' \<and> wf_bitmap b'
    \<and> numBits b' = numBits b \<and> marked b' = {}"
proof -
  let ?I = "\<lambda>i b'. wf_bitmap b' \<and> numBits b' = numBits b \<and> {0..<i} \<inter> marked b' = {}"
  have "\<exists>b'. for_loop 0 (numBits b) (\<lambda>i b. Bitmap_Clear b i) b = Ok b' \<and> ?I (numBits b) b'"
  proof (rule for_loop_total [where I = ?I])
    fix k t assume k: "0 \<le> k" "k < numBits b" "?I k t"
    then show "\<exists>t'. Bitmap_Clear t k = Ok t' \<and> ?I (k + 1) t'"
      using Clear_correct [of t k] by (fastforce simp: interval_Suc)
  qed (use assms in \<open>auto simp: wf_bitmap_def\<close>)
  then show ?thesis using marked_range by (metis inf.absorb_iff2)
qed

lemma Bitmap_new_correct:
  assumes "0 < n"
  shows "\<exists>b. Bitmap_new n = Ok b \<and> wf_bitmap b \<and> numBits b = n \<and> marked b = {}"
proof -
  let ?b = "\<lparr>numBits = n, numWords = divRoundUp n BitsInWord,
              bwords = replicate (nat (divRoundUp n BitsInWord)) 0\<rparr>"
  have "wf_bitmap ?b"
    using assms divRoundUp_ge0 [of n BitsInWord]
    by (simp add: wf_bitmap_def BitsInWord_def BitsInByte_def)
  from Clear_all [OF this] assms show ?thesis by (simp add: Bitmap_new_def Let_def)
qed

section \<open>The allocator interface\<close>

text \<open>
  What clients of the bitmap rely on. \<open>used\<close> is the abstract state: the set of slots in use.
  \<open>find_n\<close> is what allocating clients do: call \<open>FindAndSet\<close> \<open>n\<close> times and collect the slots.
\<close>

primrec find_n :: "('b \<Rightarrow> (int \<times> 'b) result) \<Rightarrow> nat \<Rightarrow> 'b \<Rightarrow> (int list \<times> 'b) result" where
  "find_n fnd 0 b = Ok ([], b)"
| "find_n fnd (Suc n) b =
     rbind (fnd b) (\<lambda>(i, b'). rbind (find_n fnd n b') (\<lambda>(ks, b''). Ok (i # ks, b'')))"

locale slot_allocator =
  fixes inv :: "'b \<Rightarrow> bool"
    and cap :: "'b \<Rightarrow> int"
    and used :: "'b \<Rightarrow> int set"
    and test :: "'b \<Rightarrow> int \<Rightarrow> bool result"
    and mark :: "'b \<Rightarrow> int \<Rightarrow> 'b result"
    and clear :: "'b \<Rightarrow> int \<Rightarrow> 'b result"
    and fnd :: "'b \<Rightarrow> (int \<times> 'b) result"
    and free_count :: "'b \<Rightarrow> int result"
  assumes used_range: "inv b \<Longrightarrow> used b \<subseteq> {0..<cap b}"
    and test_law: "inv b \<Longrightarrow> 0 \<le> i \<Longrightarrow> i < cap b \<Longrightarrow> test b i = Ok (i \<in> used b)"
    and mark_law: "inv b \<Longrightarrow> 0 \<le> i \<Longrightarrow> i < cap b \<Longrightarrow>
      \<exists>b'. mark b i = Ok b' \<and> inv b' \<and> cap b' = cap b \<and> used b' = insert i (used b)"
    and clear_law: "inv b \<Longrightarrow> 0 \<le> i \<Longrightarrow> i < cap b \<Longrightarrow>
      \<exists>b'. clear b i = Ok b' \<and> inv b' \<and> cap b' = cap b \<and> used b' = used b - {i}"
    and find_full: "inv b \<Longrightarrow> used b = {0..<cap b} \<Longrightarrow> fnd b = Ok (-1, b)"
    and find_free: "inv b \<Longrightarrow> used b \<noteq> {0..<cap b} \<Longrightarrow>
      \<exists>k b'. fnd b = Ok (k, b') \<and> 0 \<le> k \<and> k < cap b \<and> k \<notin> used b
        \<and> (\<forall>j. 0 \<le> j \<longrightarrow> j < k \<longrightarrow> j \<in> used b)
        \<and> inv b' \<and> cap b' = cap b \<and> used b' = insert k (used b)"
    and count_law: "inv b \<Longrightarrow> free_count b = Ok (cap b - int (card (used b)))"
begin

lemma used_finite: "inv b \<Longrightarrow> finite (used b)"
  by (rule finite_subset [OF used_range]) auto

lemma not_full_iff:
  assumes "inv b"
  shows "used b \<noteq> {0..<cap b} \<longleftrightarrow> 0 < cap b - int (card (used b))"
proof
  assume ne: "used b \<noteq> {0..<cap b}"
  have "card (used b) < card {0..<cap b}"
    by (rule psubset_card_mono) (use ne used_range [OF assms] in auto)
  then show "0 < cap b - int (card (used b))" by simp
qed (auto split: if_splits)

text \<open>\<open>fnd\<close> never faults, and answers \<open>-1\<close> exactly when nothing is free.\<close>

lemma find_total:
  assumes "inv b"
  obtains k b' where "fnd b = Ok (k, b')" "inv b'" "cap b' = cap b"
    "k = -1 \<and> b' = b \<and> used b = {0..<cap b}
     \<or> 0 \<le> k \<and> k < cap b \<and> k \<notin> used b \<and> used b' = insert k (used b)"
  using find_full [OF assms] find_free [OF assms] assms by fastforce

text \<open>
  With at least \<open>n\<close> free slots, \<open>n\<close> calls hand out \<open>n\<close> distinct slots that were free before,
  and exactly those become used.
\<close>

lemma find_n_enough:
  assumes "inv b" "int n \<le> cap b - int (card (used b))"
  shows "\<exists>ks b'. find_n fnd n b = Ok (ks, b') \<and> length ks = n \<and> distinct ks
    \<and> set ks \<subseteq> {0..<cap b} \<and> set ks \<inter> used b = {}
    \<and> inv b' \<and> cap b' = cap b \<and> used b' = used b \<union> set ks"
  using assms
proof (induction n arbitrary: b)
  case 0
  then show ?case by simp
next
  case (Suc n)
  then have "used b \<noteq> {0..<cap b}" using not_full_iff [of b] by simp
  then obtain k b' where k: "fnd b = Ok (k, b')" "0 \<le> k" "k < cap b" "k \<notin> used b" "inv b'"
      "cap b' = cap b" "used b' = insert k (used b)"
    using find_free [OF Suc.prems(1)] by blast
  have "int n \<le> cap b' - int (card (used b'))"
    using Suc.prems k used_finite by simp
  then obtain ks b'' where "find_n fnd n b' = Ok (ks, b'')" "length ks = n" "distinct ks"
      "set ks \<subseteq> {0..<cap b'}" "set ks \<inter> used b' = {}" "inv b''" "cap b'' = cap b'"
      "used b'' = used b' \<union> set ks"
    using Suc.IH [OF k(5)] by blast
  with k show ?case by (intro exI [of _ "k # ks"] exI [of _ b'']) auto
qed

end

interpretation bm: slot_allocator wf_bitmap numBits marked Bitmap_Test Bitmap_Mark Bitmap_Clear
  Bitmap_FindAndSet Bitmap_NumClear
  by unfold_locales
     (use marked_range in \<open>auto simp: Test_correct Mark_correct Clear_correct FindAndSet_full
        NumClear_correct intro!: FindAndSet_free\<close>)

section \<open>The self test\<close>

lemma FindAndSet_at:
  assumes "wf_bitmap b" "0 \<le> k" "k < numBits b" "k \<notin> marked b" "{0..<k} \<subseteq> marked b"
  shows "\<exists>b'. Bitmap_FindAndSet b = Ok (k, b') \<and> wf_bitmap b' \<and> numBits b' = numBits b
    \<and> marked b' = insert k (marked b)"
  unfolding Bitmap_FindAndSet_def by (rule FindAndSet_from_free) (use assms in auto)

lemma SelfTest_middle:
  assumes "wf_bitmap b" "32 \<le> numBits b"
  shows "\<exists>b'. rbind (Bitmap_Clear b 0) (\<lambda>b. rbind (Bitmap_Clear b 1) (\<lambda>b.
      rbind (Bitmap_Clear b 31) (\<lambda>b.
      rbind (for_loop 0 (numBits b) (\<lambda>i b. Bitmap_Mark b i) b) (\<lambda>b.
      rbind (Bitmap_FindAndSet b) (\<lambda>(i, b). ASSERT (i = -1)
        (for_loop 0 (numBits b) (\<lambda>i b. Bitmap_Clear b i) b)))))) = Ok b'
    \<and> wf_bitmap b' \<and> numBits b' = numBits b \<and> marked b' = {}"
proof -
  obtain b1 where 1: "Bitmap_Clear b 0 = Ok b1" "wf_bitmap b1" "numBits b1 = numBits b"
    using Clear_correct [of b 0] assms by auto
  obtain b2 where 2: "Bitmap_Clear b1 1 = Ok b2" "wf_bitmap b2" "numBits b2 = numBits b"
    using Clear_correct [of b1 1] assms 1 by auto
  obtain b3 where 3: "Bitmap_Clear b2 31 = Ok b3" "wf_bitmap b3" "numBits b3 = numBits b"
    using Clear_correct [of b2 31] assms 2 by auto
  obtain b4 where 4: "for_loop 0 (numBits b3) (\<lambda>i b. Bitmap_Mark b i) b3 = Ok b4" "wf_bitmap b4"
      "numBits b4 = numBits b" "marked b4 = {0..<numBits b}"
    using Mark_all [of b3] 3 by auto
  obtain b5 where "for_loop 0 (numBits b4) (\<lambda>i b. Bitmap_Clear b i) b4 = Ok b5" "wf_bitmap b5"
      "numBits b5 = numBits b" "marked b5 = {}"
    using Clear_all [of b4] 4 by auto
  with 1 2 3 4 show ?thesis by (simp add: FindAndSet_full)
qed

lemma SelfTest_passes:
  assumes "wf_bitmap b" "marked b = {}" "BitsInWord \<le> numBits b"
  shows "\<exists>b'. Bitmap_SelfTest b = Ok b' \<and> wf_bitmap b' \<and> numBits b' = numBits b \<and> marked b' = {}"
proof -
  have n: "32 \<le> numBits b" using assms(3) by (simp add: BitsInWord_def BitsInByte_def)
  obtain b1 where 1: "Bitmap_FindAndSet b = Ok (0, b1)" "wf_bitmap b1" "numBits b1 = numBits b"
      "marked b1 = {0}"
    using FindAndSet_at [of b 0] assms n by auto
  obtain b2 where 2: "Bitmap_Mark b1 31 = Ok b2" "wf_bitmap b2" "numBits b2 = numBits b"
      "marked b2 = {31, 0}"
    using Mark_correct [of b1 31] 1 n by auto
  have "{0..<1::int} = {0}" by auto
  then obtain b3 where 3: "Bitmap_FindAndSet b2 = Ok (1, b3)" "wf_bitmap b3"
      "numBits b3 = numBits b"
    using FindAndSet_at [of b2 1] 2 n by auto
  have t: "Bitmap_Test b2 0 = Ok True" "Bitmap_Test b2 31 = Ok True"
    using 2 n by (simp_all add: Test_correct)
  show ?thesis
    using SelfTest_middle [of b3] 1 2 3 t n assms
    by (simp add: Bitmap_SelfTest_def NumClear_correct)
qed


section \<open>Properties\<close>

text \<open>On a well-formed bitmap \<open>FindAndSet\<close> always returns: with the bitmap unchanged and -1
  when every bit is set, and otherwise with the lowest clear bit, which is in range and is the only
  bit that changes.\<close>

theorem Bitmap_FindAndSet_lowest:
  assumes "wf_bitmap b"
  shows "\<exists>k b'. Bitmap_FindAndSet b = Ok (k, b') \<and> wf_bitmap b' \<and> numBits b' = numBits b
    \<and> (if marked b = {0..<numBits b} then k = -1 \<and> b' = b
       else 0 \<le> k \<and> k < numBits b \<and> k \<notin> marked b \<and> {0..<k} \<subseteq> marked b
         \<and> marked b' = insert k (marked b))"
proof (cases "marked b = {0..<numBits b}")
  case True
  with assms FindAndSet_full show ?thesis by simp
next
  case False
  then obtain k b' where k: "Bitmap_FindAndSet b = Ok (k, b')" "0 \<le> k" "k < numBits b"
      "k \<notin> marked b" "{0..<k} \<subseteq> marked b" "wf_bitmap b'" "numBits b' = numBits b"
      "marked b' = insert k (marked b)"
    using FindAndSet_free [OF assms False] by (auto simp: subset_eq)
  from False k show ?thesis by (intro exI [of _ k] exI [of _ b']) simp
qed

theorem Bitmap_FindAndSet_lowest_witness:
  "\<exists>k b'. Bitmap_FindAndSet \<lparr>numBits = 3, numWords = 1, bwords = [5]\<rparr> = Ok (k, b') \<and> numBits b' = 3"
  using Bitmap_FindAndSet_lowest [of "\<lparr>numBits = 3, numWords = 1, bwords = [5]\<rparr>"]
  by (auto simp: wf_bitmap_def divRoundUp_nonneg BitsInWord_def BitsInByte_def)

text \<open>C35: Marking, clearing and testing a bit in range never fail on a well-formed bitmap, keep it
  well formed, and act on the set of marked bits as insertion, removal and membership; out of range
  each of them stops at its assertion.\<close>

theorem Bitmap_refines_set:
  assumes "wf_bitmap b"
  shows "if 0 \<le> i \<and> i < numBits b
    then Bitmap_Test b i = Ok (i \<in> marked b)
      \<and> (\<exists>b'. Bitmap_Mark b i = Ok b' \<and> wf_bitmap b' \<and> numBits b' = numBits b
            \<and> marked b' = insert i (marked b))
      \<and> (\<exists>b'. Bitmap_Clear b i = Ok b' \<and> wf_bitmap b' \<and> numBits b' = numBits b
            \<and> marked b' = marked b - {i})
    else Bitmap_Test b i = Fault AssertFailed \<and> Bitmap_Mark b i = Fault AssertFailed
      \<and> Bitmap_Clear b i = Fault AssertFailed"
  using Test_correct [OF assms] Mark_correct [OF assms] Clear_correct [OF assms]
  by (auto simp: Bitmap_Test_def Bitmap_Mark_def Bitmap_Clear_def ASSERT_def)

theorem Bitmap_refines_set_witness:
  "\<exists>b'. Bitmap_Clear \<lparr>numBits = 40, numWords = 2, bwords = [0, 6]\<rparr> 34 = Ok b' \<and> 34 \<notin> marked b'"
  using Bitmap_refines_set [of "\<lparr>numBits = 40, numWords = 2, bwords = [0, 6]\<rparr>" 34]
  by (auto simp: wf_bitmap_def divRoundUp_nonneg BitsInWord_def BitsInByte_def)

text \<open>A bitmap made by the constructor has every bit clear, its \<open>NumClear\<close> is its size, and
  the module's own \<open>SelfTest\<close> runs through all its assertions and leaves the bitmap empty, for every
  size of at least one word.\<close>

theorem Bitmap_new_SelfTest:
  assumes "BitsInWord \<le> n"
  shows "\<exists>b b'. Bitmap_new n = Ok b \<and> Bitmap_NumClear b = Ok n
    \<and> Bitmap_SelfTest b = Ok b' \<and> marked b' = {} \<and> Bitmap_NumClear b' = Ok n"
proof -
  have "0 < n" using assms by (simp add: BitsInWord_def BitsInByte_def)
  then obtain b where b: "Bitmap_new n = Ok b" "wf_bitmap b" "numBits b = n" "marked b = {}"
    using Bitmap_new_correct by blast
  with SelfTest_passes [of b] assms NumClear_correct show ?thesis by fastforce
qed

theorem Bitmap_new_SelfTest_witness:
  "\<exists>b b'. Bitmap_new 32 = Ok b \<and> Bitmap_SelfTest b = Ok b'"
  using Bitmap_new_SelfTest [of 32] by (auto simp: BitsInWord_def BitsInByte_def)

end
