(* ===== verification/Linked_List.thy ===== *)
theory Linked_List
  imports Prelude
begin

text \<open>
  The singly linked lists of \<^verbatim>\<open>lib/list.h\<close> and \<^verbatim>\<open>lib/list.cc\<close> on the pointer level:
  \<open>ListElement\<close> cells in a store, the fields \<open>first\<close>, \<open>last\<close> and \<open>numInList\<close> of the class
  \<open>List\<close>, and \<open>SortedList\<close>, which inserts by a comparison function.

  The abstraction of a list object is the HOL list of its items (\<open>represents\<close>). Every operation
  is shown to do on the cells what the corresponding list function does on the items, with the
  assertions of the code as the only faults. The queue contract that the scheduler, the
  semaphores and the interrupt queue rely on is the locale \<open>fifo\<close>.

  \<open>new\<close> takes the next address that was never used; \<open>delete\<close> removes the cell, so that any later
  access to it is a fault. A loop that follows \<open>next\<close> pointers is given as many steps as there
  are addresses in use: a longer walk visits a cell twice and therefore never ends.
\<close>

section \<open>Cells and list objects\<close>

type_synonym addr = nat

record 'a ListElement =
  item :: 'a
  "next" :: "addr option"

record 'a LList =
  cells :: "addr \<Rightarrow> 'a ListElement option"
  fresh :: nat
  first :: "addr option"
  "last" :: "addr option"
  numInList :: int

definition List_new :: "'a LList" where
  "List_new = \<lparr>cells = (\<lambda>_. None), fresh = 0, first = None, last = None, numInList = 0\<rparr>"

definition ListElement_new :: "'a \<Rightarrow> 'a LList \<Rightarrow> addr \<times> 'a LList" where
  "ListElement_new itm s =
     (fresh s, s\<lparr>cells := (cells s)(fresh s \<mapsto> \<lparr>item = itm, next = None\<rparr>), fresh := Suc (fresh s)\<rparr>)"

definition delete_cell :: "addr \<Rightarrow> 'a LList \<Rightarrow> 'a LList" where
  "delete_cell a s = s\<lparr>cells := (cells s)(a := None)\<rparr>"

text \<open>Dereferencing a pointer: null and dangling pointers are faults.\<close>

definition deref :: "'a LList \<Rightarrow> addr option \<Rightarrow> (addr \<times> 'a ListElement) result" where
  "deref s p = (case p of None \<Rightarrow> Fault NullDereference
     | Some a \<Rightarrow> (case cells s a of None \<Rightarrow> Fault UseAfterFree | Some c \<Rightarrow> Ok (a, c)))"

definition set_next :: "addr option \<Rightarrow> addr option \<Rightarrow> 'a LList \<Rightarrow> 'a LList result" where
  "set_next p q s = rbind (deref s p) (\<lambda>(a, c). Ok (s\<lparr>cells := (cells s)(a \<mapsto> c\<lparr>next := q\<rparr>)\<rparr>))"

section \<open>List<T>\<close>

definition List_IsEmpty :: "'a LList \<Rightarrow> bool" where
  "List_IsEmpty s = (numInList s = 0)"

definition List_Front :: "'a LList \<Rightarrow> 'a result" where
  "List_Front s = rbind (deref s (first s)) (\<lambda>(a, c). Ok (item c))"

primrec IsIn_loop :: "nat \<Rightarrow> 'a LList \<Rightarrow> 'a \<Rightarrow> addr option \<Rightarrow> bool result" where
  "IsIn_loop 0 s x p = (if p = None then Ok False else Fault Diverges)"
| "IsIn_loop (Suc k) s x p =
     (if p = None then Ok False
      else rbind (deref s p) (\<lambda>(a, c). if x = item c then Ok True else IsIn_loop k s x (next c)))"

definition List_IsInList :: "'a LList \<Rightarrow> 'a \<Rightarrow> bool result" where
  "List_IsInList s x = IsIn_loop (fresh s) s x (first s)"

definition List_Append :: "'a LList \<Rightarrow> 'a \<Rightarrow> 'a LList result" where
  "List_Append s x =
     (let (element, s) = ListElement_new x s in
      rbind (List_IsInList s x) (\<lambda>t. ASSERT (\<not> t)
     (rbind (if List_IsEmpty s then Ok (s\<lparr>first := Some element, last := Some element\<rparr>)
             else rbind (set_next (last s) (Some element) s)
                    (\<lambda>s. Ok (s\<lparr>last := Some element\<rparr>))) (\<lambda>s.
      let s = s\<lparr>numInList := numInList s + 1\<rparr> in
      rbind (List_IsInList s x) (\<lambda>t. ASSERT t (Ok s))))))"

definition List_Prepend :: "'a LList \<Rightarrow> 'a \<Rightarrow> 'a LList result" where
  "List_Prepend s x =
     (let (element, s) = ListElement_new x s in
      rbind (List_IsInList s x) (\<lambda>t. ASSERT (\<not> t)
     (rbind (if List_IsEmpty s then Ok (s\<lparr>first := Some element, last := Some element\<rparr>)
             else rbind (set_next (Some element) (first s) s)
                    (\<lambda>s. Ok (s\<lparr>first := Some element\<rparr>))) (\<lambda>s.
      let s = s\<lparr>numInList := numInList s + 1\<rparr> in
      rbind (List_IsInList s x) (\<lambda>t. ASSERT t (Ok s))))))"

definition List_RemoveFront :: "'a LList \<Rightarrow> ('a \<times> 'a LList) result" where
  "List_RemoveFront s =
     ASSERT (\<not> List_IsEmpty s)
     (rbind (deref s (first s)) (\<lambda>(element, c).
      let s = (if first s = last s then s\<lparr>first := None, last := None\<rparr>
               else s\<lparr>first := next c\<rparr>);
          s = s\<lparr>numInList := numInList s - 1\<rparr>
      in Ok (item c, delete_cell element s)))"

text \<open>
  The search loop of \<open>Remove\<close>, with \<open>prev\<close> one cell behind \<open>ptr\<close>. Leaving the loop with
  \<open>ptr == NULL\<close> fails the assertion behind it.
\<close>

primrec Remove_loop :: "nat \<Rightarrow> 'a LList \<Rightarrow> 'a \<Rightarrow> addr option \<Rightarrow> addr option \<Rightarrow> 'a LList result" where
  "Remove_loop 0 s x prev ptr = (if ptr = None then Fault AssertFailed else Fault Diverges)"
| "Remove_loop (Suc k) s x prev ptr =
     (if ptr = None then Fault AssertFailed
      else rbind (deref s ptr) (\<lambda>(a, c).
        if x = item c
        then rbind (set_next prev (next c) s) (\<lambda>s.
             let s = (if next c = None then s\<lparr>last := prev\<rparr> else s);
                 s = delete_cell a s
             in Ok (s\<lparr>numInList := numInList s - 1\<rparr>))
        else Remove_loop k s x ptr (next c)))"

definition List_Remove :: "'a LList \<Rightarrow> 'a \<Rightarrow> 'a LList result" where
  "List_Remove s x =
     rbind (List_IsInList s x) (\<lambda>t. ASSERT t
     (rbind (deref s (first s)) (\<lambda>(f, c).
      rbind (if x = item c
             then rbind (List_RemoveFront s) (\<lambda>(removed, s). ASSERT (x = removed) (Ok s))
             else Remove_loop (fresh s) s x (first s) (next c)) (\<lambda>s.
      rbind (List_IsInList s x) (\<lambda>t. ASSERT (\<not> t) (Ok s))))))"

text \<open>\<open>Apply\<close> is modelled by the sequence of items the function is called on.\<close>

primrec Apply_loop :: "nat \<Rightarrow> 'a LList \<Rightarrow> addr option \<Rightarrow> 'a list result" where
  "Apply_loop 0 s p = (if p = None then Ok [] else Fault Diverges)"
| "Apply_loop (Suc k) s p =
     (if p = None then Ok []
      else rbind (deref s p) (\<lambda>(a, c). rbind (Apply_loop k s (next c)) (\<lambda>xs. Ok (item c # xs))))"

definition List_Apply :: "'a LList \<Rightarrow> 'a list result" where
  "List_Apply s = Apply_loop (fresh s) s (first s)"

text \<open>\<open>SanityCheck\<close>: the walk from \<open>first\<close> reaches \<open>last\<close> after \<open>numInList\<close> cells.\<close>

primrec Sanity_loop :: "nat \<Rightarrow> 'a LList \<Rightarrow> int \<Rightarrow> addr option \<Rightarrow> int result" where
  "Sanity_loop 0 s numFound p = (if p = last s then Ok numFound else Fault Diverges)"
| "Sanity_loop (Suc k) s numFound p =
     (if p = last s then Ok numFound
      else ASSERT (numFound + 1 \<le> numInList s)
             (rbind (deref s p) (\<lambda>(a, c). Sanity_loop k s (numFound + 1) (next c))))"

definition List_SanityCheck :: "'a LList \<Rightarrow> unit result" where
  "List_SanityCheck s =
     (if first s = None then ASSERT (numInList s = 0 \<and> last s = None) (Ok ())
      else if first s = last s
      then rbind (deref s (last s)) (\<lambda>(a, c). ASSERT (numInList s = 1 \<and> next c = None) (Ok ()))
      else rbind (Sanity_loop (fresh s) s 1 (first s)) (\<lambda>numFound.
           ASSERT (numFound = numInList s)
           (rbind (deref s (last s)) (\<lambda>(a, c). ASSERT (next c = None) (Ok ())))))"

section \<open>SortedList<T>\<close>

text \<open>The loop of \<open>Insert\<close>: \<open>ptr\<close> is the cell whose successor is compared with the item.\<close>

primrec Insert_loop :: "('a \<Rightarrow> 'a \<Rightarrow> int) \<Rightarrow> nat \<Rightarrow> 'a \<Rightarrow> addr \<Rightarrow> 'a LList \<Rightarrow> addr option
    \<Rightarrow> 'a LList option result" where
  "Insert_loop compare 0 x element s ptr = Fault Diverges"
| "Insert_loop compare (Suc k) x element s ptr =
     rbind (deref s ptr) (\<lambda>(a, c).
     if next c = None then Ok None
     else rbind (deref s (next c)) (\<lambda>(a', c').
       if compare x (item c') < 0
       then rbind (set_next (Some element) (next c) s) (\<lambda>s.
            rbind (set_next ptr (Some element) s) (\<lambda>s.
            Ok (Some (s\<lparr>numInList := numInList s + 1\<rparr>))))
       else Insert_loop compare k x element s (next c)))"

definition SortedList_Insert :: "('a \<Rightarrow> 'a \<Rightarrow> int) \<Rightarrow> 'a LList \<Rightarrow> 'a \<Rightarrow> 'a LList result" where
  "SortedList_Insert compare s x =
     (let (element, s) = ListElement_new x s;
          finish = (\<lambda>s. let s = s\<lparr>numInList := numInList s + 1\<rparr> in
                        rbind (List_IsInList s x) (\<lambda>t. ASSERT t (Ok s)))
      in
      rbind (List_IsInList s x) (\<lambda>t. ASSERT (\<not> t)
     (if List_IsEmpty s then finish (s\<lparr>first := Some element, last := Some element\<rparr>)
      else rbind (deref s (first s)) (\<lambda>(f, c).
        if compare x (item c) < 0
        then rbind (set_next (Some element) (first s) s) (\<lambda>s. finish (s\<lparr>first := Some element\<rparr>))
        else rbind (Insert_loop compare (fresh s) x element s (first s)) (\<lambda>r.
             case r of Some s' \<Rightarrow> Ok s'
             | None \<Rightarrow> rbind (set_next (last s) (Some element) s) (\<lambda>s.
                       finish (s\<lparr>last := Some element\<rparr>)))))))"

primrec Sorted_loop :: "('a \<Rightarrow> 'a \<Rightarrow> int) \<Rightarrow> nat \<Rightarrow> 'a LList \<Rightarrow> 'a \<Rightarrow> addr option \<Rightarrow> unit result" where
  "Sorted_loop compare 0 s prev p = (if p = None then Ok () else Fault Diverges)"
| "Sorted_loop compare (Suc k) s prev p =
     (if p = None then Ok ()
      else rbind (deref s p) (\<lambda>(a, c).
           ASSERT (compare prev (item c) \<le> 0) (Sorted_loop compare k s (item c) (next c))))"

definition SortedList_SanityCheck :: "('a \<Rightarrow> 'a \<Rightarrow> int) \<Rightarrow> 'a LList \<Rightarrow> unit result" where
  "SortedList_SanityCheck compare s =
     rbind (List_SanityCheck s) (\<lambda>_.
     if first s \<noteq> last s
     then rbind (deref s (first s)) (\<lambda>(a, c). Sorted_loop compare (fresh s) s (item c) (next c))
     else Ok ())"

section \<open>Abstraction: the items of a list object\<close>

primrec path :: "(addr \<Rightarrow> 'a ListElement option) \<Rightarrow> addr option \<Rightarrow> addr list \<Rightarrow> addr option \<Rightarrow> bool"
where
  "path h p [] q \<longleftrightarrow> p = q"
| "path h p (a # as) q \<longleftrightarrow> p = Some a \<and> (\<exists>c. h a = Some c \<and> path h (next c) as q)"

definition items :: "'a LList \<Rightarrow> addr list \<Rightarrow> 'a list" where
  "items s as = map (\<lambda>a. item (the (cells s a))) as"

definition shape :: "'a LList \<Rightarrow> addr list \<Rightarrow> bool" where
  "shape s as \<longleftrightarrow>
     path (cells s) (first s) as None \<and> distinct as \<and> (\<forall>a\<in>set as. a < fresh s)
     \<and> last s = (if as = [] then None else Some (List.last as)) \<and> numInList s = int (length as)"

definition represents :: "'a LList \<Rightarrow> 'a list \<Rightarrow> bool" where
  "represents s xs \<longleftrightarrow> (\<exists>as. shape s as \<and> items s as = xs)"

lemma path_upd [simp]: "a \<notin> set as \<Longrightarrow> path (h(a := v)) p as q = path h p as q"
  by (induction as arbitrary: p) auto

lemma path_append: "path h p (as @ bs) q \<longleftrightarrow> (\<exists>r. path h p as r \<and> path h r bs q)"
  by (induction as arbitrary: p) auto

lemma path_alloc: "path h p as q \<Longrightarrow> a \<in> set as \<Longrightarrow> \<exists>c. h a = Some c"
  by (induction as arbitrary: p) auto

lemma path_snoc:
  "path h p (as @ [a]) q \<longleftrightarrow> path h p as (Some a) \<and> (\<exists>c. h a = Some c \<and> next c = q)"
  by (auto simp: path_append)

lemma items_simps [simp]:
  "items s [] = []" "items s (a # as) = item (the (cells s a)) # items s as"
  "items s (as @ bs) = items s as @ items s bs" "length (items s as) = length as"
  by (simp_all add: items_def)

lemma items_cong: "(\<And>a. a \<in> set as \<Longrightarrow> cells s a = cells t a) \<Longrightarrow> items s as = items t as"
  by (simp add: items_def)

lemma items_upd [simp]:
  "a \<notin> set as \<Longrightarrow> items (s\<lparr>cells := h(a := v)\<rparr>) as = items (s\<lparr>cells := h\<rparr>) as"
  by (auto simp: items_def)

lemma items_fields [simp]:
  "items (s\<lparr>first := p\<rparr>) as = items s as" "items (s\<lparr>last := p\<rparr>) as = items s as"
  "items (s\<lparr>numInList := n\<rparr>) as = items s as" "items (s\<lparr>fresh := k\<rparr>) as = items s as"
  by (simp_all add: items_def)

text \<open>The walks have enough steps: a list has at most as many cells as addresses were used.\<close>

lemma shape_length: "shape s as \<Longrightarrow> length as \<le> fresh s"
proof -
  assume "shape s as"
  then have "set as \<subseteq> {..<fresh s}" "distinct as" by (auto simp: shape_def)
  then show ?thesis by (metis card_lessThan card_mono distinct_card finite_lessThan)
qed

lemma deref_Some: "cells s a = Some c \<Longrightarrow> deref s (Some a) = Ok (a, c)"
  by (simp add: deref_def)

lemma set_next_Some:
  "cells s a = Some c \<Longrightarrow> set_next (Some a) q s = Ok (s\<lparr>cells := (cells s)(a \<mapsto> c\<lparr>next := q\<rparr>)\<rparr>)"
  by (simp add: set_next_def deref_Some)

lemma IsIn_loop_path:
  "path (cells s) p as None \<Longrightarrow> length as \<le> k \<Longrightarrow> IsIn_loop k s x p = Ok (x \<in> set (items s as))"
proof (induction as arbitrary: p k)
  case Nil
  then show ?case by (cases k) auto
next
  case (Cons a as)
  then show ?case by (cases k) (auto simp: deref_Some)
qed

lemma IsInList_shape: "shape s as \<Longrightarrow> List_IsInList s x = Ok (x \<in> set (items s as))"
  unfolding List_IsInList_def by (rule IsIn_loop_path) (auto simp: shape_def shape_length)

lemma IsEmpty_shape: "shape s as \<Longrightarrow> List_IsEmpty s = (as = [])"
  by (auto simp: List_IsEmpty_def shape_def)

lemma shape_new: "shape List_new []"
  by (simp add: shape_def List_new_def)

text \<open>Allocating a cell leaves the list as it is.\<close>

definition alloc :: "'a \<Rightarrow> 'a LList \<Rightarrow> 'a LList" where
  "alloc x s = s\<lparr>cells := (cells s)(fresh s \<mapsto> \<lparr>item = x, next = None\<rparr>), fresh := Suc (fresh s)\<rparr>"

lemma ListElement_new_alloc: "ListElement_new x s = (fresh s, alloc x s)"
  by (simp add: ListElement_new_def alloc_def)

lemma alloc_cell [simp]:
  "cells (alloc x s) (fresh s) = Some \<lparr>item = x, next = None\<rparr>" "fresh (alloc x s) = Suc (fresh s)"
  "first (alloc x s) = first s" "last (alloc x s) = last s" "numInList (alloc x s) = numInList s"
  by (simp_all add: alloc_def)

lemma shape_alloc:
  assumes "shape s as"
  shows "shape (alloc x s) as" "items (alloc x s) as = items s as" "fresh s \<notin> set as"
proof -
  show f: "fresh s \<notin> set as" using assms by (auto simp: shape_def)
  with assms show "shape (alloc x s) as" "items (alloc x s) as = items s as"
    by (auto simp: shape_def alloc_def items_def less_Suc_eq)
qed

section \<open>Append, Prepend, RemoveFront\<close>

lemma Append_shape:
  assumes "shape s as" "x \<notin> set (items s as)"
  shows "\<exists>s'. List_Append s x = Ok s' \<and> shape s' (as @ [fresh s])
    \<and> items s' (as @ [fresh s]) = items s as @ [x]"
proof -
  let ?e = "fresh s" and ?s = "alloc x s"
  note al = shape_alloc(1,2) [OF assms(1), of x] shape_alloc(3) [OF assms(1)]
  have fin: "List_Append s x = Ok (t\<lparr>numInList := numInList t + 1\<rparr>)
      \<and> shape (t\<lparr>numInList := numInList t + 1\<rparr>) (as @ [?e])
      \<and> items (t\<lparr>numInList := numInList t + 1\<rparr>) (as @ [?e]) = items s as @ [x]"
    if step: "(if List_IsEmpty ?s then Ok (?s\<lparr>first := Some ?e, last := Some ?e\<rparr>)
        else rbind (set_next (last ?s) (Some ?e) ?s) (\<lambda>s. Ok (s\<lparr>last := Some ?e\<rparr>))) = Ok t"
      and t: "shape (t\<lparr>numInList := numInList t + 1\<rparr>) (as @ [?e])"
        "items t (as @ [?e]) = items s as @ [x]" for t
    using step t assms(2) IsInList_shape [OF al(1), of x] IsInList_shape [OF t(1), of x] al(2)
    by (simp add: List_Append_def ListElement_new_alloc Let_def)
  show ?thesis
  proof (cases as rule: rev_cases)
    case Nil
    have "shape (?s\<lparr>first := Some ?e, last := Some ?e, numInList := numInList ?s + 1\<rparr>) (as @ [?e])"
      using assms(1) Nil by (auto simp: shape_def)
    moreover have "items (?s\<lparr>first := Some ?e, last := Some ?e\<rparr>) (as @ [?e]) = items s as @ [x]"
      using Nil by (simp add: items_def)
    ultimately show ?thesis
      using fin [of "?s\<lparr>first := Some ?e, last := Some ?e\<rparr>"] IsEmpty_shape [OF al(1)] Nil by auto
  next
    case (snoc bs l)
    then obtain c where c: "cells ?s l = Some c" "next c = None" "path (cells ?s) (first s) bs (Some l)"
      using al(1) by (auto simp: shape_def path_snoc)
    have lst: "last s = Some l" and ne: "l \<noteq> ?e" "l \<notin> set bs" "?e \<notin> set bs"
      using assms(1) snoc al(3) by (auto simp: shape_def)
    let ?t = "?s\<lparr>cells := (cells ?s)(l \<mapsto> c\<lparr>next := Some ?e\<rparr>), last := Some ?e\<rparr>"
    have "shape (?t\<lparr>numInList := numInList ?t + 1\<rparr>) (as @ [?e])"
      using al(1) snoc c ne by (auto simp: shape_def path_append)
    moreover have "items ?t (as @ [?e]) = items s as @ [x]"
      using al(2) snoc c ne by (auto simp: items_def)
    ultimately show ?thesis
      using fin [of ?t] IsEmpty_shape [OF al(1)] snoc lst set_next_Some [OF c(1), of "Some ?e"] by auto
  qed
qed

lemma Prepend_shape:
  assumes "shape s as" "x \<notin> set (items s as)"
  shows "\<exists>s'. List_Prepend s x = Ok s' \<and> shape s' (fresh s # as)
    \<and> items s' (fresh s # as) = x # items s as"
proof -
  let ?e = "fresh s" and ?s = "alloc x s"
  note al = shape_alloc(1,2) [OF assms(1), of x] shape_alloc(3) [OF assms(1)]
  define t where "t = (if as = [] then ?s\<lparr>first := Some ?e, last := Some ?e\<rparr>
    else ?s\<lparr>cells := (cells ?s)(?e \<mapsto> \<lparr>item = x, next = first s\<rparr>), first := Some ?e\<rparr>)"
  let ?t = "t\<lparr>numInList := numInList t + 1\<rparr>"
  have sh: "shape ?t (?e # as)" and it: "items ?t (?e # as) = x # items s as"
    using al assms(1) by (auto simp: t_def shape_def items_def)
  have "List_Prepend s x = Ok ?t"
    using al assms(2) IsInList_shape [OF al(1), of x] IsInList_shape [OF sh, of x] it
      IsEmpty_shape [OF al(1)] set_next_Some [of ?s ?e _ "first s"]
    by (auto simp: List_Prepend_def ListElement_new_alloc Let_def t_def)
  with sh it show ?thesis by blast
qed

lemma RemoveFront_shape:
  assumes "shape s (a # as)"
  shows "\<exists>s'. List_RemoveFront s = Ok (item (the (cells s a)), s') \<and> shape s' as
    \<and> items s' as = items s as"
proof -
  obtain c where c: "cells s a = Some c" "first s = Some a" "path (cells s) (next c) as None"
      "a \<notin> set as"
    using assms by (auto simp: shape_def)
  let ?t = "if first s = last s then s\<lparr>first := None, last := None\<rparr> else s\<lparr>first := next c\<rparr>"
  let ?u = "delete_cell a (?t\<lparr>numInList := numInList s - 1\<rparr>)"
  have one: "first s = last s \<longleftrightarrow> as = []"
    using assms c by (auto simp: shape_def)
  have "shape ?u as" "items ?u as = items s as"
    using assms c one by (auto simp: shape_def delete_cell_def items_def)
  moreover have "List_RemoveFront s = Ok (item (the (cells s a)), ?u)"
    using c assms IsEmpty_shape [OF assms]
    by (simp add: List_RemoveFront_def deref_Some Let_def)
  ultimately show ?thesis by blast
qed

section \<open>Remove\<close>

lemma Remove_loop_shape:
  assumes "shape s (pre @ q # us @ v # ws)" "x \<notin> set (items s us)" "item (the (cells s v)) = x"
    "length us < k" "cells s q = Some cq"
  shows "\<exists>s'. Remove_loop k s x (Some q) (next cq) = Ok s' \<and> shape s' (pre @ q # us @ ws)
    \<and> items s' (pre @ q # us @ ws) = items s (pre @ q # us @ ws)"
  using assms
proof (induction us arbitrary: pre q cq k)
  case Nil
  then obtain k' where k: "k = Suc k'" by (cases k) auto
  obtain cv where cv: "next cq = Some v" "cells s v = Some cv" "path (cells s) (next cv) ws None"
    using Nil by (auto simp: shape_def path_append)
  have ne: "q \<noteq> v" "v \<notin> set ws" "v \<notin> set pre" "q \<notin> set ws" "q \<notin> set pre"
    using Nil by (auto simp: shape_def)
  define s1 where "s1 = s\<lparr>cells := (cells s)(q \<mapsto> cq\<lparr>next := next cv\<rparr>)\<rparr>"
  define s2 where "s2 = delete_cell v (if next cv = None then s1\<lparr>last := Some q\<rparr> else s1)"
  let ?t = "s2\<lparr>numInList := numInList s2 - 1\<rparr>"
  have "Remove_loop k s x (Some q) (next cq) = Ok ?t"
    using Nil cv by (simp add: k deref_Some set_next_Some Let_def s1_def s2_def)
  moreover have "shape ?t (pre @ q # ws)"
    using Nil cv ne by (cases ws) (auto simp: shape_def path_append s1_def s2_def delete_cell_def)
  moreover have "items ?t (pre @ q # ws) = items s (pre @ q # ws)"
    using Nil ne by (auto simp: items_def s1_def s2_def delete_cell_def)
  ultimately show ?case by simp
next
  case (Cons u us)
  then obtain k' where k: "k = Suc k'" by (cases k) auto
  obtain cu where cu: "next cq = Some u" "cells s u = Some cu"
    using Cons.prems by (auto simp: shape_def path_append)
  have "\<exists>s'. Remove_loop k' s x (Some u) (next cu) = Ok s' \<and> shape s' ((pre @ [q]) @ u # us @ ws)
    \<and> items s' ((pre @ [q]) @ u # us @ ws) = items s ((pre @ [q]) @ u # us @ ws)"
    by (rule Cons.IH) (use Cons.prems cu k in auto)
  with Cons.prems cu k show ?case by (simp add: deref_Some)
qed

lemma items_split:
  assumes "items s as = xs @ y # ys"
  obtains us v ws where "as = us @ v # ws" "items s us = xs" "item (the (cells s v)) = y"
    "items s ws = ys"
proof -
  let ?n = "length xs"
  have l: "length as = ?n + Suc (length ys)"
    using arg_cong [OF assms, of length] by simp
  then have as: "as = take ?n as @ as ! ?n # drop (Suc ?n) as"
    by (simp add: id_take_nth_drop)
  then have "items s (take ?n as) @ item (the (cells s (as ! ?n))) # items s (drop (Suc ?n) as)
      = xs @ y # ys"
    using assms items_simps(2,3) by metis
  moreover have "length (items s (take ?n as)) = ?n" using l by simp
  ultimately show ?thesis using as by (intro that [OF as]) auto
qed

lemma Remove_shape:
  assumes "shape s as" "distinct (items s as)" "x \<in> set (items s as)"
  shows "\<exists>s' as'. List_Remove s x = Ok s' \<and> shape s' as' \<and> items s' as' = remove1 x (items s as)"
proof -
  obtain a bs where as: "as = a # bs" using assms(3) by (cases as) auto
  obtain c where c: "cells s a = Some c" "first s = Some a"
    using assms(1) as by (auto simp: shape_def)
  have fin: "List_Remove s x = Ok t"
    if "(if x = item c then rbind (List_RemoveFront s) (\<lambda>(removed, s). ASSERT (x = removed) (Ok s))
         else Remove_loop (fresh s) s x (first s) (next c)) = Ok t"
      and "shape t as'" "items t as' = remove1 x (items s as)" for t as'
    using that assms c IsInList_shape [OF assms(1), of x] IsInList_shape [OF that(2), of x]
    by (simp add: List_Remove_def deref_Some)
  show ?thesis
  proof (cases "x = item c")
    case True
    then obtain t where "List_RemoveFront s = Ok (x, t)" "shape t bs" "items t bs = items s bs"
      using RemoveFront_shape [of s a bs] assms(1) as c by auto
    with True c show ?thesis using fin [of t bs] as by auto
  next
    case False
    then have "x \<in> set (items s bs)" using assms(3) as c by auto
    then obtain xs ys where "items s bs = xs @ x # ys" "x \<notin> set xs"
      by (metis split_list_first)
    then obtain us v ws where sp: "bs = us @ v # ws" "x \<notin> set (items s us)"
        "item (the (cells s v)) = x" "items s us = xs" "items s ws = ys"
      by (metis items_split)
    have len: "length us < fresh s" using shape_length [OF assms(1)] as sp by simp
    obtain t where t: "Remove_loop (fresh s) s x (Some a) (next c) = Ok t" "shape t (a # us @ ws)"
        "items t (a # us @ ws) = items s (a # us @ ws)"
      using Remove_loop_shape [of s "[]" a us v ws x "fresh s" c] assms(1) as sp c len by auto
    have "items t (a # us @ ws) = remove1 x (items s as)"
      using t(3) sp False as c by (simp add: remove1_append)
    then show ?thesis using fin [OF _ t(2)] t False c by auto
  qed
qed

section \<open>Sorted insertion\<close>

text \<open>Insertion behind every item that the new one is not smaller than.\<close>

primrec sl_insert :: "('a \<Rightarrow> 'a \<Rightarrow> int) \<Rightarrow> 'a \<Rightarrow> 'a list \<Rightarrow> 'a list" where
  "sl_insert cmp x [] = [x]"
| "sl_insert cmp x (y # ys) = (if cmp x y < 0 then x # y # ys else y # sl_insert cmp x ys)"

lemma sl_insert_behind: "\<forall>y\<in>set ys. \<not> cmp x y < 0 \<Longrightarrow> sl_insert cmp x ys = ys @ [x]"
  by (induction ys) auto

lemma sl_insert_split:
  "\<forall>y\<in>set us. \<not> cmp x y < 0 \<Longrightarrow> cmp x v < 0 \<Longrightarrow> sl_insert cmp x (us @ v # ws) = us @ x # v # ws"
  by (induction us) auto

lemma Insert_loop_end:
  assumes "path (cells s) (Some q) (q # post) None" "\<forall>y\<in>set (items s post). \<not> cmp x y < 0"
    "length post < k"
  shows "Insert_loop cmp k x e s (Some q) = Ok None"
  using assms
proof (induction post arbitrary: q k)
  case Nil
  then show ?case by (cases k) (auto simp: deref_Some)
next
  case (Cons v post)
  then obtain k' where "k = Suc k'" by (cases k) auto
  with Cons show ?case by (auto simp: deref_Some)
qed

lemma Insert_loop_middle:
  assumes "shape s (pre @ q # us @ v # ws)" "\<forall>y\<in>set (items s us). \<not> cmp x y < 0"
    "cmp x (item (the (cells s v))) < 0" "length us < k"
    and e: "cells s e = Some \<lparr>item = x, next = None\<rparr>" "e \<notin> set (pre @ q # us @ v # ws)" "e < fresh s"
  shows "\<exists>s'. Insert_loop cmp k x e s (Some q) = Ok (Some s')
    \<and> shape s' (pre @ q # us @ e # v # ws)
    \<and> items s' (pre @ q # us @ e # v # ws) = items s (pre @ q # us) @ x # items s (v # ws)"
  using assms(1-4) e(2)
proof (induction us arbitrary: pre q k)
  case Nil
  then obtain k' where k: "k = Suc k'" by (cases k) auto
  obtain cq cv where c: "cells s q = Some cq" "next cq = Some v" "cells s v = Some cv"
      "path (cells s) (first s) pre (Some q)" "path (cells s) (next cv) ws None"
    using Nil.prems by (auto simp: shape_def path_append)
  define s1 where "s1 = s\<lparr>cells := (cells s)(e \<mapsto> \<lparr>item = x, next = Some v\<rparr>)\<rparr>"
  define s2 where "s2 = s1\<lparr>cells := (cells s1)(q \<mapsto> cq\<lparr>next := Some e\<rparr>)\<rparr>"
  let ?t = "s2\<lparr>numInList := numInList s2 + 1\<rparr>"
  have "Insert_loop cmp k x e s (Some q) = Ok (Some ?t)"
    using Nil.prems c e by (simp add: k deref_Some set_next_Some s1_def s2_def)
  moreover have "shape ?t (pre @ q # e # v # ws)"
    using Nil.prems c e by (auto simp: shape_def path_append s1_def s2_def)
  moreover have "items ?t (pre @ q # e # v # ws) = items s (pre @ [q]) @ x # items s (v # ws)"
    using Nil.prems c by (auto simp: items_def s1_def s2_def shape_def)
  ultimately show ?case by simp
next
  case (Cons u us)
  then obtain k' where k: "k = Suc k'" by (cases k) auto
  obtain cq cu where c: "cells s q = Some cq" "next cq = Some u" "cells s u = Some cu"
    using Cons.prems by (auto simp: shape_def path_append)
  have "\<exists>s'. Insert_loop cmp k' x e s (Some u) = Ok (Some s')
    \<and> shape s' ((pre @ [q]) @ u # us @ e # v # ws)
    \<and> items s' ((pre @ [q]) @ u # us @ e # v # ws)
        = items s ((pre @ [q]) @ u # us) @ x # items s (v # ws)"
    by (rule Cons.IH) (use Cons.prems k in auto)
  with Cons.prems c k show ?case by (simp add: deref_Some)
qed

lemma Insert_finish:
  assumes "shape (t\<lparr>numInList := numInList t + 1\<rparr>) as'" "x \<in> set (items t as')"
  shows "(let s = t\<lparr>numInList := numInList t + 1\<rparr> in
           rbind (List_IsInList s x) (\<lambda>t. ASSERT t (Ok s))) = Ok (t\<lparr>numInList := numInList t + 1\<rparr>)"
  using IsInList_shape [OF assms(1), of x] assms(2) by (simp add: Let_def)

lemma Insert_shape:
  assumes "shape s as" "x \<notin> set (items s as)"
  shows "\<exists>s' as'. SortedList_Insert cmp s x = Ok s' \<and> shape s' as'
    \<and> items s' as' = sl_insert cmp x (items s as)"
proof (cases as)
  case Nil
  let ?e = "fresh s" and ?s = "alloc x s"
  let ?t = "?s\<lparr>first := Some ?e, last := Some ?e\<rparr>"
  note al = shape_alloc(1,2) [OF assms(1), of x]
  have "shape (?t\<lparr>numInList := numInList ?t + 1\<rparr>) [?e]" "items ?t [?e] = [x]"
    using assms(1) Nil by (auto simp: shape_def items_def)
  with Insert_finish [of ?t "[?e]" x] show ?thesis
    using IsInList_shape [OF al(1), of x] IsEmpty_shape [OF al(1)] al(2) Nil
    by (auto simp: SortedList_Insert_def ListElement_new_alloc)
next
  case (Cons a bs)
  let ?e = "fresh s" and ?s = "alloc x s"
  note al = shape_alloc(1,2) [OF assms(1), of x] and e_new = shape_alloc(3) [OF assms(1)]
  obtain c where c: "cells ?s a = Some c" "first s = Some a" "item c = item (the (cells s a))"
    using al(1) Cons e_new by (auto simp: shape_def alloc_def)
  have pre: "List_IsInList ?s x = Ok False" "\<not> List_IsEmpty ?s"
    using IsInList_shape [OF al(1), of x] IsEmpty_shape [OF al(1)] al(2) assms(2) Cons by auto
  show ?thesis
  proof (cases "cmp x (item c) < 0")
    case True
    let ?t = "?s\<lparr>cells := (cells ?s)(?e \<mapsto> \<lparr>item = x, next = first s\<rparr>), first := Some ?e\<rparr>"
    have "shape (?t\<lparr>numInList := numInList ?t + 1\<rparr>) (?e # as)" "items ?t (?e # as) = x # items s as"
      using al e_new Cons by (auto simp: shape_def items_def)
    with Insert_finish [of ?t "?e # as" x] show ?thesis
      using pre True c Cons set_next_Some [of ?s ?e _ "first s"]
      by (auto simp: SortedList_Insert_def ListElement_new_alloc deref_Some)
  next
    case notfirst: False
    show ?thesis
    proof (cases "\<forall>y\<in>set (items s bs). \<not> cmp x y < 0")
      case True
      have lp: "Insert_loop cmp (Suc (fresh s)) x ?e ?s (Some a) = Ok None"
        by (rule Insert_loop_end [of ?s a bs])
           (use al Cons True c shape_length [OF assms(1)] in \<open>auto simp: shape_def\<close>)
      obtain ds l where ds: "as = ds @ [l]" using Cons by (metis list.distinct(1) rev_exhaust)
      then obtain cl where cl: "cells ?s l = Some cl" "next cl = None" "last s = Some l"
          "path (cells ?s) (first s) ds (Some l)"
        using al(1) by (auto simp: shape_def path_snoc)
      let ?t = "?s\<lparr>cells := (cells ?s)(l \<mapsto> cl\<lparr>next := Some ?e\<rparr>), last := Some ?e\<rparr>"
      have t: "shape (?t\<lparr>numInList := numInList ?t + 1\<rparr>) (as @ [?e])"
        using al(1) ds cl e_new by (auto simp: shape_def path_append)
      moreover have "items ?t (as @ [?e]) = items s as @ [x]"
        using al(2) ds cl e_new al(1) by (auto simp: items_def shape_def)
      ultimately show ?thesis
        using Insert_finish [of ?t "as @ [?e]" x] pre notfirst c cl lp Cons True
          set_next_Some [OF cl(1), of "Some ?e"]
        by (intro exI [of _ "?t\<lparr>numInList := numInList ?t + 1\<rparr>"] exI [of _ "as @ [?e]"])
           (simp add: SortedList_Insert_def ListElement_new_alloc deref_Some sl_insert_behind)
    next
      case False
      then obtain xs y ys where sp: "items s bs = xs @ y # ys" "\<forall>z\<in>set xs. \<not> cmp x z < 0" "cmp x y < 0"
        using split_list_first_prop [of "items s bs" "\<lambda>y. cmp x y < 0"] by auto
      then have "items ?s bs = xs @ y # ys" using al(2) Cons by simp
      then obtain us v ws where bs: "bs = us @ v # ws" "items ?s us = xs"
          "item (the (cells ?s v)) = y" "items ?s ws = ys"
        by (rule items_split)
      have "\<exists>s'. Insert_loop cmp (Suc (fresh s)) x ?e ?s (Some a) = Ok (Some s')
        \<and> shape s' ([] @ a # us @ ?e # v # ws)
        \<and> items s' ([] @ a # us @ ?e # v # ws) = items ?s ([] @ a # us) @ x # items ?s (v # ws)"
        by (rule Insert_loop_middle)
           (use al(1) Cons bs sp e_new shape_length [OF assms(1)] in auto)
      then obtain s' where s': "Insert_loop cmp (Suc (fresh s)) x ?e ?s (Some a) = Ok (Some s')"
        "shape s' (a # us @ ?e # v # ws)"
        "items s' (a # us @ ?e # v # ws) = item c # xs @ x # y # ys"
        using bs c by auto
      moreover have "sl_insert cmp x (items s as) = item c # xs @ x # y # ys"
        using Cons sp notfirst c by (simp add: sl_insert_split)
      ultimately show ?thesis
        using pre notfirst c by (auto simp: SortedList_Insert_def ListElement_new_alloc deref_Some)
    qed
  qed
qed

section \<open>Apply and the sanity checks\<close>

lemma Apply_loop_path:
  "path (cells s) p as None \<Longrightarrow> length as \<le> k \<Longrightarrow> Apply_loop k s p = Ok (items s as)"
proof (induction as arbitrary: p k)
  case Nil
  then show ?case by (cases k) auto
next
  case (Cons a as)
  then show ?case by (cases k) (auto simp: deref_Some)
qed

lemma Apply_shape: "shape s as \<Longrightarrow> List_Apply s = Ok (items s as)"
  unfolding List_Apply_def by (rule Apply_loop_path) (auto simp: shape_def shape_length)

lemma Sanity_loop_path:
  assumes "path (cells s) p (as @ [l]) None" "distinct (as @ [l])" "last s = Some l"
    "n + int (length as) \<le> numInList s" "length as \<le> k"
  shows "Sanity_loop k s n p = Ok (n + int (length as))"
  using assms
proof (induction as arbitrary: p n k)
  case Nil
  then show ?case by (cases k) auto
next
  case (Cons a as)
  then obtain k' where "k = Suc k'" by (cases k) auto
  with Cons show ?case by (auto simp: deref_Some)
qed

lemma SanityCheck_shape:
  assumes "shape s as"
  shows "List_SanityCheck s = Ok ()"
proof (cases as rule: rev_cases)
  case Nil
  with assms show ?thesis by (auto simp: List_SanityCheck_def shape_def)
next
  case (snoc bs l)
  then obtain c where c: "cells s l = Some c" "next c = None" "last s = Some l"
      "path (cells s) (first s) bs (Some l)" "distinct (bs @ [l])" "numInList s = 1 + int (length bs)"
    using assms by (auto simp: shape_def path_snoc)
  have ne: "first s \<noteq> None" using assms snoc by (cases bs) (auto simp: shape_def)
  show ?thesis
  proof (cases "first s = last s")
    case True
    then have "bs = []" using c by (cases bs) auto
    with True c show ?thesis by (simp add: List_SanityCheck_def deref_Some)
  next
    case False
    have "Sanity_loop (fresh s) s 1 (first s) = Ok (1 + int (length bs))"
      by (rule Sanity_loop_path)
         (use assms snoc c shape_length [OF assms] in \<open>auto simp: shape_def\<close>)
    with False ne c show ?thesis by (simp add: List_SanityCheck_def deref_Some)
  qed
qed

text \<open>What \<open>SortedList::SanityCheck\<close> tests: neighbours are in order.\<close>

fun in_order :: "('a \<Rightarrow> 'a \<Rightarrow> int) \<Rightarrow> 'a list \<Rightarrow> bool" where
  "in_order cmp (x # y # zs) \<longleftrightarrow> cmp x y \<le> 0 \<and> in_order cmp (y # zs)"
| "in_order cmp _ \<longleftrightarrow> True"

lemma Sorted_loop_path:
  assumes "path (cells s) p as None" "length as \<le> k"
  shows "Sorted_loop cmp k s prev p
    = (if in_order cmp (prev # items s as) then Ok () else Fault AssertFailed)"
  using assms
proof (induction as arbitrary: p k prev)
  case Nil
  then show ?case by (cases k) auto
next
  case (Cons a as)
  then show ?case by (cases k) (auto simp: deref_Some ASSERT_def)
qed

lemma Sorted_SanityCheck_shape:
  assumes "shape s as"
  shows "SortedList_SanityCheck cmp s
    = (if in_order cmp (items s as) then Ok () else Fault AssertFailed)"
proof (cases as)
  case Nil
  with assms SanityCheck_shape [OF assms] show ?thesis
    by (auto simp: SortedList_SanityCheck_def shape_def)
next
  case (Cons a bs)
  then obtain c where c: "cells s a = Some c" "first s = Some a" "path (cells s) (next c) bs None"
    using assms by (auto simp: shape_def)
  have one: "first s = last s \<longleftrightarrow> bs = []" using assms c Cons by (auto simp: shape_def)
  show ?thesis
    using Sorted_loop_path [OF c(3), of "fresh s" cmp "item c"] c one Cons
      SanityCheck_shape [OF assms] shape_length [OF assms]
    by (auto simp: SortedList_SanityCheck_def deref_Some)
qed

section \<open>The operations on represented lists\<close>

lemma represents_new: "represents List_new []"
  unfolding represents_def using shape_new items_simps(1) by blast

lemma IsEmpty_represents: "represents s xs \<Longrightarrow> List_IsEmpty s = (xs = [])"
  by (auto simp: represents_def IsEmpty_shape items_def)

lemma IsInList_represents: "represents s xs \<Longrightarrow> List_IsInList s x = Ok (x \<in> set xs)"
  by (auto simp: represents_def IsInList_shape)

lemma Append_represents:
  assumes "represents s xs"
  shows "x \<notin> set xs \<Longrightarrow> \<exists>s'. List_Append s x = Ok s' \<and> represents s' (xs @ [x])"
    and "x \<in> set xs \<Longrightarrow> List_Append s x = Fault AssertFailed"
proof -
  obtain as where as: "shape s as" "items s as = xs" using assms by (auto simp: represents_def)
  show "\<exists>s'. List_Append s x = Ok s' \<and> represents s' (xs @ [x])" if "x \<notin> set xs"
    using Append_shape [OF as(1)] that as(2) unfolding represents_def by blast
  show "List_Append s x = Fault AssertFailed" if "x \<in> set xs"
    using shape_alloc(1,2) [OF as(1), of x] that as(2)
      IsInList_shape [OF shape_alloc(1) [OF as(1), of x], of x]
    by (simp add: List_Append_def ListElement_new_alloc)
qed

lemma Prepend_represents:
  assumes "represents s xs"
  shows "x \<notin> set xs \<Longrightarrow> \<exists>s'. List_Prepend s x = Ok s' \<and> represents s' (x # xs)"
    and "x \<in> set xs \<Longrightarrow> List_Prepend s x = Fault AssertFailed"
proof -
  obtain as where as: "shape s as" "items s as = xs" using assms by (auto simp: represents_def)
  show "\<exists>s'. List_Prepend s x = Ok s' \<and> represents s' (x # xs)" if "x \<notin> set xs"
    using Prepend_shape [OF as(1)] that as(2) unfolding represents_def by blast
  show "List_Prepend s x = Fault AssertFailed" if "x \<in> set xs"
    using shape_alloc(1,2) [OF as(1), of x] that as(2)
      IsInList_shape [OF shape_alloc(1) [OF as(1), of x], of x]
    by (simp add: List_Prepend_def ListElement_new_alloc)
qed

lemma RemoveFront_represents:
  assumes "represents s xs"
  shows "xs = x # ys \<Longrightarrow> \<exists>s'. List_RemoveFront s = Ok (x, s') \<and> represents s' ys"
    and "xs = [] \<Longrightarrow> List_RemoveFront s = Fault AssertFailed"
proof -
  obtain as where as: "shape s as" "items s as = xs" using assms by (auto simp: represents_def)
  show "\<exists>s'. List_RemoveFront s = Ok (x, s') \<and> represents s' ys" if xs: "xs = x # ys"
  proof -
    obtain a bs where ab: "as = a # bs" "item (the (cells s a)) = x" "items s bs = ys"
      using as(2) xs by (cases as) (auto simp: items_def)
    with as(1) RemoveFront_shape [of s a bs] show ?thesis unfolding represents_def by auto
  qed
  show "List_RemoveFront s = Fault AssertFailed" if "xs = []"
    using IsEmpty_represents [OF assms] that by (simp add: List_RemoveFront_def)
qed

lemma Remove_represents:
  assumes "represents s xs"
  shows "distinct xs \<Longrightarrow> x \<in> set xs \<Longrightarrow> \<exists>s'. List_Remove s x = Ok s' \<and> represents s' (remove1 x xs)"
    and "x \<notin> set xs \<Longrightarrow> List_Remove s x = Fault AssertFailed"
proof -
  obtain as where as: "shape s as" "items s as = xs" using assms by (auto simp: represents_def)
  show "\<exists>s'. List_Remove s x = Ok s' \<and> represents s' (remove1 x xs)" if "distinct xs" "x \<in> set xs"
    using Remove_shape [OF as(1)] that as(2) unfolding represents_def by blast
  show "List_Remove s x = Fault AssertFailed" if "x \<notin> set xs"
    using IsInList_represents [OF assms, of x] that by (simp add: List_Remove_def)
qed

lemma Insert_represents:
  assumes "represents s xs"
  shows "x \<notin> set xs \<Longrightarrow> \<exists>s'. SortedList_Insert cmp s x = Ok s' \<and> represents s' (sl_insert cmp x xs)"
    and "x \<in> set xs \<Longrightarrow> SortedList_Insert cmp s x = Fault AssertFailed"
proof -
  obtain as where as: "shape s as" "items s as = xs" using assms by (auto simp: represents_def)
  show "\<exists>s'. SortedList_Insert cmp s x = Ok s' \<and> represents s' (sl_insert cmp x xs)" if "x \<notin> set xs"
    using Insert_shape [OF as(1)] that as(2) unfolding represents_def by blast
  show "SortedList_Insert cmp s x = Fault AssertFailed" if "x \<in> set xs"
    using shape_alloc(1,2) [OF as(1), of x] that as(2)
      IsInList_shape [OF shape_alloc(1) [OF as(1), of x], of x]
    by (simp add: SortedList_Insert_def ListElement_new_alloc Let_def)
qed

lemma set_sl_insert [simp]: "set (sl_insert cmp x xs) = insert x (set xs)"
  by (induction xs) auto

lemma distinct_sl_insert [simp]: "distinct (sl_insert cmp x xs) \<longleftrightarrow> x \<notin> set xs \<and> distinct xs"
  by (induction xs) auto

lemma length_sl_insert [simp]: "length (sl_insert cmp x xs) = Suc (length xs)"
  by (induction xs) auto

section \<open>The comparison contract\<close>

text \<open>
  \<open>SortedList\<close> asks its client for a comparison function that answers negative, zero or positive.
  What its correctness needs of that function are the laws of a total preorder.
\<close>

locale comparator =
  fixes cmp :: "'a \<Rightarrow> 'a \<Rightarrow> int"
  assumes cmp_total: "\<not> cmp x y < 0 \<Longrightarrow> cmp y x \<le> 0"
    and cmp_less: "cmp x y < 0 \<Longrightarrow> cmp x y \<le> 0"
    and cmp_trans: "cmp x y \<le> 0 \<Longrightarrow> cmp y z \<le> 0 \<Longrightarrow> cmp x z \<le> 0"
begin

lemma in_order_Cons: "in_order cmp (x # xs) \<longleftrightarrow> in_order cmp xs \<and> (\<forall>y\<in>set xs. cmp x y \<le> 0)"
  by (induction xs arbitrary: x) (auto intro: cmp_trans)

lemma in_order_insert: "in_order cmp xs \<Longrightarrow> in_order cmp (sl_insert cmp x xs)"
proof (induction xs)
  case Nil
  then show ?case by simp
next
  case (Cons y ys)
  then show ?case
    by (auto simp: in_order_Cons cmp_total simp del: in_order.simps(1)
        intro: cmp_trans [of x y] order.strict_implies_order)
qed

text \<open>The front of a sorted list is a least item.\<close>

lemma in_order_least: "in_order cmp (x # xs) \<Longrightarrow> y \<in> set xs \<Longrightarrow> cmp x y \<le> 0"
  by (simp add: in_order_Cons)

end

section \<open>The queue contract\<close>

text \<open>
  What clients that only append at the back and remove at the front rely on. \<open>rep q xs\<close> relates
  a queue object to the items it holds, oldest first.
\<close>

locale fifo =
  fixes rep :: "'q \<Rightarrow> 'a list \<Rightarrow> bool"
    and empty_q :: "'q"
    and append_q :: "'q \<Rightarrow> 'a \<Rightarrow> 'q result"
    and remove_q :: "'q \<Rightarrow> ('a \<times> 'q) result"
    and is_empty_q :: "'q \<Rightarrow> bool"
  assumes rep_empty: "rep empty_q []"
    and rep_append: "rep q xs \<Longrightarrow> x \<notin> set xs \<Longrightarrow> \<exists>q'. append_q q x = Ok q' \<and> rep q' (xs @ [x])"
    and rep_remove: "rep q (x # xs) \<Longrightarrow> \<exists>q'. remove_q q = Ok (x, q') \<and> rep q' xs"
    and rep_is_empty: "rep q xs \<Longrightarrow> is_empty_q q = (xs = [])"

primrec append_all :: "('q \<Rightarrow> 'a \<Rightarrow> 'q result) \<Rightarrow> 'q \<Rightarrow> 'a list \<Rightarrow> 'q result" where
  "append_all app q [] = Ok q"
| "append_all app q (x # xs) = rbind (app q x) (\<lambda>q. append_all app q xs)"

primrec remove_many :: "('q \<Rightarrow> ('a \<times> 'q) result) \<Rightarrow> nat \<Rightarrow> 'q \<Rightarrow> ('a list \<times> 'q) result" where
  "remove_many rem 0 q = Ok ([], q)"
| "remove_many rem (Suc n) q =
     rbind (rem q) (\<lambda>(x, q). rbind (remove_many rem n q) (\<lambda>(xs, q). Ok (x # xs, q)))"

context fifo
begin

lemma append_all_rep:
  "rep q ys \<Longrightarrow> distinct xs \<Longrightarrow> set xs \<inter> set ys = {} \<Longrightarrow>
    \<exists>q'. append_all append_q q xs = Ok q' \<and> rep q' (ys @ xs)"
proof (induction xs arbitrary: q ys)
  case Nil
  then show ?case by simp
next
  case (Cons x xs)
  then obtain q1 where q1: "append_q q x = Ok q1" "rep q1 (ys @ [x])"
    using rep_append [of q ys x] by auto
  then have "\<exists>q'. append_all append_q q1 xs = Ok q' \<and> rep q' ((ys @ [x]) @ xs)"
    using Cons.prems by (intro Cons.IH) auto
  with q1 show ?case by simp
qed

lemma remove_many_rep:
  "rep q (xs @ ys) \<Longrightarrow> \<exists>q'. remove_many remove_q (length xs) q = Ok (xs, q') \<and> rep q' ys"
proof (induction xs arbitrary: q)
  case Nil
  then show ?case by simp
next
  case (Cons x xs)
  then obtain q1 where "remove_q q = Ok (x, q1)" "rep q1 (xs @ ys)"
    using rep_remove [of q x "xs @ ys"] by auto
  with Cons.IH [of q1] show ?case by auto
qed

text \<open>First in, first out: what was appended comes out in the same order, leaving nothing.\<close>

lemma first_in_first_out:
  assumes "distinct xs"
  shows "\<exists>q q'. append_all append_q empty_q xs = Ok q
    \<and> remove_many remove_q (length xs) q = Ok (xs, q') \<and> is_empty_q q'"
proof -
  obtain q where q: "append_all append_q empty_q xs = Ok q" "rep q xs"
    using append_all_rep [OF rep_empty, of xs] assms by auto
  then obtain q' where "remove_many remove_q (length xs) q = Ok (xs, q')" "rep q' []"
    using remove_many_rep [of q xs "[]"] by auto
  with q show ?thesis using rep_is_empty by blast
qed

end

interpretation ll: fifo represents List_new List_Append List_RemoveFront List_IsEmpty
  by unfold_locales
     (simp_all add: represents_new Append_represents(1) IsEmpty_represents
        RemoveFront_represents(1) [OF _ refl])

text \<open>
  The same operations on the items themselves. Components whose claims do not depend on the cells
  (the ready list, wait queues, the queue of pending interrupts) use these; the lemmas above say
  that the linked lists implement them.
\<close>

definition L_Append :: "'a list \<Rightarrow> 'a \<Rightarrow> 'a list result" where
  "L_Append xs x = ASSERT (x \<notin> set xs) (Ok (xs @ [x]))"

definition L_RemoveFront :: "'a list \<Rightarrow> ('a \<times> 'a list) result" where
  "L_RemoveFront xs = (case xs of [] \<Rightarrow> Fault AssertFailed | x # ys \<Rightarrow> Ok (x, ys))"

definition L_Insert :: "('a \<Rightarrow> 'a \<Rightarrow> int) \<Rightarrow> 'a list \<Rightarrow> 'a \<Rightarrow> 'a list result" where
  "L_Insert cmp xs x = ASSERT (x \<notin> set xs) (Ok (sl_insert cmp x xs))"

interpretation lst: fifo "(=)" "[]" L_Append L_RemoveFront "\<lambda>xs. xs = []"
  by unfold_locales (auto simp: L_Append_def L_RemoveFront_def)

lemma L_RemoveFront_simps [simp]:
  "L_RemoveFront [] = Fault AssertFailed" "L_RemoveFront (x # xs) = Ok (x, xs)"
  by (simp_all add: L_RemoveFront_def)

section \<open>An instance of the comparison contract (lib/libtest.cc)\<close>

definition IntCompare :: "int \<Rightarrow> int \<Rightarrow> int" where
  "IntCompare x y = (if x < y then -1 else if x = y then 0 else 1)"

interpretation ic: comparator IntCompare
  by unfold_locales (auto simp: IntCompare_def split: if_splits)

section \<open>Properties\<close>

text \<open>C34: The linked list implements the sequence of its items: appending, prepending, removing
  the front and removing an item do to the cells what they do to the sequence, and the only faults
  are the assertions on duplicate items, empty lists and missing items.\<close>

theorem List_refines_sequence:
  assumes "represents s xs"
  shows "List_IsEmpty s = (xs = []) \<and> List_IsInList s x = Ok (x \<in> set xs)
    \<and> (if x \<in> set xs then List_Append s x = Fault AssertFailed
         else \<exists>s'. List_Append s x = Ok s' \<and> represents s' (xs @ [x]))
    \<and> (if x \<in> set xs then List_Prepend s x = Fault AssertFailed
         else \<exists>s'. List_Prepend s x = Ok s' \<and> represents s' (x # xs))
    \<and> (case xs of [] \<Rightarrow> List_RemoveFront s = Fault AssertFailed
         | y # ys \<Rightarrow> \<exists>s'. List_RemoveFront s = Ok (y, s') \<and> represents s' ys)
    \<and> (if x \<notin> set xs then List_Remove s x = Fault AssertFailed
         else distinct xs \<longrightarrow> (\<exists>s'. List_Remove s x = Ok s' \<and> represents s' (remove1 x xs)))"
  using IsEmpty_represents [OF assms] IsInList_represents [OF assms] Append_represents [OF assms]
    Prepend_represents [OF assms] RemoveFront_represents [OF assms] Remove_represents [OF assms]
  by (simp split: list.split)

theorem List_refines_sequence_witness:
  "\<exists>s. List_Append (List_new :: int LList) 7 = Ok s \<and> represents s [7]"
  using List_refines_sequence [OF represents_new, of "7::int"] by auto

text \<open>A list object used as a queue is first in, first out: distinct items appended to a
  new list come out of \<open>RemoveFront\<close> in the order they went in, and leave it empty.\<close>

theorem List_first_in_first_out:
  assumes "distinct xs"
  shows "\<exists>s s'. append_all List_Append List_new xs = Ok s
    \<and> remove_many List_RemoveFront (length xs) s = Ok (xs, s') \<and> List_IsEmpty s'"
  by (rule ll.first_in_first_out [OF assms])

theorem List_first_in_first_out_witness:
  "\<exists>s s'. append_all List_Append List_new [3, 1, 2::int] = Ok s
    \<and> remove_many List_RemoveFront (length [3, 1, 2::int]) s = Ok ([3, 1, 2], s') \<and> List_IsEmpty s'"
  by (rule List_first_in_first_out) simp

text \<open>\<open>SortedList::Insert\<close>, with any comparison function that is a total preorder, puts a new
  item into a sorted list object so that it stays sorted, holds exactly one item more, and passes
  both sanity checks; inserting an item that is there fails the assertion.\<close>

theorem SortedList_Insert_keeps_order:
  assumes "comparator cmp" "represents s xs" "in_order cmp xs"
  shows "if x \<in> set xs then SortedList_Insert cmp s x = Fault AssertFailed
    else \<exists>s' ys. SortedList_Insert cmp s x = Ok s' \<and> represents s' ys \<and> in_order cmp ys
      \<and> set ys = insert x (set xs) \<and> length ys = Suc (length xs)
      \<and> List_SanityCheck s' = Ok () \<and> SortedList_SanityCheck cmp s' = Ok ()"
proof (cases "x \<in> set xs")
  case True
  with Insert_represents(2) [OF assms(2)] show ?thesis by simp
next
  case False
  obtain s' where s': "SortedList_Insert cmp s x = Ok s'" "represents s' (sl_insert cmp x xs)"
    using Insert_represents(1) [OF assms(2) False] by blast
  have o: "in_order cmp (sl_insert cmp x xs)"
    by (rule comparator.in_order_insert [OF assms(1,3)])
  with s'(2) have "List_SanityCheck s' = Ok ()" "SortedList_SanityCheck cmp s' = Ok ()"
    by (auto simp: represents_def SanityCheck_shape Sorted_SanityCheck_shape)
  with s' o False show ?thesis by (auto intro!: exI [of _ s'] exI [of _ "sl_insert cmp x xs"])
qed

theorem SortedList_Insert_keeps_order_witness:
  "\<exists>s. SortedList_Insert IntCompare List_new 4 = Ok s \<and> SortedList_SanityCheck IntCompare s = Ok ()"
  using SortedList_Insert_keeps_order [OF ic.comparator_axioms represents_new, of 4] by auto

end
