(* ===== verification/Machine_Memory.thy ===== *)
theory Machine_Memory
  imports Bitmap
begin

text \<open>
  The simulated workstation as the kernel and user programs see it: registers, physical memory,
  the translation of virtual addresses by a page table or a TLB, and the reads and writes of
  virtual memory (\<^verbatim>\<open>machine/machine.h\<close>, \<^verbatim>\<open>machine/machine.cc\<close>,
  \<^verbatim>\<open>machine/translate.h\<close>, \<^verbatim>\<open>machine/translate.cc\<close>, and \<open>DelayedLoad\<close> of
  \<^verbatim>\<open>machine/mipssim.cc\<close>).

  The C++ \<open>int\<close> and \<open>unsigned\<close> of the machine are 32-bit words. The record \<open>Machine\<close> is
  extensible: the rest of the kernel's global state is its extension, so that a trap can hand the
  whole state to the exception handler. The handler is an argument of every operation that may
  trap. The field \<open>status\<close> is \<^verbatim>\<open>kernel->interrupt->status\<close>. While an address space is
  running, the page table of the machine is the address space's own table, so \<open>pageTable\<close> holds the
  contents of that table. The host is little endian (\<^verbatim>\<open>HOST_IS_BIG_ENDIAN\<close> is not defined).
\<close>

section \<open>Data\<close>

definition PageSize :: int where "PageSize = 128"
definition NumPhysPages :: int where "NumPhysPages = 128"
definition MemorySize :: int where "MemorySize = NumPhysPages * PageSize"
definition TLBSize :: int where "TLBSize = 4"

lemmas memory_consts = PageSize_def NumPhysPages_def MemorySize_def TLBSize_def

datatype ExceptionType =
    NoException
  | SyscallException
  | PageFaultException
  | ReadOnlyException
  | BusErrorException
  | AddressErrorException
  | OverflowException
  | IllegalInstrException
  | NumExceptionTypes

datatype MachineStatus = IdleMode | SystemMode | UserMode

abbreviation (input) StackReg :: nat where "StackReg \<equiv> 29"
abbreviation (input) RetAddrReg :: nat where "RetAddrReg \<equiv> 31"
abbreviation (input) HiReg :: nat where "HiReg \<equiv> 32"
abbreviation (input) LoReg :: nat where "LoReg \<equiv> 33"
abbreviation (input) PCReg :: nat where "PCReg \<equiv> 34"
abbreviation (input) NextPCReg :: nat where "NextPCReg \<equiv> 35"
abbreviation (input) PrevPCReg :: nat where "PrevPCReg \<equiv> 36"
abbreviation (input) LoadReg :: nat where "LoadReg \<equiv> 37"
abbreviation (input) LoadValueReg :: nat where "LoadValueReg \<equiv> 38"
abbreviation (input) BadVAddrReg :: nat where "BadVAddrReg \<equiv> 39"

definition NumTotalRegs :: nat where "NumTotalRegs = 40"

record TranslationEntry =
  virtualPage :: "32 word"
  physicalPage :: "32 word"
  valid :: bool
  readOnly :: bool
  usebit :: bool
  dirty :: bool

record Machine =
  registers :: "32 word list"
  mainMemory :: "8 word list"
  pageTableMap :: bitmap
  tlb :: "TranslationEntry list option"
  pageTable :: "TranslationEntry list option"
  pageTableSize :: "32 word"
  singleStep :: bool
  status :: MachineStatus

type_synonym 'k handler = "ExceptionType \<Rightarrow> 'k Machine_scheme \<Rightarrow> 'k Machine_scheme result"

section \<open>Registers\<close>

definition Machine_new :: "bool \<Rightarrow> Machine result" where
  "Machine_new debug =
     rbind (Bitmap_new NumPhysPages) (\<lambda>free.
     Ok \<lparr>registers = replicate NumTotalRegs 0, mainMemory = replicate (nat MemorySize) 0,
         pageTableMap = free, tlb = None, pageTable = None, pageTableSize = 0,
         singleStep = debug, status = SystemMode\<rparr>)"

definition ReadRegister :: "'k Machine_scheme \<Rightarrow> int \<Rightarrow> 32 word result" where
  "ReadRegister m num =
     ASSERT (0 \<le> num \<and> num < int NumTotalRegs) (arr_get (registers m) num)"

definition WriteRegister :: "'k Machine_scheme \<Rightarrow> int \<Rightarrow> 32 word \<Rightarrow> 'k Machine_scheme result" where
  "WriteRegister m num v =
     ASSERT (0 \<le> num \<and> num < int NumTotalRegs)
       (rbind (arr_set (registers m) num v) (\<lambda>r. Ok (m\<lparr>registers := r\<rparr>)))"

definition DelayedLoad :: "'k Machine_scheme \<Rightarrow> 32 word \<Rightarrow> 32 word \<Rightarrow> 'k Machine_scheme result" where
  "DelayedLoad m nextReg nextValue =
     rbind (arr_set (registers m) (sint (registers m ! LoadReg)) (registers m ! LoadValueReg)) (\<lambda>r.
     Ok (m\<lparr>registers := r[LoadReg := nextReg, LoadValueReg := nextValue, 0 := 0]\<rparr>))"

definition RaiseException ::
  "'k handler \<Rightarrow> 'k Machine_scheme \<Rightarrow> ExceptionType \<Rightarrow> 32 word \<Rightarrow> 'k Machine_scheme result" where
  "RaiseException ExceptionHandler m which badVAddr =
     rbind (DelayedLoad (m\<lparr>registers := (registers m)[BadVAddrReg := badVAddr]\<rparr>) 0 0) (\<lambda>m.
     rbind (ExceptionHandler which (m\<lparr>status := SystemMode\<rparr>)) (\<lambda>m.
     Ok (m\<lparr>status := UserMode\<rparr>)))"

section \<open>Address translation\<close>

text \<open>The search loop over the TLB: the index of the first valid entry for the page.\<close>

function tlb_search :: "TranslationEntry list \<Rightarrow> 32 word \<Rightarrow> int \<Rightarrow> int option result" where
  "tlb_search t vpn i =
     (if i < TLBSize
      then rbind (arr_get t i) (\<lambda>e.
           if valid e \<and> virtualPage e = vpn then Ok (Some i) else tlb_search t vpn (i + 1))
      else Ok None)"
  by pat_completeness auto
termination by (relation "measure (\<lambda>(t, vpn, i). nat (TLBSize - i))") auto

declare tlb_search.simps [simp del]

text \<open>
  \<open>find_entry\<close> is the part of \<open>Translate\<close> that finds the entry for a page: \<open>Inl\<close> an exception
  or \<open>Inr\<close> the entry's index. \<open>finish_entry\<close> is the part behind it, on the entry that was found:
  the protection and frame checks and the physical address.
\<close>

definition find_entry :: "'k Machine_scheme \<Rightarrow> 32 word \<Rightarrow> (ExceptionType + int) result" where
  "find_entry m vpn =
     (case tlb m of
        None \<Rightarrow>
          (case pageTable m of
             None \<Rightarrow> Fault NullDereference
           | Some pt \<Rightarrow>
               if pageTableSize m \<le> vpn then Ok (Inl AddressErrorException)
               else rbind (arr_get pt (uint vpn)) (\<lambda>e.
                 if \<not> valid e then Ok (Inl PageFaultException) else Ok (Inr (uint vpn))))
      | Some t \<Rightarrow>
          rbind (tlb_search t vpn 0) (\<lambda>r.
            case r of None \<Rightarrow> Ok (Inl PageFaultException) | Some i \<Rightarrow> Ok (Inr i)))"

definition finish_entry ::
  "TranslationEntry \<Rightarrow> 32 word \<Rightarrow> int \<Rightarrow> bool \<Rightarrow> (ExceptionType + (32 word \<times> TranslationEntry)) result"
where
  "finish_entry e offset sz writing =
     (if readOnly e \<and> writing then Ok (Inl ReadOnlyException)
      else if word_of_int NumPhysPages \<le> physicalPage e then Ok (Inl BusErrorException)
      else let e' = (if writing then e\<lparr>usebit := True, dirty := True\<rparr> else e\<lparr>usebit := True\<rparr>);
               physAddr = physicalPage e * word_of_int PageSize + offset
           in ASSERT (0 \<le> sint physAddr \<and> sint physAddr + sz \<le> MemorySize)
                (Ok (Inr (physAddr, e'))))"

definition set_entry :: "'k Machine_scheme \<Rightarrow> int \<Rightarrow> TranslationEntry \<Rightarrow> 'k Machine_scheme" where
  "set_entry m i e =
     (case tlb m of
        None \<Rightarrow> m\<lparr>pageTable := map_option (\<lambda>pt. pt[nat i := e]) (pageTable m)\<rparr>
      | Some t \<Rightarrow> m\<lparr>tlb := Some (t[nat i := e])\<rparr>)"

definition entries :: "'k Machine_scheme \<Rightarrow> TranslationEntry list" where
  "entries m = (case tlb m of None \<Rightarrow> (case pageTable m of None \<Rightarrow> [] | Some pt \<Rightarrow> pt) | Some t \<Rightarrow> t)"

definition misaligned :: "32 word \<Rightarrow> int \<Rightarrow> bool" where
  "misaligned a sz \<longleftrightarrow> sz = 4 \<and> a AND 3 \<noteq> 0 \<or> sz = 2 \<and> a AND 1 \<noteq> 0"

definition Translate ::
  "'k Machine_scheme \<Rightarrow> 32 word \<Rightarrow> int \<Rightarrow> bool
    \<Rightarrow> ((ExceptionType + 32 word) \<times> 'k Machine_scheme) result" where
  "Translate m virtAddr sz writing =
     (if misaligned virtAddr sz then Ok (Inl AddressErrorException, m)
      else ASSERT (tlb m = None \<or> pageTable m = None)
          (ASSERT (tlb m \<noteq> None \<or> pageTable m \<noteq> None)
          (let vpn = virtAddr div word_of_int PageSize; offset = virtAddr mod word_of_int PageSize in
           rbind (find_entry m vpn) (\<lambda>r.
           case r of
             Inl e \<Rightarrow> Ok (Inl e, m)
           | Inr i \<Rightarrow>
               rbind (arr_get (entries m) i) (\<lambda>entry.
               rbind (finish_entry entry offset sz writing) (\<lambda>r.
               case r of
                 Inl e \<Rightarrow> Ok (Inl e, m)
               | Inr (physAddr, entry') \<Rightarrow> Ok (Inr physAddr, set_entry m i entry'))))) ))"

section \<open>Reading and writing virtual memory\<close>

text \<open>Loads and stores of the host at an index of \<open>mainMemory\<close>; a \<open>char\<close> is signed.\<close>

definition WordToHost :: "32 word \<Rightarrow> 32 word" where "WordToHost w = w"
definition ShortToHost :: "16 word \<Rightarrow> 16 word" where "ShortToHost w = w"
definition WordToMachine :: "32 word \<Rightarrow> 32 word" where "WordToMachine w = WordToHost w"
definition ShortToMachine :: "16 word \<Rightarrow> 16 word" where "ShortToMachine w = ShortToHost w"

definition fetch1 :: "8 word list \<Rightarrow> nat \<Rightarrow> 32 word" where
  "fetch1 mem p = scast (mem ! p)"

definition fetch2 :: "8 word list \<Rightarrow> nat \<Rightarrow> 16 word" where
  "fetch2 mem p = ucast (mem ! p) OR push_bit 8 (ucast (mem ! (p + 1)))"

definition fetch4 :: "8 word list \<Rightarrow> nat \<Rightarrow> 32 word" where
  "fetch4 mem p = ucast (fetch2 mem p) OR push_bit 16 (ucast (fetch2 mem (p + 2)))"

definition store2 :: "8 word list \<Rightarrow> nat \<Rightarrow> 16 word \<Rightarrow> 8 word list" where
  "store2 mem p v = mem[p := ucast v, p + 1 := ucast (drop_bit 8 v)]"

definition store4 :: "8 word list \<Rightarrow> nat \<Rightarrow> 32 word \<Rightarrow> 8 word list" where
  "store4 mem p v = store2 (store2 mem p (ucast v)) (p + 2) (ucast (drop_bit 16 v))"

text \<open>
  \<open>ReadMem\<close> returns \<open>Some\<close> value for \<open>TRUE\<close> and \<open>None\<close> for \<open>FALSE\<close>, after the trap was handled.
\<close>

definition ReadMem ::
  "'k handler \<Rightarrow> 'k Machine_scheme \<Rightarrow> 32 word \<Rightarrow> int \<Rightarrow> (32 word option \<times> 'k Machine_scheme) result"
where
  "ReadMem ExceptionHandler m addr sz =
     rbind (Translate m addr sz False) (\<lambda>(r, m).
     case r of
       Inl exception \<Rightarrow>
         rbind (RaiseException ExceptionHandler m exception addr) (\<lambda>m. Ok (None, m))
     | Inr physicalAddress \<Rightarrow>
         let p = unat physicalAddress; mem = mainMemory m in
         if sz = 1 then Ok (Some (fetch1 mem p), m)
         else if sz = 2 then Ok (Some (ucast (ShortToHost (fetch2 mem p))), m)
         else if sz = 4 then Ok (Some (WordToHost (fetch4 mem p)), m)
         else Fault AssertFailed)"

definition WriteMem ::
  "'k handler \<Rightarrow> 'k Machine_scheme \<Rightarrow> 32 word \<Rightarrow> int \<Rightarrow> 32 word \<Rightarrow> (bool \<times> 'k Machine_scheme) result"
where
  "WriteMem ExceptionHandler m addr sz value =
     rbind (Translate m addr sz True) (\<lambda>(r, m).
     case r of
       Inl exception \<Rightarrow>
         rbind (RaiseException ExceptionHandler m exception addr) (\<lambda>m. Ok (False, m))
     | Inr physicalAddress \<Rightarrow>
         let p = unat physicalAddress; mem = mainMemory m in
         if sz = 1 then Ok (True, m\<lparr>mainMemory := mem[p := ucast (value AND 0xff)]\<rparr>)
         else if sz = 2
         then Ok (True, m\<lparr>mainMemory := store2 mem p (ShortToMachine (ucast (value AND 0xffff)))\<rparr>)
         else if sz = 4 then Ok (True, m\<lparr>mainMemory := store4 mem p (WordToMachine value)\<rparr>)
         else Fault AssertFailed)"

section \<open>Translation never fails\<close>

lemma aligned_offset:
  assumes "\<not> misaligned a sz" "sz \<in> {1, 2, 4}"
  shows "int (unat a mod 128) + sz \<le> 128"
proof -
  have "unat (a AND 3) = unat a mod 4" "unat (a AND 1) = unat a mod 2"
    using unat_and_mask [of a 2] unat_and_mask [of a 1] by (simp_all add: mask_eq_exp_minus_1)
  with assms have "sz = 4 \<Longrightarrow> (unat a mod 128) mod 4 = 0" "sz = 2 \<Longrightarrow> (unat a mod 128) mod 2 = 0"
    by (simp_all add: misaligned_def mod_mod_cancel)
  moreover have "unat a mod 128 < 128" by simp
  moreover have "y + 4 \<le> 128" if "y mod 4 = 0" "y < 128" for y :: nat using that by presburger
  moreover have "y + 2 \<le> 128" if "y mod 2 = 0" "y < 128" for y :: nat using that by presburger
  ultimately have "sz = 4 \<Longrightarrow> unat a mod 128 + 4 \<le> 128" "sz = 2 \<Longrightarrow> unat a mod 128 + 2 \<le> 128"
    "unat a mod 128 + 1 \<le> 128" by simp_all
  with assms(2) show ?thesis by (elim insertE; simp)
qed

lemma frame_address:
  fixes f off :: "32 word"
  assumes "unat f < 128" "unat off < 128"
  shows "unat (f * word_of_int PageSize + off) = unat f * 128 + unat off"
  using assms by (simp add: unat_word_ariths PageSize_def)

lemma finish_entry_eq:
  assumes "\<not> misaligned a sz" "sz \<in> {1, 2, 4}"
  shows "finish_entry e (a mod word_of_int PageSize) sz w =
    (if readOnly e \<and> w then Ok (Inl ReadOnlyException)
     else if 128 \<le> unat (physicalPage e) then Ok (Inl BusErrorException)
     else Ok (Inr (physicalPage e * word_of_int PageSize + a mod word_of_int PageSize,
       if w then e\<lparr>usebit := True, dirty := True\<rparr> else e\<lparr>usebit := True\<rparr>)))"
proof (cases "128 \<le> unat (physicalPage e)")
  case True
  then show ?thesis
    by (simp add: finish_entry_def NumPhysPages_def word_le_nat_alt)
next
  case False
  have o: "unat (a mod word_of_int PageSize) = unat a mod 128"
    by (simp add: PageSize_def unat_mod)
  have u: "unat (physicalPage e * word_of_int PageSize + a mod word_of_int PageSize)
      = unat (physicalPage e) * 128 + unat a mod 128"
    using False o by (subst frame_address) simp_all
  have "unat (physicalPage e) * 128 + unat a mod 128 < 2 ^ 31"
    using False by simp
  then have s: "sint (physicalPage e * word_of_int PageSize + a mod word_of_int PageSize)
      = int (unat (physicalPage e)) * 128 + int (unat a mod 128)"
    using u by (subst sint_small) simp_all
  have "uint (physicalPage e) = int (unat (physicalPage e))" by simp
  with False have "uint (physicalPage e) \<le> 127" by linarith
  with False show ?thesis
    using aligned_offset [OF assms] s
    by (simp add: finish_entry_def NumPhysPages_def MemorySize_def PageSize_def word_le_nat_alt Let_def ASSERT_def)
qed

text \<open>
  A machine is ready to translate when exactly one of the two tables is present, the page table has
  the recorded size and the TLB has \<open>TLBSize\<close> entries.
\<close>

definition wf_tables :: "'k Machine_scheme \<Rightarrow> bool" where
  "wf_tables m \<longleftrightarrow>
     (case tlb m of
        None \<Rightarrow> (case pageTable m of None \<Rightarrow> False | Some pt \<Rightarrow> length pt = unat (pageTableSize m))
      | Some t \<Rightarrow> pageTable m = None \<and> int (length t) = TLBSize)"

lemma tlb_search_total:
  assumes "int (length t) = TLBSize" "0 \<le> i"
  shows "\<exists>r. tlb_search t vpn i = Ok r
    \<and> (\<forall>j. r = Some j \<longrightarrow> i \<le> j \<and> j < TLBSize \<and> valid (t ! nat j) \<and> virtualPage (t ! nat j) = vpn)"
  using assms
proof (induction t vpn i rule: tlb_search.induct)
  case (1 t vpn i)
  show ?case
  proof (cases "i < TLBSize \<and> \<not> (valid (t ! nat i) \<and> virtualPage (t ! nat i) = vpn)")
    case True
    with 1 obtain r where r: "tlb_search t vpn (i + 1) = Ok r" "\<forall>j. r = Some j \<longrightarrow>
        i + 1 \<le> j \<and> j < TLBSize \<and> valid (t ! nat j) \<and> virtualPage (t ! nat j) = vpn"
      by auto
    have "tlb_search t vpn i = Ok r"
      using True r(1) "1.prems" by (subst tlb_search.simps) auto
    with r(2) show ?thesis by fastforce
  next
    case False
    then have "tlb_search t vpn i = Ok (if i < TLBSize then Some i else None)"
      using "1.prems" by (subst tlb_search.simps) auto
    with False show ?thesis by auto
  qed
qed

lemma find_entry_total:
  assumes "wf_tables m"
  shows "(\<exists>e. find_entry m vpn = Ok (Inl e) \<and> e \<in> {AddressErrorException, PageFaultException})
    \<or> (\<exists>i. find_entry m vpn = Ok (Inr i) \<and> 0 \<le> i \<and> i < int (length (entries m))
          \<and> valid (entries m ! nat i))"
proof (cases "tlb m")
  case None
  then obtain pt where pt: "pageTable m = Some pt" "length pt = unat (pageTableSize m)"
    using assms by (auto simp: wf_tables_def split: option.splits)
  show ?thesis
  proof (cases "pageTableSize m \<le> vpn")
    case True
    with None pt show ?thesis by (simp add: find_entry_def)
  next
    case False
    then have "uint vpn < int (length pt)"
      using pt(2) by (simp add: word_less_def not_le)
    with False None pt show ?thesis by (simp add: find_entry_def entries_def)
  qed
next
  case (Some t)
  with assms have "int (length t) = TLBSize" by (auto simp: wf_tables_def)
  with tlb_search_total [of t 0 vpn] obtain r where r: "tlb_search t vpn 0 = Ok r"
      "\<forall>j. r = Some j \<longrightarrow> 0 \<le> j \<and> j < int (length t) \<and> valid (t ! nat j)" by auto
  with Some show ?thesis by (cases r) (auto simp: find_entry_def entries_def)
qed

text \<open>
  The two ways \<open>Translate\<close> can end on a ready machine: an exception that leaves the machine alone,
  or the physical address of the same offset in the frame of a valid entry that permits the access,
  with the use and dirty bits of that entry set.
\<close>

definition touched :: "TranslationEntry \<Rightarrow> bool \<Rightarrow> TranslationEntry" where
  "touched e w = (if w then e\<lparr>usebit := True, dirty := True\<rparr> else e\<lparr>usebit := True\<rparr>)"

definition phys_addr :: "TranslationEntry \<Rightarrow> 32 word \<Rightarrow> 32 word" where
  "phys_addr e a = physicalPage e * word_of_int PageSize + a mod word_of_int PageSize"

lemma unat_phys_addr:
  "unat (physicalPage e) < 128 \<Longrightarrow> unat (phys_addr e a) = unat (physicalPage e) * 128 + unat a mod 128"
  unfolding phys_addr_def by (subst frame_address) (simp_all add: PageSize_def unat_mod)

lemma Translate_addressI:
  assumes "wf_tables m" "sz \<in> {1, 2, 4}" "\<not> misaligned a sz"
    and "find_entry m (a div word_of_int PageSize) = Ok (Inr i)"
    and "0 \<le> i" "i < int (length (entries m))" "\<not> (readOnly (entries m ! nat i) \<and> w)"
    and "unat (physicalPage (entries m ! nat i)) < 128"
  shows "Translate m a sz w
    = Ok (Inr (phys_addr (entries m ! nat i) a), set_entry m i (touched (entries m ! nat i) w))"
proof -
  have "tlb m = None \<or> pageTable m = None" "tlb m \<noteq> None \<or> pageTable m \<noteq> None"
    using assms(1) by (auto simp: wf_tables_def split: option.splits)
  with assms finish_entry_eq [OF assms(3,2), of "entries m ! nat i" w] show ?thesis
    by (auto simp: Translate_def touched_def phys_addr_def)
qed

lemma Translate_cases:
  assumes "wf_tables m" "sz \<in> {1, 2, 4}"
  obtains (exception) x where "Translate m a sz w = Ok (Inl x, m)" "x \<noteq> NoException"
  | (address) i p where "Translate m a sz w = Ok (Inr p, set_entry m i (touched (entries m ! nat i) w))"
      "\<not> misaligned a sz" "find_entry m (a div word_of_int PageSize) = Ok (Inr i)"
      "0 \<le> i" "i < int (length (entries m))" "valid (entries m ! nat i)"
      "\<not> (readOnly (entries m ! nat i) \<and> w)" "unat (physicalPage (entries m ! nat i)) < 128"
      "p = phys_addr (entries m ! nat i) a"
      "unat p = unat (physicalPage (entries m ! nat i)) * 128 + unat a mod 128"
      "int (unat a mod 128) + sz \<le> 128"
proof (cases "misaligned a sz")
  case True
  with exception show thesis by (simp add: Translate_def)
next
  case al: False
  have tables: "tlb m = None \<or> pageTable m = None" "tlb m \<noteq> None \<or> pageTable m \<noteq> None"
    using assms(1) by (auto simp: wf_tables_def split: option.splits)
  let ?f = "find_entry m (a div word_of_int PageSize)"
  consider (x) x where "?f = Ok (Inl x)" "x \<in> {AddressErrorException, PageFaultException}"
    | (i) i where "?f = Ok (Inr i)" "0 \<le> i" "i < int (length (entries m))" "valid (entries m ! nat i)"
    using find_entry_total [OF assms(1)] by blast
  then show thesis
  proof cases
    case x
    with al tables exception show thesis by (auto simp: Translate_def)
  next
    case i
    let ?e = "entries m ! nat i"
    show thesis
    proof (cases "readOnly ?e \<and> w \<or> 128 \<le> unat (physicalPage ?e)")
      case True
      then have "Translate m a sz w
          = Ok (Inl (if readOnly ?e \<and> w then ReadOnlyException else BusErrorException), m)"
        using i al tables finish_entry_eq [OF al assms(2), of ?e w] by (auto simp: Translate_def)
      then show thesis by (rule exception) simp
    next
      case False
      with i al have "Translate m a sz w
          = Ok (Inr (phys_addr ?e a), set_entry m i (touched ?e w))"
        using Translate_addressI [OF assms al, of i w] by auto
      then show thesis
        using address [of "phys_addr ?e a" i] False i al aligned_offset [OF al assms(2)]
          unat_phys_addr [of ?e a] by auto
    qed
  qed
qed

section \<open>Loads and stores\<close>

lemma fetch2_store2: "p + 1 < length mem \<Longrightarrow> fetch2 (store2 mem p v) p = v"
  by (intro bit_word_eqI) (auto simp: fetch2_def store2_def bit_simps nth_list_update)

lemma fetch4_store4: "p + 3 < length mem \<Longrightarrow> fetch4 (store4 mem p v) p = v"
  by (intro bit_word_eqI)
     (auto simp: fetch4_def fetch2_def store4_def store2_def bit_simps nth_list_update)

lemma length_store [simp]: "length (store2 mem p v) = length mem" "length (store4 mem p w) = length mem"
  by (simp_all add: store2_def store4_def)

lemma store2_other: "q < p \<or> p + 2 \<le> q \<Longrightarrow> store2 mem p v ! q = mem ! q"
  by (auto simp: store2_def)

lemma store4_other: "q < p \<or> p + 4 \<le> q \<Longrightarrow> store4 mem p v ! q = mem ! q"
  by (auto simp: store4_def store2_other)

text \<open>What a store of \<open>sz\<close> bytes does to the memory and what a load of \<open>sz\<close> bytes returns.\<close>

definition store :: "int \<Rightarrow> 8 word list \<Rightarrow> nat \<Rightarrow> 32 word \<Rightarrow> 8 word list" where
  "store sz mem p v =
     (if sz = 1 then mem[p := ucast v] else if sz = 2 then store2 mem p (ucast v) else store4 mem p v)"

definition load :: "int \<Rightarrow> 8 word list \<Rightarrow> nat \<Rightarrow> 32 word" where
  "load sz mem p =
     (if sz = 1 then fetch1 mem p else if sz = 2 then ucast (fetch2 mem p) else fetch4 mem p)"

text \<open>The part of a register that survives a store of \<open>sz\<close> bytes; bytes are sign-extended.\<close>

definition truncated :: "int \<Rightarrow> 32 word \<Rightarrow> 32 word" where
  "truncated sz v =
     (if sz = 1 then scast (ucast v :: 8 word) else if sz = 2 then ucast (ucast v :: 16 word) else v)"

lemma load_store:
  assumes "sz \<in> {1, 2, 4}" "int p + sz \<le> int (length mem)"
  shows "load sz (store sz mem p v) p = truncated sz v"
  using assms
  by (auto simp: load_def store_def truncated_def fetch1_def fetch2_store2 fetch4_store4)

lemma store_other:
  "sz \<in> {1, 2, 4} \<Longrightarrow> q < p \<or> int p + sz \<le> int q \<Longrightarrow> store sz mem p v ! q = mem ! q"
  by (auto simp: store_def store2_other store4_other)

lemma length_store_sz [simp]: "length (store sz mem p v) = length mem"
  by (simp add: store_def)

lemma narrow_mask:
  "ucast (v AND 0xff) = (ucast v :: 8 word)" "ucast (v AND 0xffff) = (ucast v :: 16 word)"
  for v :: "32 word"
proof -
  have m: "(0xff :: 32 word) = mask 8" "(0xffff :: 32 word) = mask 16"
    by (simp_all add: mask_eq_exp_minus_1)
  show "ucast (v AND 0xff) = (ucast v :: 8 word)" "ucast (v AND 0xffff) = (ucast v :: 16 word)"
    unfolding m by (intro bit_word_eqI; auto simp: bit_simps)+
qed

lemma ReadMem_address:
  assumes "Translate m a sz False = Ok (Inr p, m')" "sz \<in> {1, 2, 4}"
  shows "ReadMem h m a sz = Ok (Some (load sz (mainMemory m') (unat p)), m')"
  using assms by (auto simp: ReadMem_def load_def ShortToHost_def WordToHost_def)

lemma WriteMem_address:
  assumes "Translate m a sz True = Ok (Inr p, m')" "sz \<in> {1, 2, 4}"
  shows "WriteMem h m a sz v
    = Ok (True, m'\<lparr>mainMemory := store sz (mainMemory m') (unat p) v\<rparr>)"
  using assms
  by (auto simp: WriteMem_def store_def ShortToMachine_def ShortToHost_def WordToMachine_def
      WordToHost_def narrow_mask)

section \<open>Translation after an access\<close>

lemma touched_fields [simp]:
  "valid (touched e w) = valid e" "virtualPage (touched e w) = virtualPage e"
  "readOnly (touched e w) = readOnly e" "physicalPage (touched e w) = physicalPage e"
  by (simp_all add: touched_def)

lemma nth_touched:
  assumes "j < length x"
  shows "valid (x[k := touched (x ! k) w] ! j) = valid (x ! j)"
    "virtualPage (x[k := touched (x ! k) w] ! j) = virtualPage (x ! j)"
    "readOnly (x[k := touched (x ! k) w] ! j) = readOnly (x ! j)"
    "physicalPage (x[k := touched (x ! k) w] ! j) = physicalPage (x ! j)"
  using assms by (cases "k = j"; simp)+

lemma set_entry_fields [simp]:
  "mainMemory (set_entry m i e) = mainMemory m" "registers (set_entry m i e) = registers m"
  "pageTableSize (set_entry m i e) = pageTableSize m" "status (set_entry m i e) = status m"
  "pageTableMap (set_entry m i e) = pageTableMap m"
  "(pageTable (set_entry m i e) = None) = (pageTable m = None)"
  "(tlb (set_entry m i e) = None) = (tlb m = None)"
  by (simp_all add: set_entry_def split: option.split)

lemma entries_set_entry: "entries (set_entry m i e) = (entries m)[nat i := e]"
  by (simp add: set_entry_def entries_def split: option.split)

lemma tlb_search_touched:
  "i < length t \<Longrightarrow> tlb_search (t[i := touched (t ! i) w]) vpn k = tlb_search t vpn k"
proof (induction t vpn k rule: tlb_search.induct)
  case (1 t vpn k)
  have get: "arr_get (t[i := touched (t ! i) w]) k = rbind (arr_get t k)
      (\<lambda>e. Ok (t[i := touched (t ! i) w] ! nat k))"
    by (simp add: arr_get_def)
  show ?case
  proof (cases "k < TLBSize \<and> 0 \<le> k \<and> k < int (length t)
      \<and> \<not> (valid (t ! nat k) \<and> virtualPage (t ! nat k) = vpn)")
    case True
    with 1 have IH: "tlb_search (t[i := touched (t ! i) w]) vpn (k + 1) = tlb_search t vpn (k + 1)"
      by auto
    show ?thesis
      by (subst (1 2) tlb_search.simps) (use True IH in \<open>auto simp: get nth_touched nat_less_iff\<close>)
  next
    case False
    then show ?thesis
      by (subst (1 2) tlb_search.simps) (auto simp: get arr_get_def nth_touched nat_less_iff)
  qed
qed

lemma find_entry_touched:
  assumes "0 \<le> i" "i < int (length (entries m))"
  shows "find_entry (set_entry m i (touched (entries m ! nat i) w)) vpn = find_entry m vpn"
proof (cases "tlb m")
  case None
  then show ?thesis
    by (auto simp: find_entry_def set_entry_def entries_def arr_get_def nth_touched uint_less_int
        split: option.splits)
next
  case (Some t)
  with assms tlb_search_touched [of "nat i" t w vpn 0] show ?thesis
    by (auto simp: find_entry_def set_entry_def entries_def)
qed

lemma find_entry_memory [simp]: "find_entry (m\<lparr>mainMemory := x\<rparr>) vpn = find_entry m vpn"
  by (simp add: find_entry_def split: option.split)

lemma entries_memory [simp]: "entries (m\<lparr>mainMemory := x\<rparr>) = entries m"
  by (simp add: entries_def split: option.split)

lemma wf_tables_set_entry [simp]:
  "wf_tables (set_entry m i e) = wf_tables m" "wf_tables (m\<lparr>mainMemory := x\<rparr>) = wf_tables m"
  by (auto simp: wf_tables_def set_entry_def split: option.splits)

text \<open>
  A write that returns \<open>TRUE\<close>: it went through one entry, changed only the bytes of that entry's
  frame it was asked to change, and left everything else of the machine alone.
\<close>

lemma WriteMem_TrueE:
  assumes "wf_tables m" "sz \<in> {1, 2, 4}" "WriteMem h m a sz v = Ok (True, m')"
  obtains i where "\<not> misaligned a sz" "find_entry m (a div word_of_int PageSize) = Ok (Inr i)"
    "0 \<le> i" "i < int (length (entries m))" "valid (entries m ! nat i)"
    "\<not> readOnly (entries m ! nat i)" "unat (physicalPage (entries m ! nat i)) < 128"
    "int (unat a mod 128) + sz \<le> 128"
    "m' = (set_entry m i (touched (entries m ! nat i) True))\<lparr>mainMemory :=
            store sz (mainMemory m) (unat (phys_addr (entries m ! nat i) a)) v\<rparr>"
  using assms(1,2)
proof (cases rule: Translate_cases [where a = a and w = True])
  case (exception x)
  with assms(3) show thesis by (auto simp: WriteMem_def)
next
  case (address i p)
  with assms(3) WriteMem_address [OF address(1) assms(2), of h v] that show thesis by simp
qed

lemma ReadMem_SomeE:
  assumes "wf_tables m" "sz \<in> {1, 2, 4}" "ReadMem h m a sz = Ok (Some v, m')"
  obtains i where "valid (entries m ! nat i)" "0 \<le> i" "i < int (length (entries m))"
    "unat (physicalPage (entries m ! nat i)) < 128" "int (unat a mod 128) + sz \<le> 128"
    "find_entry m (a div word_of_int PageSize) = Ok (Inr i)"
    "v = load sz (mainMemory m) (unat (phys_addr (entries m ! nat i) a))"
  using assms(1,2)
proof (cases rule: Translate_cases [where a = a and w = False])
  case (exception x)
  with assms(3) show thesis by (auto simp: ReadMem_def)
next
  case (address i p)
  with assms(3) ReadMem_address [OF address(1) assms(2), of h] that show thesis by simp
qed

lemma Translate_linear:
  assumes "tlb m = None" "pageTable m = Some pt" "length pt = unat (pageTableSize m)"
    and "sz \<in> {1, 2, 4}"
  shows "Translate m a sz w = Ok
    (let vpn = unat a div 128; e = pt ! vpn in
     if misaligned a sz then (Inl AddressErrorException, m)
     else if length pt \<le> vpn then (Inl AddressErrorException, m)
     else if \<not> valid e then (Inl PageFaultException, m)
     else if readOnly e \<and> w then (Inl ReadOnlyException, m)
     else if 128 \<le> unat (physicalPage e) then (Inl BusErrorException, m)
     else (Inr (word_of_nat (unat (physicalPage e) * 128 + unat a mod 128)),
           m\<lparr>pageTable := Some (pt[vpn := touched e w])\<rparr>))"
proof (cases "misaligned a sz \<or> length pt \<le> unat a div 128")
  case True
  with assms show ?thesis
    by (auto simp: Translate_def find_entry_def Let_def PageSize_def word_le_nat_alt unat_div)
next
  case False
  let ?e = "pt ! (unat a div 128)"
  have vpn: "unat (a div word_of_int PageSize) = unat a div 128" by (simp add: PageSize_def unat_div)
  then have uvpn: "uint (a div word_of_int PageSize) = int (unat a div 128)" by (metis of_nat_unat)
  have f: "find_entry m (a div word_of_int PageSize)
      = Ok (if valid ?e then Inr (int (unat a div 128)) else Inl PageFaultException)"
    using False assms(1-3) unfolding find_entry_def uvpn word_le_nat_alt vpn
    by (simp add: arr_get_nat del: of_nat_div)
  have e: "entries m = pt" using assms by (simp add: entries_def)
  have p: "phys_addr ?e a = word_of_nat (unat (physicalPage ?e) * 128 + unat a mod 128)"
    if "unat (physicalPage ?e) < 128"
    unfolding unat_phys_addr [OF that, of a, symmetric] by simp
  have "Translate m a sz w = rbind (if valid ?e then finish_entry ?e (a mod word_of_int PageSize) sz w
      else Ok (Inl PageFaultException)) (case_sum (\<lambda>e. Ok (Inl e, m))
        (\<lambda>(q, e'). Ok (Inr q, set_entry m (int (unat a div 128)) e')))"
    using False assms f e by (simp add: Translate_def arr_get_nat del: of_nat_div)
  with False finish_entry_eq [of a sz ?e w] assms e p show ?thesis
    by (auto simp: Let_def set_entry_def touched_def phys_addr_def)
qed

text \<open>A machine with one page, in frame 3, for the concrete instances of the properties.\<close>

definition one_page :: "bool \<Rightarrow> Machine" where
  "one_page ro = \<lparr>registers = replicate NumTotalRegs 0, mainMemory = replicate (nat MemorySize) 0,
     pageTableMap = \<lparr>numBits = 128, numWords = 4, bwords = [8, 0, 0, 0]\<rparr>, tlb = None,
     pageTable = Some [\<lparr>virtualPage = 0, physicalPage = 3, valid = True, readOnly = ro,
        usebit = False, dirty = False\<rparr>],
     pageTableSize = 1, singleStep = False, status = UserMode\<rparr>"

lemma one_page_simps [simp]:
  "tlb (one_page ro) = None"
  "pageTable (one_page ro) = Some [\<lparr>virtualPage = 0, physicalPage = 3, valid = True, readOnly = ro,
     usebit = False, dirty = False\<rparr>]"
  "length [\<lparr>virtualPage = 0, physicalPage = 3, valid = True, readOnly = ro,
     usebit = False, dirty = False\<rparr>] = unat (pageTableSize (one_page ro))"
  by (simp_all add: one_page_def)

lemma one_page_wf: "wf_tables (one_page ro)" "int (length (mainMemory (one_page ro))) = MemorySize"
  by (simp_all add: wf_tables_def one_page_def memory_consts)

lemma one_page_translate:
  "Translate (one_page False) 12 4 True
     = Ok (Inr 396, set_entry (one_page False) 0 (touched (entries (one_page False) ! 0) True))"
  "Translate (one_page False) 12 1 True
     = Ok (Inr 396, set_entry (one_page False) 0 (touched (entries (one_page False) ! 0) True))"
  using Translate_addressI [of "one_page False" 4 12 0 True]
    Translate_addressI [of "one_page False" 1 12 0 True] one_page_wf
  by (simp_all add: misaligned_def find_entry_def entries_def phys_addr_def memory_consts one_page_def)

section \<open>Properties\<close>

text \<open>C19: With a linear page table, \<open>Translate\<close> of an access of 1, 2 or 4 bytes always returns (its
  assertions never fail) and is exactly this decision: misaligned accesses and pages beyond the
  table are address errors, invalid pages are page faults, writes to read-only pages and frames
  beyond physical memory are refused, and otherwise the physical address is the frame's base plus
  the page offset, with the use bit and, for a write, the dirty bit of the entry set.\<close>

theorem Translate_page_table:
  assumes "tlb m = None" "pageTable m = Some pt" "length pt = unat (pageTableSize m)"
    and "sz \<in> {1, 2, 4}"
  shows "Translate m a sz w = Ok
    (let vpn = unat a div 128; e = pt ! vpn in
     if misaligned a sz then (Inl AddressErrorException, m)
     else if length pt \<le> vpn then (Inl AddressErrorException, m)
     else if \<not> valid e then (Inl PageFaultException, m)
     else if readOnly e \<and> w then (Inl ReadOnlyException, m)
     else if 128 \<le> unat (physicalPage e) then (Inl BusErrorException, m)
     else (Inr (word_of_nat (unat (physicalPage e) * 128 + unat a mod 128)),
           m\<lparr>pageTable := Some (pt[vpn := touched e w])\<rparr>))"
  by (rule Translate_linear [OF assms])

theorem Translate_page_table_witness:
  "Translate (one_page False) 12 4 True = Ok (Inr 396,
     (one_page False)\<lparr>pageTable := Some [touched \<lparr>virtualPage = 0, physicalPage = 3, valid = True,
        readOnly = False, usebit = False, dirty = False\<rparr> True]\<rparr>)
   \<and> Translate (one_page True) 12 4 True = Ok (Inl ReadOnlyException, one_page True)"
proof -
  have "misaligned 12 4 = False" by (simp add: misaligned_def)
  then show ?thesis
    using Translate_page_table [OF one_page_simps(1,2,3), where sz = 4 and a = 12 and w = True]
    by (simp add: Let_def)
qed

text \<open>What was written is what is read: after a write of 1, 2 or 4 bytes that returned \<open>TRUE\<close>,
  a read of the same size at the same virtual address returns \<open>TRUE\<close> with the value written, cut to
  the size of the access, and does not change memory.\<close>

theorem ReadMem_after_WriteMem:
  assumes "wf_tables m" "int (length (mainMemory m)) = MemorySize" "sz \<in> {1, 2, 4}"
    and "WriteMem h m a sz v = Ok (True, m')"
  shows "\<exists>m''. ReadMem h m' a sz = Ok (Some (truncated sz v), m'') \<and> mainMemory m'' = mainMemory m'"
proof -
  obtain i where i: "\<not> misaligned a sz" "find_entry m (a div word_of_int PageSize) = Ok (Inr i)"
      "0 \<le> i" "i < int (length (entries m))" "unat (physicalPage (entries m ! nat i)) < 128"
      "int (unat a mod 128) + sz \<le> 128"
    and m': "m' = (set_entry m i (touched (entries m ! nat i) True))\<lparr>mainMemory :=
        store sz (mainMemory m) (unat (phys_addr (entries m ! nat i) a)) v\<rparr>"
    using WriteMem_TrueE [OF assms(1,3,4)] by metis
  let ?e = "touched (entries m ! nat i) True"
  have en: "entries m' ! nat i = ?e" "length (entries m') = length (entries m)"
    using i unfolding m' by (simp_all add: entries_set_entry nat_less_iff)
  have "Translate m' a sz False
      = Ok (Inr (phys_addr (entries m' ! nat i) a), set_entry m' i (touched (entries m' ! nat i) False))"
    by (rule Translate_addressI) (use i assms en in \<open>auto simp: m' find_entry_touched\<close>)
  moreover have "phys_addr ?e a = phys_addr (entries m ! nat i) a" by (simp add: phys_addr_def)
  moreover have "int (unat (phys_addr (entries m ! nat i) a)) + sz \<le> int (length (mainMemory m))"
    using i(5,6) assms(2) unfolding unat_phys_addr [OF i(5)] memory_consts by linarith
  ultimately show ?thesis
    using ReadMem_address [of m' a sz _ _ h] assms(3) load_store [OF assms(3)] en
    by (simp add: m')
qed

theorem ReadMem_after_WriteMem_witness:
  "\<exists>m' m''. WriteMem (\<lambda>x m. Ok m) (one_page False) 12 4 77 = Ok (True, m')
    \<and> ReadMem (\<lambda>x m. Ok m) m' 12 4 = Ok (Some (truncated 4 77), m'')"
proof -
  have "\<exists>m'. WriteMem (\<lambda>x m. Ok m) (one_page False) 12 4 77 = Ok (True, m')"
    using WriteMem_address [OF one_page_translate(1), of "\<lambda>x m. Ok m" 77] by simp
  then show ?thesis
    using ReadMem_after_WriteMem [OF one_page_wf, where sz = 4 and a = 12 and v = 77
        and h = "\<lambda>x m. Ok m"] by fastforce
qed

text \<open>A user store cannot reach memory outside the frames its translation entries grant: if a
  write of 1, 2 or 4 bytes changes the byte at physical address \<open>q\<close>, then \<open>q\<close> lies in the frame of a
  valid, writable entry, and \<open>q\<close> is one of the bytes of the access.\<close>

theorem WriteMem_confined:
  assumes "wf_tables m" "sz \<in> {1, 2, 4}" "WriteMem h m a sz v = Ok (True, m')"
    and "mainMemory m' ! q \<noteq> mainMemory m ! q"
  shows "(\<exists>e \<in> set (entries m). valid e \<and> \<not> readOnly e \<and> q div 128 = unat (physicalPage e))
    \<and> q mod 128 \<in> {unat a mod 128..<unat a mod 128 + nat sz}"
proof -
  obtain i where i: "0 \<le> i" "i < int (length (entries m))" "valid (entries m ! nat i)"
      "\<not> readOnly (entries m ! nat i)" "unat (physicalPage (entries m ! nat i)) < 128"
      "int (unat a mod 128) + sz \<le> 128"
    and m': "mainMemory m' = store sz (mainMemory m) (unat (phys_addr (entries m ! nat i) a)) v"
    using WriteMem_TrueE [OF assms(1-3)]
    by (metis Machine.select_convs(2) Machine.surjective Machine.update_convs(2))
  let ?e = "entries m ! nat i" and ?o = "unat a mod 128"
  have "\<not> (q < unat (phys_addr ?e a) \<or> int (unat (phys_addr ?e a)) + sz \<le> int q)"
    using assms(4) m' store_other [OF assms(2)] by metis
  with i(5) have q: "unat (physicalPage ?e) * 128 + ?o \<le> q"
      "int q < int (unat (physicalPage ?e) * 128 + ?o) + sz"
    by (simp_all add: unat_phys_addr)
  define r where "r = q - unat (physicalPage ?e) * 128"
  have r: "q = unat (physicalPage ?e) * 128 + r" "?o \<le> r" "int r < int ?o + sz"
    using q by (auto simp: r_def)
  moreover have "r < 128" using r(3) i(6) by linarith
  ultimately have "q div 128 = unat (physicalPage ?e)" "q mod 128 = r" by auto
  moreover have "?e \<in> set (entries m)" using i by (simp add: nat_less_iff)
  ultimately show ?thesis using i r by (auto simp: nat_less_iff)
qed

theorem WriteMem_confined_witness:
  "\<exists>m'. WriteMem (\<lambda>x m. Ok m) (one_page False) 12 1 77 = Ok (True, m')
    \<and> mainMemory m' ! 396 \<noteq> mainMemory (one_page False) ! 396
    \<and> (396::nat) div 128 = unat (physicalPage (entries (one_page False) ! 0))"
proof -
  obtain m' where m': "WriteMem (\<lambda>x m. Ok m) (one_page False) 12 1 77 = Ok (True, m')"
      "mainMemory m' = (mainMemory (one_page False))[396 := 77]"
    using WriteMem_address [OF one_page_translate(2), of "\<lambda>x m. Ok m" 77]
    by (auto simp: store_def)
  then have c: "mainMemory m' ! 396 \<noteq> mainMemory (one_page False) ! 396"
    by (simp add: one_page_def memory_consts)
  from WriteMem_confined [OF one_page_wf(1) _ m'(1) c] m' c show ?thesis
    by (auto simp: entries_def)
qed

end
