(* ===== verification/Mips_Sim.thy ===== *)
theory Mips_Sim
  imports Machine_Memory
begin

text \<open>
  The MIPS simulator of \<^verbatim>\<open>machine/mipssim.h\<close> and \<^verbatim>\<open>machine/mipssim.cc\<close>: the opcode tables,
  the decoder, the double-length multiplication and the execution of one instruction.

  The opcodes are the numbers the header defines. The switch of \<open>OneInstruction\<close> is a chain of
  definitions, one per stretch of its cases, each passing on to the next what it has no case for.
  A case that leaves the function early (a trap, or a memory access that failed) is \<open>Return\<close>; one
  that reaches the end of the switch is \<open>Continue\<close> with the next program counter and the delayed
  load. Registers are 32-bit words, so signed overflow wraps, as it does on the hosts the simulator
  runs on. The build defines \<^verbatim>\<open>SIM_FIX\<close>. Tracing output is not part of the state.
\<close>

section \<open>Opcodes and their tables\<close>

abbreviation (input) OP_ADD :: nat where "OP_ADD \<equiv> 1"
abbreviation (input) OP_ADDI :: nat where "OP_ADDI \<equiv> 2"
abbreviation (input) OP_ADDIU :: nat where "OP_ADDIU \<equiv> 3"
abbreviation (input) OP_ADDU :: nat where "OP_ADDU \<equiv> 4"
abbreviation (input) OP_AND :: nat where "OP_AND \<equiv> 5"
abbreviation (input) OP_ANDI :: nat where "OP_ANDI \<equiv> 6"
abbreviation (input) OP_BEQ :: nat where "OP_BEQ \<equiv> 7"
abbreviation (input) OP_BGEZ :: nat where "OP_BGEZ \<equiv> 8"
abbreviation (input) OP_BGEZAL :: nat where "OP_BGEZAL \<equiv> 9"
abbreviation (input) OP_BGTZ :: nat where "OP_BGTZ \<equiv> 10"
abbreviation (input) OP_BLEZ :: nat where "OP_BLEZ \<equiv> 11"
abbreviation (input) OP_BLTZ :: nat where "OP_BLTZ \<equiv> 12"
abbreviation (input) OP_BLTZAL :: nat where "OP_BLTZAL \<equiv> 13"
abbreviation (input) OP_BNE :: nat where "OP_BNE \<equiv> 14"
abbreviation (input) OP_DIV :: nat where "OP_DIV \<equiv> 16"
abbreviation (input) OP_DIVU :: nat where "OP_DIVU \<equiv> 17"
abbreviation (input) OP_J :: nat where "OP_J \<equiv> 18"
abbreviation (input) OP_JAL :: nat where "OP_JAL \<equiv> 19"
abbreviation (input) OP_JALR :: nat where "OP_JALR \<equiv> 20"
abbreviation (input) OP_JR :: nat where "OP_JR \<equiv> 21"
abbreviation (input) OP_LB :: nat where "OP_LB \<equiv> 22"
abbreviation (input) OP_LBU :: nat where "OP_LBU \<equiv> 23"
abbreviation (input) OP_LH :: nat where "OP_LH \<equiv> 24"
abbreviation (input) OP_LHU :: nat where "OP_LHU \<equiv> 25"
abbreviation (input) OP_LUI :: nat where "OP_LUI \<equiv> 26"
abbreviation (input) OP_LW :: nat where "OP_LW \<equiv> 27"
abbreviation (input) OP_LWL :: nat where "OP_LWL \<equiv> 28"
abbreviation (input) OP_LWR :: nat where "OP_LWR \<equiv> 29"
abbreviation (input) OP_MFHI :: nat where "OP_MFHI \<equiv> 31"
abbreviation (input) OP_MFLO :: nat where "OP_MFLO \<equiv> 32"
abbreviation (input) OP_MTHI :: nat where "OP_MTHI \<equiv> 34"
abbreviation (input) OP_MTLO :: nat where "OP_MTLO \<equiv> 35"
abbreviation (input) OP_MULT :: nat where "OP_MULT \<equiv> 36"
abbreviation (input) OP_MULTU :: nat where "OP_MULTU \<equiv> 37"
abbreviation (input) OP_NOR :: nat where "OP_NOR \<equiv> 38"
abbreviation (input) OP_OR :: nat where "OP_OR \<equiv> 39"
abbreviation (input) OP_ORI :: nat where "OP_ORI \<equiv> 40"
abbreviation (input) OP_RFE :: nat where "OP_RFE \<equiv> 41"
abbreviation (input) OP_SB :: nat where "OP_SB \<equiv> 42"
abbreviation (input) OP_SH :: nat where "OP_SH \<equiv> 43"
abbreviation (input) OP_SLL :: nat where "OP_SLL \<equiv> 44"
abbreviation (input) OP_SLLV :: nat where "OP_SLLV \<equiv> 45"
abbreviation (input) OP_SLT :: nat where "OP_SLT \<equiv> 46"
abbreviation (input) OP_SLTI :: nat where "OP_SLTI \<equiv> 47"
abbreviation (input) OP_SLTIU :: nat where "OP_SLTIU \<equiv> 48"
abbreviation (input) OP_SLTU :: nat where "OP_SLTU \<equiv> 49"
abbreviation (input) OP_SRA :: nat where "OP_SRA \<equiv> 50"
abbreviation (input) OP_SRAV :: nat where "OP_SRAV \<equiv> 51"
abbreviation (input) OP_SRL :: nat where "OP_SRL \<equiv> 52"
abbreviation (input) OP_SRLV :: nat where "OP_SRLV \<equiv> 53"
abbreviation (input) OP_SUB :: nat where "OP_SUB \<equiv> 54"
abbreviation (input) OP_SUBU :: nat where "OP_SUBU \<equiv> 55"
abbreviation (input) OP_SW :: nat where "OP_SW \<equiv> 56"
abbreviation (input) OP_SWL :: nat where "OP_SWL \<equiv> 57"
abbreviation (input) OP_SWR :: nat where "OP_SWR \<equiv> 58"
abbreviation (input) OP_XOR :: nat where "OP_XOR \<equiv> 59"
abbreviation (input) OP_XORI :: nat where "OP_XORI \<equiv> 60"
abbreviation (input) OP_SYSCALL :: nat where "OP_SYSCALL \<equiv> 61"
abbreviation (input) OP_UNIMP :: nat where "OP_UNIMP \<equiv> 62"
abbreviation (input) OP_RES :: nat where "OP_RES \<equiv> 63"
abbreviation (input) SPECIAL :: nat where "SPECIAL \<equiv> 100"
abbreviation (input) BCOND :: nat where "BCOND \<equiv> 101"
abbreviation (input) IFMT :: nat where "IFMT \<equiv> 1"
abbreviation (input) JFMT :: nat where "JFMT \<equiv> 2"
abbreviation (input) RFMT :: nat where "RFMT \<equiv> 3"

definition MaxOpcode :: nat where "MaxOpcode = 63"

definition SIGN_BIT :: "32 word" where "SIGN_BIT = 0x80000000"

definition IndexToAddr :: "32 word \<Rightarrow> 32 word" where "IndexToAddr x = push_bit 2 x"

definition opTable :: "(nat \<times> nat) list" where
  "opTable = [
    (SPECIAL, RFMT), (BCOND, IFMT), (OP_J, JFMT), (OP_JAL, JFMT), (OP_BEQ, IFMT),
    (OP_BNE, IFMT), (OP_BLEZ, IFMT), (OP_BGTZ, IFMT), (OP_ADDI, IFMT), (OP_ADDIU, IFMT),
    (OP_SLTI, IFMT), (OP_SLTIU, IFMT), (OP_ANDI, IFMT), (OP_ORI, IFMT), (OP_XORI, IFMT),
    (OP_LUI, IFMT), (OP_UNIMP, IFMT), (OP_UNIMP, IFMT), (OP_UNIMP, IFMT), (OP_UNIMP, IFMT),
    (OP_RES, IFMT), (OP_RES, IFMT), (OP_RES, IFMT), (OP_RES, IFMT), (OP_RES, IFMT),
    (OP_RES, IFMT), (OP_RES, IFMT), (OP_RES, IFMT), (OP_RES, IFMT), (OP_RES, IFMT),
    (OP_RES, IFMT), (OP_RES, IFMT), (OP_LB, IFMT), (OP_LH, IFMT), (OP_LWL, IFMT),
    (OP_LW, IFMT), (OP_LBU, IFMT), (OP_LHU, IFMT), (OP_LWR, IFMT), (OP_RES, IFMT),
    (OP_SB, IFMT), (OP_SH, IFMT), (OP_SWL, IFMT), (OP_SW, IFMT), (OP_RES, IFMT),
    (OP_RES, IFMT), (OP_SWR, IFMT), (OP_RES, IFMT), (OP_UNIMP, IFMT), (OP_UNIMP, IFMT),
    (OP_UNIMP, IFMT), (OP_UNIMP, IFMT), (OP_RES, IFMT), (OP_RES, IFMT), (OP_RES, IFMT),
    (OP_RES, IFMT), (OP_UNIMP, IFMT), (OP_UNIMP, IFMT), (OP_UNIMP, IFMT), (OP_UNIMP, IFMT),
    (OP_RES, IFMT), (OP_RES, IFMT), (OP_RES, IFMT), (OP_RES, IFMT)]"

definition specialTable :: "nat list" where
  "specialTable = [
    OP_SLL, OP_RES, OP_SRL, OP_SRA, OP_SLLV, OP_RES, OP_SRLV, OP_SRAV, OP_JR, OP_JALR, OP_RES,
    OP_RES, OP_SYSCALL, OP_UNIMP, OP_RES, OP_RES, OP_MFHI, OP_MTHI, OP_MFLO, OP_MTLO, OP_RES,
    OP_RES, OP_RES, OP_RES, OP_MULT, OP_MULTU, OP_DIV, OP_DIVU, OP_RES, OP_RES, OP_RES, OP_RES,
    OP_ADD, OP_ADDU, OP_SUB, OP_SUBU, OP_AND, OP_OR, OP_XOR, OP_NOR, OP_RES, OP_RES, OP_SLT,
    OP_SLTU, OP_RES, OP_RES, OP_RES, OP_RES, OP_RES, OP_RES, OP_RES, OP_RES, OP_RES, OP_RES,
    OP_RES, OP_RES, OP_RES, OP_RES, OP_RES, OP_RES, OP_RES, OP_RES, OP_RES, OP_RES]"

datatype RegType = NONE | RS | RT | RD | EXTRA

definition opStrings :: "(string \<times> RegType list) list" where
  "opStrings = [
    (''Shouldn'' @ CHR 0x27 # ''t happen'', [NONE, NONE, NONE]),
    (''ADD r%d,r%d,r%d'', [RD, RS, RT]),
    (''ADDI r%d,r%d,%d'', [RT, RS, EXTRA]),
    (''ADDIU r%d,r%d,%d'', [RT, RS, EXTRA]),
    (''ADDU r%d,r%d,r%d'', [RD, RS, RT]),
    (''AND r%d,r%d,r%d'', [RD, RS, RT]),
    (''ANDI r%d,r%d,%d'', [RT, RS, EXTRA]),
    (''BEQ r%d,r%d,%d'', [RS, RT, EXTRA]),
    (''BGEZ r%d,%d'', [RS, EXTRA, NONE]),
    (''BGEZAL r%d,%d'', [RS, EXTRA, NONE]),
    (''BGTZ r%d,%d'', [RS, EXTRA, NONE]),
    (''BLEZ r%d,%d'', [RS, EXTRA, NONE]),
    (''BLTZ r%d,%d'', [RS, EXTRA, NONE]),
    (''BLTZAL r%d,%d'', [RS, EXTRA, NONE]),
    (''BNE r%d,r%d,%d'', [RS, RT, EXTRA]),
    (''Shouldn'' @ CHR 0x27 # ''t happen'', [NONE, NONE, NONE]),
    (''DIV r%d,r%d'', [RS, RT, NONE]),
    (''DIVU r%d,r%d'', [RS, RT, NONE]),
    (''J %d'', [EXTRA, NONE, NONE]),
    (''JAL %d'', [EXTRA, NONE, NONE]),
    (''JALR r%d,r%d'', [RD, RS, NONE]),
    (''JR r%d,r%d'', [RD, RS, NONE]),
    (''LB r%d,%d(r%d)'', [RT, EXTRA, RS]),
    (''LBU r%d,%d(r%d)'', [RT, EXTRA, RS]),
    (''LH r%d,%d(r%d)'', [RT, EXTRA, RS]),
    (''LHU r%d,%d(r%d)'', [RT, EXTRA, RS]),
    (''LUI r%d,%d'', [RT, EXTRA, NONE]),
    (''LW r%d,%d(r%d)'', [RT, EXTRA, RS]),
    (''LWL r%d,%d(r%d)'', [RT, EXTRA, RS]),
    (''LWR r%d,%d(r%d)'', [RT, EXTRA, RS]),
    (''Shouldn'' @ CHR 0x27 # ''t happen'', [NONE, NONE, NONE]),
    (''MFHI r%d'', [RD, NONE, NONE]),
    (''MFLO r%d'', [RD, NONE, NONE]),
    (''Shouldn'' @ CHR 0x27 # ''t happen'', [NONE, NONE, NONE]),
    (''MTHI r%d'', [RS, NONE, NONE]),
    (''MTLO r%d'', [RS, NONE, NONE]),
    (''MULT r%d,r%d'', [RS, RT, NONE]),
    (''MULTU r%d,r%d'', [RS, RT, NONE]),
    (''NOR r%d,r%d,r%d'', [RD, RS, RT]),
    (''OR r%d,r%d,r%d'', [RD, RS, RT]),
    (''ORI r%d,r%d,%d'', [RT, RS, EXTRA]),
    (''RFE'', [NONE, NONE, NONE]),
    (''SB r%d,%d(r%d)'', [RT, EXTRA, RS]),
    (''SH r%d,%d(r%d)'', [RT, EXTRA, RS]),
    (''SLL r%d,r%d,%d'', [RD, RT, EXTRA]),
    (''SLLV r%d,r%d,r%d'', [RD, RT, RS]),
    (''SLT r%d,r%d,r%d'', [RD, RS, RT]),
    (''SLTI r%d,r%d,%d'', [RT, RS, EXTRA]),
    (''SLTIU r%d,r%d,%d'', [RT, RS, EXTRA]),
    (''SLTU r%d,r%d,r%d'', [RD, RS, RT]),
    (''SRA r%d,r%d,%d'', [RD, RT, EXTRA]),
    (''SRAV r%d,r%d,r%d'', [RD, RT, RS]),
    (''SRL r%d,r%d,%d'', [RD, RT, EXTRA]),
    (''SRLV r%d,r%d,r%d'', [RD, RT, RS]),
    (''SUB r%d,r%d,r%d'', [RD, RS, RT]),
    (''SUBU r%d,r%d,r%d'', [RD, RS, RT]),
    (''SW r%d,%d(r%d)'', [RT, EXTRA, RS]),
    (''SWL r%d,%d(r%d)'', [RT, EXTRA, RS]),
    (''SWR r%d,%d(r%d)'', [RT, EXTRA, RS]),
    (''XOR r%d,r%d,r%d'', [RD, RS, RT]),
    (''XORI r%d,r%d,%d'', [RT, RS, EXTRA]),
    (''SYSCALL'', [NONE, NONE, NONE]),
    (''Unimplemented'', [NONE, NONE, NONE]),
    (''Reserved'', [NONE, NONE, NONE])]"

section \<open>Instructions\<close>

record Instruction =
  opCode :: nat
  rs :: nat
  rt :: nat
  rd :: nat
  extra :: "32 word"

definition TypeToReg :: "RegType \<Rightarrow> Instruction \<Rightarrow> 32 word" where
  "TypeToReg reg instr =
     (case reg of
        RS \<Rightarrow> of_nat (rs instr)
      | RT \<Rightarrow> of_nat (rt instr)
      | RD \<Rightarrow> of_nat (rd instr)
      | EXTRA \<Rightarrow> extra instr
      | NONE \<Rightarrow> -1)"

definition Decode :: "32 word \<Rightarrow> Instruction" where
  "Decode value =
     (let (code, format) = opTable ! unat (drop_bit 26 value AND 0x3f);
          ext = (if format = IFMT
                 then (let e = value AND 0xffff in if e AND 0x8000 \<noteq> 0 then e OR 0xffff0000 else e)
                 else if format = RFMT then drop_bit 6 value AND 0x1f
                 else value AND 0x3ffffff);
          op = (if code = SPECIAL then specialTable ! unat (value AND 0x3f)
                else if code = BCOND
                then (let i = value AND 0x1f0000 in
                      if i = 0 then OP_BLTZ
                      else if i = 0x10000 then OP_BGEZ
                      else if i = 0x100000 then OP_BLTZAL
                      else if i = 0x110000 then OP_BGEZAL
                      else OP_UNIMP)
                else code)
      in \<lparr>opCode = op, rs = unat (drop_bit 21 value AND 0x1f), rt = unat (drop_bit 16 value AND 0x1f),
          rd = unat (drop_bit 11 value AND 0x1f), extra = ext\<rparr>)"

section \<open>Multiplication\<close>

text \<open>The main loop of \<open>Mult\<close>, with the number of iterations left.\<close>

primrec Mult_loop ::
  "nat \<Rightarrow> 32 word \<Rightarrow> 32 word \<Rightarrow> 32 word \<Rightarrow> 32 word \<Rightarrow> 32 word \<Rightarrow> 32 word \<times> 32 word" where
  "Mult_loop 0 a bLo bHi lo hi = (hi, lo)"
| "Mult_loop (Suc n) a bLo bHi lo hi =
     (let odd_a = (a AND 1 \<noteq> 0);
          lo' = (if odd_a then lo + bLo else lo);
          hi' = (if odd_a then (if lo' < bLo then hi + 1 else hi) + bHi else hi)
      in if odd_a \<and> a AND 0xfffffffe = 0 then (hi', lo')
         else Mult_loop n (signed_drop_bit 1 a) (push_bit 1 bLo)
                (if bLo AND 0x80000000 \<noteq> 0 then push_bit 1 bHi OR 1 else push_bit 1 bHi) lo' hi')"

definition Mult :: "32 word \<Rightarrow> 32 word \<Rightarrow> bool \<Rightarrow> 32 word \<times> 32 word" where
  "Mult a b signedArith =
     (if a = 0 \<or> b = 0 then (0, 0)
      else let a_neg = (signedArith \<and> sint a < 0);
               b_neg = (signedArith \<and> sint b < 0);
               negative = (a_neg \<noteq> b_neg);
               (hi, lo) = Mult_loop 32 (if a_neg then - a else a) (if b_neg then - b else b) 0 0 0
           in if negative
              then (let lo' = NOT lo + 1 in (if lo' = 0 then NOT hi + 1 else NOT hi, lo'))
              else (hi, lo))"

section \<open>Executing one instruction\<close>

definition reg :: "'k Machine_scheme \<Rightarrow> nat \<Rightarrow> 32 word" where
  "reg m r = registers m ! r"

definition set_reg :: "'k Machine_scheme \<Rightarrow> nat \<Rightarrow> 32 word \<Rightarrow> 'k Machine_scheme" where
  "set_reg m r v = m\<lparr>registers := (registers m)[r := v]\<rparr>"

datatype 'm step = Return 'm | Continue 'm "32 word" nat "32 word"

definition trap :: "'k handler \<Rightarrow> 'k Machine_scheme \<Rightarrow> ExceptionType \<Rightarrow> 32 word
    \<Rightarrow> 'k Machine_scheme step result" where
  "trap h m x badVAddr = rbind (RaiseException h m x badVAddr) (\<lambda>m. Ok (Return m))"

definition with_read :: "'k handler \<Rightarrow> 'k Machine_scheme \<Rightarrow> 32 word \<Rightarrow> int
    \<Rightarrow> ('k Machine_scheme \<Rightarrow> 32 word \<Rightarrow> 'k Machine_scheme step result)
    \<Rightarrow> 'k Machine_scheme step result" where
  "with_read h m a sz k =
     rbind (ReadMem h m a sz) (\<lambda>(r, m). case r of None \<Rightarrow> Ok (Return m) | Some v \<Rightarrow> k m v)"

definition with_write :: "'k handler \<Rightarrow> 'k Machine_scheme \<Rightarrow> 32 word \<Rightarrow> int \<Rightarrow> 32 word \<Rightarrow> 32 word
    \<Rightarrow> 'k Machine_scheme step result" where
  "with_write h m a sz v pcAfter =
     rbind (WriteMem h m a sz v) (\<lambda>(ok, m). Ok (if ok then Continue m pcAfter 0 0 else Return m))"

text \<open>The cases from \<open>OP_SYSCALL\<close> to the end of the switch.\<close>

definition exec_trap :: "'k handler \<Rightarrow> Instruction \<Rightarrow> 'k Machine_scheme \<Rightarrow> 32 word
    \<Rightarrow> 'k Machine_scheme step result" where
  "exec_trap h i m pcAfter =
     (let c = opCode i in
      if c = OP_SYSCALL then trap h m SyscallException 0
      else if c = OP_XOR
      then Ok (Continue (set_reg m (rd i) (reg m (rs i) XOR reg m (rt i))) pcAfter 0 0)
      else if c = OP_XORI
      then Ok (Continue (set_reg m (rt i) (reg m (rs i) XOR (extra i AND 0xffff))) pcAfter 0 0)
      else if c = OP_RES \<or> c = OP_UNIMP then trap h m IllegalInstrException 0
      else Fault AssertFailed)"

text \<open>\<open>OP_SW\<close>, \<open>OP_SWL\<close> and \<open>OP_SWR\<close>. The merged words of the unaligned stores come first.\<close>

definition swl_value :: "32 word \<Rightarrow> 32 word \<Rightarrow> 32 word \<Rightarrow> 32 word" where
  "swl_value byte value r =
     (let k = 3 - byte in
      if k = 0 then r
      else if k = 1 then (value AND 0xff000000) OR (signed_drop_bit 8 r AND 0xffffff)
      else if k = 2 then (value AND 0xffff0000) OR (signed_drop_bit 16 r AND 0xffff)
      else if k = 3 then (value AND 0xffffff00) OR (signed_drop_bit 24 r AND 0xff)
      else value)"

definition swr_value :: "32 word \<Rightarrow> 32 word \<Rightarrow> 32 word \<Rightarrow> 32 word" where
  "swr_value byte value r =
     (let k = 3 - byte in
      if k = 0 then (value AND 0xffffff) OR push_bit 24 r
      else if k = 1 then (value AND 0xffff) OR push_bit 16 r
      else if k = 2 then (value AND 0xff) OR push_bit 8 r
      else if k = 3 then r
      else value)"

definition exec_store :: "'k handler \<Rightarrow> Instruction \<Rightarrow> 'k Machine_scheme \<Rightarrow> 32 word
    \<Rightarrow> 'k Machine_scheme step result" where
  "exec_store h i m pcAfter =
     (let c = opCode i; tmp = reg m (rs i) + extra i; byte = tmp AND 3 in
      if c = OP_SW then with_write h m tmp 4 (reg m (rt i)) pcAfter
      else if c = OP_SWL
      then with_read h m (tmp - byte) 4 (\<lambda>m value.
             with_write h m (tmp - byte) 4 (swl_value byte value (reg m (rt i))) pcAfter)
      else if c = OP_SWR
      then with_read h m (tmp - byte) 4 (\<lambda>m value.
             with_write h m (tmp - byte) 4 (swr_value byte value (reg m (rt i))) pcAfter)
      else exec_trap h i m pcAfter)"

text \<open>The cases from \<open>OP_MFHI\<close> to \<open>OP_SUBU\<close>.\<close>

definition exec_shift :: "'k handler \<Rightarrow> Instruction \<Rightarrow> 'k Machine_scheme \<Rightarrow> 32 word
    \<Rightarrow> 'k Machine_scheme step result" where
  "exec_shift h i m pcAfter =
     (let c = opCode i; a = reg m (rs i); b = reg m (rt i); x = extra i;
          to_rd = (\<lambda>v. Ok (Continue (set_reg m (rd i) v) pcAfter 0 0));
          to_rt = (\<lambda>v. Ok (Continue (set_reg m (rt i) v) pcAfter 0 0))
      in
      if c = OP_SLL then to_rd (push_bit (unat x) b)
      else if c = OP_SLLV then to_rd (push_bit (unat (a AND 0x1f)) b)
      else if c = OP_SLT then to_rd (if sint a < sint b then 1 else 0)
      else if c = OP_SLTI then to_rt (if sint a < sint x then 1 else 0)
      else if c = OP_SLTIU then to_rt (if a < x then 1 else 0)
      else if c = OP_SLTU then to_rd (if a < b then 1 else 0)
      else if c = OP_SRA then to_rd (signed_drop_bit (unat x) b)
      else if c = OP_SRAV then to_rd (signed_drop_bit (unat (a AND 0x1f)) b)
      else if c = OP_SRL then to_rd (signed_drop_bit (unat x) b)
      else if c = OP_SRLV then to_rd (signed_drop_bit (unat (a AND 0x1f)) b)
      else if c = OP_SUB
      then (let diff = a - b in
            if (a XOR b) AND SIGN_BIT \<noteq> 0 \<and> (a XOR diff) AND SIGN_BIT \<noteq> 0
            then trap h m OverflowException 0
            else to_rd diff)
      else if c = OP_SUBU then to_rd (a - b)
      else exec_store h i m pcAfter)"

definition exec_move :: "'k handler \<Rightarrow> Instruction \<Rightarrow> 'k Machine_scheme \<Rightarrow> 32 word
    \<Rightarrow> 'k Machine_scheme step result" where
  "exec_move h i m pcAfter =
     (let c = opCode i; a = reg m (rs i); b = reg m (rt i);
          to = (\<lambda>r v. Ok (Continue (set_reg m r v) pcAfter 0 0));
          mult = (\<lambda>sgn. let (hi, lo) = Mult a b sgn in
                   Ok (Continue (set_reg (set_reg m HiReg hi) LoReg lo) pcAfter 0 0))
      in
      if c = OP_MFHI then to (rd i) (reg m HiReg)
      else if c = OP_MFLO then to (rd i) (reg m LoReg)
      else if c = OP_MTHI then to HiReg a
      else if c = OP_MTLO then to LoReg a
      else if c = OP_MULT then mult True
      else if c = OP_MULTU then mult False
      else if c = OP_NOR then to (rd i) (NOT (a OR b))
      else if c = OP_OR then to (rd i) (a OR b)
      else if c = OP_ORI then to (rt i) (a OR (extra i AND 0xffff))
      else if c = OP_SB then with_write h m (a + extra i) 1 b pcAfter
      else if c = OP_SH then with_write h m (a + extra i) 2 b pcAfter
      else exec_shift h i m pcAfter)"

text \<open>\<open>OP_LWL\<close> and \<open>OP_LWR\<close>.\<close>

definition lwl_value :: "32 word \<Rightarrow> 32 word \<Rightarrow> 32 word \<Rightarrow> 32 word" where
  "lwl_value byte value old =
     (let k = 3 - byte in
      if k = 0 then value
      else if k = 1 then (old AND 0xff) OR push_bit 8 value
      else if k = 2 then (old AND 0xffff) OR push_bit 16 value
      else if k = 3 then (old AND 0xffffff) OR push_bit 24 value
      else old)"

definition lwr_value :: "32 word \<Rightarrow> 32 word \<Rightarrow> 32 word \<Rightarrow> 32 word" where
  "lwr_value byte value old =
     (let k = 3 - byte in
      if k = 0 then (old AND 0xffffff00) OR (signed_drop_bit 24 value AND 0xff)
      else if k = 1 then (old AND 0xffff0000) OR (signed_drop_bit 16 value AND 0xffff)
      else if k = 2 then (old AND 0xff000000) OR (signed_drop_bit 8 value AND 0xffffff)
      else if k = 3 then value
      else old)"

definition exec_unaligned :: "'k handler \<Rightarrow> Instruction \<Rightarrow> 'k Machine_scheme \<Rightarrow> 32 word
    \<Rightarrow> 'k Machine_scheme step result" where
  "exec_unaligned h i m pcAfter =
     (let c = opCode i; tmp = reg m (rs i) + extra i; byte = tmp AND 3;
          old = (\<lambda>m. if reg m LoadReg = of_nat (rt i) then reg m LoadValueReg else reg m (rt i))
      in
      if c = OP_LWL
      then with_read h m (tmp - byte) 4 (\<lambda>m value.
             Ok (Continue m pcAfter (rt i) (lwl_value byte value (old m))))
      else if c = OP_LWR
      then with_read h m (tmp - byte) 4 (\<lambda>m value.
             Ok (Continue m pcAfter (rt i) (lwr_value byte value (old m))))
      else exec_move h i m pcAfter)"

text \<open>\<open>OP_LB\<close>, \<open>OP_LBU\<close>, \<open>OP_LH\<close>, \<open>OP_LHU\<close>, \<open>OP_LUI\<close> and \<open>OP_LW\<close>.\<close>

definition exec_load :: "'k handler \<Rightarrow> Instruction \<Rightarrow> 'k Machine_scheme \<Rightarrow> 32 word
    \<Rightarrow> 'k Machine_scheme step result" where
  "exec_load h i m pcAfter =
     (let c = opCode i; tmp = reg m (rs i) + extra i in
      if c = OP_LB \<or> c = OP_LBU
      then with_read h m tmp 1 (\<lambda>m value.
             Ok (Continue m pcAfter (rt i)
               (if value AND 0x80 \<noteq> 0 \<and> c = OP_LB then value OR 0xffffff00 else value AND 0xff)))
      else if c = OP_LH \<or> c = OP_LHU
      then if tmp AND 1 \<noteq> 0 then trap h m AddressErrorException tmp
           else with_read h m tmp 2 (\<lambda>m value.
             Ok (Continue m pcAfter (rt i)
               (if value AND 0x8000 \<noteq> 0 \<and> c = OP_LH then value OR 0xffff0000 else value AND 0xffff)))
      else if c = OP_LUI
      then Ok (Continue (set_reg m (rt i) (push_bit 16 (extra i))) pcAfter 0 0)
      else if c = OP_LW
      then if tmp AND 3 \<noteq> 0 then trap h m AddressErrorException tmp
           else with_read h m tmp 4 (\<lambda>m value. Ok (Continue m pcAfter (rt i) value))
      else exec_unaligned h i m pcAfter)"

text \<open>Branches and jumps; the linking forms write the link register before they test.\<close>

definition exec_branch :: "'k handler \<Rightarrow> Instruction \<Rightarrow> 'k Machine_scheme \<Rightarrow> 32 word
    \<Rightarrow> 'k Machine_scheme step result" where
  "exec_branch h i m pcAfter =
     (let c = opCode i;
          branch = (\<lambda>m cond. Ok (Continue m
             (if cond then reg m NextPCReg + IndexToAddr (extra i) else pcAfter) 0 0));
          link = (\<lambda>r. set_reg m r (reg m NextPCReg + 4))
      in
      if c = OP_BEQ then branch m (reg m (rs i) = reg m (rt i))
      else if c = OP_BGEZAL
      then let m' = link RetAddrReg in branch m' (reg m' (rs i) AND SIGN_BIT = 0)
      else if c = OP_BGEZ then branch m (reg m (rs i) AND SIGN_BIT = 0)
      else if c = OP_BGTZ then branch m (0 < sint (reg m (rs i)))
      else if c = OP_BLEZ then branch m (sint (reg m (rs i)) \<le> 0)
      else if c = OP_BLTZAL
      then let m' = link RetAddrReg in branch m' (reg m' (rs i) AND SIGN_BIT \<noteq> 0)
      else if c = OP_BLTZ then branch m (reg m (rs i) AND SIGN_BIT \<noteq> 0)
      else if c = OP_BNE then branch m (reg m (rs i) \<noteq> reg m (rt i))
      else if c = OP_JAL
      then Ok (Continue (link RetAddrReg) ((pcAfter AND 0xf0000000) OR IndexToAddr (extra i)) 0 0)
      else if c = OP_J
      then Ok (Continue m ((pcAfter AND 0xf0000000) OR IndexToAddr (extra i)) 0 0)
      else if c = OP_JALR
      then let m' = link (rd i) in Ok (Continue m' (reg m' (rs i)) 0 0)
      else if c = OP_JR then Ok (Continue m (reg m (rs i)) 0 0)
      else exec_load h i m pcAfter)"

text \<open>
  The first cases: additions, \<open>AND\<close> and the divisions. The host's signed division traps on the one
  quotient that does not fit.
\<close>

definition exec_arith :: "'k handler \<Rightarrow> Instruction \<Rightarrow> 'k Machine_scheme \<Rightarrow> 32 word
    \<Rightarrow> 'k Machine_scheme step result" where
  "exec_arith h i m pcAfter =
     (let c = opCode i; a = reg m (rs i); b = reg m (rt i); x = extra i;
          to = (\<lambda>r v. Ok (Continue (set_reg m r v) pcAfter 0 0));
          lo_hi = (\<lambda>lo hi. Ok (Continue (set_reg (set_reg m LoReg lo) HiReg hi) pcAfter 0 0))
      in
      if c = OP_ADD
      then (let sum = a + b in
            if (a XOR b) AND SIGN_BIT = 0 \<and> (a XOR sum) AND SIGN_BIT \<noteq> 0
            then trap h m OverflowException 0 else to (rd i) sum)
      else if c = OP_ADDI
      then (let sum = a + x in
            if (a XOR x) AND SIGN_BIT = 0 \<and> (x XOR sum) AND SIGN_BIT \<noteq> 0
            then trap h m OverflowException 0 else to (rt i) sum)
      else if c = OP_ADDIU then to (rt i) (a + x)
      else if c = OP_ADDU then to (rd i) (a + b)
      else if c = OP_AND then to (rd i) (a AND b)
      else if c = OP_ANDI then to (rt i) (a AND (x AND 0xffff))
      else if c = OP_DIV
      then if b = 0 then lo_hi 0 0
           else if sint a = - (2 ^ 31) \<and> b = -1 then Fault DivideTrap
           else lo_hi (word_of_int (sint a sdiv sint b)) (word_of_int (sint a smod sint b))
      else if c = OP_DIVU
      then if b = 0 then lo_hi 0 0 else lo_hi (a div b) (a mod b)
      else exec_branch h i m pcAfter)"

definition advance :: "'k Machine_scheme \<Rightarrow> 32 word \<Rightarrow> 'k Machine_scheme" where
  "advance m pcAfter =
     (let m = set_reg m PrevPCReg (reg m PCReg); m = set_reg m PCReg (reg m NextPCReg)
      in set_reg m NextPCReg pcAfter)"

definition OneInstruction :: "'k handler \<Rightarrow> 'k Machine_scheme \<Rightarrow> 'k Machine_scheme result" where
  "OneInstruction h m =
     rbind (ReadMem h m (reg m PCReg) 4) (\<lambda>(r, m).
     case r of
       None \<Rightarrow> Ok m
     | Some raw \<Rightarrow>
         rbind (exec_arith h (Decode raw) m (reg m NextPCReg + 4)) (\<lambda>s.
         case s of
           Return m \<Rightarrow> Ok m
         | Continue m pcAfter nextLoadReg nextLoadValue \<Rightarrow>
             rbind (DelayedLoad m (of_nat nextLoadReg) nextLoadValue) (\<lambda>m.
             Ok (advance m pcAfter))))"

lemmas exec_defs = exec_arith_def exec_branch_def exec_load_def exec_unaligned_def exec_move_def
  exec_shift_def exec_store_def exec_trap_def

section \<open>The product is exact\<close>

text \<open>The 64-bit value of a register pair.\<close>

definition dword :: "32 word \<Rightarrow> 32 word \<Rightarrow> 64 word" where
  "dword hi lo = word_of_int (uint hi * 2 ^ 32 + uint lo)"

lemma dword_0 [simp]: "dword 0 lo = ucast lo"
  by (simp add: dword_def)

lemma add_carry:
  fixes x y :: "32 word"
  shows "x + y < y \<longleftrightarrow> 2 ^ 32 \<le> uint x + uint y"
    "uint (x + y) = uint x + uint y - (if x + y < y then 2 ^ 32 else 0)"
proof -
  have b: "uint x < 2 ^ 32" "uint y < 2 ^ 32" using uint_lt2p [of x] uint_lt2p [of y] by simp_all
  have u: "uint (x + y) = (if uint x + uint y < 2 ^ 32 then uint x + uint y else uint x + uint y - 2 ^ 32)"
    by (simp add: uint_plus_if_size word_size)
  show c: "x + y < y \<longleftrightarrow> 2 ^ 32 \<le> uint x + uint y"
    using b u uint_ge_0 [of x] unfolding word_less_def by (auto split: if_splits)
  show "uint (x + y) = uint x + uint y - (if x + y < y then 2 ^ 32 else 0)"
    using u unfolding c by auto
qed

lemma dword_hi: "dword (word_of_int h) lo = word_of_int (h * 2 ^ 32 + uint lo)"
proof -
  have "take_bit 64 (push_bit 32 (take_bit 32 h)) = take_bit 64 (push_bit 32 h)"
    by (simp add: take_bit_push_bit)
  then have "(word_of_int (take_bit 32 h * 2 ^ 32) :: 64 word) = word_of_int (h * 2 ^ 32)"
    unfolding word_of_int_eq_iff by (simp add: push_bit_eq_mult)
  then have "(word_of_int (take_bit 32 h * 2 ^ 32 + uint lo) :: 64 word) = word_of_int (h * 2 ^ 32 + uint lo)"
    by (simp only: of_int_add)
  then show ?thesis by (simp add: dword_def unsigned_of_int)
qed

lemma dword_add:
  "dword ((if lo + bLo < bLo then hi + 1 else hi) + bHi) (lo + bLo) = dword hi lo + dword bHi bLo"
proof -
  let ?c = "if lo + bLo < bLo then 1 else 0 :: int"
  have "(if lo + bLo < bLo then hi + 1 else hi) + bHi = word_of_int (uint hi + ?c + uint bHi)"
    by simp
  then have "dword ((if lo + bLo < bLo then hi + 1 else hi) + bHi) (lo + bLo)
      = word_of_int ((uint hi + ?c + uint bHi) * 2 ^ 32 + uint (lo + bLo))"
    by (simp only: dword_hi)
  also have "(uint hi + ?c + uint bHi) * 2 ^ 32 + uint (lo + bLo)
      = (uint hi * 2 ^ 32 + uint lo) + (uint bHi * 2 ^ 32 + uint bLo)"
    unfolding add_carry(2) by (simp add: algebra_simps)
  finally show ?thesis unfolding dword_def by simp
qed

lemma sign_carry: "x AND 0x80000000 \<noteq> 0 \<longleftrightarrow> x + x < x" for x :: "32 word"
proof -
  have s: "(0x80000000 :: 32 word) = push_bit 31 1" by simp
  have ux: "uint x < 2 ^ 32" "0 \<le> uint x" using uint_lt2p [of x] by simp_all
  have "x AND 0x80000000 \<noteq> 0 \<longleftrightarrow> bit (uint x) 31"
    unfolding s bit_iff_and_push_bit_not_eq_0 [symmetric] by (simp add: bit_uint_iff)
  also have "\<dots> \<longleftrightarrow> 2 ^ 31 \<le> uint x"
  proof -
    have "uint x div 2 ^ 31 = (if 2 ^ 31 \<le> uint x then 1 else 0)"
      using ux int_div_pos_eq [of "uint x" "2 ^ 31" 1 "uint x - 2 ^ 31"]
      by (simp add: div_pos_pos_trivial)
    then show ?thesis by (simp add: bit_iff_odd)
  qed
  also have "\<dots> \<longleftrightarrow> x + x < x"
    unfolding add_carry(1) by simp
  finally show ?thesis .
qed

lemma odd_word: "a AND 1 \<noteq> 0 \<longleftrightarrow> odd (uint a)" for a :: "32 word"
proof -
  have "bit (uint a) 0 \<longleftrightarrow> bit a 0" unfolding bit_uint_iff by simp
  then have "odd (uint a) \<longleftrightarrow> odd a" unfolding bit_0 .
  then show ?thesis by (simp add: and_one_eq mod_2_eq_odd)
qed

lemma only_low_bit:
  fixes a :: "32 word"
  assumes "a AND 1 \<noteq> 0" "a AND 0xfffffffe = 0"
  shows "a = 1"
proof -
  have n: "(0xfffffffe :: 32 word) = NOT 1" by simp
  have "a = (a AND 1) OR (a AND NOT 1)" by (intro bit_word_eqI) (auto simp: bit_simps)
  with assms n have "a = a AND 1" by simp
  moreover have "a AND 1 = 1" using assms(1) by (simp add: and_one_eq mod_2_eq_odd split: if_splits)
  ultimately show ?thesis by simp
qed

lemma shift_low_bits:
  fixes a :: "32 word"
  assumes "n \<le> 31"
  shows "take_bit n (uint (signed_drop_bit 1 a)) = take_bit n (uint a div 2)"
proof -
  have d: "uint a div 2 = drop_bit 1 (uint a)" by (simp add: drop_bit_eq_div)
  show ?thesis unfolding d
    by (rule bit_eqI) (use assms in \<open>auto simp: bit_simps bit_uint_iff bit_signed_drop_bit_iff\<close>)
qed

lemma dword_shift:
  "dword (if bLo AND 0x80000000 \<noteq> 0 then push_bit 1 bHi OR 1 else push_bit 1 bHi) (push_bit 1 bLo)
    = 2 * dword bHi bLo"
proof -
  have b: "bLo AND 0x80000000 \<noteq> 0 \<longleftrightarrow> bLo + bLo < bLo"
    by (rule sign_carry)
  have "push_bit 1 bHi OR 1 = bHi + 1 + bHi"
    by (simp add: or_one_eq push_bit_eq_mult)
  then have "(if bLo AND 0x80000000 \<noteq> 0 then push_bit 1 bHi OR 1 else push_bit 1 bHi)
      = (if bLo + bLo < bLo then bHi + 1 else bHi) + bHi"
    unfolding b by (simp add: push_bit_eq_mult)
  moreover have "push_bit 1 bLo = bLo + bLo" by (simp add: push_bit_eq_mult)
  ultimately show ?thesis using dword_add [of bLo bLo bHi bHi] by (simp only: mult_2)
qed

lemma Mult_loop_correct:
  assumes "n \<le> 32"
  shows "(case Mult_loop n a bLo bHi lo hi of (h, l) \<Rightarrow> dword h l)
    = dword hi lo + dword bHi bLo * word_of_int (take_bit n (uint a))"
  using assms
proof (induction n arbitrary: a bLo bHi lo hi)
  case 0
  then show ?case by simp
next
  case (Suc n)
  let ?odd = "a AND 1 \<noteq> 0"
  let ?lo = "if ?odd then lo + bLo else lo"
  let ?hi = "if ?odd then (if ?lo < bLo then hi + 1 else hi) + bHi else hi"
  have odd: "?odd \<longleftrightarrow> odd (uint a)" 
    by (rule odd_word)
  have acc: "dword ?hi ?lo = dword hi lo + dword bHi bLo * (if ?odd then 1 else 0)"
    by (simp add: dword_add)
  have tb: "take_bit (Suc n) (uint a) = (if ?odd then 1 else 0) + 2 * take_bit n (uint a div 2)"
    unfolding odd take_bit_Suc by (simp add: mod_2_eq_odd)
  show ?case
  proof (cases "?odd \<and> a AND 0xfffffffe = 0")
    case True
    then have "a = 1" by (simp add: only_low_bit)
    then show ?thesis using True acc by (simp add: Let_def)
  next
    case False
    have "take_bit n (uint (signed_drop_bit 1 a)) = take_bit n (uint a div 2)"
      by (rule shift_low_bits) (use Suc.prems in simp)
    moreover have "Mult_loop (Suc n) a bLo bHi lo hi = Mult_loop n (signed_drop_bit 1 a) (push_bit 1 bLo)
        (if bLo AND 0x80000000 \<noteq> 0 then push_bit 1 bHi OR 1 else push_bit 1 bHi) ?lo ?hi"
      unfolding Mult_loop.simps Let_def if_not_P [OF False] by (rule refl)
    moreover have "n \<le> 32" using Suc.prems by simp
    ultimately show ?thesis
      unfolding tb by (simp only: Suc.IH acc dword_shift) (simp add: algebra_simps)
  qed
qed

lemma dword_negate:
  "dword (if NOT lo + 1 = 0 then NOT hi + 1 else NOT hi) (NOT lo + 1) = - dword hi lo"
proof -
  have z: "NOT lo + 1 < 1 \<longleftrightarrow> NOT lo + 1 = 0" by (simp add: word_less_1)
  have n: "uint (NOT x) = 2 ^ 32 - 1 - uint x" for x :: "32 word"
  proof -
    have "take_bit 32 (uint x) = uint x" using uint_lt2p [of x] by (simp add: take_bit_int_eq_self)
    then show ?thesis by (simp add: unsigned_not_eq take_bit_not_eq_mask_diff mask_eq_exp_minus_1)
  qed
  have "dword (if NOT lo + 1 = 0 then NOT hi + 1 else NOT hi) (NOT lo + 1) = dword (NOT hi) (NOT lo) + 1"
    using dword_add [of "NOT lo" 1 "NOT hi" 0] unfolding z by simp
  also have "dword (NOT hi) (NOT lo) = word_of_int (2 ^ 64 - 1 - (uint hi * 2 ^ 32 + uint lo))"
    unfolding dword_def n by (simp add: algebra_simps)
  also have "\<dots> + 1 = - dword hi lo" by (simp add: dword_def)
  finally show ?thesis .
qed

lemma uint_neg: "sint a < 0 \<Longrightarrow> uint (- a) = - sint a" for a :: "32 word"
proof -
  assume "sint a < 0"
  moreover have "- (2 ^ 31) \<le> sint a" using sint_ge [of a] by simp
  ultimately have "take_bit 32 (- sint a) = - sint a" by (simp add: take_bit_int_eq_self)
  moreover have "uint (word_of_int (- sint a) :: 32 word) = take_bit 32 (- sint a)"
    unfolding unsigned_of_int by simp
  ultimately show ?thesis by simp
qed

lemma uint_pos: "\<not> sint x < 0 \<Longrightarrow> uint x = sint x" for x :: "32 word"
proof -
  assume "\<not> sint x < 0"
  moreover have "sint x < 2 ^ 31" using sint_lt [of x] by simp
  ultimately have "take_bit 32 (sint x) = sint x" by (simp add: take_bit_int_eq_self)
  moreover have "uint (word_of_int (sint x) :: 32 word) = take_bit 32 (sint x)"
    unfolding unsigned_of_int by simp
  ultimately show ?thesis by simp
qed

lemma Mult_loop_32:
  "(case Mult_loop 32 a b 0 0 0 of (h, l) \<Rightarrow> dword h l) = word_of_int (uint a * uint b)"
proof -
  have "take_bit 32 (uint a) = uint a" using uint_lt2p [of a] by (simp add: take_bit_int_eq_self)
  then show ?thesis using Mult_loop_correct [of 32 a b 0 0 0] by (simp add: dword_def mult.commute)
qed

lemma Mult_product:
  "(case Mult a b signedArith of (hi, lo) \<Rightarrow> dword hi lo)
    = (if signedArith then word_of_int (sint a * sint b) else word_of_int (uint a * uint b))"
proof (cases "a = 0 \<or> b = 0")
  case True
  then show ?thesis by (auto simp: Mult_def)
next
  case nz: False
  let ?a = "if signedArith \<and> sint a < 0 then - a else a"
  let ?b = "if signedArith \<and> sint b < 0 then - b else b"
  let ?n = "(signedArith \<and> sint a < 0) \<noteq> (signedArith \<and> sint b < 0)"
  obtain hi lo where l: "Mult_loop 32 ?a ?b 0 0 0 = (hi, lo)" by fastforce
  with Mult_loop_32 [of ?a ?b] have d: "dword hi lo = word_of_int (uint ?a * uint ?b)" by simp
  have "(case Mult a b signedArith of (hi, lo) \<Rightarrow> dword hi lo) = (if ?n then - dword hi lo else dword hi lo)"
    using nz l dword_negate [of lo hi] by (simp add: Mult_def Let_def) blast
  also have "\<dots> = word_of_int ((if ?n then -1 else 1) * (uint ?a * uint ?b))" unfolding d by (cases ?n) simp_all
  also have "(if ?n then -1 else 1) * (uint ?a * uint ?b)
      = (if signedArith then sint a * sint b else uint a * uint b)"
    using uint_neg [of a] uint_neg [of b] uint_pos [of a] uint_pos [of b] by (cases signedArith) auto
  finally show ?thesis by simp
qed
section \<open>Decoding\<close>

text \<open>The opcodes that the switch of \<open>OneInstruction\<close> has a case for.\<close>

definition implemented :: "nat \<Rightarrow> bool" where
  "implemented c \<longleftrightarrow> c \<in>
     {1, 2, 3, 4, 5, 6, 7, 8, 9, 10, 11, 12, 13, 14, 16, 17, 18, 19, 20, 21, 22, 23, 24,
     25, 26, 27, 28, 29, 31, 32, 34, 35, 36, 37, 38, 39, 40, 42, 43, 44, 45, 46, 47, 48,
     49, 50, 51, 52, 53, 54, 55, 56, 57, 58, 59, 60, 61, 62, 63}"

lemma opTable_codes:
  "length opTable = 64" "\<forall>(c, f) \<in> set opTable. c = SPECIAL \<or> c = BCOND \<or> implemented c"
  by (simp_all add: opTable_def implemented_def MaxOpcode_def)

lemma specialTable_codes: "length specialTable = 64" "\<forall>c \<in> set specialTable. implemented c"
  by (simp_all add: specialTable_def implemented_def MaxOpcode_def)

lemma unat_and_low:
  "unat (x AND 0x1f) < 32" "unat (x AND 0x3f) < 64" for x :: "32 word"
  using unat_and_mask [of x 5] unat_and_mask [of x 6] by (simp_all add: mask_eq_exp_minus_1)

lemma Decode_registers: "rs (Decode v) < 32" "rt (Decode v) < 32" "rd (Decode v) < 32"
  by (simp_all add: Decode_def unat_and_low split: prod.split)

lemma Decode_implemented: "implemented (opCode (Decode v))"
proof -
  obtain c f where e: "opTable ! unat (drop_bit 26 v AND 0x3f) = (c, f)" by fastforce
  then have "(c, f) \<in> set opTable"
    by (metis nth_mem opTable_codes(1) unat_and_low(2))
  then have c: "c = SPECIAL \<or> c = BCOND \<or> implemented c" using opTable_codes(2) by auto
  have "implemented (specialTable ! unat (v AND 0x3f))"
    using specialTable_codes unat_and_low(2) [of v] by simp
  with c e show ?thesis
    by (auto simp: Decode_def Let_def implemented_def MaxOpcode_def)
qed

section \<open>The simulator is safe\<close>

text \<open>
  A well-formed machine: forty registers with register 0 zero and the pending load aimed at a
  general register, physical memory of the right size, one translation table. Between the
  execution of an instruction and the delayed load behind it register 0 may hold anything
  (\<open>wf_machine0\<close>).
\<close>

definition wf_machine0 :: "'k Machine_scheme \<Rightarrow> bool" where
  "wf_machine0 m \<longleftrightarrow>
     wf_tables m \<and> length (registers m) = NumTotalRegs \<and> int (length (mainMemory m)) = MemorySize
     \<and> unat (registers m ! LoadReg) < 32"

definition wf_machine :: "'k Machine_scheme \<Rightarrow> bool" where
  "wf_machine m \<longleftrightarrow> wf_machine0 m \<and> registers m ! 0 = 0"

lemmas wf_machine_defs = wf_machine_def wf_machine0_def NumTotalRegs_def

text \<open>
  What the simulator relies on when it calls the kernel's exception handler: a handler that returns,
  returns with a well-formed machine. Halting and faults of the handler itself are not excluded.
\<close>

locale exception_handler =
  fixes h :: "'k handler"
  assumes keeps_wf: "wf_machine m \<Longrightarrow> h x m = Ok m' \<Longrightarrow> wf_machine m'"
begin

text \<open>
  An outcome is safe when it is a good value, or the division trap of the host, or a fault of the
  handler called on a well-formed machine.
\<close>

definition safe :: "('a \<Rightarrow> bool) \<Rightarrow> 'a result \<Rightarrow> bool" where
  "safe P r \<longleftrightarrow> (case r of Ok x \<Rightarrow> P x
     | Fault f \<Rightarrow> f = DivideTrap \<or> (\<exists>x m. wf_machine m \<and> h x m = Fault f))"

lemma safe_Ok [simp]: "safe P (Ok x) = P x"
  by (simp add: safe_def)

lemma safe_if: "(c \<Longrightarrow> safe P a) \<Longrightarrow> (\<not> c \<Longrightarrow> safe P b) \<Longrightarrow> safe P (if c then a else b)"
  by simp

lemma safe_bind: "safe Q r \<Longrightarrow> (\<And>x. Q x \<Longrightarrow> safe P (k x)) \<Longrightarrow> safe P (rbind r k)"
  by (cases r) (auto simp: safe_def)

definition step_ok :: "'k Machine_scheme step \<Rightarrow> bool" where
  "step_ok s = (case s of Return m \<Rightarrow> wf_machine m | Continue m pc r v \<Rightarrow> wf_machine0 m \<and> r < 32)"

lemma set_reg_wf0: "wf_machine0 m \<Longrightarrow> r < 37 \<Longrightarrow> wf_machine0 (set_reg m r v)"
  by (auto simp: wf_machine_defs set_reg_def wf_tables_def split: option.splits)

lemma DelayedLoad_wf:
  assumes "wf_machine0 m" "unat nr < 32"
  shows "\<exists>m'. DelayedLoad m nr nv = Ok m' \<and> wf_machine m'"
proof -
  have "sint (registers m ! LoadReg) = int (unat (registers m ! LoadReg))"
    using assms(1) by (intro sint_small) (simp add: wf_machine_defs)
  then have "DelayedLoad m nr nv = Ok (m\<lparr>registers :=
      (registers m)[unat (registers m ! LoadReg) := registers m ! LoadValueReg, LoadReg := nr,
        LoadValueReg := nv, 0 := 0]\<rparr>)"
    using assms(1) by (simp add: DelayedLoad_def arr_set_def wf_machine_defs del: of_nat_unat)
  with assms show ?thesis
    by (auto simp: wf_machine_defs wf_tables_def split: option.splits)
qed

lemma status_wf [simp]: "wf_machine (m\<lparr>status := s\<rparr>) = wf_machine m"
  by (auto simp: wf_machine_defs wf_tables_def split: option.splits)

lemma RaiseException_safe: "wf_machine m \<Longrightarrow> safe wf_machine (RaiseException h m x a)"
proof -
  assume "wf_machine m"
  then have "wf_machine0 (m\<lparr>registers := (registers m)[BadVAddrReg := a]\<rparr>)"
    by (auto simp: wf_machine_defs wf_tables_def split: option.splits)
  from DelayedLoad_wf [OF this, of 0 0] obtain m1 where
    m1: "DelayedLoad (m\<lparr>registers := (registers m)[BadVAddrReg := a]\<rparr>) 0 0 = Ok m1" "wf_machine m1"
    by auto
  show ?thesis
  proof (cases "h x (m1\<lparr>status := SystemMode\<rparr>)")
    case (Ok m2)
    with m1 keeps_wf [of "m1\<lparr>status := SystemMode\<rparr>" x m2] show ?thesis
      by (simp add: RaiseException_def)
  next
    case (Fault f)
    with m1 have "wf_machine (m1\<lparr>status := SystemMode\<rparr>) \<and> h x (m1\<lparr>status := SystemMode\<rparr>) = Fault f"
      by simp
    with m1 Fault show ?thesis by (auto simp: RaiseException_def safe_def)
  qed
qed

lemma set_entry_wf [simp]: "wf_machine (set_entry m i e) = wf_machine m"
  by (simp add: wf_machine_defs)

lemma memory_wf [simp]:
  "length mem = length (mainMemory m) \<Longrightarrow> wf_machine (m\<lparr>mainMemory := mem\<rparr>) = wf_machine m"
  by (simp add: wf_machine_defs)

lemma ReadMem_safe:
  assumes "wf_machine m" "sz \<in> {1, 2, 4}"
  shows "safe (\<lambda>(r, m'). wf_machine m') (ReadMem h m a sz)"
proof -
  have t: "wf_tables m" using assms(1) by (simp add: wf_machine_defs)
  from t assms(2) show ?thesis
  proof (cases rule: Translate_cases [where a = a and w = False])
    case (exception x)
    then show ?thesis
      using assms(1) by (auto simp: ReadMem_def intro!: safe_bind [OF RaiseException_safe])
  next
    case (address i p)
    with assms ReadMem_address [OF address(1) assms(2), of h] show ?thesis by simp
  qed
qed

lemma WriteMem_safe:
  assumes "wf_machine m" "sz \<in> {1, 2, 4}"
  shows "safe (\<lambda>(r, m'). wf_machine m') (WriteMem h m a sz v)"
proof -
  have t: "wf_tables m" using assms(1) by (simp add: wf_machine_defs)
  from t assms(2) show ?thesis
  proof (cases rule: Translate_cases [where a = a and w = True])
    case (exception x)
    then show ?thesis
      using assms(1) by (auto simp: WriteMem_def intro!: safe_bind [OF RaiseException_safe])
  next
    case (address i p)
    with assms WriteMem_address [OF address(1) assms(2), of h v] show ?thesis by simp
  qed
qed

lemma trap_safe: "wf_machine m \<Longrightarrow> safe step_ok (trap h m x a)"
  unfolding trap_def by (rule safe_bind [OF RaiseException_safe]) (simp_all add: step_ok_def)

lemma with_read_safe:
  assumes "wf_machine m" "sz \<in> {1, 2, 4}" "\<And>m v. wf_machine m \<Longrightarrow> safe step_ok (k m v)"
  shows "safe step_ok (with_read h m a sz k)"
  unfolding with_read_def
  by (rule safe_bind [OF ReadMem_safe [OF assms(1,2)]])
     (use assms(3) in \<open>auto simp: step_ok_def split: option.split\<close>)

lemma wf_machineD: "wf_machine m \<Longrightarrow> wf_machine0 m"
  by (simp add: wf_machine_def)

lemma with_write_safe:
  assumes "wf_machine m" "sz \<in> {1, 2, 4}"
  shows "safe step_ok (with_write h m a sz v pc)"
  unfolding with_write_def
  by (rule safe_bind [OF WriteMem_safe [OF assms]]) (auto simp: step_ok_def wf_machineD)

lemma Continue_safe: "wf_machine0 m \<Longrightarrow> r < 32 \<Longrightarrow> safe step_ok (Ok (Continue m pc r v))"
  by (simp add: step_ok_def)

lemma DivideTrap_safe: "safe P (Fault DivideTrap)"
  by (simp add: safe_def)

lemma case_prod_safe: "(\<And>x y. safe P (f x y)) \<Longrightarrow> safe P (case z of (x, y) \<Rightarrow> f x y)"
  by (simp split: prod.split)

lemmas exec_intros = safe_if trap_safe with_read_safe with_write_safe Continue_safe DivideTrap_safe
  case_prod_safe set_reg_wf0 wf_machineD

lemma exec_safe:
  assumes "wf_machine m" "implemented (opCode i)" "rs i < 32" "rt i < 32" "rd i < 32"
  shows "safe step_ok (exec_arith h i m pc)"
proof -
  have r: "rs i < 37" "rt i < 37" "rd i < 37" using assms by simp_all
  show ?thesis
    unfolding exec_defs Let_def
    by (intro exec_intros assms r)
       (use assms in \<open>simp_all add: implemented_def del: One_nat_def\<close>)
qed

lemma advance_wf: "wf_machine m \<Longrightarrow> wf_machine (advance m pc)"
  by (auto simp: advance_def Let_def set_reg_def wf_machine_defs wf_tables_def split: option.splits)

lemma OneInstruction_wf: "wf_machine m \<Longrightarrow> safe wf_machine (OneInstruction h m)"
proof -
  assume wf: "wf_machine m"
  have fin: "safe wf_machine (case s of Return m \<Rightarrow> Ok m
      | Continue m pc r v \<Rightarrow> rbind (DelayedLoad m (of_nat r) v) (\<lambda>m. Ok (advance m pc)))"
    if "step_ok s" for s
  proof (cases s)
    case (Continue m1 pc r v)
    with that have "wf_machine0 m1" "unat (of_nat r :: 32 word) < 32"
      by (auto simp: step_ok_def unat_of_nat)
    from DelayedLoad_wf [OF this, of v] Continue advance_wf show ?thesis by auto
  qed (use that in \<open>simp add: step_ok_def\<close>)
  have body: "safe wf_machine (case r of None \<Rightarrow> Ok m1 | Some raw \<Rightarrow>
      rbind (exec_arith h (Decode raw) m1 (reg m1 NextPCReg + 4)) (\<lambda>s. case s of Return m \<Rightarrow> Ok m
      | Continue m pc r v \<Rightarrow> rbind (DelayedLoad m (of_nat r) v) (\<lambda>m. Ok (advance m pc))))"
    if "wf_machine m1" for r m1
    using that
    by (cases r) (auto intro!: safe_bind [OF exec_safe] fin Decode_registers Decode_implemented)
  show ?thesis
    unfolding OneInstruction_def
    by (rule safe_bind [OF ReadMem_safe [OF wf]]) (use body in \<open>auto split: prod.split\<close>)
qed

text \<open>Any number of instructions.\<close>

primrec run :: "nat \<Rightarrow> 'k Machine_scheme \<Rightarrow> 'k Machine_scheme result" where
  "run 0 m = Ok m"
| "run (Suc n) m = rbind (OneInstruction h m) (run n)"

lemma run_wf: "wf_machine m \<Longrightarrow> safe wf_machine (run n m)"
  by (induction n arbitrary: m) (auto intro: safe_bind [OF OneInstruction_wf])

end

section \<open>Overflow\<close>

definition fits :: "int \<Rightarrow> bool" where
  "fits k \<longleftrightarrow> - (2 ^ 31) \<le> k \<and> k < 2 ^ 31"

lemma sign_bit: "x AND SIGN_BIT \<noteq> 0 \<longleftrightarrow> sint x < 0" for x :: "32 word"
proof -
  have s: "SIGN_BIT = push_bit 31 1" by (simp add: SIGN_BIT_def)
  show ?thesis
    unfolding s bit_iff_and_push_bit_not_eq_0 [symmetric] using bit_last_iff [of x] by simp
qed

lemma sign_xor: "(x XOR y) AND SIGN_BIT \<noteq> 0 \<longleftrightarrow> (sint x < 0) \<noteq> (sint y < 0)" for x y :: "32 word"
proof -
  have s: "SIGN_BIT = push_bit 31 1" by (simp add: SIGN_BIT_def)
  show ?thesis
    unfolding s bit_iff_and_push_bit_not_eq_0 [symmetric]
    using bit_last_iff [of x] bit_last_iff [of y] by (simp add: bit_xor_iff)
qed

lemma sint_range: "- (2 ^ 31) \<le> sint x" "sint x < 2 ^ 31" for x :: "32 word"
  using sint_ge [of x] sint_lt [of x] by simp_all

lemma wrapped:
  fixes z :: "32 word"
  assumes "sint z = signed_take_bit 31 k"
  shows "fits k \<Longrightarrow> sint z = k" "2 ^ 31 \<le> k \<Longrightarrow> k < 2 ^ 32 \<Longrightarrow> sint z < 0"
    "k < - (2 ^ 31) \<Longrightarrow> - (2 ^ 32) \<le> k \<Longrightarrow> 0 \<le> sint z"
proof -
  show "sint z = k" if "fits k" using assms that by (simp add: fits_def signed_take_bit_int_eq_self)
  show "sint z < 0" if "2 ^ 31 \<le> k" "k < 2 ^ 32"
  proof -
    have "sint z \<le> k - 2 ^ 32" using assms signed_take_bit_int_less_eq [OF that(1)] by simp
    with that(2) show ?thesis by linarith
  qed
  show "0 \<le> sint z" if "k < - (2 ^ 31)" "- (2 ^ 32) \<le> k"
  proof -
    have "k + 2 ^ 32 \<le> sint z" using assms signed_take_bit_int_greater_eq [OF that(1)] by simp
    with that(2) show ?thesis by linarith
  qed
qed

lemma add_overflow:
  "((a XOR b) AND SIGN_BIT = 0 \<and> (a XOR (a + b)) AND SIGN_BIT \<noteq> 0) \<longleftrightarrow> \<not> fits (sint a + sint b)"
  for a b :: "32 word"
proof -
  have "sint (a + b) = signed_take_bit 31 (sint a + sint b)" by (simp add: sint_word_add)
  note w = wrapped [OF this]
  consider "2 ^ 31 \<le> sint a + sint b" | "sint a + sint b < - (2 ^ 31)" | "fits (sint a + sint b)"
    by (force simp: fits_def)
  then show ?thesis
    using w sint_range [of a] sint_range [of b] sign_xor [of a b] sign_xor [of a "a + b"]
    by cases (auto simp: fits_def)
qed

lemma sub_overflow:
  "((a XOR b) AND SIGN_BIT \<noteq> 0 \<and> (a XOR (a - b)) AND SIGN_BIT \<noteq> 0) \<longleftrightarrow> \<not> fits (sint a - sint b)"
  for a b :: "32 word"
proof -
  have "sint (a - b) = signed_take_bit 31 (sint a - sint b)" by (simp add: sint_word_diff)
  note w = wrapped [OF this]
  consider "2 ^ 31 \<le> sint a - sint b" | "sint a - sint b < - (2 ^ 31)" | "fits (sint a - sint b)"
    by (force simp: fits_def)
  then show ?thesis
    using w sint_range [of a] sint_range [of b] sign_xor [of a b] sign_xor [of a "a - b"]
    by cases (auto simp: fits_def)
qed

section \<open>Properties\<close>

text \<open>The loop of \<open>Machine::Run\<close> without the clock, for a number of instructions.\<close>

primrec run_instructions :: "'k handler \<Rightarrow> nat \<Rightarrow> 'k Machine_scheme \<Rightarrow> 'k Machine_scheme result" where
  "run_instructions h 0 m = Ok m"
| "run_instructions h (Suc n) m = rbind (OneInstruction h m) (run_instructions h n)"

lemma one_page_wf_machine: "wf_machine (one_page ro)"
  by (simp add: wf_machine_defs one_page_wf) (simp add: one_page_def NumTotalRegs_def)

text \<open>C39: \<open>Mult\<close> leaves the exact 64-bit product in the high and low registers, for signed and for
  unsigned operands, the most negative numbers included.\<close>

theorem Mult_exact:
  "(case Mult a b signedArith of (hi, lo) \<Rightarrow> dword hi lo)
    = (if signedArith then word_of_int (sint a * sint b) else word_of_int (uint a * uint b))"
  by (rule Mult_product)



text \<open>The additions and the subtraction that check for overflow trap exactly when the signed
  result does not fit in 32 bits, and otherwise write that result to their destination; nothing is
  written when they trap.\<close>

theorem overflow_traps_exactly:
  "let a = sint (reg m (rs i)); b = sint (reg m (rt i)); x = sint (extra i);
       result = (\<lambda>r v. if fits v then Ok (Continue (set_reg m r (word_of_int v)) pc 0 0)
                       else trap h m OverflowException 0)
   in exec_arith h (i\<lparr>opCode := OP_ADD\<rparr>) m pc = result (rd i) (a + b)
    \<and> exec_arith h (i\<lparr>opCode := OP_ADDI\<rparr>) m pc = result (rt i) (a + x)
    \<and> exec_arith h (i\<lparr>opCode := OP_SUB\<rparr>) m pc = result (rd i) (a - b)"
proof -
  have ax: "((a XOR x) AND SIGN_BIT = 0 \<and> (x XOR (a + x)) AND SIGN_BIT \<noteq> 0) \<longleftrightarrow> \<not> fits (sint a + sint x)"
    for a x :: "32 word" using add_overflow [of x a] by (simp add: ac_simps)
  show ?thesis
    using add_overflow [of "reg m (rs i)" "reg m (rt i)"] ax [of "reg m (rs i)" "extra i"]
      sub_overflow [of "reg m (rs i)" "reg m (rt i)"]
    by (auto simp: exec_defs Let_def)
qed

text \<open>The logical right shifts are arithmetic: because \<open>OneInstruction\<close> shifts a signed variable,
  \<open>SRL\<close> and \<open>SRLV\<close> do exactly what \<open>SRA\<close> and \<open>SRAV\<close> do, so that shifting a negative register right
  fills it with ones instead of zeros.\<close>

theorem SRL_shifts_arithmetically:
  "exec_arith h (i\<lparr>opCode := OP_SRL\<rparr>) m pc = exec_arith h (i\<lparr>opCode := OP_SRA\<rparr>) m pc
   \<and> exec_arith h (i\<lparr>opCode := OP_SRLV\<rparr>) m pc = exec_arith h (i\<lparr>opCode := OP_SRAV\<rparr>) m pc
   \<and> signed_drop_bit 4 (0x80000000 :: 32 word) = 0xf8000000 \<and> drop_bit 4 (0x80000000 :: 32 word) = 0x08000000"
  by (simp add: exec_defs)

end
