(* ===== verification/Stub_FS.thy ===== *)
theory Stub_FS
  imports Prelude
begin

text \<open>
  The file system the kernel is built with (\<^verbatim>\<open>FILESYS_STUB\<close>): the classes \<open>OpenFile\<close> of
  \<^verbatim>\<open>filesys/openfile.h\<close>, \<open>OpenFileSocket\<close>, \<open>FileSlot\<close> and \<open>FileSystem\<close> of
  \<^verbatim>\<open>filesys/filesys.h\<close>, and the wrappers of \<^verbatim>\<open>lib/sysdep.cc\<close> they call.

  The host's system calls are not part of the repository. They are the record \<open>unix\<close>, an argument
  of every operation that reaches the host, over an arbitrary type \<open>'h\<close> of host states. What the
  properties rely on is written out as the hypothesis \<open>posix_files\<close>: the documented behaviour of
  seeking, reading and writing an open file.

  C strings are the bytes before their terminator.
\<close>

type_synonym bytes = "8 word list"

record 'h unix =
  u_open :: "bytes \<Rightarrow> bool \<Rightarrow> 'h \<Rightarrow> int \<times> 'h"
  u_read :: "int \<Rightarrow> int \<Rightarrow> 'h \<Rightarrow> (int \<times> bytes) \<times> 'h"
  u_write :: "int \<Rightarrow> bytes \<Rightarrow> 'h \<Rightarrow> int \<times> 'h"
  u_lseek :: "int \<Rightarrow> int \<Rightarrow> int \<Rightarrow> 'h \<Rightarrow> int \<times> 'h"
  u_close :: "int \<Rightarrow> 'h \<Rightarrow> int \<times> 'h"
  u_unlink :: "bytes \<Rightarrow> 'h \<Rightarrow> int \<times> 'h"
  u_socket :: "'h \<Rightarrow> int \<times> 'h"
  u_connect :: "int \<Rightarrow> bytes \<Rightarrow> int \<Rightarrow> 'h \<Rightarrow> int \<times> 'h"
  u_send :: "int \<Rightarrow> bytes \<Rightarrow> 'h \<Rightarrow> int \<times> 'h"
  u_recv :: "int \<Rightarrow> int \<Rightarrow> 'h \<Rightarrow> (int \<times> bytes) \<times> 'h"

section \<open>Wrappers of lib/sysdep.cc\<close>

definition OpenForWrite :: "'h unix \<Rightarrow> bytes \<Rightarrow> 'h \<Rightarrow> (int \<times> 'h) result" where
  "OpenForWrite U name h = (let (fd, h) = u_open U name True h in ASSERT (fd \<ge> 0) (Ok (fd, h)))"

definition OpenForReadWrite :: "'h unix \<Rightarrow> bytes \<Rightarrow> bool \<Rightarrow> 'h \<Rightarrow> (int \<times> 'h) result" where
  "OpenForReadWrite U name crashOnError h =
     (let (fd, h) = u_open U name False h in ASSERT (\<not> crashOnError \<or> fd \<ge> 0) (Ok (fd, h)))"

definition ReadPartial :: "'h unix \<Rightarrow> int \<Rightarrow> int \<Rightarrow> 'h \<Rightarrow> (int \<times> bytes) \<times> 'h" where
  "ReadPartial U fd nBytes h = u_read U fd nBytes h"

definition Read_all :: "'h unix \<Rightarrow> int \<Rightarrow> int \<Rightarrow> 'h \<Rightarrow> (bytes \<times> 'h) result" where
  "Read_all U fd nBytes h =
     (let ((retVal, data), h) = u_read U fd nBytes h in ASSERT (retVal = nBytes) (Ok (data, h)))"

definition WriteFile :: "'h unix \<Rightarrow> int \<Rightarrow> bytes \<Rightarrow> 'h \<Rightarrow> 'h result" where
  "WriteFile U fd buffer h =
     (let (retVal, h) = u_write U fd buffer h in ASSERT (retVal = int (length buffer)) (Ok h))"

definition Lseek :: "'h unix \<Rightarrow> int \<Rightarrow> int \<Rightarrow> int \<Rightarrow> 'h \<Rightarrow> 'h result" where
  "Lseek U fd offset whence h =
     (let (retVal, h) = u_lseek U fd offset whence h in ASSERT (retVal \<ge> 0) (Ok h))"

definition Tell :: "'h unix \<Rightarrow> int \<Rightarrow> 'h \<Rightarrow> int \<times> 'h" where
  "Tell U fd h = u_lseek U fd 0 1 h"

definition Close :: "'h unix \<Rightarrow> int \<Rightarrow> 'h \<Rightarrow> 'h result" where
  "Close U fd h = (let (retVal, h) = u_close U fd h in ASSERT (retVal \<ge> 0) (Ok h))"

definition Unlink :: "'h unix \<Rightarrow> bytes \<Rightarrow> 'h \<Rightarrow> bool \<times> 'h" where
  "Unlink U name h = (let (retVal, h) = u_unlink U name h in (retVal \<noteq> 0, h))"

definition OpenSocketInternet :: "'h unix \<Rightarrow> 'h \<Rightarrow> (int \<times> 'h) result" where
  "OpenSocketInternet U h = (let (sockID, h) = u_socket U h in ASSERT (sockID \<ge> 0) (Ok (sockID, h)))"

definition ConnectTCP :: "'h unix \<Rightarrow> int \<Rightarrow> bytes \<Rightarrow> int \<Rightarrow> 'h \<Rightarrow> int \<times> 'h" where
  "ConnectTCP U socketId ip port h = u_connect U socketId ip port h"

definition CloseSocket :: "'h unix \<Rightarrow> int \<Rightarrow> 'h \<Rightarrow> 'h" where
  "CloseSocket U sockID h = snd (u_close U sockID h)"

definition Send :: "'h unix \<Rightarrow> int \<Rightarrow> bytes \<Rightarrow> 'h \<Rightarrow> int \<times> 'h" where
  "Send U fd buffer h = u_send U fd buffer h"

definition Receive :: "'h unix \<Rightarrow> int \<Rightarrow> int \<Rightarrow> 'h \<Rightarrow> (int \<times> bytes) \<times> 'h" where
  "Receive U fd len h = u_recv U fd len h"

section \<open>OpenFile\<close>

text \<open>
  The constructors set different fields: \<open>otype\<close> is \<open>None\<close> and \<open>fName\<close> is \<open>Wild\<close> where the
  constructor leaves them unset.
\<close>

record OpenFile =
  otype :: "int option"
  fName :: "bytes ptr"
  ofile :: int
  currentOffset :: int
  fileDescriptorId :: int

definition OpenFile_id :: "int \<Rightarrow> int \<Rightarrow> OpenFile" where
  "OpenFile_id f fid = \<lparr>otype = None, fName = Wild, ofile = f, currentOffset = 0, fileDescriptorId = fid\<rparr>"

definition OpenFile_name :: "int \<Rightarrow> bytes \<Rightarrow> int \<Rightarrow> OpenFile" where
  "OpenFile_name f name fid =
     \<lparr>otype = None, fName = Ptr name, ofile = f, currentOffset = 0, fileDescriptorId = fid\<rparr>"

definition OpenFile_type :: "int \<Rightarrow> int \<Rightarrow> bytes \<Rightarrow> int \<Rightarrow> OpenFile" where
  "OpenFile_type f t name fid =
     \<lparr>otype = Some t, fName = Ptr name, ofile = f, currentOffset = 0, fileDescriptorId = fid\<rparr>"

definition OpenFile_delete :: "'h unix \<Rightarrow> OpenFile \<Rightarrow> 'h \<Rightarrow> 'h result" where
  "OpenFile_delete U f h = Close U (ofile f) h"

definition OpenFile_ReadAt :: "'h unix \<Rightarrow> OpenFile \<Rightarrow> int \<Rightarrow> int \<Rightarrow> 'h \<Rightarrow> ((int \<times> bytes) \<times> 'h) result"
where
  "OpenFile_ReadAt U f numBytes position h =
     rbind (Lseek U (ofile f) position 0 h) (\<lambda>h. Ok (ReadPartial U (ofile f) numBytes h))"

definition OpenFile_WriteAt :: "'h unix \<Rightarrow> OpenFile \<Rightarrow> bytes \<Rightarrow> int \<Rightarrow> 'h \<Rightarrow> (int \<times> 'h) result" where
  "OpenFile_WriteAt U f from position h =
     rbind (Lseek U (ofile f) position 0 h) (\<lambda>h.
     rbind (WriteFile U (ofile f) from h) (\<lambda>h. Ok (int (length from), h)))"

definition OpenFile_Read :: "'h unix \<Rightarrow> OpenFile \<Rightarrow> int \<Rightarrow> 'h \<Rightarrow> ((int \<times> bytes) \<times> OpenFile \<times> 'h) result"
where
  "OpenFile_Read U f numBytes h =
     rbind (OpenFile_ReadAt U f numBytes (currentOffset f) h) (\<lambda>((numRead, data), h).
     Ok ((numRead, data), f\<lparr>currentOffset := currentOffset f + numRead\<rparr>, h))"

definition OpenFile_Write :: "'h unix \<Rightarrow> OpenFile \<Rightarrow> bytes \<Rightarrow> 'h \<Rightarrow> (int \<times> OpenFile \<times> 'h) result" where
  "OpenFile_Write U f from h =
     rbind (OpenFile_WriteAt U f from (currentOffset f) h) (\<lambda>(numWritten, h).
     Ok (numWritten, f\<lparr>currentOffset := currentOffset f + numWritten\<rparr>, h))"

definition OpenFile_Length :: "'h unix \<Rightarrow> OpenFile \<Rightarrow> 'h \<Rightarrow> (int \<times> 'h) result" where
  "OpenFile_Length U f h = rbind (Lseek U (ofile f) 0 2 h) (\<lambda>h. Ok (Tell U (ofile f) h))"

definition OpenFile_GetCurrentPos :: "'h unix \<Rightarrow> OpenFile \<Rightarrow> 'h \<Rightarrow> int \<times> OpenFile \<times> 'h" where
  "OpenFile_GetCurrentPos U f h =
     (let (pos, h) = Tell U (ofile f) h in (pos, f\<lparr>currentOffset := pos\<rparr>, h))"

definition OpenFile_Seek :: "'h unix \<Rightarrow> OpenFile \<Rightarrow> int \<Rightarrow> 'h \<Rightarrow> (int \<times> OpenFile \<times> 'h) result" where
  "OpenFile_Seek U f position h =
     rbind (Lseek U (ofile f) position 0 h) (\<lambda>h.
     let (pos, h) = Tell U (ofile f) h in Ok (pos, f\<lparr>currentOffset := pos\<rparr>, h))"

section \<open>The descriptor table\<close>

definition MaxFileOpen :: int where "MaxFileOpen = 20"
definition reverseFD :: int where "reverseFD = 2"

text \<open>An \<open>OpenFileSocket\<close> is its descriptor.\<close>

record FileSlot =
  stype :: int
  fileOpen :: "OpenFile ptr"
  fileSocket :: "int ptr"

definition FileSlot_file :: "OpenFile ptr \<Rightarrow> FileSlot" where
  "FileSlot_file f = \<lparr>stype = 0, fileOpen = f, fileSocket = Null\<rparr>"

definition FileSlot_socket :: "int \<Rightarrow> FileSlot" where
  "FileSlot_socket fd = \<lparr>stype = 1, fileOpen = Null, fileSocket = Ptr fd\<rparr>"

definition FileSlot_delete :: "'h unix \<Rightarrow> FileSlot \<Rightarrow> 'h \<Rightarrow> 'h result" where
  "FileSlot_delete U s h =
     rbind (if fileOpen s = Null then Ok h
            else rbind (deref_ptr (fileOpen s)) (\<lambda>f. OpenFile_delete U f h)) (\<lambda>h.
     if fileSocket s = Null then Ok h
     else rbind (deref_ptr (fileSocket s)) (\<lambda>fd. Ok (CloseSocket U fd h)))"

record 'h FileSystem =
  fileSlot :: "FileSlot ptr list"
  host :: 'h

definition FS_Create :: "'h unix \<Rightarrow> bytes \<Rightarrow> 'h FileSystem \<Rightarrow> (bool \<times> 'h FileSystem) result" where
  "FS_Create U name fs =
     rbind (OpenForWrite U name (host fs)) (\<lambda>(fileDescriptor, h).
     if fileDescriptor = -1 then Ok (False, fs\<lparr>host := h\<rparr>)
     else rbind (Close U fileDescriptor h) (\<lambda>h. Ok (True, fs\<lparr>host := h\<rparr>)))"

text \<open>\<open>Open(name, type, fid)\<close>: null or a new \<open>OpenFile\<close>, not entered into the table.\<close>

definition FS_Open_type ::
  "'h unix \<Rightarrow> bytes \<Rightarrow> int \<Rightarrow> int \<Rightarrow> 'h FileSystem \<Rightarrow> (OpenFile ptr \<times> 'h FileSystem) result" where
  "FS_Open_type U name t fid fs =
     rbind (if t = 4 then OpenForWrite U name (host fs) else OpenForReadWrite U name False (host fs))
       (\<lambda>(fd, h).
     Ok (if fd = -1 then Null else Ptr (OpenFile_type fd t name fid), fs\<lparr>host := h\<rparr>))"

definition FS_Open_id ::
  "'h unix \<Rightarrow> bytes \<Rightarrow> int \<Rightarrow> 'h FileSystem \<Rightarrow> (OpenFile ptr \<times> 'h FileSystem) result" where
  "FS_Open_id U name fid fs =
     rbind (OpenForReadWrite U name False (host fs)) (\<lambda>(fd, h).
     Ok (if fd = -1 then Null else Ptr (OpenFile_id fd fid), fs\<lparr>host := h\<rparr>))"

function FindFreeSlot_from :: "FileSlot ptr list \<Rightarrow> int \<Rightarrow> int result" where
  "FindFreeSlot_from slots i =
     (if i < MaxFileOpen
      then rbind (arr_get slots i) (\<lambda>p. if p = Null then Ok i else FindFreeSlot_from slots (i + 1))
      else Ok (-1))"
  by pat_completeness auto
termination by (relation "measure (\<lambda>(slots, i). nat (MaxFileOpen - i))") auto

declare FindFreeSlot_from.simps [simp del]

definition FindFreeSlot :: "'h FileSystem \<Rightarrow> int result" where
  "FindFreeSlot fs = FindFreeSlot_from (fileSlot fs) reverseFD"

definition set_slot :: "int \<Rightarrow> FileSlot ptr \<Rightarrow> 'h FileSystem \<Rightarrow> 'h FileSystem result" where
  "set_slot i p fs = rbind (arr_set (fileSlot fs) i p) (\<lambda>s. Ok (fs\<lparr>fileSlot := s\<rparr>))"

text \<open>\<open>Open(name)\<close>: opens the file, then takes a slot; the descriptor is lost when there is none.\<close>

definition FS_Open :: "'h unix \<Rightarrow> bytes \<Rightarrow> 'h FileSystem \<Rightarrow> (OpenFile ptr \<times> 'h FileSystem) result" where
  "FS_Open U name fs =
     rbind (OpenForReadWrite U name False (host fs)) (\<lambda>(fd, h).
     let fs = fs\<lparr>host := h\<rparr> in
     if fd = -1 then Ok (Null, fs)
     else rbind (FindFreeSlot fs) (\<lambda>fid.
          if fid = -1 then Ok (Null, fs)
          else let f = Ptr (OpenFile_name fd name fid) in
               rbind (set_slot fid (Ptr (FileSlot_file f)) fs) (\<lambda>fs. Ok (f, fs))))"

definition FileSystem_new :: "'h unix \<Rightarrow> bytes \<Rightarrow> bytes \<Rightarrow> 'h \<Rightarrow> 'h FileSystem result" where
  "FileSystem_new U stdin_name stdout_name h =
     (let fs = \<lparr>fileSlot = replicate (nat MaxFileOpen) Null, host = h\<rparr> in
      rbind (FS_Create U stdin_name fs) (\<lambda>(_, fs).
      rbind (FS_Create U stdout_name fs) (\<lambda>(_, fs).
      rbind (FS_Open_type U stdin_name 2 0 fs) (\<lambda>(f, fs).
      rbind (set_slot 0 (Ptr (FileSlot_file f)) fs) (\<lambda>fs.
      rbind (FS_Open_type U stdout_name 3 1 fs) (\<lambda>(f, fs).
      set_slot 1 (Ptr (FileSlot_file f)) fs))))))"

definition FS_Remove :: "'h unix \<Rightarrow> bytes \<Rightarrow> 'h FileSystem \<Rightarrow> bool \<times> 'h FileSystem" where
  "FS_Remove U name fs = (let (r, h) = Unlink U name (host fs) in (\<not> r, fs\<lparr>host := h\<rparr>))"

section \<open>Sockets\<close>

definition createTCP :: "'h unix \<Rightarrow> 'h FileSystem \<Rightarrow> (int \<times> 'h FileSystem) result" where
  "createTCP U fs =
     rbind (FindFreeSlot fs) (\<lambda>slot.
     if slot = -1 then Ok (-1, fs)
     else rbind (OpenSocketInternet U (host fs)) (\<lambda>(fd, h).
          let fs = fs\<lparr>host := h\<rparr> in
          if fd < -1 then Ok (-1, fs)
          else rbind (set_slot slot (Ptr (FileSlot_socket fd)) fs) (\<lambda>fs. Ok (slot, fs))))"

text \<open>
  \<open>fileSlot[socketid]->fileSocket->fd\<close> behind the range and null checks the four operations below
  share: \<open>Inl\<close> for an early return.
\<close>

definition socket_fd :: "int \<Rightarrow> int \<Rightarrow> 'h FileSystem \<Rightarrow> (int + int) result" where
  "socket_fd on_null socketid fs =
     (if socketid < reverseFD \<or> socketid \<ge> MaxFileOpen then Ok (Inl (-1))
      else rbind (arr_get (fileSlot fs) socketid) (\<lambda>p.
           if p = Null then Ok (Inl on_null)
           else rbind (deref_ptr p) (\<lambda>s. rbind (deref_ptr (fileSocket s)) (\<lambda>fd. Ok (Inr fd)))))"

definition connectTCP ::
  "'h unix \<Rightarrow> int \<Rightarrow> bytes \<Rightarrow> int \<Rightarrow> 'h FileSystem \<Rightarrow> (int \<times> 'h FileSystem) result" where
  "connectTCP U socketid ip port fs =
     rbind (socket_fd (-1) socketid fs) (\<lambda>r. case r of
       Inl v \<Rightarrow> Ok (v, fs)
     | Inr fd \<Rightarrow> let (v, h) = ConnectTCP U fd ip port (host fs) in Ok (v, fs\<lparr>host := h\<rparr>))"

definition sendTCP :: "'h unix \<Rightarrow> int \<Rightarrow> bytes \<Rightarrow> 'h FileSystem \<Rightarrow> (int \<times> 'h FileSystem) result" where
  "sendTCP U socketid buffer fs =
     rbind (socket_fd 0 socketid fs) (\<lambda>r. case r of
       Inl v \<Rightarrow> Ok (v, fs)
     | Inr fd \<Rightarrow> let (v, h) = Send U fd buffer (host fs) in Ok (v, fs\<lparr>host := h\<rparr>))"

definition receiveTCP ::
  "'h unix \<Rightarrow> int \<Rightarrow> int \<Rightarrow> 'h FileSystem \<Rightarrow> ((int \<times> bytes) \<times> 'h FileSystem) result" where
  "receiveTCP U socketid len fs =
     rbind (socket_fd 0 socketid fs) (\<lambda>r. case r of
       Inl v \<Rightarrow> Ok ((v, []), fs)
     | Inr fd \<Rightarrow> let (v, h) = Receive U fd len (host fs) in Ok (v, fs\<lparr>host := h\<rparr>))"

text \<open>
  The last assignment of \<open>closeTCP\<close> is written as a comparison, so that the table keeps the pointer
  to the deleted slot.
\<close>

definition closeTCP :: "'h unix \<Rightarrow> int \<Rightarrow> 'h FileSystem \<Rightarrow> (int \<times> 'h FileSystem) result" where
  "closeTCP U socketid fs =
     rbind (socket_fd (-1) socketid fs) (\<lambda>r. case r of
       Inl v \<Rightarrow> Ok (v, fs)
     | Inr fd \<Rightarrow>
         let h = CloseSocket U fd (host fs) in
         rbind (arr_get (fileSlot fs) socketid) (\<lambda>p.
         rbind (deref_ptr p) (\<lambda>s.
         rbind (FileSlot_delete U s h) (\<lambda>h.
         rbind (set_slot socketid Dangling (fs\<lparr>host := h\<rparr>)) (\<lambda>fs. Ok (0, fs))))))"

definition CloseFile :: "'h unix \<Rightarrow> int \<Rightarrow> 'h FileSystem \<Rightarrow> (int \<times> 'h FileSystem) result" where
  "CloseFile U fid fs =
     (if fid < 2 \<or> fid \<ge> MaxFileOpen then Ok (-1, fs)
      else rbind (arr_get (fileSlot fs) fid) (\<lambda>p.
           if p = Null then Ok (-1, fs)
           else rbind (deref_ptr p) (\<lambda>s.
                rbind (FileSlot_delete U s (host fs)) (\<lambda>h.
                rbind (set_slot fid Null (fs\<lparr>host := h\<rparr>)) (\<lambda>fs. Ok (0, fs))))))"

section \<open>What the code relies on of the host\<close>

text \<open>
  The open file behind a descriptor as POSIX describes it: its contents and its offset, here read off
  the host state by \<open>v\<close>. Seeking (from the start, from the current offset by zero, from the end)
  reports and sets the offset, reading returns the bytes that are there from the offset on, writing
  replaces them and extends the file when needed.
\<close>

definition write_at :: "bytes \<Rightarrow> nat \<Rightarrow> bytes \<Rightarrow> bytes" where
  "write_at c off b = take off (c @ replicate (off - length c) 0) @ b @ drop (off + length b) c"

definition posix_file :: "'h unix \<Rightarrow> int \<Rightarrow> ('h \<Rightarrow> bytes \<times> nat) \<Rightarrow> bool" where
  "posix_file U fd v \<longleftrightarrow>
     (\<forall>h off. 0 \<le> off \<longrightarrow> fst (u_lseek U fd off 0 h) = off
        \<and> v (snd (u_lseek U fd off 0 h)) = (fst (v h), nat off))
   \<and> (\<forall>h. fst (u_lseek U fd 0 1 h) = int (snd (v h)) \<and> v (snd (u_lseek U fd 0 1 h)) = v h)
   \<and> (\<forall>h. fst (u_lseek U fd 0 2 h) = int (length (fst (v h)))
        \<and> v (snd (u_lseek U fd 0 2 h)) = (fst (v h), length (fst (v h))))
   \<and> (\<forall>h n. 0 \<le> n \<longrightarrow> (let data = take (nat n) (drop (snd (v h)) (fst (v h))) in
        fst (u_read U fd n h) = (int (length data), data)
        \<and> v (snd (u_read U fd n h)) = (fst (v h), snd (v h) + length data)))
   \<and> (\<forall>h b. fst (u_write U fd b h) = int (length b)
        \<and> v (snd (u_write U fd b h)) = (write_at (fst (v h)) (snd (v h)) b, snd (v h) + length b))"

lemma posix_fileD:
  assumes "posix_file U fd v"
  shows "0 \<le> off \<Longrightarrow> \<exists>h'. u_lseek U fd off 0 h = (off, h') \<and> v h' = (fst (v h), nat off)"
    and "\<exists>h'. u_lseek U fd 0 1 h = (int (snd (v h)), h') \<and> v h' = v h"
    and "\<exists>h'. u_lseek U fd 0 2 h = (int (length (fst (v h))), h') \<and> v h' = (fst (v h), length (fst (v h)))"
    and "0 \<le> n \<Longrightarrow> \<exists>h'. u_read U fd n h = ((int (length (take (nat n) (drop (snd (v h)) (fst (v h))))),
           take (nat n) (drop (snd (v h)) (fst (v h)))), h')
         \<and> v h' = (fst (v h), snd (v h) + length (take (nat n) (drop (snd (v h)) (fst (v h)))))"
    and "\<exists>h'. u_write U fd b h = (int (length b), h')
         \<and> v h' = (write_at (fst (v h)) (snd (v h)) b, snd (v h) + length b)"
  using assms unfolding posix_file_def Let_def by (metis prod.collapse)+

lemma write_at_read:
  "take (length b) (drop off (write_at c off b)) = b"
  "length (write_at c off b) = max (length c) (off + length b)"
  by (simp_all add: write_at_def)

section \<open>Lemmas on open files\<close>

lemma WriteAt_posix:
  assumes "posix_file U (ofile f) v" "0 \<le> pos"
  shows "\<exists>h'. OpenFile_WriteAt U f from pos h = Ok (int (length from), h')
    \<and> v h' = (write_at (fst (v h)) (nat pos) from, nat pos + length from)"
proof -
  obtain h1 where h1: "u_lseek U (ofile f) pos 0 h = (pos, h1)" "v h1 = (fst (v h), nat pos)"
    using posix_fileD(1) [OF assms] by blast
  obtain h2 where "u_write U (ofile f) from h1 = (int (length from), h2)"
      "v h2 = (write_at (fst (v h1)) (snd (v h1)) from, snd (v h1) + length from)"
    using posix_fileD(5) [OF assms(1)] by blast
  with h1 assms(2) show ?thesis by (simp add: OpenFile_WriteAt_def Lseek_def WriteFile_def)
qed

lemma ReadAt_posix:
  assumes "posix_file U (ofile f) v" "0 \<le> pos" "0 \<le> n"
  shows "\<exists>h'. let data = take (nat n) (drop (nat pos) (fst (v h))) in
    OpenFile_ReadAt U f n pos h = Ok ((int (length data), data), h')
    \<and> v h' = (fst (v h), nat pos + length data)"
proof -
  obtain h1 where h1: "u_lseek U (ofile f) pos 0 h = (pos, h1)" "v h1 = (fst (v h), nat pos)"
    using posix_fileD(1) [OF assms(1,2)] by blast
  with posix_fileD(4) [OF assms(1,3), of h1] assms(2) show ?thesis
    by (auto simp: OpenFile_ReadAt_def Lseek_def ReadPartial_def Let_def)
qed

lemma GetCurrentPos_posix:
  assumes "posix_file U (ofile f) v"
  shows "\<exists>h'. OpenFile_GetCurrentPos U f h = (int (snd (v h)), f\<lparr>currentOffset := int (snd (v h))\<rparr>, h')
    \<and> v h' = v h"
  using posix_fileD(2) [OF assms, of h] by (auto simp: OpenFile_GetCurrentPos_def Tell_def)

lemma Length_posix:
  assumes "posix_file U (ofile f) v"
  shows "\<exists>h'. OpenFile_Length U f h = Ok (int (length (fst (v h))), h')
    \<and> v h' = (fst (v h), length (fst (v h)))"
proof -
  obtain h1 where h1: "u_lseek U (ofile f) 0 2 h = (int (length (fst (v h))), h1)"
      "v h1 = (fst (v h), length (fst (v h)))"
    using posix_fileD(3) [OF assms] by blast
  with posix_fileD(2) [OF assms, of h1] show ?thesis
    by (auto simp: OpenFile_Length_def Lseek_def Tell_def)
qed

section \<open>Lemmas on the descriptor table\<close>

definition wf_slots :: "'h FileSystem \<Rightarrow> bool" where
  "wf_slots fs \<longleftrightarrow> int (length (fileSlot fs)) = MaxFileOpen"

lemma FindFreeSlot_from_result:
  assumes "int (length slots) = MaxFileOpen" "0 \<le> i" "i \<le> MaxFileOpen"
  shows "\<exists>r. FindFreeSlot_from slots i = Ok r
    \<and> (r = -1 \<and> (\<forall>j. i \<le> j \<and> j < MaxFileOpen \<longrightarrow> slots ! nat j \<noteq> Null)
     \<or> i \<le> r \<and> r < MaxFileOpen \<and> slots ! nat r = Null \<and> (\<forall>j. i \<le> j \<and> j < r \<longrightarrow> slots ! nat j \<noteq> Null))"
  using assms
proof (induction slots i rule: FindFreeSlot_from.induct)
  case (1 slots i)
  show ?case
  proof (cases "i < MaxFileOpen \<and> slots ! nat i \<noteq> Null")
    case True
    with 1 obtain r where r: "FindFreeSlot_from slots (i + 1) = Ok r"
        "r = -1 \<and> (\<forall>j. i + 1 \<le> j \<and> j < MaxFileOpen \<longrightarrow> slots ! nat j \<noteq> Null)
         \<or> i + 1 \<le> r \<and> r < MaxFileOpen \<and> slots ! nat r = Null
           \<and> (\<forall>j. i + 1 \<le> j \<and> j < r \<longrightarrow> slots ! nat j \<noteq> Null)"
      by fastforce
    have "FindFreeSlot_from slots i = Ok r"
      using True r(1) "1.prems" by (subst FindFreeSlot_from.simps) simp
    moreover have "slots ! nat j \<noteq> Null" if "\<not> i + 1 \<le> j" "i \<le> j" for j
      using that True by (auto dest: antisym [of i j])
    ultimately show ?thesis using r(2) by (metis add_increasing2 linorder_not_le zle_add1_eq_le zless_imp_add1_zle order.strict_implies_order)
  next
    case False
    then have "FindFreeSlot_from slots i = Ok (if i < MaxFileOpen then i else -1)"
      using "1.prems" by (subst FindFreeSlot_from.simps) auto
    with False show ?thesis by auto
  qed
qed

lemma FindFreeSlot_result:
  assumes "wf_slots fs"
  obtains (none) "FindFreeSlot fs = Ok (-1)" "\<forall>j. 2 \<le> j \<and> j < MaxFileOpen \<longrightarrow> fileSlot fs ! nat j \<noteq> Null"
  | (slot) r where "FindFreeSlot fs = Ok r" "2 \<le> r" "r < MaxFileOpen" "fileSlot fs ! nat r = Null"
      "\<forall>j. 2 \<le> j \<and> j < r \<longrightarrow> fileSlot fs ! nat j \<noteq> Null"
  using FindFreeSlot_from_result [of "fileSlot fs" 2] assms
  by (auto simp: wf_slots_def FindFreeSlot_def reverseFD_def MaxFileOpen_def)

lemma set_slot_Ok:
  "wf_slots fs \<Longrightarrow> 0 \<le> i \<Longrightarrow> i < MaxFileOpen \<Longrightarrow>
    set_slot i p fs = Ok (fs\<lparr>fileSlot := (fileSlot fs)[nat i := p]\<rparr>)"
  by (simp add: set_slot_def wf_slots_def)

lemma slot_get: "wf_slots fs \<Longrightarrow> 0 \<le> i \<Longrightarrow> i < MaxFileOpen \<Longrightarrow> arr_get (fileSlot fs) i = Ok (fileSlot fs ! nat i)"
  by (simp add: wf_slots_def)

lemma wf_slots_upd [simp]:
  "wf_slots (fs\<lparr>fileSlot := (fileSlot fs)[i := p]\<rparr>) = wf_slots fs" "wf_slots (fs\<lparr>host := h\<rparr>) = wf_slots fs"
  by (simp_all add: wf_slots_def)

lemma FindFreeSlot_host [simp]: "FindFreeSlot (fs\<lparr>host := h\<rparr>) = FindFreeSlot fs"
  by (simp add: FindFreeSlot_def)

lemma FindFreeSlot_Some:
  assumes "wf_slots fs" "FindFreeSlot fs = Ok i" "i \<noteq> -1"
  shows "2 \<le> i" "i < MaxFileOpen" "fileSlot fs ! nat i = Null"
  using FindFreeSlot_result [OF assms(1)] assms(2,3) by auto

text \<open>A host with one open file, descriptor 3, for the concrete instances of the properties.\<close>

definition one_file :: "(bytes \<times> nat) unix" where
  "one_file = \<lparr>
     u_open = (\<lambda>name trunc h. (3, if trunc then ([], 0) else (fst h, 0))),
     u_read = (\<lambda>fd n (c, off). let d = take (nat n) (drop off c) in ((int (length d), d), (c, off + length d))),
     u_write = (\<lambda>fd b (c, off). (int (length b), (write_at c off b, off + length b))),
     u_lseek = (\<lambda>fd off whence (c, cur).
        let new = (if whence = 0 then off else if whence = 1 then int cur + off else int (length c) + off)
        in (new, (c, nat new))),
     u_close = (\<lambda>fd h. (0, h)), u_unlink = (\<lambda>name h. (0, h)), u_socket = (\<lambda>h. (4, h)),
     u_connect = (\<lambda>fd ip port h. (0, h)), u_send = (\<lambda>fd b h. (int (length b), h)),
     u_recv = (\<lambda>fd n h. ((0, []), h))\<rparr>"

lemma one_file_posix: "posix_file one_file fd (\<lambda>h. h)"
  by (auto simp: posix_file_def one_file_def Let_def split: prod.split)

definition one_slots :: "(bytes \<times> nat) FileSystem" where
  "one_slots = \<lparr>fileSlot = replicate 20 Null, host = ([], 0)\<rparr>"

lemma one_slots_wf: "wf_slots one_slots"
  by (simp add: wf_slots_def one_slots_def MaxFileOpen_def)

section \<open>Properties\<close>

text \<open>Through an \<open>OpenFile\<close> on a POSIX file, what \<open>WriteAt\<close> wrote is what \<open>ReadAt\<close> reads back from
  the same position, and the file holds the written bytes at that position and its old bytes
  everywhere else.\<close>

theorem OpenFile_write_read:
  assumes "posix_file U (ofile f) v" "0 \<le> pos"
  shows "\<exists>h1 h2. OpenFile_WriteAt U f buf pos h = Ok (int (length buf), h1)
    \<and> OpenFile_ReadAt U f (int (length buf)) pos h1 = Ok ((int (length buf), buf), h2)
    \<and> fst (v h2) = write_at (fst (v h)) (nat pos) buf"
proof -
  obtain h1 where h1: "OpenFile_WriteAt U f buf pos h = Ok (int (length buf), h1)"
      "v h1 = (write_at (fst (v h)) (nat pos) buf, nat pos + length buf)"
    using WriteAt_posix [OF assms] by blast
  obtain h2 where "OpenFile_ReadAt U f (int (length buf)) pos h1 = Ok ((int (length buf), buf), h2)"
      "fst (v h2) = fst (v h1)"
    using ReadAt_posix [OF assms, of "int (length buf)" h1] h1(2)
    by (auto simp: Let_def write_at_read)
  with h1 show ?thesis by auto
qed

theorem OpenFile_write_read_witness:
  "\<exists>h1 h2. OpenFile_WriteAt one_file (OpenFile_id 3 5) [1, 2] 4 ([7], 0) = Ok (2, h1)
    \<and> OpenFile_ReadAt one_file (OpenFile_id 3 5) 2 4 h1 = Ok ((2, [1, 2]), h2) \<and> fst h2 = [7, 0, 0, 0, 1, 2]"
  using OpenFile_write_read [OF one_file_posix, where f = "OpenFile_id 3 5" and pos = 4 and buf = "[1, 2]"
      and h = "([7], 0)"]
  by (auto simp: write_at_def eval_nat_numeral)

text \<open>\<open>Length\<close> moves the file position: after it, \<open>GetCurrentPos\<close> reports the end of the file
  and the next \<open>Read\<close>, which starts from that report, finds nothing, wherever the position was
  before. A \<open>Seek\<close> system call that is refused has therefore moved the position to the end.\<close>

theorem Length_moves_position:
  assumes "posix_file U (ofile f) v"
  shows "\<exists>h1 f2 h2 f3 h3. OpenFile_Length U f h = Ok (int (length (fst (v h))), h1)
    \<and> OpenFile_GetCurrentPos U f h1 = (int (length (fst (v h))), f2, h2)
    \<and> OpenFile_Read U f2 8 h2 = Ok ((0, []), f3, h3)"
proof -
  obtain h1 where h1: "OpenFile_Length U f h = Ok (int (length (fst (v h))), h1)"
      "v h1 = (fst (v h), length (fst (v h)))" using Length_posix [OF assms] by blast
  obtain h2 where h2: "OpenFile_GetCurrentPos U f h1
      = (int (length (fst (v h))), f\<lparr>currentOffset := int (length (fst (v h)))\<rparr>, h2)" "v h2 = v h1"
    using GetCurrentPos_posix [OF assms, of h1] h1(2) by auto
  let ?f = "f\<lparr>currentOffset := int (length (fst (v h)))\<rparr>"
  have "posix_file U (ofile ?f) v" using assms by simp
  from ReadAt_posix [OF this, of "int (length (fst (v h)))" 8 h2] h1(2) h2(2)
  have "\<exists>h3. OpenFile_ReadAt U ?f 8 (int (length (fst (v h)))) h2 = Ok ((0, []), h3)"
    by (auto simp: Let_def)
  with h1 h2 show ?thesis by (auto simp: OpenFile_Read_def)
qed

theorem Length_moves_position_witness:
  "\<exists>h1 f2 h2 f3 h3. OpenFile_Length one_file (OpenFile_id 3 5) ([7, 8], 0) = Ok (2, h1)
    \<and> OpenFile_GetCurrentPos one_file (OpenFile_id 3 5) h1 = (2, f2, h2)
    \<and> OpenFile_Read one_file f2 8 h2 = Ok ((0, []), f3, h3)"
  using Length_moves_position [OF one_file_posix, where f = "OpenFile_id 3 5" and h = "([7, 8], 0)"] by simp

text \<open>\<open>Open\<close> and \<open>CloseFile\<close> manage the descriptor table as a table of slots: a successful open
  takes the lowest free slot from 2 on, which the \<open>OpenFile\<close> records, and changes no other; closing
  that descriptor gives the slot back, so that the table is what it was; the console slots 0 and 1
  are neither taken nor closed.\<close>

theorem open_close_slots:
  assumes "wf_slots fs" "FS_Open U name fs = Ok (Ptr f, fs1)"
    and "\<And>h. 0 \<le> fst (u_close U (ofile f) h)"
  shows "\<exists>i fs2. fileDescriptorId f = i \<and> 2 \<le> i \<and> i < MaxFileOpen \<and> fileSlot fs ! nat i = Null
    \<and> fileSlot fs1 = (fileSlot fs)[nat i := Ptr (FileSlot_file (Ptr f))]
    \<and> CloseFile U i fs1 = Ok (0, fs2) \<and> fileSlot fs2 = fileSlot fs
    \<and> CloseFile U 0 fs1 = Ok (-1, fs1) \<and> CloseFile U 1 fs1 = Ok (-1, fs1)"
proof -
  obtain fd h i where o: "OpenForReadWrite U name False (host fs) = Ok (fd, h)" "fd \<noteq> -1"
      "FindFreeSlot fs = Ok i" "i \<noteq> -1" "f = OpenFile_name fd name i"
      "set_slot i (Ptr (FileSlot_file (Ptr f))) (fs\<lparr>host := h\<rparr>) = Ok fs1"
    using assms(2) by (auto simp: FS_Open_def Let_def split: if_splits elim!: rbind_OkE)
  note i = FindFreeSlot_Some [OF assms(1) o(3,4)]
  have fs1: "fs1 = fs\<lparr>host := h, fileSlot := (fileSlot fs)[nat i := Ptr (FileSlot_file (Ptr f))]\<rparr>"
    using o(6) i assms(1) by (simp add: set_slot_Ok)
  have wf1: "wf_slots fs1" using assms(1) by (simp add: fs1 wf_slots_def)
  have len: "nat i < length (fileSlot fs)" using i assms(1) by (simp add: wf_slots_def)
  have restore: "(fileSlot fs)[nat i := Null] = fileSlot fs" using i(3) by (metis list_update_id)
  have "\<exists>h'. FileSlot_delete U (FileSlot_file (Ptr f)) h = Ok h'"
    using assms(3) [of h] by (auto simp: FileSlot_delete_def FileSlot_file_def OpenFile_delete_def
        Close_def split: prod.split)
  then obtain h' where h': "FileSlot_delete U (FileSlot_file (Ptr f)) h = Ok h'" by blast
  have "\<exists>fs2. CloseFile U i fs1 = Ok (0, fs2) \<and> fileSlot fs2 = fileSlot fs"
    using i len h' restore wf1 slot_get [OF wf1, of i] assms(1)
    by (auto simp: CloseFile_def fs1 set_slot_Ok wf_slots_def set_slot_def)
  then show ?thesis using i o(5) by (auto simp: fs1 CloseFile_def OpenFile_name_def)
qed

theorem open_close_slots_witness:
  "\<exists>f fs1 fs2. FS_Open one_file [102] one_slots = Ok (Ptr f, fs1)
    \<and> CloseFile one_file (fileDescriptorId f) fs1 = Ok (0, fs2) \<and> fileSlot fs2 = fileSlot one_slots"
proof -
  have "FindFreeSlot one_slots = Ok 2"
    unfolding FindFreeSlot_def
    by (subst FindFreeSlot_from.simps) (simp add: one_slots_def reverseFD_def MaxFileOpen_def)
  then have "\<exists>f fs1. FS_Open one_file [102] one_slots = Ok (Ptr f, fs1)"
    by (simp add: FS_Open_def OpenForReadWrite_def one_file_def Let_def set_slot_Ok one_slots_wf
        MaxFileOpen_def split: prod.split)
  then obtain f fs1 where f: "FS_Open one_file [102] one_slots = Ok (Ptr f, fs1)" by blast
  from open_close_slots [OF one_slots_wf f] f show ?thesis by (auto simp: one_file_def)
qed

text \<open>A TCP descriptor can never be reused and must not be touched again: because \<open>closeTCP\<close>
  compares with \<open>NULL\<close> instead of assigning it, the table keeps a dangling pointer. Every later
  operation on that descriptor reads freed memory, and \<open>FindFreeSlot\<close> never offers the slot again.\<close>

theorem closeTCP_leaves_dangling_slot:
  assumes "wf_slots fs" "closeTCP U i fs = Ok (0, fs1)"
  shows "fileSlot fs1 ! nat i = Dangling \<and> closeTCP U i fs1 = Fault UseAfterFree
    \<and> sendTCP U i b fs1 = Fault UseAfterFree \<and> receiveTCP U i n fs1 = Fault UseAfterFree
    \<and> CloseFile U i fs1 = Fault UseAfterFree \<and> FindFreeSlot fs1 \<noteq> Ok i"
proof -
  have i: "2 \<le> i" "i < MaxFileOpen"
    using assms(2)
    by (auto simp: closeTCP_def socket_fd_def reverseFD_def split: if_splits elim!: rbind_OkE)
  obtain h where fs1: "fs1 = fs\<lparr>host := h, fileSlot := (fileSlot fs)[nat i := Dangling]\<rparr>"
    using assms i by (auto simp: closeTCP_def Let_def set_slot_Ok socket_fd_def
        split: sum.splits if_splits elim!: rbind_OkE)
  have len: "nat i < length (fileSlot fs)" using i assms(1) by (simp add: wf_slots_def)
  have d: "fileSlot fs1 ! nat i = Dangling" "arr_get (fileSlot fs1) i = Ok Dangling"
    using len i by (simp_all add: fs1 arr_get_def)
  then have "socket_fd r i fs1 = Fault UseAfterFree" for r
    using i by (simp add: socket_fd_def reverseFD_def)
  moreover have "FindFreeSlot fs1 \<noteq> Ok i"
    using FindFreeSlot_Some [of fs1 i] d(1) i assms(1) by (auto simp: fs1 wf_slots_def)
  ultimately show ?thesis
    using d i by (simp add: closeTCP_def sendTCP_def receiveTCP_def CloseFile_def)
qed

theorem closeTCP_leaves_dangling_slot_witness:
  "\<exists>fs1. closeTCP one_file 2 (one_slots\<lparr>fileSlot := (replicate 20 Null)[2 := Ptr (FileSlot_socket 4)]\<rparr>)
       = Ok (0, fs1) \<and> closeTCP one_file 2 fs1 = Fault UseAfterFree"
proof -
  let ?fs = "one_slots\<lparr>fileSlot := (replicate 20 Null)[2 := Ptr (FileSlot_socket 4)]\<rparr>"
  have wf: "wf_slots ?fs" by (simp add: wf_slots_def MaxFileOpen_def)
  have "\<exists>fs1. closeTCP one_file 2 ?fs = Ok (0, fs1)"
    by (simp add: closeTCP_def socket_fd_def reverseFD_def MaxFileOpen_def arr_get_def
        FileSlot_socket_def FileSlot_delete_def set_slot_def arr_set_def Let_def)
  then show ?thesis using closeTCP_leaves_dangling_slot [OF wf] by blast
qed

end
