(* ===== verification/Addr_Space.thy ===== *)
theory Addr_Space
  imports Machine_Memory Stub_FS Mips_Sim
begin

text \<open>
  Address spaces of user programs (\<^verbatim>\<open>userprog/addrspace.h\<close>, \<^verbatim>\<open>userprog/addrspace.cc\<close>,
  \<^verbatim>\<open>userprog/noff.h\<close>): allocating page frames from the machine's bitmap, loading an executable
  and its arguments, the initial registers, and the kernel's own address translation.

  The global objects the code reaches through \<^verbatim>\<open>kernel\<close> are one state: the machine extended by
  the file system. \<open>size_t\<close> and \<open>unsigned int\<close> are 32-bit words (the kernel is built with
  \<^verbatim>\<open>-m32\<close>).
\<close>

record 'h MachineFS = Machine +
  fileSystem :: "'h FileSystem"

section \<open>Data\<close>

definition NOFFMAGIC :: "32 word" where "NOFFMAGIC = 0xbadfad"
definition UserStackSize :: "32 word" where "UserStackSize = 1024"

record Segment =
  virtualAddr :: "32 word"
  inFileAddr :: "32 word"
  seg_size :: "32 word"

record NoffHeader =
  noffMagic :: "32 word"
  code :: Segment
  initData :: Segment
  readonlyData :: Segment
  uninitData :: Segment

record AddrSpace =
  stackptr :: "32 word"
  sp_argc :: "32 word"
  sp_argv :: "32 word"
  sp_pageTable :: "TranslationEntry list"
  sp_numPages :: "32 word"

section \<open>Frames\<close>

definition AllocateMemory ::
  "32 word \<Rightarrow> AddrSpace \<Rightarrow> 'k Machine_scheme \<Rightarrow> (AddrSpace \<times> 'k Machine_scheme) result" where
  "AllocateMemory num space m =
     rbind (for_loop 0 (uint num) (\<lambda>i (pt, m).
              rbind (Bitmap_FindAndSet (pageTableMap m)) (\<lambda>(p, bm).
              Ok (pt @ [\<lparr>virtualPage = word_of_int i, physicalPage = word_of_int p, valid = True,
                         readOnly = False, usebit = False, dirty = False\<rparr>],
                  m\<lparr>pageTableMap := bm\<rparr>))) ([], m)) (\<lambda>(pt, m).
     rbind (for_loop 0 (uint num) (\<lambda>i mem.
              for_loop 0 PageSize (\<lambda>j mem.
                rbind (arr_get pt i) (\<lambda>e.
                arr_set mem (sint (physicalPage e) * PageSize + j) 0)) mem) (mainMemory m)) (\<lambda>mem.
     Ok (space\<lparr>sp_numPages := num, sp_pageTable := pt\<rparr>, m\<lparr>mainMemory := mem\<rparr>)))"

definition AddrSpace_delete :: "AddrSpace \<Rightarrow> 'k Machine_scheme \<Rightarrow> 'k Machine_scheme result" where
  "AddrSpace_delete space m =
     rbind (for_loop 0 (uint (sp_numPages space)) (\<lambda>i bm.
              rbind (arr_get (sp_pageTable space) i) (\<lambda>e. Bitmap_Clear bm (sint (physicalPage e))))
              (pageTableMap m)) (\<lambda>bm.
     Ok (m\<lparr>pageTableMap := bm\<rparr>))"

section \<open>Loading\<close>

text \<open>
  The header is read into a structure of thirteen words; what a short file leaves unset is
  uninitialised.
\<close>

definition header_word :: "bytes \<Rightarrow> nat \<Rightarrow> 32 word" where
  "header_word b i = fetch4 b (4 * i)"

definition header_segment :: "bytes \<Rightarrow> nat \<Rightarrow> Segment" where
  "header_segment b i =
     \<lparr>virtualAddr = header_word b i, inFileAddr = header_word b (i + 1), seg_size = header_word b (i + 2)\<rparr>"

definition parse_header :: "bytes \<Rightarrow> NoffHeader result" where
  "parse_header b =
     (if length b < 52 then Fault Uninitialised
      else Ok \<lparr>noffMagic = header_word b 0, code = header_segment b 1, initData = header_segment b 4,
               readonlyData = header_segment b 7, uninitData = header_segment b 10\<rparr>)"

definition SwapSegment :: "Segment \<Rightarrow> Segment" where
  "SwapSegment s = \<lparr>virtualAddr = WordToHost (virtualAddr s), inFileAddr = WordToHost (inFileAddr s),
     seg_size = WordToHost (seg_size s)\<rparr>"

definition SwapHeader :: "NoffHeader \<Rightarrow> NoffHeader" where
  "SwapHeader n = \<lparr>noffMagic = WordToHost (noffMagic n), code = SwapSegment (code n),
     initData = SwapSegment (initData n), readonlyData = SwapSegment (readonlyData n),
     uninitData = SwapSegment (uninitData n)\<rparr>"

text \<open>
  \<open>pageTable[vaddr / PageSize].physicalPage * PageSize + vaddr % PageSize\<close>, in unsigned arithmetic.
\<close>

definition paddr_of :: "TranslationEntry list \<Rightarrow> 32 word \<Rightarrow> 32 word result" where
  "paddr_of pt vaddr =
     rbind (arr_get pt (uint (vaddr div word_of_int PageSize))) (\<lambda>e.
     Ok (physicalPage e * word_of_int PageSize + vaddr mod word_of_int PageSize))"

definition poke :: "8 word list \<Rightarrow> 32 word \<Rightarrow> 8 word \<Rightarrow> 8 word list result" where
  "poke mem paddr v = arr_set mem (uint paddr) v"

definition poke4 :: "8 word list \<Rightarrow> 32 word \<Rightarrow> 32 word \<Rightarrow> 8 word list result" where
  "poke4 mem paddr v =
     (if unat paddr + 3 < length mem then Ok (store4 mem (unat paddr) v) else Fault OutOfRange)"

text \<open>
  The loop that copies a segment from the executable, byte by byte, with its bound as an argument: the
  code uses the size of the segment for code and initialised data, and its virtual address for
  read-only data.
\<close>

definition copy_segment ::
  "'h unix \<Rightarrow> OpenFile \<Rightarrow> TranslationEntry list \<Rightarrow> Segment \<Rightarrow> int
    \<Rightarrow> 8 word list \<times> 'h \<Rightarrow> (8 word list \<times> 'h) result" where
  "copy_segment U f pt seg bound s0 =
     for_loop 0 bound (\<lambda>i (mem, h).
       rbind (paddr_of pt (virtualAddr seg + word_of_int i)) (\<lambda>paddr.
       rbind (OpenFile_ReadAt U f 1 (sint (inFileAddr seg) + i) h) (\<lambda>((n, data), h).
       case data of
         [] \<Rightarrow> Ok (mem, h)
       | c # _ \<Rightarrow> rbind (poke mem paddr c) (\<lambda>mem. Ok (mem, h))))) s0"

definition zero_segment :: "TranslationEntry list \<Rightarrow> Segment \<Rightarrow> 8 word list \<Rightarrow> 8 word list result" where
  "zero_segment pt seg mem =
     for_loop 0 (sint (seg_size seg)) (\<lambda>i mem.
       rbind (paddr_of pt (virtualAddr seg + word_of_int i)) (\<lambda>paddr. poke mem paddr 0)) mem"

text \<open>The loops \<open>while (vaddr % n != 0) vaddr--;\<close>.\<close>

function align_down :: "32 word \<Rightarrow> 32 word \<Rightarrow> 32 word" where
  "align_down n v = (if v mod n \<noteq> 0 then align_down n (v - 1) else v)"
  by pat_completeness auto
termination
proof (relation "measure (\<lambda>(n, v). unat v)", simp)
  fix n v :: "32 word"
  assume "v mod n \<noteq> 0"
  then have "v \<noteq> 0" by auto
  then show "((n, v - 1), (n, v)) \<in> measure (\<lambda>(n, v). unat v)"
    by (simp add: unat_minus_one unat_gt_0)
qed

declare align_down.simps [simp del]

text \<open>The part of \<open>Load\<close> that copies the arguments: the strings, then the array of pointers to them.\<close>

definition copy_string ::
  "TranslationEntry list \<Rightarrow> bytes \<Rightarrow> 32 word \<times> 8 word list \<Rightarrow> (32 word \<times> 8 word list) result" where
  "copy_string pt str s0 =
     for_loop 0 (int (length str) + 1) (\<lambda>j (vaddr, mem).
       rbind (paddr_of pt vaddr) (\<lambda>paddr.
       rbind (poke mem paddr ((str @ [0]) ! nat j)) (\<lambda>mem.
       Ok (vaddr + 1, mem)))) s0"

definition arg_bytes :: "bytes list \<Rightarrow> 32 word" where
  "arg_bytes argv = (\<Sum>s\<leftarrow>argv. word_of_nat (length s + 1))"

primrec copy_strings ::
  "TranslationEntry list \<Rightarrow> bytes list \<Rightarrow> 32 word \<times> 8 word list \<Rightarrow> (32 word \<times> 8 word list) result" where
  "copy_strings pt [] s = Ok s"
| "copy_strings pt (a # as) s = rbind (copy_string pt a s) (copy_strings pt as)"

primrec copy_pointers ::
  "TranslationEntry list \<Rightarrow> bytes list \<Rightarrow> 32 word \<Rightarrow> 32 word \<Rightarrow> 8 word list \<Rightarrow> (32 word \<times> 8 word list) result"
where
  "copy_pointers pt [] vaddr p mem = Ok (vaddr, mem)"
| "copy_pointers pt (a # as) vaddr p mem =
     rbind (paddr_of pt vaddr) (\<lambda>paddr.
     rbind (poke4 mem paddr p) (\<lambda>mem.
     copy_pointers pt as (vaddr + 4) (p + word_of_nat (length a + 1)) mem))"

definition load_args ::
  "bytes list \<Rightarrow> AddrSpace \<Rightarrow> 8 word list \<Rightarrow> (AddrSpace \<times> 8 word list) result" where
  "load_args argv space mem =
     (let pt = sp_pageTable space; size = word_of_int PageSize * sp_numPages space;
          p = size - 8 - arg_bytes argv in
      rbind (copy_strings pt argv (p, mem)) (\<lambda>(vaddr, mem).
      let vaddr = align_down 4 (p - (word_of_nat (length argv) + 1) * 4);
          space = space\<lparr>sp_argv := vaddr, sp_argc := word_of_nat (length argv)\<rparr> in
      rbind (copy_pointers pt argv vaddr p mem) (\<lambda>(vaddr, mem).
      rbind (paddr_of pt vaddr) (\<lambda>paddr.
      rbind (poke4 mem paddr 0) (\<lambda>mem.
      Ok (space\<lparr>stackptr := align_down 8 (sp_argv space - 4)\<rparr>, mem))))))"

text \<open>The number of pages of the address space.\<close>

definition image_pages :: "NoffHeader \<Rightarrow> 32 word" where
  "image_pages n =
     (let size = seg_size (code n) + seg_size (readonlyData n) + seg_size (initData n)
                 + seg_size (uninitData n) + UserStackSize
      in word_of_int (uint size div PageSize + (if uint size mod PageSize > 0 then 1 else 0)))"

text \<open>The part of \<open>Load\<close> behind the header: sizes, frames, the four segments.\<close>

definition load_image ::
  "'h unix \<Rightarrow> OpenFile \<Rightarrow> NoffHeader \<Rightarrow> AddrSpace \<Rightarrow> ('h, 'k) MachineFS_scheme
    \<Rightarrow> (AddrSpace \<times> ('h, 'k) MachineFS_scheme) result" where
  "load_image U f n space k =
     (let num = image_pages n in
      rbind (AllocateMemory num space k) (\<lambda>(space, k).
      ASSERT (uint num \<le> NumPhysPages)
      (let pt = sp_pageTable space; sized = (\<lambda>s. if sint (seg_size s) > 0 then sint (seg_size s) else 0) in
      rbind (copy_segment U f pt (code n) (sized (code n)) (mainMemory k, host (fileSystem k))) (\<lambda>(mem, h).
      rbind (zero_segment pt (uninitData n) mem) (\<lambda>mem.
      rbind (copy_segment U f pt (initData n) (sized (initData n)) (mem, h)) (\<lambda>(mem, h).
      rbind (copy_segment U f pt (readonlyData n)
               (if sint (seg_size (readonlyData n)) > 0 then sint (virtualAddr (readonlyData n)) else 0)
               (mem, h)) (\<lambda>(mem, h).
      Ok (space, k\<lparr>mainMemory := mem, fileSystem := (fileSystem k)\<lparr>host := h\<rparr>\<rparr>))))))))"

definition AddrSpace_Load ::
  "'h unix \<Rightarrow> bytes \<Rightarrow> bytes list \<Rightarrow> AddrSpace \<Rightarrow> ('h, 'k) MachineFS_scheme
    \<Rightarrow> (bool \<times> AddrSpace \<times> ('h, 'k) MachineFS_scheme) result" where
  "AddrSpace_Load U fileName argv space k =
     rbind (FS_Open U fileName (fileSystem k)) (\<lambda>(executable, fs).
     let k = k\<lparr>fileSystem := fs\<rparr> in
     if executable = Null then Ok (False, space, k)
     else
     rbind (deref_ptr executable) (\<lambda>f.
     rbind (OpenFile_ReadAt U f 52 0 (host fs)) (\<lambda>((n, data), h).
     rbind (parse_header data) (\<lambda>noffH.
     let noffH = (if noffMagic noffH \<noteq> NOFFMAGIC \<and> WordToHost (noffMagic noffH) = NOFFMAGIC
                  then SwapHeader noffH else noffH);
         k = k\<lparr>fileSystem := fs\<lparr>host := h\<rparr>\<rparr> in
     ASSERT (noffMagic noffH = NOFFMAGIC)
     (rbind (load_image U f noffH space k) (\<lambda>(space, k).
      rbind (load_args argv space (mainMemory k)) (\<lambda>(space, mem).
      rbind (CloseFile U (fileDescriptorId f) (fileSystem k)) (\<lambda>(r, fs).
      Ok (True, space, k\<lparr>mainMemory := mem, fileSystem := fs\<rparr>)))))))))"

section \<open>Running\<close>

definition InitRegisters :: "AddrSpace \<Rightarrow> 'k Machine_scheme \<Rightarrow> 'k Machine_scheme result" where
  "InitRegisters space m =
     rbind (for_loop 0 (int NumTotalRegs) (\<lambda>i m. WriteRegister m i 0) m) (\<lambda>m.
     rbind (WriteRegister m (int PCReg) 0) (\<lambda>m.
     rbind (WriteRegister m (int NextPCReg) 4) (\<lambda>m.
     rbind (WriteRegister m (int StackReg) (stackptr space)) (\<lambda>m.
     rbind (WriteRegister m 4 (sp_argc space)) (\<lambda>m.
     WriteRegister m 5 (sp_argv space))))))"

definition RestoreState :: "AddrSpace \<Rightarrow> 'k Machine_scheme \<Rightarrow> 'k Machine_scheme" where
  "RestoreState space m =
     m\<lparr>pageTable := Some (sp_pageTable space), pageTableSize := sp_numPages space\<rparr>"

text \<open>\<open>Execute\<close> up to the point where it enters the simulator.\<close>

definition AddrSpace_Execute :: "AddrSpace \<Rightarrow> 'k Machine_scheme \<Rightarrow> 'k Machine_scheme result" where
  "AddrSpace_Execute space m =
     rbind (InitRegisters space m) (\<lambda>m. Ok ((RestoreState space m)\<lparr>status := UserMode\<rparr>))"

definition AddrSpace_Translate ::
  "AddrSpace \<Rightarrow> 32 word \<Rightarrow> bool \<Rightarrow> ((ExceptionType + 32 word) \<times> AddrSpace) result" where
  "AddrSpace_Translate space vaddr isReadWrite =
     (let vpn = vaddr div word_of_int PageSize; offset = vaddr mod word_of_int PageSize in
      if sp_numPages space \<le> vpn then Ok (Inl AddressErrorException, space)
      else rbind (arr_get (sp_pageTable space) (uint vpn)) (\<lambda>pte.
           if isReadWrite \<and> readOnly pte then Ok (Inl ReadOnlyException, space)
           else if NumPhysPages \<le> sint (physicalPage pte) then Ok (Inl BusErrorException, space)
           else let pte' = (if isReadWrite then pte\<lparr>usebit := True, dirty := True\<rparr>
                            else pte\<lparr>usebit := True\<rparr>);
                    paddr = physicalPage pte * word_of_int PageSize + offset in
                ASSERT (uint paddr < MemorySize)
                  (Ok (Inr paddr, space\<lparr>sp_pageTable := (sp_pageTable space)[unat vpn := pte']\<rparr>))))"

section \<open>Allocating frames\<close>

definition frames :: "TranslationEntry list \<Rightarrow> int list" where
  "frames pt = map (\<lambda>e. sint (physicalPage e)) pt"

lemma length_frames [simp]: "length (frames pt) = length pt"
  by (simp add: frames_def)

definition fresh_entry :: "TranslationEntry \<Rightarrow> bool" where
  "fresh_entry e \<longleftrightarrow> valid e \<and> \<not> readOnly e \<and> \<not> usebit e \<and> \<not> dirty e"

text \<open>What the first loop has established: as many new frames as entries, all of them free before.\<close>

definition allocated :: "int set \<Rightarrow> int \<Rightarrow> TranslationEntry list \<Rightarrow> bitmap \<Rightarrow> bool" where
  "allocated before i pt bm \<longleftrightarrow>
     wf_bitmap bm \<and> numBits bm = NumPhysPages \<and> int (length pt) = i
     \<and> distinct (frames pt) \<and> set (frames pt) \<subseteq> {0..<NumPhysPages} - before
     \<and> marked bm = before \<union> set (frames pt) \<and> (\<forall>e\<in>set pt. fresh_entry e)
     \<and> (\<forall>k<length pt. virtualPage (pt ! k) = word_of_nat k)"

lemma sint_of_frame: "0 \<le> p \<Longrightarrow> p < NumPhysPages \<Longrightarrow> sint (word_of_int p :: 32 word) = p"
  by (simp add: signed_of_int NumPhysPages_def signed_take_bit_int_eq_self)

lemma FindAndSet_allocated:
  assumes "allocated before i pt bm" "finite before" "i < NumPhysPages - int (card before)"
  shows "\<exists>p bm'. Bitmap_FindAndSet bm = Ok (p, bm')
    \<and> allocated before (i + 1) (pt @ [\<lparr>virtualPage = word_of_int i, physicalPage = word_of_int p,
         valid = True, readOnly = False, usebit = False, dirty = False\<rparr>]) bm'"
proof -
  have a: "wf_bitmap bm" "numBits bm = NumPhysPages" "int (length pt) = i"
      "marked bm = before \<union> set (frames pt)"
    using assms(1) by (auto simp: allocated_def)
  have "card (set (frames pt)) \<le> length pt"
    using card_length [of "frames pt"] by (simp only: frames_def length_map)
  then have "card (marked bm) \<le> card before + length pt"
    unfolding a(4) using card_Un_le [of before "set (frames pt)"] by linarith
  then have "card (marked bm) \<noteq> card {0..<numBits bm}" using a assms(3) by (simp add: NumPhysPages_def)
  then have "marked bm \<noteq> {0..<numBits bm}" by metis
  then obtain p bm' where p: "Bitmap_FindAndSet bm = Ok (p, bm')" "0 \<le> p" "p < numBits bm"
      "p \<notin> marked bm" "wf_bitmap bm'" "numBits bm' = numBits bm" "marked bm' = insert p (marked bm)"
    using FindAndSet_free [OF a(1)] by blast
  let ?e = "\<lparr>virtualPage = word_of_int i, physicalPage = word_of_int p, valid = True,
    readOnly = False, usebit = False, dirty = False\<rparr>"
  have f: "frames (pt @ [?e]) = frames pt @ [p]" using p a by (simp add: frames_def sint_of_frame)
  have "allocated before (i + 1) (pt @ [?e]) bm'"
    unfolding allocated_def f
  proof (intro conjI)
    show "wf_bitmap bm'" "numBits bm' = NumPhysPages" "int (length (pt @ [?e])) = i + 1"
      "marked bm' = before \<union> set (frames pt @ [p])"
      using p a by simp_all
    show "distinct (frames pt @ [p])" "set (frames pt @ [p]) \<subseteq> {0..<NumPhysPages} - before"
      "\<forall>e\<in>set (pt @ [?e]). fresh_entry e"
      using p a assms(1) by (simp_all add: allocated_def fresh_entry_def)
    have "(word_of_int i :: 32 word) = word_of_nat (length pt)" unfolding a(3) [symmetric] by simp
    then show "\<forall>k<length (pt @ [?e]). virtualPage ((pt @ [?e]) ! k) = word_of_nat k"
      using assms(1) by (simp add: allocated_def nth_append less_Suc_eq)
  qed
  with p(1) show ?thesis by blast
qed

lemma allocate_loop:
  assumes "wf_bitmap (pageTableMap m)" "numBits (pageTableMap m) = NumPhysPages" "0 \<le> n"
    and "n \<le> NumPhysPages - int (card (marked (pageTableMap m)))"
  shows "\<exists>pt bm. for_loop 0 n (\<lambda>i (pt, m).
              rbind (Bitmap_FindAndSet (pageTableMap m)) (\<lambda>(p, bm).
              Ok (pt @ [\<lparr>virtualPage = word_of_int i, physicalPage = word_of_int p, valid = True,
                         readOnly = False, usebit = False, dirty = False\<rparr>],
                  m\<lparr>pageTableMap := bm\<rparr>))) ([], m) = Ok (pt, m\<lparr>pageTableMap := bm\<rparr>)
    \<and> allocated (marked (pageTableMap m)) n pt bm"
proof -
  let ?B = "marked (pageTableMap m)"
  let ?I = "\<lambda>i (pt, m'). \<exists>bm. m' = m\<lparr>pageTableMap := bm\<rparr> \<and> allocated ?B i pt bm"
  have "\<exists>s'. for_loop 0 n (\<lambda>i (pt, m).
              rbind (Bitmap_FindAndSet (pageTableMap m)) (\<lambda>(p, bm).
              Ok (pt @ [\<lparr>virtualPage = word_of_int i, physicalPage = word_of_int p, valid = True,
                         readOnly = False, usebit = False, dirty = False\<rparr>],
                  m\<lparr>pageTableMap := bm\<rparr>))) ([], m) = Ok s' \<and> ?I n s'"
  proof (rule for_loop_total [where I = ?I])
    show "?I 0 ([], m)"
      using assms(1,2) by (auto simp: allocated_def frames_def intro!: exI [of _ "pageTableMap m"])
  next
    fix k t assume k: "0 \<le> k" "k < n" "?I k t"
    obtain pt m' where t: "t = (pt, m')" by fastforce
    with k(3) obtain bm where bm: "m' = m\<lparr>pageTableMap := bm\<rparr>" "allocated ?B k pt bm" by auto
    from FindAndSet_allocated [OF bm(2)] k(2) assms(4) bm(1) t
    show "\<exists>t'. (case t of (pt, m) \<Rightarrow>
              rbind (Bitmap_FindAndSet (pageTableMap m)) (\<lambda>(p, bm).
              Ok (pt @ [\<lparr>virtualPage = word_of_int k, physicalPage = word_of_int p, valid = True,
                         readOnly = False, usebit = False, dirty = False\<rparr>],
                  m\<lparr>pageTableMap := bm\<rparr>))) = Ok t' \<and> ?I (k + 1) t'"
      by fastforce
  qed (use assms in auto)
  then show ?thesis by auto
qed

section \<open>Zeroing frames\<close>

lemma zero_frame:
  assumes "int (length mem) = MemorySize" "0 \<le> p" "p < NumPhysPages"
  shows "\<exists>mem'. for_loop 0 PageSize (\<lambda>j mem. arr_set mem (p * PageSize + j) 0) mem = Ok mem'
    \<and> length mem' = length mem \<and> (\<forall>q. mem' ! q = (if int q div 128 = p then 0 else mem ! q))"
proof -
  let ?I = "\<lambda>j mem'. length mem' = length mem
    \<and> (\<forall>q. mem' ! q = (if p * 128 \<le> int q \<and> int q < p * 128 + j then 0 else mem ! q))"
  have "\<exists>mem'. for_loop 0 PageSize (\<lambda>j mem. arr_set mem (p * PageSize + j) 0) mem = Ok mem' \<and> ?I PageSize mem'"
  proof (rule for_loop_total [where I = ?I])
    fix k t assume k: "0 \<le> k" "k < PageSize" "?I k t"
    have r: "0 \<le> p * PageSize + k" "p * PageSize + k < int (length t)"
      using assms k by (auto simp: memory_consts)
    have "t[nat (p * PageSize + k) := 0] ! q
        = (if p * 128 \<le> int q \<and> int q < p * 128 + (k + 1) then 0 else mem ! q)" for q
      using k(1,3) r by (cases "int q = p * PageSize + k") (auto simp: nth_list_update PageSize_def)
    with r k(3) show "\<exists>t'. arr_set t (p * PageSize + k) 0 = Ok t' \<and> ?I (k + 1) t'" by simp
  qed (auto simp: PageSize_def)
  moreover have "p * 128 \<le> q \<and> q < p * 128 + 128 \<longleftrightarrow> q div 128 = p" for q by auto
  ultimately show ?thesis by (simp add: PageSize_def)
qed

lemma zero_loop:
  assumes "int (length mem) = MemorySize" "set (take (nat n) (frames pt)) \<subseteq> {0..<NumPhysPages}"
    and "0 \<le> n" "n \<le> int (length pt)"
  shows "\<exists>mem'. for_loop 0 n (\<lambda>i mem. for_loop 0 PageSize (\<lambda>j mem.
              rbind (arr_get pt i) (\<lambda>e. arr_set mem (sint (physicalPage e) * PageSize + j) 0)) mem) mem
      = Ok mem'
    \<and> length mem' = length mem
    \<and> (\<forall>q. mem' ! q = (if int q div 128 \<in> set (take (nat n) (frames pt)) then 0 else mem ! q))"
proof (rule for_loop_total [where I = "\<lambda>i mem'. length mem' = length mem
    \<and> (\<forall>q. mem' ! q = (if int q div 128 \<in> set (take (nat i) (frames pt)) then 0 else mem ! q))"])
  fix k t
  assume k: "0 \<le> k" "k < n" and t: "length t = length mem
    \<and> (\<forall>q. t ! q = (if int q div 128 \<in> set (take (nat k) (frames pt)) then 0 else mem ! q))"
  have kl: "nat k < length pt" using k assms(4) by simp
  then have fr: "frames pt ! nat k = sint (physicalPage (pt ! nat k))" "nat k < length (frames pt)"
    by (simp_all add: frames_def)
  then have p: "0 \<le> sint (physicalPage (pt ! nat k))" "sint (physicalPage (pt ! nat k)) < NumPhysPages"
    using assms(2) k fr nth_mem [of "nat k" "take (nat n) (frames pt)"] by (auto simp: nat_less_iff)
  have get: "arr_get pt k = Ok (pt ! nat k)" using k kl by (simp add: arr_get_def)
  obtain t' where t': "for_loop 0 PageSize (\<lambda>j mem. arr_set mem (sint (physicalPage (pt ! nat k)) * PageSize + j) 0) t
      = Ok t'" "length t' = length t"
      "\<forall>q. t' ! q = (if int q div 128 = sint (physicalPage (pt ! nat k)) then 0 else t ! q)"
    using zero_frame [of t, OF _ p] t assms(1) by auto
  have tk: "set (take (nat (k + 1)) (frames pt)) = insert (sint (physicalPage (pt ! nat k))) (set (take (nat k) (frames pt)))"
    using k fr by (simp add: nat_add_distrib take_Suc_conv_app_nth)
  show "\<exists>t'. for_loop 0 PageSize (\<lambda>j mem.
            rbind (arr_get pt k) (\<lambda>e. arr_set mem (sint (physicalPage e) * PageSize + j) 0)) t = Ok t'
      \<and> length t' = length mem
      \<and> (\<forall>q. t' ! q = (if int q div 128 \<in> set (take (nat (k + 1)) (frames pt)) then 0 else mem ! q))"
    unfolding get rbind.simps tk using t t' by (intro exI [of _ t']) auto
qed (use assms in auto)

lemma AllocateMemory_enough:
  assumes "wf_bitmap (pageTableMap m)" "numBits (pageTableMap m) = NumPhysPages"
    and "int (length (mainMemory m)) = MemorySize"
    and "uint num \<le> NumPhysPages - int (card (marked (pageTableMap m)))"
  shows "\<exists>pt bm mem. AllocateMemory num space m
      = Ok (space\<lparr>sp_numPages := num, sp_pageTable := pt\<rparr>, m\<lparr>pageTableMap := bm, mainMemory := mem\<rparr>)
    \<and> allocated (marked (pageTableMap m)) (uint num) pt bm \<and> length mem = length (mainMemory m)
    \<and> (\<forall>q. mem ! q = (if int q div 128 \<in> set (frames pt) then 0 else mainMemory m ! q))"
proof -
  obtain pt bm where a: "for_loop 0 (uint num) (\<lambda>i (pt, m).
              rbind (Bitmap_FindAndSet (pageTableMap m)) (\<lambda>(p, bm).
              Ok (pt @ [\<lparr>virtualPage = word_of_int i, physicalPage = word_of_int p, valid = True,
                         readOnly = False, usebit = False, dirty = False\<rparr>],
                  m\<lparr>pageTableMap := bm\<rparr>))) ([], m) = Ok (pt, m\<lparr>pageTableMap := bm\<rparr>)"
      "allocated (marked (pageTableMap m)) (uint num) pt bm"
    using allocate_loop [OF assms(1,2) _ assms(4)] by auto
  have l: "int (length pt) = uint num" "set (frames pt) \<subseteq> {0..<NumPhysPages}"
    using a(2) by (auto simp: allocated_def)
  have "nat (uint num) = length pt" using l(1) by (metis nat_int)
  then have t: "take (nat (uint num)) (frames pt) = frames pt" by (simp add: frames_def)
  obtain mem where "for_loop 0 (uint num) (\<lambda>i mem. for_loop 0 PageSize (\<lambda>j mem.
              rbind (arr_get pt i) (\<lambda>e. arr_set mem (sint (physicalPage e) * PageSize + j) 0)) mem)
              (mainMemory m) = Ok mem" "length mem = length (mainMemory m)"
      "\<forall>q. mem ! q = (if int q div 128 \<in> set (frames pt) then 0 else mainMemory m ! q)"
    using zero_loop [OF assms(3), of "uint num" pt] l unfolding t by auto
  with a show ?thesis
    by (intro exI [of _ pt] exI [of _ bm] exI [of _ mem]) (simp add: AllocateMemory_def)
qed

section \<open>Giving frames back\<close>

lemma AddrSpace_delete_frames:
  assumes "allocated before (uint (sp_numPages space)) (sp_pageTable space) (pageTableMap m)"
  shows "\<exists>bm. AddrSpace_delete space m = Ok (m\<lparr>pageTableMap := bm\<rparr>) \<and> wf_bitmap bm
    \<and> numBits bm = NumPhysPages \<and> marked bm = before"
proof -
  let ?pt = "sp_pageTable space" and ?n = "uint (sp_numPages space)"
  let ?I = "\<lambda>i bm. wf_bitmap bm \<and> numBits bm = NumPhysPages
    \<and> marked bm = before \<union> (set (frames ?pt) - set (take (nat i) (frames ?pt)))"
  have a: "wf_bitmap (pageTableMap m)" "numBits (pageTableMap m) = NumPhysPages" "int (length ?pt) = ?n"
      "distinct (frames ?pt)" "set (frames ?pt) \<subseteq> {0..<NumPhysPages} - before"
      "marked (pageTableMap m) = before \<union> set (frames ?pt)"
    using assms by (auto simp: allocated_def)
  have "\<exists>bm. for_loop 0 ?n (\<lambda>i bm. rbind (arr_get ?pt i) (\<lambda>e. Bitmap_Clear bm (sint (physicalPage e))))
      (pageTableMap m) = Ok bm \<and> ?I ?n bm"
  proof (rule for_loop_total [where I = ?I])
    fix k bm assume k: "0 \<le> k" "k < ?n" "?I k bm"
    have kl: "nat k < length ?pt" using k a(3) by simp
    then have fr: "frames ?pt ! nat k = sint (physicalPage (?pt ! nat k))" "nat k < length (frames ?pt)"
      by (simp_all add: frames_def)
    then have f: "sint (physicalPage (?pt ! nat k)) \<in> {0..<NumPhysPages} - before"
      using a(5) nth_mem [OF fr(2)] by auto
    then obtain bm' where bm': "Bitmap_Clear bm (sint (physicalPage (?pt ! nat k))) = Ok bm'"
        "wf_bitmap bm'" "numBits bm' = numBits bm" "marked bm' = marked bm - {sint (physicalPage (?pt ! nat k))}"
      using Clear_correct [of bm "sint (physicalPage (?pt ! nat k))"] k(3) by auto
    have "set (take (nat (k + 1)) (frames ?pt))
        = insert (sint (physicalPage (?pt ! nat k))) (set (take (nat k) (frames ?pt)))"
      using k fr by (simp add: nat_add_distrib take_Suc_conv_app_nth)
    with bm' k kl f show "\<exists>bm'. rbind (arr_get ?pt k) (\<lambda>e. Bitmap_Clear bm (sint (physicalPage e))) = Ok bm'
        \<and> ?I (k + 1) bm'"
      by (auto simp: arr_get_def)
  qed (use a in auto)
  then obtain bm where bm: "for_loop 0 ?n (\<lambda>i bm. rbind (arr_get ?pt i)
      (\<lambda>e. Bitmap_Clear bm (sint (physicalPage e)))) (pageTableMap m) = Ok bm" "?I ?n bm" by blast
  have "nat ?n = length ?pt" using a(3) by (metis nat_int)
  then have "marked bm = before" using bm(2) by (simp add: frames_def)
  with bm show ?thesis by (intro exI [of _ bm]) (simp add: AddrSpace_delete_def)
qed

section \<open>Running out of frames\<close>

lemma allocate_loop_full:
  assumes "wf_bitmap bm" "numBits bm = NumPhysPages" "marked bm = {0..<NumPhysPages}"
    and "i \<le> n" "int (length pt) = i"
  shows "\<exists>l. for_loop i n (\<lambda>i (pt, m).
              rbind (Bitmap_FindAndSet (pageTableMap m)) (\<lambda>(p, bm).
              Ok (pt @ [\<lparr>virtualPage = word_of_int i, physicalPage = word_of_int p, valid = True,
                         readOnly = False, usebit = False, dirty = False\<rparr>],
                  m\<lparr>pageTableMap := bm\<rparr>))) (pt, m\<lparr>pageTableMap := bm\<rparr>) = Ok (pt @ l, m\<lparr>pageTableMap := bm\<rparr>)
    \<and> int (length (pt @ l)) = n \<and> (\<forall>e\<in>set l. sint (physicalPage e) = -1)"
proof -
  have full: "Bitmap_FindAndSet bm = Ok (-1, bm)" using FindAndSet_full [OF assms(1)] assms(2,3) by simp
  have "\<exists>s. for_loop i n (\<lambda>i (pt, m).
              rbind (Bitmap_FindAndSet (pageTableMap m)) (\<lambda>(p, bm).
              Ok (pt @ [\<lparr>virtualPage = word_of_int i, physicalPage = word_of_int p, valid = True,
                         readOnly = False, usebit = False, dirty = False\<rparr>],
                  m\<lparr>pageTableMap := bm\<rparr>))) (pt, m\<lparr>pageTableMap := bm\<rparr>) = Ok s
    \<and> (\<exists>l. s = (pt @ l, m\<lparr>pageTableMap := bm\<rparr>) \<and> int (length (pt @ l)) = n
          \<and> (\<forall>e\<in>set l. sint (physicalPage e) = -1))"
    by (rule for_loop_total [where I = "\<lambda>i s. \<exists>l. s = (pt @ l, m\<lparr>pageTableMap := bm\<rparr>)
          \<and> int (length (pt @ l)) = i \<and> (\<forall>e\<in>set l. sint (physicalPage e) = -1)"])
       (use assms full in auto)
  then show ?thesis by auto
qed

lemma AllocateMemory_exhausted:
  assumes "wf_bitmap (pageTableMap m)" "numBits (pageTableMap m) = NumPhysPages"
    and "int (length (mainMemory m)) = MemorySize"
    and "NumPhysPages - int (card (marked (pageTableMap m))) < uint num"
  shows "AllocateMemory num space m = Fault OutOfRange"
proof -
  let ?B = "marked (pageTableMap m)"
  define free where "free = NumPhysPages - int (card ?B)"
  have "card ?B \<le> card {0..<NumPhysPages}"
    using marked_range [of "pageTableMap m"] assms(2) by (intro card_mono) auto
  then have f: "0 \<le> free" "free < uint num" using assms(4) by (simp_all add: free_def NumPhysPages_def)
  let ?body = "\<lambda>i (pt, m). rbind (Bitmap_FindAndSet (pageTableMap m)) (\<lambda>(p, bm).
              Ok (pt @ [\<lparr>virtualPage = word_of_int i, physicalPage = word_of_int p, valid = True,
                         readOnly = False, usebit = False, dirty = False\<rparr>],
                  m\<lparr>pageTableMap := bm\<rparr>))"
  obtain pt bm where a: "for_loop 0 free ?body ([], m) = Ok (pt, m\<lparr>pageTableMap := bm\<rparr>)"
      "allocated ?B free pt bm"
    using allocate_loop [OF assms(1,2) f(1)] by (auto simp: free_def)
  then have b: "wf_bitmap bm" "numBits bm = NumPhysPages" "int (length pt) = free"
      "set (frames pt) \<subseteq> {0..<NumPhysPages} - ?B" "marked bm = ?B \<union> set (frames pt)" "distinct (frames pt)"
    by (auto simp: allocated_def)
  have "marked bm = {0..<NumPhysPages}"
  proof (rule card_subset_eq)
    show "marked bm \<subseteq> {0..<NumPhysPages}" using marked_range [of bm] b(2) by simp
    have "card (marked bm) = card ?B + length pt"
    proof -
      have "card (set (frames pt)) = length pt" using distinct_card [OF b(6)] by (simp add: frames_def)
      moreover have "?B \<inter> set (frames pt) = {}" using b(4) by blast
      ultimately show ?thesis unfolding b(5) by (simp add: card_Un_disjoint)
    qed
    then show "card (marked bm) = card {0..<NumPhysPages}"
      using b(3) by (simp add: free_def NumPhysPages_def)
  qed simp
  from allocate_loop_full [OF b(1,2) this, of free "uint num" pt m] f b(3)
  obtain l where l: "for_loop free (uint num) ?body (pt, m\<lparr>pageTableMap := bm\<rparr>)
        = Ok (pt @ l, m\<lparr>pageTableMap := bm\<rparr>)" "int (length (pt @ l)) = uint num"
        "\<forall>e\<in>set l. sint (physicalPage e) = -1" by auto
  have one: "for_loop 0 (uint num) ?body ([], m) = Ok (pt @ l, m\<lparr>pageTableMap := bm\<rparr>)"
    using a(1) l(1) f by (subst for_loop_split [of 0 free]) auto
  let ?zero = "\<lambda>i mem. for_loop 0 PageSize (\<lambda>j mem.
      rbind (arr_get (pt @ l) i) (\<lambda>e. arr_set mem (sint (physicalPage e) * PageSize + j) 0)) mem"
  have "nat free = length pt" using b(3) by simp
  then have "set (take (nat free) (frames (pt @ l))) \<subseteq> {0..<NumPhysPages}"
    using b(4) by (auto simp: frames_def)
  from zero_loop [OF assms(3) this f(1)] l(2) f obtain mem where
    mem: "for_loop 0 free ?zero (mainMemory m) = Ok mem" by auto
  have bad: "(pt @ l) ! nat free \<in> set l" "nat free < length (pt @ l)"
  proof -
    have "int (length pt) + int (length l) = uint num" using l(2) by simp
    then have "0 < length l" using f(2) b(3) by linarith
    then show "(pt @ l) ! nat free \<in> set l" "nat free < length (pt @ l)"
      using b(3) by (auto simp: nth_append)
  qed
  then have "arr_get (pt @ l) free = Ok ((pt @ l) ! nat free)" using f by (simp add: arr_get_def)
  moreover have "sint (physicalPage ((pt @ l) ! nat free)) = -1" using l(3) bad(1) by blast
  ultimately have "?zero free mem = Fault OutOfRange"
    by (simp add: for_loop_step PageSize_def arr_set_def)
  then have "for_loop free (uint num) ?zero mem = Fault OutOfRange"
    using f by (simp add: for_loop_step)
  then have "for_loop 0 (uint num) ?zero (mainMemory m) = Fault OutOfRange"
    using mem f by (subst for_loop_split [of 0 free]) auto
  with one show ?thesis by (simp add: AllocateMemory_def)
qed

section \<open>Loading segments\<close>

text \<open>The index in physical memory of the byte at a virtual address, and that byte.\<close>

definition vidx :: "TranslationEntry list \<Rightarrow> nat \<Rightarrow> nat" where
  "vidx pt w = nat (frames pt ! (w div 128)) * 128 + w mod 128"

definition vbyte :: "TranslationEntry list \<Rightarrow> 8 word list \<Rightarrow> nat \<Rightarrow> 8 word" where
  "vbyte pt mem w = mem ! vidx pt w"

definition wf_space :: "TranslationEntry list \<Rightarrow> 8 word list \<Rightarrow> bool" where
  "wf_space pt mem \<longleftrightarrow>
     distinct (frames pt) \<and> set (frames pt) \<subseteq> {0..<NumPhysPages} \<and> int (length mem) = MemorySize"

lemma frame_bounds:
  assumes "wf_space pt mem" "w < length pt * 128"
  shows "0 \<le> frames pt ! (w div 128)" "frames pt ! (w div 128) < NumPhysPages" "w div 128 < length pt"
proof -
  show l: "w div 128 < length pt" using assms(2) by (simp add: div_less_iff_less_mult)
  then have "frames pt ! (w div 128) \<in> set (frames pt)" by (simp add: frames_def)
  with assms(1) show "0 \<le> frames pt ! (w div 128)" "frames pt ! (w div 128) < NumPhysPages"
    by (auto simp: wf_space_def)
qed

lemma vidx_bound: "wf_space pt mem \<Longrightarrow> w < length pt * 128 \<Longrightarrow> vidx pt w < length mem"
proof -
  assume a: "wf_space pt mem" "w < length pt * 128"
  have "nat (frames pt ! (w div 128)) \<le> 127" using frame_bounds [OF a] by (simp add: NumPhysPages_def)
  moreover have "w mod 128 < 128" by simp
  ultimately have "vidx pt w < 128 * 128" unfolding vidx_def by linarith
  then show ?thesis using a(1) by (simp add: wf_space_def memory_consts)
qed

lemma vidx_inj:
  assumes "wf_space pt mem" "v < length pt * 128" "w < length pt * 128"
  shows "vidx pt v = vidx pt w \<longleftrightarrow> v = w"
proof
  assume e: "vidx pt v = vidx pt w"
  then have "vidx pt v div 128 = vidx pt w div 128" "vidx pt v mod 128 = vidx pt w mod 128" by simp_all
  then have n: "nat (frames pt ! (v div 128)) = nat (frames pt ! (w div 128))" "v mod 128 = w mod 128"
    by (simp_all add: vidx_def)
  then have "frames pt ! (v div 128) = frames pt ! (w div 128)"
    using frame_bounds(1) [OF assms(1,2)] frame_bounds(1) [OF assms(1,3)] by (metis int_nat_eq)
  moreover have "distinct (frames pt)" using assms(1) by (simp add: wf_space_def)
  ultimately have "v div 128 = w div 128"
    using frame_bounds(3) [OF assms(1,2)] frame_bounds(3) [OF assms(1,3)]
    by (simp add: nth_eq_iff_index_eq)
  with n(2) show "v = w" by (metis div_mult_mod_eq)
qed simp

lemma paddr_of_vidx:
  assumes "wf_space pt mem" "unat a < length pt * 128"
  shows "\<exists>p. paddr_of pt a = Ok p \<and> unat p = vidx pt (unat a)"
proof -
  have u: "unat (a div word_of_int PageSize) = unat a div 128" by (simp add: PageSize_def unat_div)
  then have ui: "uint (a div word_of_int PageSize) = int (unat a div 128)" by (metis of_nat_unat)
  note b = frame_bounds [OF assms]
  let ?e = "pt ! (unat a div 128)"
  have fr: "frames pt ! (unat a div 128) = sint (physicalPage ?e)" using b(3) by (simp add: frames_def)
  then have f: "unat (physicalPage ?e) = nat (frames pt ! (unat a div 128))"
    using b(1) uint_pos [of "physicalPage ?e"] by (simp flip: nat_uint_eq)
  then have "unat (physicalPage ?e) < 128" using b(2) by (simp add: NumPhysPages_def)
  then have "unat (phys_addr ?e a) = vidx pt (unat a)" by (simp add: unat_phys_addr f vidx_def)
  then show ?thesis
    using b(3) unfolding paddr_of_def ui by (simp add: arr_get_nat phys_addr_def del: of_nat_div)
qed

lemma poke_vidx:
  assumes "wf_space pt mem" "unat a < length pt * 128" "paddr_of pt a = Ok p"
  shows "poke mem p x = Ok (mem[vidx pt (unat a) := x])"
proof -
  have "unat p = vidx pt (unat a)" using paddr_of_vidx [OF assms(1,2)] assms(3) by auto
  moreover have "vidx pt (unat a) < length mem" by (rule vidx_bound [OF assms(1,2)])
  ultimately show ?thesis by (simp add: poke_def arr_set_def uint_less_int)
qed

lemma vbyte_update:
  "wf_space pt mem \<Longrightarrow> v < length pt * 128 \<Longrightarrow> w < length pt * 128 \<Longrightarrow>
    vbyte pt (mem[vidx pt v := x]) w = (if w = v then x else vbyte pt mem w)"
  by (auto simp: vbyte_def vidx_inj vidx_bound)

lemma wf_space_update [simp]: "wf_space pt (mem[i := x]) = wf_space pt mem"
  by (simp add: wf_space_def)

text \<open>Bytes of frames outside the space do not change.\<close>

definition others_kept :: "TranslationEntry list \<Rightarrow> 8 word list \<Rightarrow> 8 word list \<Rightarrow> bool" where
  "others_kept pt mem mem' \<longleftrightarrow>
     length mem' = length mem \<and> (\<forall>q. int q div 128 \<notin> set (frames pt) \<longrightarrow> mem' ! q = mem ! q)"

lemma others_kept_update:
  assumes "wf_space pt mem" "w < length pt * 128" "others_kept pt mem0 mem"
  shows "others_kept pt mem0 (mem[vidx pt w := x])"
proof -
  have "int (vidx pt w) div 128 = frames pt ! (w div 128)"
    using frame_bounds(1) [OF assms(1,2)] by (simp add: vidx_def)
  then have "int (vidx pt w) div 128 \<in> set (frames pt)"
    using frame_bounds(3) [OF assms(1,2)] by (simp add: frames_def)
  moreover have "mem[vidx pt w := x] ! q = mem ! q" if "int q div 128 \<notin> set (frames pt)" for q
    using that calculation by (cases "q = vidx pt w") auto
  ultimately show ?thesis using assms(3) by (simp add: others_kept_def)
qed

lemma unat_add_int:
  fixes a :: "32 word"
  assumes "0 \<le> i" "uint a + i < 2 ^ 32"
  shows "unat (a + word_of_int i) = unat a + nat i"
proof -
  have "i < 2 ^ 32" using assms(2) uint_ge_0 [of a] by linarith
  then have "uint (word_of_int i :: 32 word) = i"
    using assms(1) unfolding unsigned_of_int by (simp add: take_bit_int_eq_self)
  then have "uint (a + word_of_int i) = uint a + i"
    using assms by (simp add: uint_plus_if_size word_size)
  then show ?thesis using assms(1) by (simp add: nat_add_distrib flip: nat_uint_eq)
qed

lemma seg_address:
  fixes va :: "32 word"
  assumes "wf_space pt mem" "0 \<le> k" "k < b" "uint va + b \<le> int (length pt) * 128"
  shows "unat (va + word_of_int k) = unat va + nat k" "unat (va + word_of_int k) < length pt * 128"
proof -
  have "card (set (frames pt)) \<le> card {0..<NumPhysPages}"
    using assms(1) by (intro card_mono) (auto simp: wf_space_def)
  then have "int (length pt) \<le> 128"
    using assms(1) distinct_card [of "frames pt"] by (simp add: wf_space_def NumPhysPages_def)
  then have "int (length pt) * 128 < 2 ^ 32" by simp
  then have "uint va + k < 2 ^ 32" using assms(3,4) by linarith
  with assms(2) show a: "unat (va + word_of_int k) = unat va + nat k" by (rule unat_add_int)
  have "int (unat va) + k < int (length pt) * 128" using assms(3,4) by simp
  then show "unat (va + word_of_int k) < length pt * 128" unfolding a using assms(2) by linarith
qed

text \<open>What copying a segment does to the virtual bytes of the space.\<close>

lemma copy_segment_bytes:
  assumes "wf_space pt mem" "posix_file U (ofile f) v"
    and "0 \<le> b" "uint (virtualAddr seg) + b \<le> int (length pt) * 128"
    and "0 \<le> sint (inFileAddr seg)" "sint (inFileAddr seg) + b \<le> int (length (fst (v h)))"
  shows "\<exists>mem' h'. copy_segment U f pt seg b (mem, h) = Ok (mem', h')
    \<and> fst (v h') = fst (v h) \<and> others_kept pt mem mem'
    \<and> (\<forall>w < length pt * 128. vbyte pt mem' w =
         (if unat (virtualAddr seg) \<le> w \<and> w < unat (virtualAddr seg) + nat b
          then fst (v h) ! (nat (sint (inFileAddr seg)) + (w - unat (virtualAddr seg)))
          else vbyte pt mem w))"
proof -
  let ?va = "unat (virtualAddr seg)" and ?ia = "nat (sint (inFileAddr seg))" and ?c = "fst (v h)"
  let ?I = "\<lambda>i (mem', h'). fst (v h') = ?c \<and> others_kept pt mem mem'
    \<and> (\<forall>w < length pt * 128. vbyte pt mem' w =
         (if ?va \<le> w \<and> w < ?va + nat i then ?c ! (?ia + (w - ?va)) else vbyte pt mem w))"
  have "\<exists>s. copy_segment U f pt seg b (mem, h) = Ok s \<and> ?I b s"
    unfolding copy_segment_def
  proof (rule for_loop_total [where I = ?I])
    fix k s assume k: "0 \<le> k" "k < b" "?I k s"
    obtain m1 h1 where s: "s = (m1, h1)" by fastforce
    have m1: "wf_space pt m1" using k(3) s assms(1) by (auto simp: wf_space_def others_kept_def)
    let ?a = "virtualAddr seg + word_of_int k"
    have a: "unat ?a = ?va + nat k" and al: "unat ?a < length pt * 128"
      using seg_address [OF m1 k(1,2) assms(4)] by simp_all
    obtain p where p: "paddr_of pt ?a = Ok p" using paddr_of_vidx [OF m1 al] by blast
    have il: "?ia + nat k < length ?c" using assms(5,6) k(1,2) by linarith
    have pos: "nat (sint (inFileAddr seg) + k) = ?ia + nat k" "0 \<le> sint (inFileAddr seg) + k"
      using assms(5) k(1) by (simp_all add: nat_add_distrib)
    have mn: "min (length ?c - (?ia + nat k)) (Suc 0) = Suc 0" using il by linarith
    have "take 1 (drop (?ia + nat k) ?c) = [?c ! (?ia + nat k)]"
      using il by (metis Cons_nth_drop_Suc One_nat_def take_Suc_Cons take_0)
    then obtain h2 where h2: "OpenFile_ReadAt U f 1 (sint (inFileAddr seg) + k) h1
        = Ok ((1, [?c ! (?ia + nat k)]), h2)" "fst (v h2) = ?c"
      using ReadAt_posix [OF assms(2) pos(2), of 1 h1] k(3) s pos(1) mn by (auto simp: Let_def)
    have step: "?I (k + 1) (m1[vidx pt (unat ?a) := ?c ! (?ia + nat k)], h2)"
      using k(1,3) s h2(2) vbyte_update [OF m1 al] others_kept_update [OF m1 al] a
      by (auto simp: nat_add_distrib)
    with p h2(1) poke_vidx [OF m1 al p] s
    show "\<exists>s'. (case s of (mem, h) \<Rightarrow>
       rbind (paddr_of pt ?a) (\<lambda>paddr.
       rbind (OpenFile_ReadAt U f 1 (sint (inFileAddr seg) + k) h) (\<lambda>((n, data), h).
       case data of
         [] \<Rightarrow> Ok (mem, h)
       | c # _ \<Rightarrow> rbind (poke mem paddr c) (\<lambda>mem. Ok (mem, h))))) = Ok s' \<and> ?I (k + 1) s'"
      by simp
  qed (use assms in \<open>auto simp: others_kept_def\<close>)
  then show ?thesis by auto
qed

lemma zero_segment_bytes:
  assumes "wf_space pt mem" "0 \<le> sint (seg_size seg)"
    and "uint (virtualAddr seg) + sint (seg_size seg) \<le> int (length pt) * 128"
  shows "\<exists>mem'. zero_segment pt seg mem = Ok mem' \<and> others_kept pt mem mem'
    \<and> (\<forall>w < length pt * 128. vbyte pt mem' w =
         (if unat (virtualAddr seg) \<le> w \<and> w < unat (virtualAddr seg) + nat (sint (seg_size seg))
          then 0 else vbyte pt mem w))"
proof -
  let ?va = "unat (virtualAddr seg)"
  let ?I = "\<lambda>i mem'. others_kept pt mem mem' \<and> (\<forall>w < length pt * 128. vbyte pt mem' w =
         (if ?va \<le> w \<and> w < ?va + nat i then 0 else vbyte pt mem w))"
  show ?thesis
    unfolding zero_segment_def
  proof (rule for_loop_total [where I = ?I])
    fix k m1 assume k: "0 \<le> k" "k < sint (seg_size seg)" "?I k m1"
    have m1: "wf_space pt m1" using k(3) assms(1) by (auto simp: wf_space_def others_kept_def)
    let ?a = "virtualAddr seg + word_of_int k"
    have a: "unat ?a = ?va + nat k" and al: "unat ?a < length pt * 128"
      using seg_address [OF m1 k(1,2) assms(3)] by simp_all
    obtain p where p: "paddr_of pt ?a = Ok p" using paddr_of_vidx [OF m1 al] by blast
    have "?I (k + 1) (m1[vidx pt (unat ?a) := 0])"
      using k(1,3) vbyte_update [OF m1 al] others_kept_update [OF m1 al] a
      by (auto simp: nat_add_distrib)
    with p poke_vidx [OF m1 al p]
    show "\<exists>s'. rbind (paddr_of pt ?a) (\<lambda>paddr. poke m1 paddr 0) = Ok s' \<and> ?I (k + 1) s'" by simp
  qed (use assms in \<open>auto simp: others_kept_def\<close>)
qed

text \<open>When a segment fits into the space and into the file, and when two segments do not overlap.\<close>

definition seg_fits :: "int \<Rightarrow> Segment \<Rightarrow> bool" where
  "seg_fits n s \<longleftrightarrow> 0 \<le> sint (seg_size s) \<and> uint (virtualAddr s) + sint (seg_size s) \<le> n * 128"

definition seg_in_file :: "bytes \<Rightarrow> Segment \<Rightarrow> bool" where
  "seg_in_file c s \<longleftrightarrow>
     0 \<le> sint (inFileAddr s) \<and> sint (inFileAddr s) + sint (seg_size s) \<le> int (length c)"

definition in_seg :: "Segment \<Rightarrow> nat \<Rightarrow> bool" where
  "in_seg s w \<longleftrightarrow> unat (virtualAddr s) \<le> w \<and> w < unat (virtualAddr s) + nat (sint (seg_size s))"

definition seg_disjoint :: "Segment \<Rightarrow> Segment \<Rightarrow> bool" where
  "seg_disjoint s t \<longleftrightarrow>
     unat (virtualAddr s) + nat (sint (seg_size s)) \<le> unat (virtualAddr t)
     \<or> unat (virtualAddr t) + nat (sint (seg_size t)) \<le> unat (virtualAddr s)"

lemma seg_disjointD: "seg_disjoint s t \<Longrightarrow> in_seg s w \<Longrightarrow> \<not> in_seg t w"
  by (auto simp: seg_disjoint_def in_seg_def)

text \<open>The byte a loaded program finds at a virtual address.\<close>

definition image :: "NoffHeader \<Rightarrow> bytes \<Rightarrow> nat \<Rightarrow> 8 word" where
  "image n c w =
     (if in_seg (code n) w
      then c ! (nat (sint (inFileAddr (code n))) + (w - unat (virtualAddr (code n))))
      else if in_seg (initData n) w
      then c ! (nat (sint (inFileAddr (initData n))) + (w - unat (virtualAddr (initData n))))
      else 0)"

definition well_formed_image :: "NoffHeader \<Rightarrow> bytes \<Rightarrow> bool" where
  "well_formed_image n c \<longleftrightarrow>
     (let p = uint (image_pages n) in
      seg_fits p (code n) \<and> seg_fits p (initData n) \<and> seg_fits p (uninitData n)
      \<and> seg_in_file c (code n) \<and> seg_in_file c (initData n)
      \<and> seg_disjoint (code n) (initData n) \<and> seg_disjoint (code n) (uninitData n)
      \<and> seg_disjoint (initData n) (uninitData n) \<and> seg_size (readonlyData n) = 0)"

lemma others_kept_trans:
  "others_kept pt a b \<Longrightarrow> others_kept pt b c \<Longrightarrow> others_kept pt a c"
  by (auto simp: others_kept_def)

lemma wf_space_kept: "wf_space pt a \<Longrightarrow> others_kept pt a b \<Longrightarrow> wf_space pt b"
  by (simp add: wf_space_def others_kept_def)

lemma image_segments:
  assumes "wf_space pt mem" "posix_file U (ofile f) v" "well_formed_image n (fst (v h))"
    and "int (length pt) = uint (image_pages n)" "\<forall>w < length pt * 128. vbyte pt mem w = 0"
  shows "\<exists>m1 h1 m2 m3 h3.
      copy_segment U f pt (code n) (sint (seg_size (code n))) (mem, h) = Ok (m1, h1)
    \<and> zero_segment pt (uninitData n) m1 = Ok m2
    \<and> copy_segment U f pt (initData n) (sint (seg_size (initData n))) (m2, h1) = Ok (m3, h3)
    \<and> fst (v h3) = fst (v h) \<and> others_kept pt mem m3
    \<and> (\<forall>w < length pt * 128. vbyte pt m3 w = image n (fst (v h)) w)"
proof -
  let ?c = "fst (v h)"
  have w: "seg_fits (int (length pt)) (code n)" "seg_fits (int (length pt)) (initData n)"
      "seg_fits (int (length pt)) (uninitData n)" "seg_in_file ?c (code n)" "seg_in_file ?c (initData n)"
      "seg_disjoint (code n) (initData n)" "seg_disjoint (code n) (uninitData n)"
      "seg_disjoint (initData n) (uninitData n)"
    using assms(3,4) by (auto simp: well_formed_image_def Let_def)
  obtain m1 h1 where 1: "copy_segment U f pt (code n) (sint (seg_size (code n))) (mem, h) = Ok (m1, h1)"
      "fst (v h1) = ?c" "others_kept pt mem m1"
      "\<forall>w < length pt * 128. vbyte pt m1 w = (if in_seg (code n) w
         then ?c ! (nat (sint (inFileAddr (code n))) + (w - unat (virtualAddr (code n)))) else 0)"
    using copy_segment_bytes [OF assms(1,2), of "sint (seg_size (code n))" "code n" h] w assms(5)
    by (auto simp: seg_fits_def seg_in_file_def in_seg_def)
  have s1: "wf_space pt m1" by (rule wf_space_kept [OF assms(1) 1(3)])
  obtain m2 where 2: "zero_segment pt (uninitData n) m1 = Ok m2" "others_kept pt m1 m2"
      "\<forall>w < length pt * 128. vbyte pt m2 w = (if in_seg (uninitData n) w then 0 else vbyte pt m1 w)"
    using zero_segment_bytes [OF s1, of "uninitData n"] w by (auto simp: seg_fits_def in_seg_def)
  have s2: "wf_space pt m2" by (rule wf_space_kept [OF s1 2(2)])
  obtain m3 h3 where 3: "copy_segment U f pt (initData n) (sint (seg_size (initData n))) (m2, h1) = Ok (m3, h3)"
      "fst (v h3) = ?c" "others_kept pt m2 m3"
      "\<forall>w < length pt * 128. vbyte pt m3 w = (if in_seg (initData n) w
         then ?c ! (nat (sint (inFileAddr (initData n))) + (w - unat (virtualAddr (initData n))))
         else vbyte pt m2 w)"
    using copy_segment_bytes [OF s2 assms(2), of "sint (seg_size (initData n))" "initData n" h1] w 1(2)
    by (auto simp: seg_fits_def seg_in_file_def in_seg_def)
  have "vbyte pt m3 w = image n ?c w" if "w < length pt * 128" for w
    using that 1(4) 2(3) 3(4) seg_disjointD [OF w(6), of w] seg_disjointD [OF w(7), of w]
      seg_disjointD [OF w(8), of w]
    by (auto simp: image_def)
  moreover have "others_kept pt mem m3" using 1(3) 2(2) 3(3) by (blast intro: others_kept_trans)
  ultimately show ?thesis using 1(1) 2(1) 3(1,2) by blast
qed

lemma load_image_correct:
  assumes "wf_bitmap (pageTableMap k)" "numBits (pageTableMap k) = NumPhysPages"
    and "int (length (mainMemory k)) = MemorySize"
    and "uint (image_pages n) \<le> NumPhysPages - int (card (marked (pageTableMap k)))"
    and "posix_file U (ofile f) v" "well_formed_image n (fst (v (host (fileSystem k))))"
  shows "\<exists>space' k'. load_image U f n space k = Ok (space', k')
    \<and> sp_numPages space' = image_pages n
    \<and> allocated (marked (pageTableMap k)) (uint (image_pages n)) (sp_pageTable space') (pageTableMap k')
    \<and> (\<forall>w < unat (image_pages n) * 128.
         vbyte (sp_pageTable space') (mainMemory k') w = image n (fst (v (host (fileSystem k)))) w)
    \<and> (\<forall>q. int q div 128 \<notin> set (frames (sp_pageTable space')) \<longrightarrow> mainMemory k' ! q = mainMemory k ! q)"
proof -
  let ?num = "image_pages n" and ?h = "host (fileSystem k)"
  obtain pt bm mem where A: "AllocateMemory ?num space k
        = Ok (space\<lparr>sp_numPages := ?num, sp_pageTable := pt\<rparr>, k\<lparr>pageTableMap := bm, mainMemory := mem\<rparr>)"
      "allocated (marked (pageTableMap k)) (uint ?num) pt bm" "length mem = length (mainMemory k)"
      "\<forall>q. mem ! q = (if int q div 128 \<in> set (frames pt) then 0 else mainMemory k ! q)"
    using AllocateMemory_enough [OF assms(1-4), of space] by blast
  have pt: "int (length pt) = uint ?num" "wf_space pt mem"
    using A(2,3) assms(3) by (auto simp: allocated_def wf_space_def)
  have lp: "length pt = unat ?num" using pt(1) by (metis nat_int nat_uint_eq)
  have z: "vbyte pt mem w = 0" if "w < length pt * 128" for w
  proof -
    have "int (vidx pt w) div 128 = frames pt ! (w div 128)"
      using frame_bounds(1) [OF pt(2) that] by (simp add: vidx_def)
    then have "int (vidx pt w) div 128 \<in> set (frames pt)"
      using frame_bounds(3) [OF pt(2) that] by simp
    with A(4) show ?thesis by (simp add: vbyte_def)
  qed
  then obtain m1 h1 m2 m3 h3 where S:
      "copy_segment U f pt (code n) (sint (seg_size (code n))) (mem, ?h) = Ok (m1, h1)"
      "zero_segment pt (uninitData n) m1 = Ok m2"
      "copy_segment U f pt (initData n) (sint (seg_size (initData n))) (m2, h1) = Ok (m3, h3)"
      "others_kept pt mem m3" "\<forall>w < length pt * 128. vbyte pt m3 w = image n (fst (v ?h)) w"
    using image_segments [OF pt(2) assms(5,6) pt(1)] by blast
  have sized: "(if sint (seg_size s) > 0 then sint (seg_size s) else 0) = sint (seg_size s)"
    if "0 \<le> sint (seg_size s)" for s using that by simp
  have nn: "0 \<le> sint (seg_size (code n))" "0 \<le> sint (seg_size (initData n))" "seg_size (readonlyData n) = 0"
    using assms(6) by (auto simp: well_formed_image_def seg_fits_def Let_def)
  have "uint ?num \<le> NumPhysPages" using assms(4) by linarith
  moreover have "copy_segment U f pt (readonlyData n) 0 (m3, h3) = Ok (m3, h3)"
    by (simp add: copy_segment_def)
  ultimately have "load_image U f n space k
      = Ok (space\<lparr>sp_numPages := ?num, sp_pageTable := pt\<rparr>,
            k\<lparr>pageTableMap := bm, mainMemory := m3, fileSystem := (fileSystem k)\<lparr>host := h3\<rparr>\<rparr>)"
    using A(1) S(1-3) unfolding load_image_def Let_def sized [OF nn(1)] sized [OF nn(2)]
    by (simp add: nn(3))
  moreover have "m3 ! q = mainMemory k ! q" if "int q div 128 \<notin> set (frames pt)" for q
    using that S(4) A(4) by (simp add: others_kept_def)
  ultimately show ?thesis using A(2) S(5) lp by simp
qed

text \<open>A kernel with empty memory and one executable file, for the concrete instances.\<close>

definition empty_kernel :: "bytes \<Rightarrow> (bytes \<times> nat) MachineFS" where
  "empty_kernel c = \<lparr>registers = replicate NumTotalRegs 0, mainMemory = replicate (nat MemorySize) 7,
     pageTableMap = \<lparr>numBits = 128, numWords = 4, bwords = [0, 0, 0, 0]\<rparr>, tlb = None,
     pageTable = None, pageTableSize = 0, singleStep = False, status = SystemMode,
     fileSystem = \<lparr>fileSlot = replicate 20 Null, host = (c, 0)\<rparr>\<rparr>"

lemma empty_kernel_facts:
  "wf_bitmap (pageTableMap (empty_kernel c))" "numBits (pageTableMap (empty_kernel c)) = NumPhysPages"
  "int (length (mainMemory (empty_kernel c))) = MemorySize" "marked (pageTableMap (empty_kernel c)) = {}"
proof -
  show "wf_bitmap (pageTableMap (empty_kernel c))"
    by (simp add: empty_kernel_def wf_bitmap_def divRoundUp_nonneg BitsInWord_def BitsInByte_def)
  have "[0, 0, 0, 0 :: 32 word] ! j = 0" if "j < 4" for j
    using that by (auto simp: less_Suc_eq eval_nat_numeral nth_Cons split: nat.split)
  moreover have "nat (i div BitsInWord) < 4" if "0 \<le> i" "i < 128" for i
    using that by (simp add: BitsInWord_def BitsInByte_def nat_less_iff)
  ultimately show "marked (pageTableMap (empty_kernel c)) = {}"
    by (auto simp: marked_def slot_bit_def empty_kernel_def)
qed (simp_all add: empty_kernel_def memory_consts)

definition no_space :: AddrSpace where
  "no_space = \<lparr>stackptr = 0, sp_argc = 0, sp_argv = 0, sp_pageTable = [], sp_numPages = 0\<rparr>"

definition small_header :: NoffHeader where
  "small_header = \<lparr>noffMagic = NOFFMAGIC, code = \<lparr>virtualAddr = 0, inFileAddr = 52, seg_size = 2\<rparr>,
     initData = \<lparr>virtualAddr = 2, inFileAddr = 54, seg_size = 1\<rparr>,
     readonlyData = \<lparr>virtualAddr = 0, inFileAddr = 0, seg_size = 0\<rparr>,
     uninitData = \<lparr>virtualAddr = 3, inFileAddr = 0, seg_size = 1\<rparr>\<rparr>"

lemma small_header_pages: "image_pages small_header = 9"
  by (simp add: image_pages_def small_header_def UserStackSize_def PageSize_def)

section \<open>Properties\<close>

text \<open>C8: When enough frames are free, \<open>AllocateMemory\<close> gives a new address space frames that are
  distinct and were all free, marks exactly these, fills them with zeros, makes every page valid and
  writable, and changes no byte outside them; deleting the space frees exactly these frames again.\<close>

theorem AllocateMemory_isolates:
  assumes "wf_bitmap (pageTableMap m)" "numBits (pageTableMap m) = NumPhysPages"
    and "int (length (mainMemory m)) = MemorySize"
    and "uint num \<le> NumPhysPages - int (card (marked (pageTableMap m)))"
  shows "\<exists>space' m' bm. AllocateMemory num space m = Ok (space', m')
    \<and> (let pt = sp_pageTable space' in
         int (length pt) = uint num \<and> (\<forall>e\<in>set pt. fresh_entry e) \<and> distinct (frames pt)
       \<and> set (frames pt) \<subseteq> {0..<NumPhysPages} - marked (pageTableMap m)
       \<and> marked (pageTableMap m') = marked (pageTableMap m) \<union> set (frames pt)
       \<and> (\<forall>q. mainMemory m' ! q = (if int q div 128 \<in> set (frames pt) then 0 else mainMemory m ! q)))
    \<and> AddrSpace_delete space' m' = Ok (m'\<lparr>pageTableMap := bm\<rparr>) \<and> marked bm = marked (pageTableMap m)"
proof -
  obtain pt bm mem where A: "AllocateMemory num space m
        = Ok (space\<lparr>sp_numPages := num, sp_pageTable := pt\<rparr>, m\<lparr>pageTableMap := bm, mainMemory := mem\<rparr>)"
      "allocated (marked (pageTableMap m)) (uint num) pt bm"
      "\<forall>q. mem ! q = (if int q div 128 \<in> set (frames pt) then 0 else mainMemory m ! q)"
    using AllocateMemory_enough [OF assms, of space] by blast
  let ?s = "space\<lparr>sp_numPages := num, sp_pageTable := pt\<rparr>" and ?m = "m\<lparr>pageTableMap := bm, mainMemory := mem\<rparr>"
  obtain bm' where "AddrSpace_delete ?s ?m = Ok (?m\<lparr>pageTableMap := bm'\<rparr>)" "marked bm' = marked (pageTableMap m)"
    using AddrSpace_delete_frames [of "marked (pageTableMap m)" ?s ?m] A(2) by auto
  with A show ?thesis by (intro exI [of _ ?s] exI [of _ ?m] exI [of _ bm']) (simp add: allocated_def Let_def)
qed

theorem AllocateMemory_isolates_witness:
  "\<exists>space' m' bm. AllocateMemory 2 no_space (empty_kernel []) = Ok (space', m')
    \<and> AddrSpace_delete space' m' = Ok (m'\<lparr>pageTableMap := bm\<rparr>) \<and> marked bm = {}"
proof -
  have "uint (2 :: 32 word) \<le> NumPhysPages - int (card (marked (pageTableMap (empty_kernel []))))"
    by (simp add: empty_kernel_facts NumPhysPages_def)
  from AllocateMemory_isolates [OF empty_kernel_facts(1-3) this, of no_space] show ?thesis
    unfolding empty_kernel_facts(4) by blast
qed

text \<open>When fewer frames are free than a program needs, \<open>AllocateMemory\<close> does not fail cleanly: it
  takes -1 for a frame number and writes before the beginning of physical memory. The assertion
  behind it in \<open>Load\<close>, which compares with all of memory and not with what is free, comes too late.\<close>

theorem AllocateMemory_overcommits:
  assumes "wf_bitmap (pageTableMap m)" "numBits (pageTableMap m) = NumPhysPages"
    and "int (length (mainMemory m)) = MemorySize"
    and "NumPhysPages - int (card (marked (pageTableMap m))) < uint num"
  shows "AllocateMemory num space m = Fault OutOfRange"
  by (rule AllocateMemory_exhausted [OF assms])

theorem AllocateMemory_overcommits_witness:
  "AllocateMemory 129 no_space (empty_kernel []) = Fault OutOfRange"
proof -
  have "NumPhysPages - int (card (marked (pageTableMap (empty_kernel [])))) < uint (129 :: 32 word)"
    by (simp add: empty_kernel_facts NumPhysPages_def)
  from AllocateMemory_overcommits [OF empty_kernel_facts(1-3) this] show ?thesis .
qed



text \<open>C12: The kernel's own \<open>AddrSpace::Translate\<close> agrees with the hardware: on an address space
  whose pages are valid and in real frames, it returns for every address the exception or the
  physical address that the machine's \<open>Translate\<close> returns for a one-byte access with that page
  table, and sets the same use and dirty bits.\<close>

theorem AddrSpace_Translate_agrees:
  assumes "tlb m = None" "length (sp_pageTable space) = unat (sp_numPages space)"
    and "\<forall>e \<in> set (sp_pageTable space). valid e \<and> 0 \<le> sint (physicalPage e)"
  shows "\<exists>r space'. AddrSpace_Translate space a w = Ok (r, space')
    \<and> Translate (RestoreState space m) a 1 w = Ok (r, RestoreState space' m)"
proof -
  let ?pt = "sp_pageTable space" and ?v = "unat a div 128"
  have u: "unat (a div word_of_int PageSize) = ?v" by (simp add: PageSize_def unat_div)
  have ui: "uint (a div word_of_int PageSize) = int ?v" using u by (metis of_nat_unat)
  have T: "Translate (RestoreState space m) a 1 w = Ok
    (let e = ?pt ! ?v in
     if length ?pt \<le> ?v then (Inl AddressErrorException, RestoreState space m)
     else if \<not> valid e then (Inl PageFaultException, RestoreState space m)
     else if readOnly e \<and> w then (Inl ReadOnlyException, RestoreState space m)
     else if 128 \<le> unat (physicalPage e) then (Inl BusErrorException, RestoreState space m)
     else (Inr (word_of_nat (unat (physicalPage e) * 128 + unat a mod 128)),
           (RestoreState space m)\<lparr>pageTable := Some (?pt[?v := touched e w])\<rparr>))"
    using Translate_linear [of "RestoreState space m" ?pt 1 a w] assms(1,2)
    by (simp add: RestoreState_def misaligned_def Let_def)
  show ?thesis
  proof (cases "length ?pt \<le> ?v")
    case True
    then have "sp_numPages space \<le> a div word_of_int PageSize"
      using assms(2) u by (simp add: word_le_nat_alt)
    with True T show ?thesis by (simp add: AddrSpace_Translate_def Let_def)
  next
    case False
    then have n: "\<not> sp_numPages space \<le> a div word_of_int PageSize"
      using assms(2) u by (simp add: word_le_nat_alt)
    let ?e = "?pt ! ?v"
    have e: "valid ?e" "0 \<le> sint (physicalPage ?e)" using assms(3) False by auto
    then have s: "sint (physicalPage ?e) = int (unat (physicalPage ?e))"
      using uint_pos [of "physicalPage ?e"] by simp
    have pw: "word_of_nat (unat (physicalPage ?e) * 128 + unat a mod 128) = phys_addr ?e a"
      and lt: "uint (phys_addr ?e a) < MemorySize"
      if "unat (physicalPage ?e) < 128"
    proof -
      note up = unat_phys_addr [OF that, of a]
      show "word_of_nat (unat (physicalPage ?e) * 128 + unat a mod 128) = phys_addr ?e a"
        unfolding up [symmetric] by simp
      have "unat a mod 128 < 128" by simp
      then have "unat (phys_addr ?e a) < 16384" using that up by linarith
      then show "uint (phys_addr ?e a) < MemorySize" by (simp add: memory_consts flip: uint_less_int)
    qed
    have A: "AddrSpace_Translate space a w = (if w \<and> readOnly ?e then Ok (Inl ReadOnlyException, space)
        else if 128 \<le> unat (physicalPage ?e) then Ok (Inl BusErrorException, space)
        else ASSERT (uint (phys_addr ?e a) < MemorySize)
          (Ok (Inr (phys_addr ?e a), space\<lparr>sp_pageTable := ?pt[?v := touched ?e w]\<rparr>)))"
      using False n s unfolding AddrSpace_Translate_def Let_def ui u
      by (simp add: arr_get_nat NumPhysPages_def touched_def phys_addr_def del: of_nat_div of_nat_unat)
    show ?thesis
      using False e T A pw lt by (auto simp: RestoreState_def Let_def not_le)
  qed
qed

theorem AddrSpace_Translate_agrees_witness:
  "\<exists>r space'. AddrSpace_Translate (no_space\<lparr>sp_pageTable := the (pageTable (one_page False)),
        sp_numPages := 1\<rparr>) 12 True = Ok (r, space')"
  using AddrSpace_Translate_agrees [of "one_page False"
      "no_space\<lparr>sp_pageTable := the (pageTable (one_page False)), sp_numPages := 1\<rparr>" 12 True]
  by auto

end
