(* ===== verification/Threads.thy ===== *)
theory Threads
  imports Addr_Space "HOL-Library.Multiset"
begin

text \<open>
  Threads and synchronisation (\<^verbatim>\<open>threads/thread.cc\<close>, \<^verbatim>\<open>threads/thread.h\<close>,
  \<^verbatim>\<open>threads/scheduler.cc\<close>, \<^verbatim>\<open>threads/synch.cc\<close>): the ready list, context switches,
  semaphores, locks and condition variables.

  The first half models the operations on the kernel's state, one definition per C++ method. The
  second half models their interleaving. A thread's remaining kernel code is a list of \<open>instr\<close>,
  the calls of synchronisation operations it still makes; an operation that consists of several
  atomic parts (\<open>Acquire\<close>, \<open>Wait\<close>) replaces itself by its parts. \<open>exec\<close> runs the head of the
  current thread's list, and the relation \<open>step\<close> adds what the hardware does: an interrupt handler
  that signals a device's semaphore whenever interrupts are enabled or the machine idles, and the
  time slice (\<open>YieldOnReturn\<close>), which makes the current thread yield at any point where
  interrupts are enabled. That covers every call of \<open>OneTick\<close>, so \<open>SetLevel\<close> itself only sets the
  level here.

  Threads, semaphores, locks and condition variables are named by numbers that stand for their
  addresses; a deleted object has no entry in its map. The value of a semaphore is an unbounded
  integer.
\<close>

section \<open>Data\<close>

datatype ThreadStatus = JUST_CREATED | RUNNING | READY | BLOCKED
datatype IntStatus = IntOff | IntOn

type_synonym tid = nat
type_synonym sref = nat

definition STACK_FENCEPOST :: "32 word" where "STACK_FENCEPOST = 0xdedbeef"

text \<open>
  \<open>stack\<close> is the word at the end of the stack that holds the fence post, or \<open>None\<close> for the null
  stack of the main thread. \<open>fresh\<close> says that the saved program counter is \<open>ThreadRoot\<close>: the thread
  has never run. \<open>userRegisters\<close> is \<open>None\<close> until the first save.
\<close>

record Thread =
  processID :: int
  tstatus :: ThreadStatus
  stack :: "32 word option"
  fresh :: bool
  userRegisters :: "32 word list option"
  space :: "AddrSpace option"

record Semaphore =
  semval :: int
  queue :: "tid list"

record Lock =
  semaphore :: sref
  lockHolder :: "tid option"

record Condition =
  waitQueue :: "sref list"

text \<open>
  \<open>tableOwner\<close> names the thread whose address space owns the table that the machine's \<open>pageTable\<close>
  points to.
\<close>

record 'h ThreadKernel = "'h MachineFS" +
  currentThread :: tid
  threads :: "tid \<Rightarrow> Thread option"
  threadCount :: nat
  readyList :: "tid list"
  toBeDestroyed :: "tid option"
  level :: IntStatus
  sems :: "sref \<Rightarrow> Semaphore option"
  semCount :: nat
  locks :: "nat \<Rightarrow> Lock option"
  conds :: "nat \<Rightarrow> Condition option"
  tableOwner :: "tid option"

definition live :: "'a option \<Rightarrow> 'a result" where
  "live x = (case x of None \<Rightarrow> Fault UseAfterFree | Some y \<Rightarrow> Ok y)"

abbreviation "put_thread k t x \<equiv> k\<lparr>threads := (threads k)(t \<mapsto> x)\<rparr>"
abbreviation "put_sem k s x \<equiv> k\<lparr>sems := (sems k)(s \<mapsto> x)\<rparr>"

section \<open>Threads and the scheduler\<close>

definition Thread_new :: "int \<Rightarrow> Thread" where
  "Thread_new pid = \<lparr>processID = pid, tstatus = JUST_CREATED, stack = None, fresh = True,
     userRegisters = None, space = None\<rparr>"

definition StackAllocate :: "Thread \<Rightarrow> Thread" where
  "StackAllocate th = th\<lparr>stack := Some STACK_FENCEPOST, fresh := True\<rparr>"

definition ReadyToRun :: "tid \<Rightarrow> ('h, 'k) ThreadKernel_scheme \<Rightarrow> ('h, 'k) ThreadKernel_scheme result" where
  "ReadyToRun t k =
     ASSERT (level k = IntOff)
       (rbind (live (threads k t)) (\<lambda>th.
        Ok ((put_thread k t (th\<lparr>tstatus := READY\<rparr>))\<lparr>readyList := readyList k @ [t]\<rparr>)))"

definition FindNextToRun ::
  "('h, 'k) ThreadKernel_scheme \<Rightarrow> (tid option \<times> ('h, 'k) ThreadKernel_scheme) result" where
  "FindNextToRun k =
     ASSERT (level k = IntOff)
       (case readyList k of [] \<Rightarrow> Ok (None, k) | t # ts \<Rightarrow> Ok (Some t, k\<lparr>readyList := ts\<rparr>))"

definition SetLevel ::
  "IntStatus \<Rightarrow> ('h, 'k) ThreadKernel_scheme \<Rightarrow> IntStatus \<times> ('h, 'k) ThreadKernel_scheme" where
  "SetLevel lv k = (level k, k\<lparr>level := lv\<rparr>)"

definition Thread_delete :: "tid \<Rightarrow> ('h, 'k) ThreadKernel_scheme \<Rightarrow> ('h, 'k) ThreadKernel_scheme result" where
  "Thread_delete t k =
     rbind (live (threads k t)) (\<lambda>th.
     rbind (case space th of None \<Rightarrow> Ok k | Some sp \<Rightarrow> AddrSpace_delete sp k) (\<lambda>k.
     ASSERT (t \<noteq> currentThread k) (Ok (k\<lparr>threads := (threads k)(t := None)\<rparr>))))"

definition CheckToBeDestroyed ::
  "('h, 'k) ThreadKernel_scheme \<Rightarrow> ('h, 'k) ThreadKernel_scheme result" where
  "CheckToBeDestroyed k =
     (case toBeDestroyed k of
        None \<Rightarrow> Ok k
      | Some t \<Rightarrow> rbind (Thread_delete t k) (\<lambda>k. Ok (k\<lparr>toBeDestroyed := None\<rparr>)))"

definition SaveUserState :: "tid \<Rightarrow> ('h, 'k) ThreadKernel_scheme \<Rightarrow> ('h, 'k) ThreadKernel_scheme result" where
  "SaveUserState t k =
     rbind (live (threads k t)) (\<lambda>th.
     rbind (for_loop 0 (int NumTotalRegs) (\<lambda>i us. rbind (ReadRegister k i) (\<lambda>v. Ok (us @ [v]))) []) (\<lambda>us.
     Ok (put_thread k t (th\<lparr>userRegisters := Some us\<rparr>))))"

definition RestoreUserState :: "tid \<Rightarrow> ('h, 'k) ThreadKernel_scheme \<Rightarrow> ('h, 'k) ThreadKernel_scheme result" where
  "RestoreUserState t k =
     rbind (live (threads k t)) (\<lambda>th.
     case userRegisters th of
       None \<Rightarrow> Fault Uninitialised
     | Some us \<Rightarrow> for_loop 0 (int NumTotalRegs) (\<lambda>i k. rbind (arr_get us i) (WriteRegister k i)) k)"

definition CheckOverflow :: "tid \<Rightarrow> ('h, 'k) ThreadKernel_scheme \<Rightarrow> unit result" where
  "CheckOverflow t k =
     rbind (live (threads k t)) (\<lambda>th.
     case stack th of None \<Rightarrow> Ok () | Some w \<Rightarrow> ASSERT (w = STACK_FENCEPOST) (Ok ()))"

text \<open>
  The machine's \<open>pageTable\<close> is a pointer to the table of an address space, so what translation wrote
  into it is in that address space. Before the pointer changes, the model copies the contents back to
  the owner.
\<close>

definition sync_table :: "('h, 'k) ThreadKernel_scheme \<Rightarrow> ('h, 'k) ThreadKernel_scheme" where
  "sync_table k =
     (case tableOwner k of
        None \<Rightarrow> k
      | Some t \<Rightarrow>
          (case (threads k t, pageTable k) of
             (Some th, Some pt) \<Rightarrow>
               put_thread k t (th\<lparr>space := map_option (\<lambda>sp. sp\<lparr>sp_pageTable := pt\<rparr>) (space th)\<rparr>)
           | _ \<Rightarrow> k))"

definition Space_RestoreState :: "tid \<Rightarrow> AddrSpace \<Rightarrow> ('h, 'k) ThreadKernel_scheme \<Rightarrow> ('h, 'k) ThreadKernel_scheme"
where
  "Space_RestoreState t sp k = (RestoreState sp k)\<lparr>tableOwner := Some t\<rparr>"

text \<open>
  \<open>Run\<close> in two parts: what the old thread does before \<open>SWITCH\<close> (\<open>Run_out\<close>), and what the next thread
  does behind it (\<open>Switch_in\<close>): the rest of the \<open>Run\<close> it called when it was switched out, or, for a
  thread that never ran, \<open>ThreadRoot\<close> with its call of \<open>Begin\<close>.
\<close>

definition Run_out ::
  "tid \<Rightarrow> bool \<Rightarrow> ('h, 'k) ThreadKernel_scheme \<Rightarrow> ('h, 'k) ThreadKernel_scheme result" where
  "Run_out nextThread finishing k0 =
     (let oldThread = currentThread k0 in
      ASSERT (level k0 = IntOff)
      (rbind (if finishing
              then ASSERT (toBeDestroyed k0 = None) (Ok (k0\<lparr>toBeDestroyed := Some oldThread\<rparr>))
              else Ok k0) (\<lambda>k.
       rbind (live (threads k oldThread)) (\<lambda>old.
       rbind (if space old \<noteq> None then SaveUserState oldThread (sync_table k) else Ok (sync_table k)) (\<lambda>k.
       rbind (CheckOverflow oldThread k) (\<lambda>_.
       let k = k\<lparr>currentThread := nextThread\<rparr> in
       rbind (live (threads k nextThread)) (\<lambda>nxt.
       Ok (put_thread k nextThread (nxt\<lparr>tstatus := RUNNING\<rparr>)))))))))"

definition Thread_Begin :: "tid \<Rightarrow> ('h, 'k) ThreadKernel_scheme \<Rightarrow> ('h, 'k) ThreadKernel_scheme result" where
  "Thread_Begin t k =
     ASSERT (t = currentThread k)
       (rbind (CheckToBeDestroyed k) (\<lambda>k. Ok (snd (SetLevel IntOn k))))"

definition Switch_in :: "('h, 'k) ThreadKernel_scheme \<Rightarrow> ('h, 'k) ThreadKernel_scheme result" where
  "Switch_in k =
     (let t = currentThread k in
      rbind (live (threads k t)) (\<lambda>th.
      if fresh th then Thread_Begin t (put_thread k t (th\<lparr>fresh := False\<rparr>))
      else ASSERT (level k = IntOff)
        (rbind (CheckToBeDestroyed k) (\<lambda>k.
         case space th of
           None \<Rightarrow> Ok k
         | Some sp \<Rightarrow> rbind (RestoreUserState t k) (\<lambda>k. Ok (Space_RestoreState t sp k))))))"

definition Scheduler_Run ::
  "tid \<Rightarrow> bool \<Rightarrow> ('h, 'k) ThreadKernel_scheme \<Rightarrow> ('h, 'k) ThreadKernel_scheme result" where
  "Scheduler_Run nextThread finishing k = rbind (Run_out nextThread finishing k) Switch_in"

text \<open>\<open>Fork\<close> on a thread just created; it returns the new thread.\<close>

definition Thread_Fork ::
  "int \<Rightarrow> ('h, 'k) ThreadKernel_scheme \<Rightarrow> (tid \<times> ('h, 'k) ThreadKernel_scheme) result" where
  "Thread_Fork pid k =
     (let t = threadCount k;
          k = (put_thread k t (StackAllocate (Thread_new pid)))\<lparr>threadCount := t + 1\<rparr>;
          (oldLevel, k) = SetLevel IntOff k in
      rbind (ReadyToRun t k) (\<lambda>k. Ok (t, snd (SetLevel oldLevel k))))"

text \<open>
  \<open>Yield\<close> up to the point where the thread is switched out: it returns whether there was a thread to
  switch to, and the level that the rest of the call restores.
\<close>

definition Thread_Yield ::
  "('h, 'k) ThreadKernel_scheme \<Rightarrow> (bool \<times> IntStatus \<times> ('h, 'k) ThreadKernel_scheme) result" where
  "Thread_Yield k =
     (let (oldLevel, k) = SetLevel IntOff k; this = currentThread k in
      rbind (FindNextToRun k) (\<lambda>(nextThread, k).
      case nextThread of
        None \<Rightarrow> Ok (False, oldLevel, snd (SetLevel oldLevel k))
      | Some n \<Rightarrow> rbind (ReadyToRun this k) (\<lambda>k.
          rbind (Scheduler_Run n False k) (\<lambda>k. Ok (True, oldLevel, k)))))"

text \<open>\<open>Sleep\<close> up to its loop, and one round of the loop when the ready list is not empty.\<close>

definition Sleep_enter :: "('h, 'k) ThreadKernel_scheme \<Rightarrow> ('h, 'k) ThreadKernel_scheme result" where
  "Sleep_enter k =
     ASSERT (level k = IntOff)
       (rbind (live (threads k (currentThread k))) (\<lambda>th.
        Ok (put_thread k (currentThread k) (th\<lparr>tstatus := BLOCKED\<rparr>))))"

definition Sleep_leave ::
  "bool \<Rightarrow> ('h, 'k) ThreadKernel_scheme \<Rightarrow> ('h, 'k) ThreadKernel_scheme option result" where
  "Sleep_leave finishing k =
     rbind (FindNextToRun k) (\<lambda>(nextThread, k).
     case nextThread of
       None \<Rightarrow> Ok None
     | Some n \<Rightarrow> rbind (Scheduler_Run n finishing k) (\<lambda>k. Ok (Some k)))"

definition Thread_Finish :: "('h, 'k) ThreadKernel_scheme \<Rightarrow> ('h, 'k) ThreadKernel_scheme result" where
  "Thread_Finish k = Sleep_enter (snd (SetLevel IntOff k))"

section \<open>Semaphores, locks, condition variables\<close>

definition Semaphore_new ::
  "int \<Rightarrow> ('h, 'k) ThreadKernel_scheme \<Rightarrow> sref \<times> ('h, 'k) ThreadKernel_scheme" where
  "Semaphore_new n k =
     (semCount k, (put_sem k (semCount k) \<lparr>semval = n, queue = []\<rparr>)\<lparr>semCount := semCount k + 1\<rparr>)"

definition Semaphore_delete ::
  "sref \<Rightarrow> ('h, 'k) ThreadKernel_scheme \<Rightarrow> ('h, 'k) ThreadKernel_scheme result" where
  "Semaphore_delete s k = rbind (live (sems k s)) (\<lambda>_. Ok (k\<lparr>sems := (sems k)(s := None)\<rparr>))"

text \<open>
  One round of \<open>P\<close>: the test of the loop, and either the decrement (\<open>True\<close>) or the part of the body
  before the thread sleeps (\<open>False\<close>). \<open>oldLevel\<close> is the level \<open>P\<close> restores at its end.
\<close>

definition Semaphore_P ::
  "IntStatus \<Rightarrow> sref \<Rightarrow> ('h, 'k) ThreadKernel_scheme \<Rightarrow> (bool \<times> ('h, 'k) ThreadKernel_scheme) result" where
  "Semaphore_P oldLevel s k =
     (let k = snd (SetLevel IntOff k) in
      rbind (live (sems k s)) (\<lambda>sm.
      if semval sm = 0
      then rbind (Sleep_enter (put_sem k s (sm\<lparr>queue := queue sm @ [currentThread k]\<rparr>))) (\<lambda>k.
           Ok (False, k))
      else Ok (True, snd (SetLevel oldLevel (put_sem k s (sm\<lparr>semval := semval sm - 1\<rparr>))))))"

definition Semaphore_V ::
  "sref \<Rightarrow> ('h, 'k) ThreadKernel_scheme \<Rightarrow> ('h, 'k) ThreadKernel_scheme result" where
  "Semaphore_V s k =
     (let (oldLevel, k) = SetLevel IntOff k in
      rbind (live (sems k s)) (\<lambda>sm.
      rbind (case queue sm of
               [] \<Rightarrow> Ok k
             | t # ts \<Rightarrow> ReadyToRun t (put_sem k s (sm\<lparr>queue := ts\<rparr>))) (\<lambda>k.
      rbind (live (sems k s)) (\<lambda>sm.
      Ok (snd (SetLevel oldLevel (put_sem k s (sm\<lparr>semval := semval sm + 1\<rparr>))))))))"

definition IsHeldByCurrentThread :: "Lock \<Rightarrow> ('h, 'k) ThreadKernel_scheme \<Rightarrow> bool" where
  "IsHeldByCurrentThread l k \<longleftrightarrow> lockHolder l = Some (currentThread k)"

definition Lock_SetHolder ::
  "nat \<Rightarrow> ('h, 'k) ThreadKernel_scheme \<Rightarrow> ('h, 'k) ThreadKernel_scheme result" where
  "Lock_SetHolder l k =
     rbind (live (locks k l)) (\<lambda>L.
     Ok (k\<lparr>locks := (locks k)(l \<mapsto> L\<lparr>lockHolder := Some (currentThread k)\<rparr>)\<rparr>))"

definition Lock_ClearHolder ::
  "nat \<Rightarrow> ('h, 'k) ThreadKernel_scheme \<Rightarrow> (sref \<times> ('h, 'k) ThreadKernel_scheme) result" where
  "Lock_ClearHolder l k =
     rbind (live (locks k l)) (\<lambda>L.
     ASSERT (IsHeldByCurrentThread L k)
       (Ok (semaphore L, k\<lparr>locks := (locks k)(l \<mapsto> L\<lparr>lockHolder := None\<rparr>)\<rparr>)))"

definition Condition_enqueue ::
  "nat \<Rightarrow> nat \<Rightarrow> ('h, 'k) ThreadKernel_scheme \<Rightarrow> (sref \<times> ('h, 'k) ThreadKernel_scheme) result" where
  "Condition_enqueue c l k =
     rbind (live (locks k l)) (\<lambda>L.
     ASSERT (IsHeldByCurrentThread L k)
       (let (w, k) = Semaphore_new 0 k in
        rbind (live (conds k c)) (\<lambda>cv.
        Ok (w, k\<lparr>conds := (conds k)(c \<mapsto> cv\<lparr>waitQueue := waitQueue cv @ [w]\<rparr>)\<rparr>))))"

definition Condition_dequeue ::
  "nat \<Rightarrow> nat \<Rightarrow> ('h, 'k) ThreadKernel_scheme \<Rightarrow> (sref option \<times> ('h, 'k) ThreadKernel_scheme) result" where
  "Condition_dequeue c l k =
     rbind (live (locks k l)) (\<lambda>L.
     ASSERT (IsHeldByCurrentThread L k)
       (rbind (live (conds k c)) (\<lambda>cv.
        case waitQueue cv of
          [] \<Rightarrow> Ok (None, k)
        | w # ws \<Rightarrow> Ok (Some w, k\<lparr>conds := (conds k)(c \<mapsto> cv\<lparr>waitQueue := ws\<rparr>)\<rparr>))))"

section \<open>Interleaving\<close>

text \<open>
  The calls a thread makes. \<open>SetHolder\<close>, \<open>Reset\<close> and \<open>Delete\<close> are the inner parts of \<open>Acquire\<close>,
  \<open>Yield\<close> and \<open>Wait\<close>. \<open>Fork f\<close> starts the function \<open>f\<close> of the program text \<open>F\<close>.
\<close>

datatype instr =
    P sref
  | V sref
  | Acquire nat
  | SetHolder nat
  | Release nat
  | Wait nat nat
  | Delete sref
  | Signal nat nat
  | Broadcast nat nat
  | Yield
  | Reset IntStatus
  | Fork nat

text \<open>\<open>sleeping = Some fin\<close>: the current thread is in the loop of \<open>Sleep(fin)\<close>.\<close>

record 'h Sys =
  kern :: "'h ThreadKernel"
  progs :: "tid \<Rightarrow> instr list"
  sleeping :: "bool option"

definition upd :: "'h Sys \<Rightarrow> 'h ThreadKernel \<Rightarrow> instr list \<Rightarrow> 'h Sys" where
  "upd c k is = c\<lparr>kern := k, progs := (progs c)(currentThread (kern c) := is)\<rparr>"

definition do_yield :: "instr list \<Rightarrow> 'h Sys \<Rightarrow> 'h Sys result" where
  "do_yield rest c =
     rbind (Thread_Yield (kern c)) (\<lambda>(switched, oldLevel, k).
     Ok (upd c k (if switched then Reset oldLevel # rest else rest)))"

primrec exec :: "(nat \<Rightarrow> instr list) \<Rightarrow> instr \<Rightarrow> instr list \<Rightarrow> 'h Sys \<Rightarrow> 'h Sys result" where
  "exec F (P s) rest c =
     rbind (Semaphore_P IntOn s (kern c)) (\<lambda>(got, k).
     Ok (if got then upd c k rest else (upd c k (P s # rest))\<lparr>sleeping := Some False\<rparr>))"
| "exec F (V s) rest c = rbind (Semaphore_V s (kern c)) (\<lambda>k. Ok (upd c k rest))"
| "exec F (Acquire l) rest c =
     rbind (live (locks (kern c) l)) (\<lambda>L. Ok (upd c (kern c) (P (semaphore L) # SetHolder l # rest)))"
| "exec F (SetHolder l) rest c = rbind (Lock_SetHolder l (kern c)) (\<lambda>k. Ok (upd c k rest))"
| "exec F (Release l) rest c = rbind (Lock_ClearHolder l (kern c)) (\<lambda>(s, k). Ok (upd c k (V s # rest)))"
| "exec F (Wait cv l) rest c =
     rbind (Condition_enqueue cv l (kern c)) (\<lambda>(w, k).
     Ok (upd c k (Release l # P w # Acquire l # Delete w # rest)))"
| "exec F (Delete s) rest c = rbind (Semaphore_delete s (kern c)) (\<lambda>k. Ok (upd c k rest))"
| "exec F (Signal cv l) rest c =
     rbind (Condition_dequeue cv l (kern c)) (\<lambda>(w, k).
     Ok (upd c k (case w of None \<Rightarrow> rest | Some w \<Rightarrow> V w # rest)))"
| "exec F (Broadcast cv l) rest c =
     rbind (live (conds (kern c) cv)) (\<lambda>x.
     Ok (upd c (kern c) (if waitQueue x \<noteq> [] then Signal cv l # Broadcast cv l # rest else rest)))"
| "exec F Yield rest c = do_yield rest c"
| "exec F (Reset lv) rest c = Ok (upd c (snd (SetLevel lv (kern c))) rest)"
| "exec F (Fork f) rest c =
     rbind (live (threads (kern c) (currentThread (kern c)))) (\<lambda>th.
     rbind (Thread_Fork (processID th) (kern c)) (\<lambda>(t, k).
     Ok ((upd c k rest)\<lparr>progs := (progs (upd c k rest))(t := F f)\<rparr>)))"

inductive step :: "(nat \<Rightarrow> instr list) \<Rightarrow> sref set \<Rightarrow> 'h Sys \<Rightarrow> 'h Sys \<Rightarrow> bool" for F D where
  run: "sleeping c = None \<Longrightarrow> progs c (currentThread (kern c)) = i # rest
    \<Longrightarrow> exec F i rest c = Ok c' \<Longrightarrow> step F D c c'"
| finish: "sleeping c = None \<Longrightarrow> progs c (currentThread (kern c)) = []
    \<Longrightarrow> Thread_Finish (kern c) = Ok k \<Longrightarrow> step F D c (c\<lparr>kern := k, sleeping := Some True\<rparr>)"
| dispatch: "sleeping c = Some fin \<Longrightarrow> Sleep_leave fin (kern c) = Ok (Some k)
    \<Longrightarrow> step F D c (c\<lparr>kern := k, sleeping := None\<rparr>)"
| idle: "sleeping c = Some fin \<Longrightarrow> readyList (kern c) = [] \<Longrightarrow> s \<in> D
    \<Longrightarrow> Semaphore_V s (kern c) = Ok k \<Longrightarrow> step F D c (c\<lparr>kern := k\<rparr>)"
| interrupt: "sleeping c = None \<Longrightarrow> level (kern c) = IntOn \<Longrightarrow> s \<in> D
    \<Longrightarrow> Semaphore_V s (kern c) = Ok k \<Longrightarrow> step F D c (c\<lparr>kern := k\<rparr>)"
| time_slice: "sleeping c = None \<Longrightarrow> level (kern c) = IntOn
    \<Longrightarrow> do_yield (progs c (currentThread (kern c))) c = Ok c' \<Longrightarrow> step F D c c'"


section \<open>The abstract machine\<close>

text \<open>
  What the threads library promises: a set \<open>run\<close> of runnable threads without any order, and
  semaphores with a queue each. Any runnable thread may make its next call. The ready list, the
  current thread, the interrupt level and the saved registers are gone.
\<close>

record Abs =
  run :: "tid multiset"
  prg :: "tid \<Rightarrow> instr list"
  asem :: "sref \<Rightarrow> Semaphore option"
  alock :: "nat \<Rightarrow> Lock option"
  acond :: "nat \<Rightarrow> Condition option"
  scount :: nat
  tcount :: nat

definition runnable :: "'h Sys \<Rightarrow> tid list" where
  "runnable c = (if sleeping c = None then [currentThread (kern c)] else []) @ readyList (kern c)"

definition abs_sys :: "'h Sys \<Rightarrow> Abs" where
  "abs_sys c = \<lparr>run = mset (runnable c), prg = progs c, asem = sems (kern c), alock = locks (kern c),
     acond = conds (kern c), scount = semCount (kern c), tcount = threadCount (kern c)\<rparr>"

definition wake :: "sref \<Rightarrow> Abs \<Rightarrow> Abs option" where
  "wake s a = (case asem a s of
       None \<Rightarrow> None
     | Some x \<Rightarrow> Some (case queue x of
         [] \<Rightarrow> a\<lparr>asem := (asem a)(s \<mapsto> x\<lparr>semval := semval x + 1\<rparr>)\<rparr>
       | t # ts \<Rightarrow> a\<lparr>asem := (asem a)(s \<mapsto> x\<lparr>queue := ts, semval := semval x + 1\<rparr>),
                    run := add_mset t (run a)\<rparr>))"

abbreviation "goto a t is \<equiv> a\<lparr>prg := (prg a)(t := is)\<rparr>"

inductive astep :: "(nat \<Rightarrow> instr list) \<Rightarrow> sref set \<Rightarrow> Abs \<Rightarrow> Abs \<Rightarrow> bool" for F D where
  take: "t \<in># run a \<Longrightarrow> prg a t = P s # r \<Longrightarrow> asem a s = Some x \<Longrightarrow> semval x \<noteq> 0
    \<Longrightarrow> astep F D a ((goto a t r)\<lparr>asem := (asem a)(s \<mapsto> x\<lparr>semval := semval x - 1\<rparr>)\<rparr>)"
| block: "t \<in># run a \<Longrightarrow> prg a t = P s # r \<Longrightarrow> asem a s = Some x \<Longrightarrow> semval x = 0
    \<Longrightarrow> astep F D a (a\<lparr>run := run a - {#t#}, asem := (asem a)(s \<mapsto> x\<lparr>queue := queue x @ [t]\<rparr>)\<rparr>)"
| signal: "t \<in># run a \<Longrightarrow> prg a t = V s # r \<Longrightarrow> wake s (goto a t r) = Some a' \<Longrightarrow> astep F D a a'"
| device: "s \<in> D \<Longrightarrow> wake s a = Some a' \<Longrightarrow> astep F D a a'"
| acquire: "t \<in># run a \<Longrightarrow> prg a t = Acquire l # r \<Longrightarrow> alock a l = Some L
    \<Longrightarrow> astep F D a (goto a t (P (semaphore L) # SetHolder l # r))"
| own: "t \<in># run a \<Longrightarrow> prg a t = SetHolder l # r \<Longrightarrow> alock a l = Some L
    \<Longrightarrow> astep F D a ((goto a t r)\<lparr>alock := (alock a)(l \<mapsto> L\<lparr>lockHolder := Some t\<rparr>)\<rparr>)"
| release: "t \<in># run a \<Longrightarrow> prg a t = Release l # r \<Longrightarrow> alock a l = Some L \<Longrightarrow> lockHolder L = Some t
    \<Longrightarrow> astep F D a ((goto a t (V (semaphore L) # r))\<lparr>alock := (alock a)(l \<mapsto> L\<lparr>lockHolder := None\<rparr>)\<rparr>)"
| cwait: "t \<in># run a \<Longrightarrow> prg a t = Wait v l # r \<Longrightarrow> alock a l = Some L \<Longrightarrow> lockHolder L = Some t
    \<Longrightarrow> acond a v = Some x \<Longrightarrow> w = scount a
    \<Longrightarrow> astep F D a ((goto a t (Release l # P w # Acquire l # Delete w # r))
          \<lparr>asem := (asem a)(w \<mapsto> \<lparr>semval = 0, queue = []\<rparr>), scount := w + 1,
           acond := (acond a)(v \<mapsto> x\<lparr>waitQueue := waitQueue x @ [w]\<rparr>)\<rparr>)"
| csignal: "t \<in># run a \<Longrightarrow> prg a t = Signal v l # r \<Longrightarrow> alock a l = Some L \<Longrightarrow> lockHolder L = Some t
    \<Longrightarrow> acond a v = Some x \<Longrightarrow> waitQueue x = w # ws
    \<Longrightarrow> astep F D a ((goto a t (V w # r))\<lparr>acond := (acond a)(v \<mapsto> x\<lparr>waitQueue := ws\<rparr>)\<rparr>)"
| csignal_none: "t \<in># run a \<Longrightarrow> prg a t = Signal v l # r \<Longrightarrow> alock a l = Some L
    \<Longrightarrow> lockHolder L = Some t \<Longrightarrow> acond a v = Some x \<Longrightarrow> waitQueue x = [] \<Longrightarrow> astep F D a (goto a t r)"
| broadcast: "t \<in># run a \<Longrightarrow> prg a t = Broadcast v l # r \<Longrightarrow> acond a v = Some x
    \<Longrightarrow> astep F D a (goto a t (if waitQueue x \<noteq> [] then Signal v l # Broadcast v l # r else r))"
| discard: "t \<in># run a \<Longrightarrow> prg a t = Delete s # r \<Longrightarrow> asem a s = Some x
    \<Longrightarrow> astep F D a ((goto a t r)\<lparr>asem := (asem a)(s := None)\<rparr>)"
| yielded: "t \<in># run a \<Longrightarrow> prg a t = Yield # r \<Longrightarrow> is = r \<or> (\<exists>lv. is = Reset lv # r)
    \<Longrightarrow> astep F D a (goto a t is)"
| sliced: "t \<in># run a \<Longrightarrow> astep F D a (goto a t (Reset lv # prg a t))"
| reset: "t \<in># run a \<Longrightarrow> prg a t = Reset lv # r \<Longrightarrow> astep F D a (goto a t r)"
| fork: "t \<in># run a \<Longrightarrow> prg a t = Fork f # r \<Longrightarrow> n = tcount a
    \<Longrightarrow> astep F D a ((goto (goto a t r) n (F f))\<lparr>run := add_mset n (run a), tcount := n + 1\<rparr>)"
| finished: "t \<in># run a \<Longrightarrow> prg a t = [] \<Longrightarrow> astep F D a (a\<lparr>run := run a - {#t#}\<rparr>)"

section \<open>What the kernel's operations leave alone\<close>

text \<open>The synchronisation objects and the counters.\<close>

definition sync_state :: "('h, 'k) ThreadKernel_scheme
    \<Rightarrow> (sref \<Rightarrow> Semaphore option) \<times> nat \<times> (nat \<Rightarrow> Lock option) \<times> (nat \<Rightarrow> Condition option) \<times> nat" where
  "sync_state k = (sems k, semCount k, locks k, conds k, threadCount k)"

lemma live_eq_Ok [simp]: "live x = Ok y \<longleftrightarrow> x = Some y"
  by (cases x) (simp_all add: live_def)

lemma live_Some [simp]: "live (Some x) = Ok x"
  by (simp add: live_def)

lemma for_loop_invariant:
  assumes "for_loop i n body s = Ok s'" "\<And>j s s'. body j s = Ok s' \<Longrightarrow> f s' = f s"
  shows "f s' = f s"
proof (cases "i \<le> n")
  case True
  show ?thesis
    by (rule for_loop_partial [where I = "\<lambda>_ t. f t = f s", OF assms(1) _ True]) (auto dest: assms(2))
qed (use assms in simp)

text \<open>\<open>sched\<close> collects what the scheduler's bookkeeping consists of.\<close>

definition sched :: "('h, 'k) ThreadKernel_scheme \<Rightarrow> tid \<times> tid list \<times> tid option \<times> IntStatus" where
  "sched k = (currentThread k, readyList k, toBeDestroyed k, level k)"

lemma WriteRegister_frame:
  assumes "WriteRegister k i v = Ok k'"
  shows "sync_state k' = sync_state k" "sched k' = sched k" "threads k' = threads k"
    "pageTable k' = pageTable k" "pageTableMap k' = pageTableMap k" "tableOwner k' = tableOwner k"
  using assms by (auto simp: WriteRegister_def sync_state_def sched_def elim!: rbind_OkE)

lemma RestoreUserState_frame:
  assumes "RestoreUserState t k = Ok k'"
  shows "sync_state k' = sync_state k" "sched k' = sched k" "threads k' = threads k"
    "pageTableMap k' = pageTableMap k"
proof -
  obtain us where l: "for_loop 0 (int NumTotalRegs) (\<lambda>i k. rbind (arr_get us i) (WriteRegister k i)) k = Ok k'"
    using assms by (auto simp: RestoreUserState_def elim!: rbind_OkE split: option.splits)
  show "sync_state k' = sync_state k" "sched k' = sched k" "threads k' = threads k"
    "pageTableMap k' = pageTableMap k"
    by (rule for_loop_invariant [OF l]; auto elim!: rbind_OkE dest: WriteRegister_frame)+
qed

lemma RestoreUserState_keeps:
  "RestoreUserState t k = Ok k' \<Longrightarrow>
     sync_state k' = sync_state k \<and> sched k' = sched k \<and> threads k' = threads k"
  by (simp add: RestoreUserState_frame)

lemma sync_table_frame [simp]:
  "sync_state (sync_table k) = sync_state k" "sched (sync_table k) = sched k"
  "dom (threads (sync_table k)) = dom (threads k)" "pageTableMap (sync_table k) = pageTableMap k"
  by (auto simp: sync_table_def sync_state_def sched_def split: option.splits)

lemma SaveUserState_frame:
  assumes "SaveUserState t k = Ok k'"
  shows "sync_state k' = sync_state k \<and> sched k' = sched k \<and> dom (threads k') = dom (threads k)
    \<and> pageTableMap k' = pageTableMap k"
  using assms
  by (auto simp: SaveUserState_def sync_state_def sched_def elim!: rbind_OkE split: if_splits)

lemma Thread_delete_frame:
  assumes "Thread_delete t k = Ok k'"
  shows "sync_state k' = sync_state k \<and> sched k' = sched k \<and> threads k' = (threads k)(t := None)
    \<and> t \<noteq> currentThread k"
  using assms
  by (auto simp: Thread_delete_def AddrSpace_delete_def sync_state_def sched_def elim!: rbind_OkE
      split: option.splits)

lemma CheckToBeDestroyed_frame:
  assumes "CheckToBeDestroyed k = Ok k'"
  shows "sync_state k' = sync_state k \<and> currentThread k' = currentThread k \<and> readyList k' = readyList k
    \<and> level k' = level k \<and> toBeDestroyed k' = None
    \<and> threads k' = (\<lambda>t. if toBeDestroyed k = Some t then None else threads k t)"
  using assms
  by (auto simp: CheckToBeDestroyed_def sync_state_def sched_def elim!: rbind_OkE split: option.splits
      dest!: Thread_delete_frame)


lemma ReadyToRun_eq:
  "ReadyToRun t k = Ok k' \<longleftrightarrow> level k = IntOff \<and> (\<exists>th. threads k t = Some th \<and>
     k' = (put_thread k t (th\<lparr>tstatus := READY\<rparr>))\<lparr>readyList := readyList k @ [t]\<rparr>)"
  by (auto simp: ReadyToRun_def rbind_eq_Ok)

lemma Run_out_parts:
  assumes "Run_out n fin k = Ok k'"
  obtains k1 old k2 u nxt where "level k = IntOff"
      "(if fin then ASSERT (toBeDestroyed k = None) (Ok (k\<lparr>toBeDestroyed := Some (currentThread k)\<rparr>))
        else Ok k) = Ok k1"
      "live (threads k1 (currentThread k)) = Ok old"
      "(if space old \<noteq> None then SaveUserState (currentThread k) (sync_table k1) else Ok (sync_table k1)) = Ok k2"
      "CheckOverflow (currentThread k) k2 = Ok u"
      "live (threads (k2\<lparr>currentThread := n\<rparr>) n) = Ok nxt"
      "Ok (put_thread (k2\<lparr>currentThread := n\<rparr>) n (nxt\<lparr>tstatus := RUNNING\<rparr>)) = Ok k'"
  using assms unfolding Run_out_def Let_def ASSERT_eq_Ok rbind_eq_Ok by blast

lemma Run_out_frame:
  assumes "Run_out n fin k = Ok k'"
  shows "sync_state k' = sync_state k \<and> currentThread k' = n \<and> readyList k' = readyList k \<and> level k = IntOff
    \<and> level k' = IntOff \<and> toBeDestroyed k' = (if fin then Some (currentThread k) else toBeDestroyed k)
    \<and> dom (threads k') = dom (threads k) \<and> n \<in> dom (threads k)"
proof -
  obtain k1 old k2 u nxt where s: "level k = IntOff"
      "(if fin then ASSERT (toBeDestroyed k = None) (Ok (k\<lparr>toBeDestroyed := Some (currentThread k)\<rparr>))
        else Ok k) = Ok k1"
      "live (threads k1 (currentThread k)) = Ok old"
      "(if space old \<noteq> None then SaveUserState (currentThread k) (sync_table k1) else Ok (sync_table k1)) = Ok k2"
      "CheckOverflow (currentThread k) k2 = Ok u"
      "live (threads (k2\<lparr>currentThread := n\<rparr>) n) = Ok nxt"
      "Ok (put_thread (k2\<lparr>currentThread := n\<rparr>) n (nxt\<lparr>tstatus := RUNNING\<rparr>)) = Ok k'"
    using Run_out_parts [OF assms] .
  have k2: "sync_state k2 = sync_state k1" "sched k2 = sched k1" "dom (threads k2) = dom (threads k1)"
  proof (atomize (full), cases "space old = None")
    case True
    with s(4) have "k2 = sync_table k1" by simp
    then show "sync_state k2 = sync_state k1 \<and> sched k2 = sched k1 \<and> dom (threads k2) = dom (threads k1)"
      by simp
  next
    case False
    with s(4) have "SaveUserState (currentThread k) (sync_table k1) = Ok k2" by simp
    from SaveUserState_frame [OF this]
    show "sync_state k2 = sync_state k1 \<and> sched k2 = sched k1 \<and> dom (threads k2) = dom (threads k1)"
      by simp
  qed
  have k1: "k1 = (if fin then k\<lparr>toBeDestroyed := Some (currentThread k)\<rparr> else k)"
    using s(2) by (auto split: if_splits)
  have d: "dom (threads k1) = dom (threads k)" by (simp add: k1)
  have n: "n \<in> dom (threads k)" using s(6) k2(3) d by auto
  have "dom (threads k') = insert n (dom (threads k2))" using s(7) by auto
  also have "\<dots> = dom (threads k)" using k2(3) d n by (simp add: insert_absorb)
  finally show ?thesis using s(1,7) k2(1,2) n by (auto simp: k1 sync_state_def sched_def)
qed

lemma Switch_in_frame:
  assumes "Switch_in k = Ok k'" "level k = IntOff"
  shows "sync_state k' = sync_state k \<and> currentThread k' = currentThread k \<and> readyList k' = readyList k
    \<and> toBeDestroyed k' = None
    \<and> (\<exists>th. threads k (currentThread k) = Some th \<and> level k' = (if fresh th then IntOn else IntOff)
        \<and> toBeDestroyed k \<noteq> Some (currentThread k)
        \<and> threads k' = (\<lambda>t. if toBeDestroyed k = Some t then None
             else if t = currentThread k then Some (th\<lparr>fresh := False\<rparr>) else threads k t))"
proof -
  obtain th where th: "threads k (currentThread k) = Some th"
    using assms(1) by (auto simp: Switch_in_def Let_def elim!: rbind_OkE)
  have self: "toBeDestroyed q = Some (currentThread q) \<Longrightarrow> CheckToBeDestroyed q = Ok q' \<Longrightarrow> False"
    for q q' :: "('c, 'd) ThreadKernel_scheme"
    by (auto simp: CheckToBeDestroyed_def elim!: rbind_OkE dest!: Thread_delete_frame)
  show ?thesis
  proof (cases "fresh th")
    case True
    then obtain q where q: "CheckToBeDestroyed (put_thread k (currentThread k) (th\<lparr>fresh := False\<rparr>)) = Ok q"
        "k' = q\<lparr>level := IntOn\<rparr>"
      using assms(1) th
      by (auto simp: Switch_in_def Let_def Thread_Begin_def SetLevel_def elim!: rbind_OkE)
    have "toBeDestroyed k \<noteq> Some (currentThread k)" using self [OF _ q(1)] by auto
    with True th CheckToBeDestroyed_frame [OF q(1)] q(2) show ?thesis
      by (auto simp: sync_state_def fun_eq_iff)
  next
    case False
    then have th': "th\<lparr>fresh := False\<rparr> = th" by simp
    obtain q where q: "CheckToBeDestroyed k = Ok q"
        "k' = q \<or> (\<exists>sp q'. RestoreUserState (currentThread k) q = Ok q' \<and> k' = Space_RestoreState (currentThread k) sp q')"
      using assms(1) th False
      by (fastforce simp: Switch_in_def Let_def elim!: rbind_OkE split: option.splits)
    have "toBeDestroyed k \<noteq> Some (currentThread k)" using self [OF _ q(1)] by auto
    moreover have "sync_state k' = sync_state q \<and> sched k' = sched q \<and> threads k' = threads q"
      using q(2) by (auto simp: Space_RestoreState_def RestoreState_def sync_state_def sched_def
          dest!: RestoreUserState_keeps)
    ultimately show ?thesis
      using False th th' assms(2) CheckToBeDestroyed_frame [OF q(1)]
      by (auto simp: sync_state_def sched_def fun_eq_iff)
  qed
qed

lemma Scheduler_Run_frame:
  assumes "Scheduler_Run n fin k = Ok k'"
  shows "sync_state k' = sync_state k \<and> currentThread k' = n \<and> readyList k' = readyList k
    \<and> toBeDestroyed k' = None \<and> level k = IntOff"
  using assms
  by (auto simp: Scheduler_Run_def elim!: rbind_OkE dest!: Run_out_frame Switch_in_frame)

lemma Sleep_leave_frame:
  assumes "Sleep_leave fin k = Ok (Some k')"
  shows "sync_state k' = sync_state k \<and> readyList k = currentThread k' # readyList k'"
  using assms
  by (auto simp: Sleep_leave_def FindNextToRun_def sync_state_def elim!: rbind_OkE split: list.splits
      dest!: Scheduler_Run_frame)

lemma Thread_Yield_frame:
  assumes "Thread_Yield k = Ok (switched, lv, k')"
  shows "sync_state k' = sync_state k \<and> lv = level k
    \<and> mset (currentThread k' # readyList k') = mset (currentThread k # readyList k)
    \<and> (\<not> switched \<longrightarrow> k' = k)"
  using assms
  by (auto simp: Thread_Yield_def FindNextToRun_def SetLevel_def sync_state_def ReadyToRun_eq elim!: rbind_OkE
      split: list.splits dest!: Scheduler_Run_frame)

lemma Sleep_enter_frame:
  assumes "Sleep_enter k = Ok k'"
  shows "sync_state k' = sync_state k \<and> sched k' = sched k \<and> dom (threads k') = dom (threads k)"
  using assms by (auto simp: Sleep_enter_def sync_state_def sched_def elim!: rbind_OkE split: if_splits)

section \<open>The library implements the abstract machine\<close>

lemma abs_sys_eq:
  "abs_sys c = \<lparr>run = mset (if sleeping c = None then currentThread (kern c) # readyList (kern c)
       else readyList (kern c)), prg = progs c, asem = sems (kern c), alock = locks (kern c),
     acond = conds (kern c), scount = semCount (kern c), tcount = threadCount (kern c)\<rparr>"
  by (simp add: abs_sys_def runnable_def)

lemma Semaphore_V_wakes:
  assumes "Semaphore_V s k = Ok k'"
  shows "currentThread k' = currentThread k \<and> level k' = level k
    \<and> wake s (abs_sys \<lparr>kern = k, progs = p, sleeping = z\<rparr>)
        = Some (abs_sys \<lparr>kern = k', progs = p, sleeping = z\<rparr>)"
  using assms
  by (auto simp: Semaphore_V_def SetLevel_def wake_def abs_sys_eq ReadyToRun_eq elim!: rbind_OkE split: list.splits)

lemma Sys_eta: "c = \<lparr>kern = kern c, progs = progs c, sleeping = sleeping c\<rparr>"
  by simp

lemma abs_run: "sleeping c = None \<Longrightarrow> currentThread (kern c) \<in># run (abs_sys c)"
  by (simp add: abs_sys_eq)

lemma do_yield_refines:
  assumes "do_yield r c = Ok c'" "sleeping c = None"
  shows "abs_sys c' = goto (abs_sys c) (currentThread (kern c)) r
    \<or> abs_sys c' = goto (abs_sys c) (currentThread (kern c)) (Reset (level (kern c)) # r)"
  using assms
  by (auto simp: do_yield_def upd_def abs_sys_eq sync_state_def elim!: rbind_OkE dest!: Thread_Yield_frame)


lemma exec_refines:
  assumes "exec F i r c = Ok c'" "sleeping c = None" "progs c (currentThread (kern c)) = i # r"
  shows "astep F D (abs_sys c) (abs_sys c')"
proof -
  let ?t = "currentThread (kern c)"
  have t: "?t \<in># run (abs_sys c)" using assms(2) by (rule abs_run)
  have p: "prg (abs_sys c) ?t = i # r" using assms(3) by (simp add: abs_sys_eq)
  note view = upd_def abs_sys_eq assms(2)
  show ?thesis
  proof (cases i)
    case (P s)
    show ?thesis
    proof (cases "\<exists>x. sems (kern c) s = Some x \<and> semval x = 0")
      case True
      then obtain x where x: "sems (kern c) s = Some x" "semval x = 0" by blast
      have "abs_sys c' = (abs_sys c)\<lparr>run := run (abs_sys c) - {#?t#},
          asem := (asem (abs_sys c))(s \<mapsto> x\<lparr>queue := queue x @ [?t]\<rparr>)\<rparr>"
        using assms P x
        by (auto simp: view Semaphore_P_def SetLevel_def Let_def sync_state_def sched_def fun_upd_idem
            elim!: rbind_OkE dest!: Sleep_enter_frame)
      with astep.block [OF t p [unfolded P]] x show ?thesis by (simp add: abs_sys_eq)
    next
      case False
      then obtain x where x: "sems (kern c) s = Some x" "semval x \<noteq> 0"
        using assms(1) P by (auto simp: Semaphore_P_def SetLevel_def Let_def elim!: rbind_OkE)
      have "abs_sys c' = (goto (abs_sys c) ?t r)\<lparr>asem := (asem (abs_sys c))(s \<mapsto> x\<lparr>semval := semval x - 1\<rparr>)\<rparr>"
        using assms P x by (auto simp: view Semaphore_P_def SetLevel_def Let_def elim!: rbind_OkE)
      with astep.take [OF t p [unfolded P]] x show ?thesis by (simp add: abs_sys_eq)
    qed
  next
    case (V s)
    then obtain k where k: "Semaphore_V s (kern c) = Ok k" "c' = upd c k r"
      using assms(1) by (auto elim!: rbind_OkE)
    from Semaphore_V_wakes [OF k(1), of "(progs c)(?t := r)" None]
    have "wake s (goto (abs_sys c) ?t r) = Some (abs_sys c')"
      using k(2) assms(2) by (simp add: view)
    with astep.signal [OF t p [unfolded V]] show ?thesis by simp
  next
    case (Acquire l)
    with assms(1) astep.acquire [OF t p [unfolded Acquire]] show ?thesis
      by (auto simp: view elim!: rbind_OkE)
  next
    case (SetHolder l)
    with assms(1) astep.own [OF t p [unfolded SetHolder]] show ?thesis
      by (auto simp: view Lock_SetHolder_def elim!: rbind_OkE)
  next
    case (Release l)
    with assms(1) astep.release [OF t p [unfolded Release]] show ?thesis
      by (auto simp: view Lock_ClearHolder_def IsHeldByCurrentThread_def elim!: rbind_OkE)
  next
    case (Wait v l)
    with assms(1) astep.cwait [OF t p [unfolded Wait]] show ?thesis
      by (auto simp: view Condition_enqueue_def Semaphore_new_def IsHeldByCurrentThread_def elim!: rbind_OkE)
  next
    case (Delete s)
    with assms(1) astep.discard [OF t p [unfolded Delete]] show ?thesis
      by (auto simp: view Semaphore_delete_def elim!: rbind_OkE)
  next
    case (Signal v l)
    obtain L x where Lx: "locks (kern c) l = Some L" "lockHolder L = Some ?t" "conds (kern c) v = Some x"
      using assms(1) Signal
      by (auto simp: Condition_dequeue_def IsHeldByCurrentThread_def elim!: rbind_OkE)
    show ?thesis
    proof (cases "waitQueue x")
      case Nil
      with Lx assms(1) Signal have "abs_sys c' = goto (abs_sys c) ?t r"
        by (auto simp: view Condition_dequeue_def IsHeldByCurrentThread_def elim!: rbind_OkE)
      with astep.csignal_none [OF t p [unfolded Signal]] Lx Nil show ?thesis by (simp add: abs_sys_eq)
    next
      case (Cons w ws)
      with Lx assms(1) Signal have "abs_sys c' = (goto (abs_sys c) ?t (V w # r))
          \<lparr>acond := (acond (abs_sys c))(v \<mapsto> x\<lparr>waitQueue := ws\<rparr>)\<rparr>"
        by (auto simp: view Condition_dequeue_def IsHeldByCurrentThread_def elim!: rbind_OkE)
      with astep.csignal [OF t p [unfolded Signal]] Lx Cons show ?thesis by (simp add: abs_sys_eq)
    qed
  next
    case (Broadcast v l)
    then obtain x where x: "conds (kern c) v = Some x"
        "abs_sys c' = goto (abs_sys c) ?t (if waitQueue x \<noteq> [] then Signal v l # Broadcast v l # r else r)"
      using assms(1) by (auto simp: view elim!: rbind_OkE)
    with astep.broadcast [OF t p [unfolded Broadcast]] show ?thesis by (simp add: abs_sys_eq)
  next
    case Yield
    with assms(1) have "do_yield r c = Ok c'" by simp
    from do_yield_refines [OF this assms(2)] astep.yielded [OF t p [unfolded Yield]] show ?thesis
      by metis
  next
    case (Reset lv)
    with assms(1) astep.reset [OF t p [unfolded Reset]] show ?thesis
      by (auto simp: view SetLevel_def elim!: rbind_OkE)
  next
    case (Fork f)
    with assms(1) astep.fork [OF t p [unfolded Fork]] show ?thesis
      by (auto simp: view Thread_Fork_def SetLevel_def ReadyToRun_eq Let_def add_mset_commute elim!: rbind_OkE)
  qed
qed

lemma step_simulates:
  assumes "step F D c c'"
  shows "astep F D (abs_sys c) (abs_sys c') \<or> abs_sys c' = abs_sys c"
  using assms
proof cases
  case (run i rest)
  then show ?thesis using exec_refines by blast
next
  case (finish k)
  have k: "currentThread k = currentThread (kern c)" "readyList k = readyList (kern c)"
      "sync_state k = sync_state (kern c)"
    using finish(4) by (auto simp: Thread_Finish_def SetLevel_def sync_state_def sched_def dest!: Sleep_enter_frame)
  have "abs_sys c' = (abs_sys c)\<lparr>run := run (abs_sys c) - {#currentThread (kern c)#}\<rparr>"
    using finish(1,2) k by (simp add: abs_sys_eq sync_state_def)
  with astep.finished [OF abs_run [OF finish(2)], of F D] finish(3) show ?thesis
    by (simp add: abs_sys_eq)
next
  case (dispatch fin k)
  from Sleep_leave_frame [OF dispatch(3)] have "abs_sys c' = abs_sys c"
    using dispatch(1,2) by (simp add: abs_sys_eq sync_state_def)
  then show ?thesis ..
next
  case (idle fin s k)
  from Semaphore_V_wakes [OF idle(5), of "progs c" "Some fin"]
  have "wake s (abs_sys c) = Some (abs_sys c')" using idle(1,2) by (simp add: abs_sys_eq)
  with astep.device idle(4) show ?thesis by blast
next
  case (interrupt s k)
  from Semaphore_V_wakes [OF interrupt(5), of "progs c" None]
  have "wake s (abs_sys c) = Some (abs_sys c')" using interrupt(1,2) by (simp add: abs_sys_eq)
  with astep.device interrupt(4) show ?thesis by blast
next
  case time_slice
  have p: "goto (abs_sys c) (currentThread (kern c)) (progs c (currentThread (kern c))) = abs_sys c"
    by (simp add: abs_sys_eq)
  have q: "prg (abs_sys c) = progs c" by (simp add: abs_sys_eq)
  from do_yield_refines [OF time_slice(3,1)] p
    astep.sliced [OF abs_run [OF time_slice(1)], of F D "level (kern c)"]
  show ?thesis unfolding q by metis
qed


section \<open>Every thread is in one place, and no wake-up is lost\<close>

primrec is_Reset :: "instr \<Rightarrow> bool" where
  "is_Reset (P s) = False"
| "is_Reset (V s) = False"
| "is_Reset (Acquire l) = False"
| "is_Reset (SetHolder l) = False"
| "is_Reset (Release l) = False"
| "is_Reset (Wait v l) = False"
| "is_Reset (Delete s) = False"
| "is_Reset (Signal v l) = False"
| "is_Reset (Broadcast v l) = False"
| "is_Reset Yield = False"
| "is_Reset (Reset lv) = True"
| "is_Reset (Fork f) = False"

text \<open>The next call of a thread, behind the rest of the \<open>Yield\<close> it may still be in.\<close>

definition at :: "instr \<Rightarrow> instr list \<Rightarrow> bool" where
  "at i is \<longleftrightarrow> (case dropWhile is_Reset is of [] \<Rightarrow> False | j # js \<Rightarrow> j = i)"

lemma at_Cons [simp]: "at i (j # js) = (if is_Reset j then at i js else j = i)"
  by (simp add: at_def)

lemma at_Nil [simp]: "\<not> at i []"
  by (simp add: at_def)

definition threads_at :: "(instr list \<Rightarrow> bool) \<Rightarrow> Abs \<Rightarrow> nat" where
  "threads_at i a = size {#t \<in># run a. i (prg a t)#}"

definition placed :: "Abs \<Rightarrow> bool" where
  "placed a \<longleftrightarrow> (\<forall>t. count (run a) t \<le> 1) \<and> (\<forall>t\<in>#run a. t < tcount a)
     \<and> (\<forall>s x. asem a s = Some x \<longrightarrow> s < scount a \<and> distinct (queue x)
          \<and> (\<forall>t\<in>set (queue x). t \<notin># run a \<and> t < tcount a \<and> (\<exists>r. prg a t = P s # r)))"

lemma placed_semD:
  "placed a \<Longrightarrow> asem a s = Some x \<Longrightarrow> distinct (queue x) \<and> s < scount a"
  "placed a \<Longrightarrow> asem a s = Some x \<Longrightarrow> t \<in> set (queue x)
    \<Longrightarrow> t \<notin># run a \<and> t < tcount a \<and> (\<exists>r. prg a t = P s # r)"
  by (auto simp: placed_def)

lemma placed_goto:
  assumes "placed a" "t \<in># run a"
  shows "placed (goto a t r)"
  using assms unfolding placed_def by (auto dest: spec)

lemma placed_wake:
  assumes "placed a" "wake s a = Some a'"
  shows "placed a'"
proof -
  obtain x where x: "asem a s = Some x" using assms(2) by (auto simp: wake_def split: option.splits)
  show ?thesis
  proof (cases "queue x")
    case Nil
    then show ?thesis using assms x by (auto simp: wake_def placed_def split: if_splits)
  next
    case (Cons t ts)
    then have a': "a' = a\<lparr>asem := (asem a)(s \<mapsto> x\<lparr>queue := ts, semval := semval x + 1\<rparr>), run := add_mset t (run a)\<rparr>"
      using assms(2) x by (simp add: wake_def)
    have t: "t \<notin># run a" "t < tcount a" "\<exists>r. prg a t = P s # r"
      using placed_semD(2) [OF assms(1) x, of t] Cons by auto
    have q: "distinct (t # ts)" using placed_semD(1) [OF assms(1) x] Cons by simp
    have other: "u \<noteq> t" if "asem a s' = Some y" "u \<in> set (queue y)" "s' \<noteq> s" for s' y u
      using placed_semD(2) [OF assms(1) that(1,2)] t(3) that(3) by auto
    show ?thesis
      unfolding placed_def a'
    proof (intro conjI allI impI ballI)
      show "count (run (a\<lparr>asem := (asem a)(s \<mapsto> x\<lparr>queue := ts, semval := semval x + 1\<rparr>), run := add_mset t (run a)\<rparr>)) u \<le> 1" for u
        using assms(1) t(1) by (cases "u = t") (auto simp: placed_def not_in_iff)
    qed (use assms(1) t q x Cons other in \<open>auto simp: placed_def split: if_splits\<close>)
  qed
qed

lemma astep_placed:
  assumes "astep F D a a'" "placed a"
  shows "placed a'"
  using assms
proof cases
  case (take t s r x)
  then show ?thesis using placed_goto [OF assms(2), of t r] by (auto simp: placed_def)
next
  case (block t s r x)
  have c: "count (run a) t = 1"
    using assms(2) block(2) unfolding placed_def
    by (metis count_greater_eq_one_iff order_antisym)
  have nt: "t \<notin># run a - {#t#}" using c by (simp add: not_in_iff)
  have "t \<notin> set (queue x)" using placed_semD(2) [OF assms(2) block(4)] block(2) by blast
  with block nt assms(2) show ?thesis
    unfolding placed_def by (auto dest: in_diffD split: if_splits)
next
  case (signal t s r)
  then show ?thesis using placed_wake placed_goto assms(2) by blast
next
  case (device s)
  then show ?thesis using placed_wake assms(2) by blast
next
  case (acquire t l r L)
  then show ?thesis using placed_goto assms(2) by blast
next
  case (own t l r L)
  then show ?thesis using placed_goto [OF assms(2), of t r] by (simp add: placed_def)
next
  case (release t l r L)
  then show ?thesis using placed_goto [OF assms(2), of t "V (semaphore L) # r"] by (simp add: placed_def)
next
  case (cwait t v l r L x w)
  then show ?thesis using placed_goto [OF assms(2), of t "Release l # P w # Acquire l # Delete w # r"]
    by (auto simp: placed_def less_Suc_eq)
next
  case (csignal t v l r L x w ws)
  then show ?thesis using placed_goto [OF assms(2), of t "V w # r"] by (simp add: placed_def)
next
  case (csignal_none t v l r L x)
  then show ?thesis using placed_goto assms(2) by blast
next
  case (broadcast t v l r x)
  then show ?thesis using placed_goto assms(2) by blast
next
  case (discard t s r x)
  then show ?thesis using placed_goto [OF assms(2), of t r] by (simp add: placed_def)
next
  case (yielded t r "is")
  then show ?thesis using placed_goto assms(2) by blast
next
  case (sliced t lv)
  then show ?thesis using placed_goto assms(2) by blast
next
  case (reset t lv r)
  then show ?thesis using placed_goto assms(2) by blast
next
  case (fork t f r n)
  have n: "n \<notin># run a" "\<forall>s x. asem a s = Some x \<longrightarrow> n \<notin> set (queue x)"
    using assms(2) fork(4) placed_semD(2) [OF assms(2)] unfolding placed_def by (metis less_irrefl)+
  from fork n show ?thesis
    using placed_goto [OF assms(2), of t r]
    by (auto simp: placed_def not_in_iff less_Suc_eq)
next
  case (finished t)
  then show ?thesis using assms(2)
    by (auto simp: placed_def dest: in_diffD intro: diff_le_self le_trans)
qed


lemma threads_at_upd [simp]:
  "threads_at i (a\<lparr>asem := f\<rparr>) = threads_at i a" "threads_at i (a\<lparr>alock := g\<rparr>) = threads_at i a"
  "threads_at i (a\<lparr>acond := h\<rparr>) = threads_at i a" "threads_at i (a\<lparr>scount := n\<rparr>) = threads_at i a"
  "threads_at i (a\<lparr>tcount := n\<rparr>) = threads_at i a"
  by (simp_all add: threads_at_def)

text \<open>How the number of threads at a call changes when one thread moves, falls asleep or wakes up.\<close>

lemma placed_split:
  assumes "placed a" "t \<in># run a"
  obtains m where "run a = add_mset t m" "t \<notin># m"
proof -
  obtain m where m: "run a = add_mset t m" using assms(2) by (metis insert_DiffM)
  then have "t \<notin># m" using assms(1) unfolding placed_def
    by (metis Suc_eq_plus1 Suc_le_mono count_add_mset le_zero_eq not_in_iff One_nat_def)
  with m show ?thesis by (rule that)
qed

lemma threads_at_cong:
  "(\<And>u. u \<in># run a \<Longrightarrow> prg a u = prg b u) \<Longrightarrow> run a = run b \<Longrightarrow> threads_at i a = threads_at i b"
  unfolding threads_at_def by (metis (mono_tags, lifting) filter_mset_cong)

lemma threads_at_goto:
  assumes "placed a" "t \<in># run a"
  shows "threads_at i (goto a t r) + of_bool (i (prg a t)) = threads_at i a + of_bool (i r)"
proof -
  obtain m where m: "run a = add_mset t m" "t \<notin># m" using placed_split [OF assms] .
  have "{#u \<in># m. i (((prg a)(t := r)) u)#} = {#u \<in># m. i (prg a u)#}"
    using m(2) by (intro filter_mset_cong) auto
  with m show ?thesis by (simp add: threads_at_def)
qed

lemma threads_at_remove:
  "t \<in># run a \<Longrightarrow> threads_at i (a\<lparr>run := run a - {#t#}\<rparr>) + of_bool (i (prg a t)) = threads_at i a"
  by (auto simp: threads_at_def dest!: multi_member_split)

lemma threads_at_add: "threads_at i (a\<lparr>run := add_mset t m\<rparr>) =
    threads_at i (a\<lparr>run := m\<rparr>) + of_bool (i (prg a t))"
  by (simp add: threads_at_def)

lemma threads_at_wake:
  assumes "wake s a = Some a'" "asem a s = Some x"
  shows "threads_at i a' = threads_at i a + (case queue x of [] \<Rightarrow> 0 | t # ts \<Rightarrow> of_bool (i (prg a t)))"
    and "asem a' = (asem a)(s \<mapsto> x\<lparr>queue := tl (queue x), semval := semval x + 1\<rparr>)"
    and "prg a' = prg a" "alock a' = alock a" "acond a' = acond a" "scount a' = scount a"
  using assms by (auto simp: wake_def threads_at_add split: list.splits)

lemma threads_at_fork:
  assumes "placed a" "t \<in># run a" "n = tcount a"
  shows "threads_at i ((goto (goto a t r) n p)\<lparr>run := add_mset n (run a), tcount := n + 1\<rparr>)
    = threads_at i (goto a t r) + of_bool (i p)"
proof -
  have "n \<notin># run a" using assms(1,3) by (auto simp: placed_def)
  then have "{#u \<in># run a. i (((prg a)(t := r, n := p)) u)#} = {#u \<in># run a. i (((prg a)(t := r)) u)#}"
    by (intro filter_mset_cong) auto
  then show ?thesis by (simp add: threads_at_def)
qed

definition no_lost_wakeup :: "Abs \<Rightarrow> bool" where
  "no_lost_wakeup a \<longleftrightarrow>
     (\<forall>s x. asem a s = Some x \<longrightarrow> queue x \<noteq> [] \<longrightarrow> semval x \<le> int (threads_at (at (P s)) a))"

lemma bound_mono: "i \<le> int m \<Longrightarrow> m \<le> n \<Longrightarrow> i \<le> int n"
  by simp

lemma no_lost_wakeup_goto:
  assumes "no_lost_wakeup a" "placed a" "t \<in># run a" "\<And>s. at (P s) (prg a t) \<Longrightarrow> at (P s) r"
  shows "no_lost_wakeup (goto a t r)"
proof -
  have "threads_at (at (P s)) a \<le> threads_at (at (P s)) (goto a t r)" for s
    using threads_at_goto [OF assms(2,3), of "at (P s)" r] assms(4) [of s] by (cases "at (P s) (prg a t)") auto
  then show ?thesis using assms(1) unfolding no_lost_wakeup_def by (auto intro: bound_mono)
qed

lemma no_lost_wakeup_wake:
  assumes "no_lost_wakeup a" "placed a" "wake s a = Some a'"
  shows "no_lost_wakeup a'"
proof -
  obtain x where x: "asem a s = Some x" using assms(3) by (auto simp: wake_def split: option.splits)
  note w = threads_at_wake [OF assms(3) x]
  have "semval x + 1 \<le> int (threads_at (at (P s)) a')" if q0: "tl (queue x) \<noteq> []"
  proof -
    obtain t ts where q: "queue x = t # ts" using q0 by (cases "queue x") auto
    obtain r where "prg a t = P s # r" using placed_semD(2) [OF assms(2) x, of t] q by auto
    with q w(1) [of "at (P s)"] have "threads_at (at (P s)) a' = threads_at (at (P s)) a + 1" by simp
    moreover have "semval x \<le> int (threads_at (at (P s)) a)"
      using assms(1) x q unfolding no_lost_wakeup_def by force
    ultimately show ?thesis by simp
  qed
  moreover have "threads_at i a \<le> threads_at i a'" for i using w(1) [of i] by simp
  ultimately show ?thesis
    using assms(1) unfolding no_lost_wakeup_def w(2) by (auto intro: bound_mono)
qed


lemma astep_no_lost_wakeup:
  assumes "astep F D a a'" "placed a" "no_lost_wakeup a"
  shows "no_lost_wakeup a'"
proof -
  note go = no_lost_wakeup_goto [OF assms(3,2)]
  show ?thesis
    using assms(1)
  proof cases
    case (take t s r x)
    have n: "threads_at (at (P u)) (goto a t r) + of_bool (u = s) \<ge> threads_at (at (P u)) a" for u
      using threads_at_goto [OF assms(2) take(2), of "at (P u)" r] take(3) by auto
    have other: "semval y \<le> int (threads_at (at (P u)) (goto a t r))"
      if "asem a u = Some y" "queue y \<noteq> []" "u \<noteq> s" for u y
      using assms(3) that n [of u] unfolding no_lost_wakeup_def by fastforce
    have this_sem: "semval x - 1 \<le> int (threads_at (at (P s)) (goto a t r))" if "queue x \<noteq> []"
      using assms(3) that n [of s] take(4) unfolding no_lost_wakeup_def by fastforce
    show ?thesis using other this_sem unfolding take(1) no_lost_wakeup_def by auto
  next
    case (block t s r x)
    have n: "threads_at (at (P u)) (a\<lparr>run := run a - {#t#}\<rparr>) + of_bool (u = s) = threads_at (at (P u)) a" for u
      using threads_at_remove [OF block(2), of "at (P u)"] block(3) by auto
    have "semval y \<le> int (threads_at (at (P u)) (a\<lparr>run := run a - {#t#}\<rparr>))"
      if "asem a u = Some y" "queue y \<noteq> []" "u \<noteq> s" for u y
      using assms(3) that n [of u] unfolding no_lost_wakeup_def by fastforce
    then show ?thesis using block(1,5) by (simp add: no_lost_wakeup_def)
  next
    case (signal t s r)
    then show ?thesis
      by (intro no_lost_wakeup_wake [OF go [OF signal(1)] placed_goto [OF assms(2) signal(1)] signal(3)]) simp
  next
    case (device s)
    then show ?thesis using no_lost_wakeup_wake assms(2,3) by blast
  next
    case (acquire t l r L)
    then show ?thesis using go [OF acquire(2)] by simp
  next
    case (own t l r L)
    then show ?thesis using go [OF own(2), of r] by (simp add: no_lost_wakeup_def)
  next
    case (release t l r L)
    then show ?thesis using go [OF release(2), of "V (semaphore L) # r"] by (simp add: no_lost_wakeup_def)
  next
    case (cwait t v l r L x w)
    then show ?thesis using go [OF cwait(2), of "Release l # P w # Acquire l # Delete w # r"]
      by (simp add: no_lost_wakeup_def)
  next
    case (csignal t v l r L x w ws)
    then show ?thesis using go [OF csignal(2), of "V w # r"] by (simp add: no_lost_wakeup_def)
  next
    case (csignal_none t v l r L x)
    then show ?thesis using go [OF csignal_none(2)] by simp
  next
    case (broadcast t v l r x)
    then show ?thesis using go [OF broadcast(2)] by simp
  next
    case (discard t s r x)
    then show ?thesis using go [OF discard(2), of r] by (simp add: no_lost_wakeup_def)
  next
    case (yielded t r "is")
    then show ?thesis using go [OF yielded(2), of "is"] by auto
  next
    case (sliced t lv)
    then show ?thesis using go [OF sliced(2), of "Reset lv # prg a t"] by simp
  next
    case (reset t lv r)
    then show ?thesis using go [OF reset(2), of r] by simp
  next
    case (fork t f r n)
    have "threads_at i (goto a t r) \<le> threads_at i a'" for i
      using threads_at_fork [OF assms(2) fork(2,4)] unfolding fork(1) by simp
    moreover have "no_lost_wakeup (goto a t r)" using go [OF fork(2), of r] fork(3) by simp
    ultimately show ?thesis unfolding no_lost_wakeup_def using fork(1) by (auto intro: bound_mono)
  next
    case (finished t)
    have "threads_at (at j) a' = threads_at (at j) a" for j
      using threads_at_remove [OF finished(2), of "at j"] finished(1,3) by simp
    with assms(3) finished(1) show ?thesis by (simp add: no_lost_wakeup_def)
  qed
qed

section \<open>Locks are mutually exclusive\<close>

text \<open>\<open>ls l\<close> is the semaphore of the lock \<open>l\<close>; no step changes it.\<close>

definition lock_sem :: "Abs \<Rightarrow> nat \<Rightarrow> sref option" where
  "lock_sem a l = map_option semaphore (alock a l)"

text \<open>
  Client code uses the semaphore of a lock through the lock only, and leaves the inner parts of the
  operations to the operations.
\<close>

primrec plain :: "sref set \<Rightarrow> instr \<Rightarrow> bool" where
  "plain S (P s) = (s \<notin> S)"
| "plain S (V s) = (s \<notin> S)"
| "plain S (Acquire l) = True"
| "plain S (SetHolder l) = False"
| "plain S (Release l) = True"
| "plain S (Wait v l) = True"
| "plain S (Delete s) = (s \<notin> S)"
| "plain S (Signal v l) = True"
| "plain S (Broadcast v l) = True"
| "plain S Yield = True"
| "plain S (Reset lv) = True"
| "plain S (Fork f) = True"

abbreviation "client ls is \<equiv> \<forall>i\<in>set is. plain (ran ls) i"

fun tidy :: "(nat \<Rightarrow> sref option) \<Rightarrow> instr list \<Rightarrow> bool" where
  "tidy ls (Reset lv # is) = tidy ls is"
| "tidy ls (SetHolder l # is) = (client ls is \<and> ls l \<noteq> None)"
| "tidy ls (P s # SetHolder l # is) = (client ls is \<and> ls l = Some s)"
| "tidy ls (V s # is) = client ls is"
| "tidy ls is = client ls is"

text \<open>A thread at the end of \<open>Acquire\<close> or of \<open>Release\<close> has the lock although it is not its holder.\<close>

definition claims :: "nat \<Rightarrow> sref \<Rightarrow> instr list \<Rightarrow> bool" where
  "claims l s is \<longleftrightarrow> at (SetHolder l) is \<or> at (V s) is"

definition held :: "nat \<Rightarrow> Abs \<Rightarrow> bool" where
  "held l a \<longleftrightarrow> (\<exists>L. alock a l = Some L \<and> lockHolder L \<noteq> None)"

definition tokens :: "Abs \<Rightarrow> bool" where
  "tokens a \<longleftrightarrow> (\<forall>l s. lock_sem a l = Some s \<longrightarrow>
     (\<exists>x. asem a s = Some x \<and> 0 \<le> semval x
        \<and> semval x + of_bool (held l a) + int (threads_at (claims l s) a) = 1))"

definition exclusive :: "Abs \<Rightarrow> bool" where
  "exclusive a \<longleftrightarrow> placed a \<and> tokens a \<and> inj_on (lock_sem a) (dom (lock_sem a))
     \<and> (\<forall>t. tidy (lock_sem a) (prg a t))
     \<and> (\<forall>v x. acond a v = Some x \<longrightarrow> set (waitQueue x) \<inter> ran (lock_sem a) = {})"

lemma lock_sem_upd [simp]:
  "lock_sem (a\<lparr>run := m\<rparr>) = lock_sem a" "lock_sem (a\<lparr>prg := p\<rparr>) = lock_sem a"
  "lock_sem (a\<lparr>asem := f\<rparr>) = lock_sem a" "lock_sem (a\<lparr>acond := h\<rparr>) = lock_sem a"
  "lock_sem (a\<lparr>scount := n\<rparr>) = lock_sem a" "lock_sem (a\<lparr>tcount := n\<rparr>) = lock_sem a"
  by (simp_all add: lock_sem_def fun_eq_iff)

lemma held_upd [simp]:
  "held l (a\<lparr>run := m\<rparr>) = held l a" "held l (a\<lparr>prg := p\<rparr>) = held l a"
  "held l (a\<lparr>asem := f\<rparr>) = held l a" "held l (a\<lparr>acond := h\<rparr>) = held l a"
  "held l (a\<lparr>scount := n\<rparr>) = held l a" "held l (a\<lparr>tcount := n\<rparr>) = held l a"
  by (simp_all add: held_def)

lemma set_holder [simp]:
  assumes "alock a l = Some L"
  shows "lock_sem (a\<lparr>alock := (alock a)(l \<mapsto> L\<lparr>lockHolder := h\<rparr>)\<rparr>) = lock_sem a"
    and "held l' (a\<lparr>alock := (alock a)(l \<mapsto> L\<lparr>lockHolder := h\<rparr>)\<rparr>) = (if l' = l then h \<noteq> None else held l' a)"
  using assms by (auto simp: lock_sem_def held_def fun_eq_iff)

lemma tokensI:
  assumes "tokens a" "lock_sem b = lock_sem a"
    and "\<And>l s x. lock_sem a l = Some s \<Longrightarrow> asem a s = Some x \<Longrightarrow> 0 \<le> semval x
      \<Longrightarrow> semval x + of_bool (held l a) + int (threads_at (claims l s) a) = 1
      \<Longrightarrow> \<exists>y. asem b s = Some y \<and> 0 \<le> semval y
           \<and> semval y + of_bool (held l b) + int (threads_at (claims l s) b) = 1"
  shows "tokens b"
  unfolding tokens_def assms(2)
proof (intro allI impI)
  fix l s
  assume l: "lock_sem a l = Some s"
  then obtain x where "asem a s = Some x" "0 \<le> semval x"
      "semval x + of_bool (held l a) + int (threads_at (claims l s) a) = 1"
    using assms(1) unfolding tokens_def by blast
  from assms(3) [OF l this] show "\<exists>y. asem b s = Some y \<and> 0 \<le> semval y
      \<and> semval y + of_bool (held l b) + int (threads_at (claims l s) b) = 1" .
qed

lemma client_tidy: "client ls is \<Longrightarrow> tidy ls is"
  by (induction ls "is" rule: tidy.induct) auto

lemma client_claims: "client ls is \<Longrightarrow> ls l = Some s \<Longrightarrow> \<not> claims l s is"
proof (induction "is")
  case (Cons i "is")
  then show ?case by (cases i) (auto simp: claims_def ran_def)
qed (simp add: claims_def)

lemma tidy_tl: "tidy ls (P s # r) \<Longrightarrow> s \<notin> ran ls \<and> client ls r
    \<or> (\<exists>l r'. ls l = Some s \<and> r = SetHolder l # r' \<and> client ls r')"
  by (cases "(ls, P s # r)" rule: tidy.cases) auto

lemma step_lock_sem: "astep F D a a' \<Longrightarrow> lock_sem a' = lock_sem a"
  by (induction rule: astep.induct)
    (auto simp: lock_sem_def fun_eq_iff wake_def split: option.splits list.splits)


lemma wake_frame:
  assumes "wake s a = Some a'"
  shows "\<exists>x. asem a s = Some x \<and> asem a' = (asem a)(s \<mapsto> x\<lparr>queue := tl (queue x), semval := semval x + 1\<rparr>)
    \<and> prg a' = prg a \<and> alock a' = alock a \<and> acond a' = acond a
    \<and> (run a' = run a \<or> (\<exists>t. t \<in> set (queue x) \<and> run a' = add_mset t (run a)))"
  using assms by (auto simp: wake_def split: option.splits list.splits)

text \<open>The threads that wake up are at a \<open>P\<close>, so they do not claim a lock.\<close>

lemma wake_claims:
  assumes "wake s a = Some a'" "placed a"
  shows "threads_at (claims l u) a' = threads_at (claims l u) a"
proof -
  obtain x where x: "asem a s = Some x" "prg a' = prg a"
      "run a' = run a \<or> (\<exists>t. t \<in> set (queue x) \<and> run a' = add_mset t (run a))"
    using wake_frame [OF assms(1)] by blast
  have "\<not> claims l u (prg a t)" if "t \<in> set (queue x)" for t
    using placed_semD(2) [OF assms(2) x(1) that] by (auto simp: claims_def)
  with x(2,3) show ?thesis by (auto simp: threads_at_def)
qed

lemma claims_simps [simp]:
  "claims l s [] = False"
  "claims l s (P u # r) = False"
  "claims l s (Acquire l' # r) = False"
  "claims l s (SetHolder l' # r) = (l' = l)"
  "claims l s (V u # r) = (u = s)"
  "claims l s (Release l' # r) = False"
  "claims l s (Wait v l' # r) = False"
  "claims l s (Delete u # r) = False"
  "claims l s (Signal v l' # r) = False"
  "claims l s (Broadcast v l' # r) = False"
  "claims l s (Yield # r) = False"
  "claims l s (Reset lv # r) = claims l s r"
  "claims l s (Fork f # r) = False"
  by (auto simp: claims_def)

text \<open>Moves of a thread that neither begin nor end a claim, and change no lock and no lock's semaphore.\<close>

lemma tokens_goto:
  assumes "tokens a" "placed a" "t \<in># run a"
    and "\<And>l s. lock_sem a l = Some s \<Longrightarrow> claims l s r = claims l s (prg a t)"
  shows "tokens (goto a t r)"
proof -
  have "threads_at (claims l s) (goto a t r) = threads_at (claims l s) a" if "lock_sem a l = Some s" for l s
    using threads_at_goto [OF assms(2,3), of "claims l s" r] assms(4) [OF that] by simp
  then show ?thesis by (intro tokensI [OF assms(1)]) auto
qed

lemma tokens_wake:
  assumes "tokens a" "placed a" "wake s a = Some a'" "s \<notin> ran (lock_sem a)"
  shows "tokens a'"
proof (rule tokensI [OF assms(1)])
  obtain x where w: "asem a' = (asem a)(s \<mapsto> x\<lparr>queue := tl (queue x), semval := semval x + 1\<rparr>)"
      "alock a' = alock a"
    using wake_frame [OF assms(3)] by blast
  then have h: "held l a' = held l a" for l by (simp add: held_def)
  show "lock_sem a' = lock_sem a" using w(2) by (simp add: lock_sem_def fun_eq_iff)
  show "\<exists>y. asem a' u = Some y \<and> 0 \<le> semval y
      \<and> semval y + of_bool (held l a') + int (threads_at (claims l u) a') = 1"
    if "lock_sem a l = Some u" "asem a u = Some y" "0 \<le> semval y"
      "semval y + of_bool (held l a) + int (threads_at (claims l u) a) = 1" for l u y
  proof -
    have "u \<noteq> s" using that(1) assms(4) by (auto simp: ran_def)
    with that w(1) h wake_claims [OF assms(3,2)] show ?thesis by simp
  qed
qed

lemma tokens_upd [simp]:
  "tokens (a\<lparr>acond := f\<rparr>) = tokens a" "tokens (a\<lparr>scount := n\<rparr>) = tokens a" "tokens (a\<lparr>tcount := n\<rparr>) = tokens a"
  by (simp_all add: tokens_def)

lemma tokens_asem:
  assumes "s \<notin> ran (lock_sem a)" "tokens a"
  shows "tokens (a\<lparr>asem := (asem a)(s := y)\<rparr>)"
proof (rule tokensI [OF assms(2)])
  fix l u x
  assume "lock_sem a l = Some u" "asem a u = Some x" "0 \<le> semval x"
    "semval x + of_bool (held l a) + int (threads_at (claims l u) a) = 1"
  moreover from this(1) assms(1) have "u \<noteq> s" by (auto simp: ran_def)
  ultimately show "\<exists>z. asem (a\<lparr>asem := (asem a)(s := y)\<rparr>) u = Some z \<and> 0 \<le> semval z
      \<and> semval z + of_bool (held l (a\<lparr>asem := (asem a)(s := y)\<rparr>))
        + int (threads_at (claims l u) (a\<lparr>asem := (asem a)(s := y)\<rparr>)) = 1"
    by simp
qed simp

lemma astep_tokens:
  assumes "astep F D a a'" "exclusive a" "D \<inter> ran (lock_sem a) = {}" "\<forall>f. client (lock_sem a) (F f)"
  shows "tokens a'"
proof -
  have pl: "placed a" and tok: "tokens a" and inj: "inj_on (lock_sem a) (dom (lock_sem a))"
    and tidy: "\<And>t. tidy (lock_sem a) (prg a t)"
    and cnd: "\<And>v x. acond a v = Some x \<Longrightarrow> set (waitQueue x) \<inter> ran (lock_sem a) = {}"
    using assms(2) unfolding exclusive_def by blast+
  have cl: "client (lock_sem a) r" if "prg a t = i # r" "\<And>s. i \<noteq> P s" "\<And>lv. i \<noteq> Reset lv" for t i r
    using tidy [of t] that by (cases i) auto
  have go: "tokens (goto a t r')" if "t \<in># run a" "prg a t = i # r" "client (lock_sem a) r'"
      "\<And>s. i \<noteq> SetHolder s" "\<And>s. i \<noteq> V s" "\<And>s. i \<noteq> Reset s" for t i r r'
    using tokens_goto [OF tok pl that(1), of r'] that(2-) client_claims [OF that(3)] by (cases i) auto
  have own1: "semval x + of_bool (held l a) + int (threads_at (claims l s) a) = 1 \<and> 0 \<le> semval x"
    if "lock_sem a l = Some s" "asem a s = Some x" for l s x
    using tok that unfolding tokens_def by fastforce
  show ?thesis
    using assms(1)
  proof cases
    case (take t s r x)
    consider "s \<notin> ran (lock_sem a)" "client (lock_sem a) r"
      | l r' where "lock_sem a l = Some s" "r = SetHolder l # r'" "client (lock_sem a) r'"
      using tidy_tl [of "lock_sem a" s r] tidy [of t] take(3) by auto
    then show ?thesis
    proof cases
      case 1
      have "tokens (goto a t r)" using go [OF take(2,3) 1(2)] by simp
      with tokens_asem [of s "goto a t r" "Some (x\<lparr>semval := semval x - 1\<rparr>)"] 1(1) take(1)
      show ?thesis by simp
    next
      case 2
      have c: "threads_at (claims l' s') (goto a t r) = threads_at (claims l' s') a + of_bool (l' = l)" for l' s'
        using threads_at_goto [OF pl take(2), of "claims l' s'" r] take(3) 2(2) by auto
      have u: "l' = l" if "lock_sem a l' = Some s" for l'
        using inj 2(1) that by (auto simp: inj_on_def dom_def)
      show ?thesis unfolding take(1)
      proof (rule tokensI [OF tok])
        fix l' u' y
        assume A: "lock_sem a l' = Some u'" "asem a u' = Some y" "0 \<le> semval y"
          "semval y + of_bool (held l' a) + int (threads_at (claims l' u') a) = 1"
        have "l' = l \<longleftrightarrow> u' = s" using u [of l'] A(1) 2(1) by auto
        then show "\<exists>z. asem ((goto a t r)\<lparr>asem := (asem a)(s \<mapsto> x\<lparr>semval := semval x - 1\<rparr>)\<rparr>) u' = Some z
            \<and> 0 \<le> semval z
            \<and> semval z + of_bool (held l' ((goto a t r)\<lparr>asem := (asem a)(s \<mapsto> x\<lparr>semval := semval x - 1\<rparr>)\<rparr>))
              + int (threads_at (claims l' u') ((goto a t r)\<lparr>asem := (asem a)(s \<mapsto> x\<lparr>semval := semval x - 1\<rparr>)\<rparr>)) = 1"
          using A take(4,5) c [of l' u'] by (cases "u' = s") simp_all
      qed simp
    qed
  next
    case (block t s r x)
    have "threads_at (claims l u) (a\<lparr>run := run a - {#t#}\<rparr>) = threads_at (claims l u) a" for l u
      using threads_at_remove [OF block(2), of "claims l u"] block(3) by simp
    with block(4) show ?thesis unfolding block(1) by (intro tokensI [OF tok]) auto
  next
    case (signal t s r)
    have r: "client (lock_sem a) r" using cl [OF signal(2)] by simp
    show ?thesis
    proof (cases "s \<in> ran (lock_sem a)")
      case False
      have "tokens (goto a t r)"
        using tokens_goto [OF tok pl signal(1), of r] signal(2) client_claims [OF r] False
        by (auto simp: ran_def)
      from tokens_wake [OF this placed_goto [OF pl signal(1)] signal(3)] False show ?thesis by simp
    next
      case True
      have w: "threads_at (claims l' s') a' + of_bool (s' = s) = threads_at (claims l' s') a"
        if "lock_sem a l' = Some s'" for l' s'
        using wake_claims [OF signal(3) placed_goto [OF pl signal(1)], of l' s']
          threads_at_goto [OF pl signal(1), of "claims l' s'" r] signal(2) client_claims [OF r that] by auto
      obtain x where x: "asem a s = Some x" "alock a' = alock a"
          "asem a' = (asem a)(s \<mapsto> x\<lparr>queue := tl (queue x), semval := semval x + 1\<rparr>)"
        using wake_frame [OF signal(3)] by auto
      then have h: "held l a' = held l a" "lock_sem a' = lock_sem a" for l
        by (simp_all add: held_def lock_sem_def fun_eq_iff)
      show ?thesis
      proof (rule tokensI [OF tok h(2)])
        fix l u y
        assume "lock_sem a l = Some u" "asem a u = Some y" "0 \<le> semval y"
          "semval y + of_bool (held l a) + int (threads_at (claims l u) a) = 1"
        with w [of l u] x(1,3) h(1) [of l]
        show "\<exists>y. asem a' u = Some y \<and> 0 \<le> semval y
            \<and> semval y + of_bool (held l a') + int (threads_at (claims l u) a') = 1"
          by (cases "u = s") auto
      qed
    qed
  next
    case (device s)
    with assms(3) tokens_wake [OF tok pl device(2)] show ?thesis by auto
  next
    case (acquire t l r L)
    then show ?thesis using tokens_goto [OF tok pl acquire(2)] by simp
  next
    case (own t l r L)
    have r: "client (lock_sem a) r" using cl [OF own(3)] by simp
    have c: "threads_at (claims l' s') (goto a t r) + of_bool (l' = l) = threads_at (claims l' s') a"
      if "lock_sem a l' = Some s'" for l' s'
      using threads_at_goto [OF pl own(2), of "claims l' s'" r] own(3) client_claims [OF r that] by auto
    have "\<not> held l a"
    proof
      assume h: "held l a"
      obtain s where s: "lock_sem a l = Some s" using own(4) by (auto simp: lock_sem_def)
      then obtain x where "asem a s = Some x" using tok by (auto simp: tokens_def)
      with own1 [OF s] h c [OF s] show False by auto
    qed
    with own(4) show ?thesis unfolding own(1)
    proof (intro tokensI [OF tok])
      fix l' u y
      assume "lock_sem a l' = Some u" "asem a u = Some y" "0 \<le> semval y"
        "semval y + of_bool (held l' a) + int (threads_at (claims l' u) a) = 1"
      with c [of l' u] \<open>\<not> held l a\<close> own(4)
      show "\<exists>z. asem ((goto a t r)\<lparr>alock := (alock a)(l \<mapsto> L\<lparr>lockHolder := Some t\<rparr>)\<rparr>) u = Some z
          \<and> 0 \<le> semval z
          \<and> semval z + of_bool (held l' ((goto a t r)\<lparr>alock := (alock a)(l \<mapsto> L\<lparr>lockHolder := Some t\<rparr>)\<rparr>))
            + int (threads_at (claims l' u) ((goto a t r)\<lparr>alock := (alock a)(l \<mapsto> L\<lparr>lockHolder := Some t\<rparr>)\<rparr>)) = 1"
        by (cases "l' = l") (auto simp: held_def)
    qed (simp add: lock_sem_def fun_eq_iff)
  next
    case (release t l r L)
    have c: "threads_at (claims l' s') (goto a t (V (semaphore L) # r))
        = threads_at (claims l' s') a + of_bool (l' = l)" if "lock_sem a l' = Some s'" for l' s'
    proof -
      have "s' = semaphore L \<longleftrightarrow> l' = l"
        using inj that release(4) by (auto simp: inj_on_def lock_sem_def dom_def)
      then show ?thesis
        using threads_at_goto [OF pl release(2), of "claims l' s'" "V (semaphore L) # r"] release(3) by auto
    qed
    have "held l a" using release(4,5) by (auto simp: held_def)
    show ?thesis unfolding release(1)
    proof (intro tokensI [OF tok])
      fix l' u y
      assume "lock_sem a l' = Some u" "asem a u = Some y" "0 \<le> semval y"
        "semval y + of_bool (held l' a) + int (threads_at (claims l' u) a) = 1"
      with c [of l' u] \<open>held l a\<close> release(4)
      show "\<exists>z. asem ((goto a t (V (semaphore L) # r))\<lparr>alock := (alock a)(l \<mapsto> L\<lparr>lockHolder := None\<rparr>)\<rparr>) u = Some z
          \<and> 0 \<le> semval z
          \<and> semval z + of_bool (held l' ((goto a t (V (semaphore L) # r))\<lparr>alock := (alock a)(l \<mapsto> L\<lparr>lockHolder := None\<rparr>)\<rparr>))
            + int (threads_at (claims l' u) ((goto a t (V (semaphore L) # r))\<lparr>alock := (alock a)(l \<mapsto> L\<lparr>lockHolder := None\<rparr>)\<rparr>)) = 1"
        by (cases "l' = l") (auto simp: held_def)
    qed (use release(4) in \<open>simp add: lock_sem_def fun_eq_iff\<close>)
  next
    case (cwait t v l r L x w)
    have w: "w \<notin> ran (lock_sem a)"
    proof
      assume "w \<in> ran (lock_sem a)"
      then obtain y where "asem a w = Some y" using tok by (auto simp: tokens_def ran_def)
      then show False using placed_semD(1) [OF pl] cwait(7) by fastforce
    qed
    with go [OF cwait(2,3), of "Release l # P w # Acquire l # Delete w # r"] cl [OF cwait(3)]
      tokens_asem [of w "goto a t (Release l # P w # Acquire l # Delete w # r)"]
    show ?thesis unfolding cwait(1) by simp
  next
    case (csignal t v l r L x w ws)
    have "w \<notin> ran (lock_sem a)" using cnd [OF csignal(6)] csignal(7) by auto
    with go [OF csignal(2,3), of "V w # r"] cl [OF csignal(3)] show ?thesis unfolding csignal(1) by simp
  next
    case (csignal_none t v l r L x)
    with go [OF csignal_none(2,3), of r] cl [OF csignal_none(3)] show ?thesis by simp
  next
    case (broadcast t v l r x)
    with go [OF broadcast(2,3)] cl [OF broadcast(3)] show ?thesis by simp
  next
    case (discard t s r x)
    have "s \<notin> ran (lock_sem a)" using tidy [of t] discard(3) by simp
    with go [OF discard(2,3), of r] cl [OF discard(3)] tokens_asem [of s "goto a t r"]
    show ?thesis unfolding discard(1) by simp
  next
    case (yielded t r "is")
    have "client (lock_sem a) r" using cl [OF yielded(3)] by simp
    with yielded(4) have "client (lock_sem a) is" by auto
    from go [OF yielded(2,3) this] yielded(1) show ?thesis by simp
  next
    case (sliced t lv)
    then show ?thesis using tokens_goto [OF tok pl sliced(2), of "Reset lv # prg a t"] by simp
  next
    case (reset t lv r)
    then show ?thesis using tokens_goto [OF tok pl reset(2), of r] by simp
  next
    case (fork t f r n)
    have "client (lock_sem a) r" using cl [OF fork(3)] by simp
    from go [OF fork(2,3) this] have g: "tokens (goto a t r)" by simp
    have "threads_at (claims l s) a' = threads_at (claims l s) (goto a t r)" if "lock_sem a l = Some s" for l s
      using threads_at_fork [OF pl fork(2,4), of "claims l s" r "F f"] client_claims [OF spec [OF assms(4), of f] that]
      unfolding fork(1) by simp
    then show ?thesis unfolding fork(1) by (intro tokensI [OF g]) auto
  next
    case (finished t)
    have "threads_at (claims l s) a' = threads_at (claims l s) a" for l s
      using threads_at_remove [OF finished(2), of "claims l s"] finished(1,3) by simp
    then show ?thesis unfolding finished(1) by (intro tokensI [OF tok]) auto
  qed
qed


lemma tidy_upd: "tidy ls (p u) \<Longrightarrow> tidy ls is \<Longrightarrow> tidy ls ((p(t := is)) u)"
  by simp

lemma astep_tidy:
  assumes "astep F D a a'" "exclusive a" "\<forall>f. client (lock_sem a) (F f)"
  shows "tidy (lock_sem a) (prg a' u)"
proof -
  have tidy: "\<And>t. tidy (lock_sem a) (prg a t)" and tok: "tokens a" and pl: "placed a"
    and cnd: "\<And>v x. acond a v = Some x \<Longrightarrow> set (waitQueue x) \<inter> ran (lock_sem a) = {}"
    using assms(2) unfolding exclusive_def by blast+
  have cl: "client (lock_sem a) r" if "prg a t = i # r" "\<And>s. i \<noteq> P s" "\<And>lv. i \<noteq> Reset lv" for t i r
    using tidy [of t] that by (cases i) auto
  have pr: "prg a t = P s # r \<Longrightarrow> tidy (lock_sem a) r" for t s r
    using tidy_tl [of "lock_sem a" s r] tidy [of t] by (auto intro: client_tidy)
  show ?thesis
    using assms(1)
  proof cases
    case (take t s r x)
    then show ?thesis using tidy pr by simp
  next
    case (signal t s r)
    with wake_frame [OF signal(3)] show ?thesis using tidy client_tidy [OF cl [OF signal(2)]] by auto
  next
    case (device s)
    with wake_frame [OF device(2)] show ?thesis using tidy by auto
  next
    case (acquire t l r L)
    then show ?thesis using tidy cl [OF acquire(3)] by (auto simp: lock_sem_def)
  next
    case (own t l r L)
    then show ?thesis using tidy client_tidy [OF cl [OF own(3)]] by simp
  next
    case (release t l r L)
    then show ?thesis using tidy cl [OF release(3)] by simp
  next
    case (cwait t v l r L x w)
    have w: "w \<notin> ran (lock_sem a)"
      using tok placed_semD(1) [OF pl] cwait(7) by (fastforce simp: tokens_def ran_def)
    then show ?thesis using tidy cl [OF cwait(3)] unfolding cwait(1) by simp
  next
    case (csignal t v l r L x w ws)
    then show ?thesis using tidy cl [OF csignal(3)] by simp
  next
    case (csignal_none t v l r L x)
    then show ?thesis using tidy client_tidy [OF cl [OF csignal_none(3)]] by simp
  next
    case (broadcast t v l r x)
    then show ?thesis using tidy client_tidy [OF cl [OF broadcast(3)]] cl [OF broadcast(3)] by simp
  next
    case (discard t s r x)
    then show ?thesis using tidy client_tidy [OF cl [OF discard(3)]] by simp
  next
    case (yielded t r "is")
    then show ?thesis using tidy client_tidy [OF cl [OF yielded(3)]] by auto
  next
    case (reset t lv r)
    then show ?thesis using tidy tidy [of t] by simp
  next
    case (fork t f r n)
    then show ?thesis using tidy client_tidy [OF cl [OF fork(3)]] client_tidy [OF spec [OF assms(3), of f]]
      by simp
  qed (use tidy in simp_all)
qed

lemma astep_waitQueue:
  assumes "astep F D a a'" "exclusive a" "acond a' v = Some x"
  shows "set (waitQueue x) \<inter> ran (lock_sem a) = {}"
proof -
  have tok: "tokens a" and pl: "placed a"
    and cnd: "\<And>v x. acond a v = Some x \<Longrightarrow> set (waitQueue x) \<inter> ran (lock_sem a) = {}"
    using assms(2) unfolding exclusive_def by blast+
  have w: "scount a \<notin> ran (lock_sem a)"
    using tok placed_semD(1) [OF pl] by (fastforce simp: tokens_def ran_def)
  have keep: "acond a' = acond a \<Longrightarrow> set (waitQueue x) \<inter> ran (lock_sem a) = {}"
    using assms(3) cnd [of v x] by simp
  show ?thesis
    using assms(1)
  proof cases
    case (signal t s r)
    have "acond a' = acond a" using wake_frame [OF signal(3)] by auto
    with assms(3) cnd show ?thesis by simp
  next
    case (device s)
    have "acond a' = acond a" using wake_frame [OF device(2)] by auto
    with assms(3) cnd show ?thesis by simp
  next
    case (cwait t v' l r L y w')
    with assms(3) cnd [of v'] cnd [of v] w show ?thesis by (auto split: if_splits)
  next
    case (csignal t v' l r L y w' ws)
    with assms(3) cnd [of v'] cnd [of v] show ?thesis by (auto split: if_splits)
  qed (rule keep; simp)+
qed

lemma astep_exclusive:
  assumes "astep F D a a'" "exclusive a" "D \<inter> ran (lock_sem a) = {}" "\<forall>f. client (lock_sem a) (F f)"
  shows "exclusive a'"
proof -
  have "placed a'" using astep_placed [OF assms(1)] assms(2) by (simp add: exclusive_def)
  with astep_tokens [OF assms] astep_tidy [OF assms(1,2,4)] astep_waitQueue [OF assms(1,2)] assms(2)
  show ?thesis unfolding exclusive_def step_lock_sem [OF assms(1)] by blast
qed

section \<open>Reachable states\<close>

inductive reachable :: "(nat \<Rightarrow> instr list) \<Rightarrow> sref set \<Rightarrow> 'h Sys \<Rightarrow> 'h Sys \<Rightarrow> bool" for F D c0 where
  start: "reachable F D c0 c0"
| more: "reachable F D c0 c \<Longrightarrow> step F D c c' \<Longrightarrow> reachable F D c0 c'"

text \<open>
  The state in which the first thread starts: nothing has happened on any semaphore, the locks are
  free, each lock has a semaphore of its own with value 1 that neither a device nor client code uses
  directly.
\<close>

definition booted :: "(nat \<Rightarrow> instr list) \<Rightarrow> sref set \<Rightarrow> 'h Sys \<Rightarrow> bool" where
  "booted F D c \<longleftrightarrow> (let ls = lock_sem (abs_sys c) in
     sleeping c = None \<and> readyList (kern c) = [] \<and> currentThread (kern c) < threadCount (kern c)
     \<and> (\<forall>s x. sems (kern c) s = Some x \<longrightarrow> s < semCount (kern c) \<and> queue x = [])
     \<and> (\<forall>l L. locks (kern c) l = Some L \<longrightarrow> lockHolder L = None \<and> semaphore L \<notin> D
          \<and> (\<exists>x. sems (kern c) (semaphore L) = Some x \<and> semval x = 1))
     \<and> inj_on ls (dom ls) \<and> (\<forall>v x. conds (kern c) v = Some x \<longrightarrow> waitQueue x = [])
     \<and> (\<forall>f. client ls (F f)) \<and> (\<forall>t. client ls (progs c t)))"

lemma booted_exclusive:
  assumes "booted F D c"
  shows "exclusive (abs_sys c)" "no_lost_wakeup (abs_sys c)"
    "D \<inter> ran (lock_sem (abs_sys c)) = {}" "\<forall>f. client (lock_sem (abs_sys c)) (F f)"
proof -
  note b = assms [unfolded booted_def Let_def]
  have cl: "client (lock_sem (abs_sys c)) (progs c t)" for t using b by blast
  have "placed (abs_sys c)" using b by (auto simp: placed_def abs_sys_eq)
  moreover have "tokens (abs_sys c)"
    unfolding tokens_def
  proof (intro allI impI)
    fix l s
    assume l: "lock_sem (abs_sys c) l = Some s"
    then obtain L where L: "locks (kern c) l = Some L" "s = semaphore L"
      by (auto simp: lock_sem_def abs_sys_eq)
    have "threads_at (claims l s) (abs_sys c) = 0"
      using client_claims [OF cl l] by (simp add: threads_at_def abs_sys_eq)
    moreover have "\<not> held l (abs_sys c)" using b L by (auto simp: held_def abs_sys_eq)
    moreover obtain x where "sems (kern c) s = Some x" "semval x = 1" using b L by blast
    moreover from this have "asem (abs_sys c) s = Some x" by (simp add: abs_sys_eq)
    ultimately show "\<exists>x. asem (abs_sys c) s = Some x \<and> 0 \<le> semval x
        \<and> semval x + of_bool (held l (abs_sys c)) + int (threads_at (claims l s) (abs_sys c)) = 1"
      by simp
  qed
  moreover have "tidy (lock_sem (abs_sys c)) (prg (abs_sys c) t)" for t
    using client_tidy [OF cl] by (simp add: abs_sys_eq)
  moreover have "acond (abs_sys c) v = Some x \<Longrightarrow> set (waitQueue x) \<inter> ran (lock_sem (abs_sys c)) = {}" for v x
    using b by (auto simp: abs_sys_eq)
  ultimately show "exclusive (abs_sys c)" using b unfolding exclusive_def by blast
  show "no_lost_wakeup (abs_sys c)" using b by (auto simp: no_lost_wakeup_def abs_sys_eq)
  show "D \<inter> ran (lock_sem (abs_sys c)) = {}" using b by (auto simp: ran_def lock_sem_def abs_sys_eq)
  show "\<forall>f. client (lock_sem (abs_sys c)) (F f)" using b by blast
qed

lemma reachable_invariant:
  assumes "reachable F D c0 c" "booted F D c0"
  shows "exclusive (abs_sys c) \<and> no_lost_wakeup (abs_sys c)
    \<and> lock_sem (abs_sys c) = lock_sem (abs_sys c0)"
  using assms
proof (induction rule: reachable.induct)
  case start
  with booted_exclusive show ?case by blast
next
  case (more c c')
  then have c: "exclusive (abs_sys c)" "no_lost_wakeup (abs_sys c)"
      "lock_sem (abs_sys c) = lock_sem (abs_sys c0)" by auto
  have pl: "placed (abs_sys c)" using c(1) by (simp add: exclusive_def)
  from step_simulates [OF more.hyps(2)] show ?case
  proof
    assume a: "astep F D (abs_sys c) (abs_sys c')"
    have "exclusive (abs_sys c')"
      using astep_exclusive [OF a c(1)] booted_exclusive(3,4) [OF more.prems] c(3) by simp
    with astep_no_lost_wakeup [OF a pl c(2)] step_lock_sem [OF a] c(3) show ?thesis by simp
  qed (use c in simp)
qed


section \<open>Context switches\<close>

lemma SaveUserState_eq:
  assumes "threads k t = Some th" "length (registers k) = NumTotalRegs"
  shows "SaveUserState t k = Ok (put_thread k t (th\<lparr>userRegisters := Some (registers k)\<rparr>))"
proof -
  have "\<exists>us. for_loop 0 (int NumTotalRegs) (\<lambda>i us. rbind (ReadRegister k i) (\<lambda>v. Ok (us @ [v]))) [] = Ok us
      \<and> us = take (nat (int NumTotalRegs)) (registers k)"
  proof (rule for_loop_total [where I = "\<lambda>i us. us = take (nat i) (registers k)"])
    fix i us
    assume "0 \<le> i" "i < int NumTotalRegs" "us = take (nat i) (registers k)"
    then show "\<exists>us'. rbind (ReadRegister k i) (\<lambda>v. Ok (us @ [v])) = Ok us'
        \<and> us' = take (nat (i + 1)) (registers k)"
      using assms(2) by (simp add: ReadRegister_def nat_add_distrib take_Suc_conv_app_nth)
  qed simp_all
  with assms show ?thesis by (simp add: SaveUserState_def)
qed

lemma RestoreUserState_eq:
  assumes "threads k t = Some th" "userRegisters th = Some us" "length us = NumTotalRegs"
    and "length (registers k) = NumTotalRegs"
  shows "RestoreUserState t k = Ok (k\<lparr>registers := us\<rparr>)"
proof -
  have "\<exists>k'. for_loop 0 (int NumTotalRegs) (\<lambda>i k. rbind (arr_get us i) (WriteRegister k i)) k = Ok k'
      \<and> k' = k\<lparr>registers := take (nat (int NumTotalRegs)) us @ drop (nat (int NumTotalRegs)) (registers k)\<rparr>"
  proof (rule for_loop_total [where I = "\<lambda>i k'. k' = k\<lparr>registers := take (nat i) us @ drop (nat i) (registers k)\<rparr>"])
    fix i k'
    assume i: "0 \<le> i" "i < int NumTotalRegs"
      and k': "k' = k\<lparr>registers := take (nat i) us @ drop (nat i) (registers k)\<rparr>"
    have n: "nat i < length us" "nat i < length (registers k)" using i assms by auto
    have "(take (nat i) us @ drop (nat i) (registers k))[nat i := us ! nat i]
        = take (nat (i + 1)) us @ drop (nat (i + 1)) (registers k)"
      using i n by (simp add: nat_add_distrib list_update_append take_Suc_conv_app_nth
          Cons_nth_drop_Suc [symmetric])
    then show "\<exists>k''. rbind (arr_get us i) (WriteRegister k' i) = Ok k''
        \<and> k'' = k\<lparr>registers := take (nat (i + 1)) us @ drop (nat (i + 1)) (registers k)\<rparr>"
      using i n assms by (simp add: WriteRegister_def k' arr_set_def)
  qed simp_all
  with assms show ?thesis by (simp add: RestoreUserState_def)
qed

lemma sync_table_other: "tableOwner k \<noteq> Some t \<Longrightarrow> threads (sync_table k) t = threads k t"
  by (auto simp: sync_table_def split: option.splits)

lemma sync_table_own:
  "tableOwner k = Some t \<Longrightarrow> pageTable k = Some pt \<Longrightarrow> threads k t = Some th
    \<Longrightarrow> threads (sync_table k) t = Some (th\<lparr>space := map_option (sp_pageTable_update (\<lambda>_. pt)) (space th)\<rparr>)"
  by (auto simp: sync_table_def map_option_case split: option.splits)

lemma sync_table_machine [simp]:
  "registers (sync_table k) = registers k" "pageTable (sync_table k) = pageTable k"
  by (auto simp: sync_table_def split: option.splits)

text \<open>What a thread with an address space leaves behind when it is switched out.\<close>

lemma Run_saves:
  assumes "Scheduler_Run n False k = Ok k'" "n \<noteq> currentThread k" "toBeDestroyed k \<noteq> Some (currentThread k)"
    and "threads k (currentThread k) = Some th" "space th = Some sp" "length (registers k) = NumTotalRegs"
    and "tableOwner k = Some (currentThread k)" "pageTable k = Some pt"
  shows "threads k' (currentThread k)
    = Some (th\<lparr>userRegisters := Some (registers k), space := Some (sp\<lparr>sp_pageTable := pt\<rparr>)\<rparr>)"
proof -
  let ?th = "th\<lparr>space := Some (sp\<lparr>sp_pageTable := pt\<rparr>)\<rparr>"
  obtain q where q: "Run_out n False k = Ok q" "Switch_in q = Ok k'"
    using assms(1) by (auto simp: Scheduler_Run_def)
  have "threads (sync_table k) (currentThread k) = Some ?th"
    using sync_table_own [OF assms(7,8,4)] assms(5) by simp
  from SaveUserState_eq [OF this] q(1) assms(2,4,5,6)
  have "threads q (currentThread k) = Some (?th\<lparr>userRegisters := Some (registers k)\<rparr>)"
    by (auto simp: Run_out_def Let_def elim!: rbind_OkE)
  moreover note Run_out_frame [OF q(1)]
  moreover have "level q = IntOff" using Run_out_frame [OF q(1)] by simp
  from Switch_in_frame [OF q(2) this] Run_out_frame [OF q(1)] assms(2,3)
  have "threads k' (currentThread k) = threads q (currentThread k)" by auto
  ultimately show ?thesis by simp
qed

text \<open>What the machine contains when a thread with an address space is switched in again.\<close>

lemma Run_restores:
  assumes "Scheduler_Run t fin k = Ok k'" "t \<noteq> currentThread k"
    and "threads k t = Some th" "\<not> fresh th" "space th = Some sp" "userRegisters th = Some us"
    and "length us = NumTotalRegs" "length (registers k) = NumTotalRegs"
    and "tableOwner k = Some t \<Longrightarrow> pageTable k = Some (sp_pageTable sp)"
  shows "registers k' = us \<and> pageTable k' = Some (sp_pageTable sp) \<and> pageTableSize k' = sp_numPages sp
    \<and> tableOwner k' = Some t"
proof -
  obtain q where q: "Run_out t fin k = Ok q" "Switch_in q = Ok k'"
    using assms(1) by (auto simp: Scheduler_Run_def)
  obtain k1 old k2 u nxt where s:
      "(if fin then ASSERT (toBeDestroyed k = None) (Ok (k\<lparr>toBeDestroyed := Some (currentThread k)\<rparr>))
        else Ok k) = Ok k1"
      "live (threads k1 (currentThread k)) = Ok old"
      "(if space old \<noteq> None then SaveUserState (currentThread k) (sync_table k1) else Ok (sync_table k1)) = Ok k2"
      "live (threads (k2\<lparr>currentThread := t\<rparr>) t) = Ok nxt"
      "Ok (put_thread (k2\<lparr>currentThread := t\<rparr>) t (nxt\<lparr>tstatus := RUNNING\<rparr>)) = Ok q"
    by (rule Run_out_parts [OF q(1)]) (rule that; assumption)
  have k1: "threads k1 t = Some th" "tableOwner k1 = tableOwner k" "pageTable k1 = pageTable k"
      "registers k1 = registers k"
    using s(1) assms(3) by (auto split: if_splits)
  have "threads (sync_table k1) t = Some th"
  proof (cases "tableOwner k = Some t")
    case True
    then show ?thesis using sync_table_own [of k1 t _ th] k1 assms(5,9) by simp
  next
    case False
    then show ?thesis using sync_table_other [of k1 t] k1 by simp
  qed
  then have k2: "threads k2 t = Some th" "length (registers k2) = NumTotalRegs"
    using s(3) assms(2,8) k1(4) by (auto simp: SaveUserState_def split: if_splits elim!: rbind_OkE)
  then have qt: "threads q t = Some (th\<lparr>tstatus := RUNNING\<rparr>)" "currentThread q = t" "level q = IntOff"
      "length (registers q) = NumTotalRegs"
    using s(4,5) Run_out_frame [OF q(1)] by auto
  obtain q1 where q1: "CheckToBeDestroyed q = Ok q1"
      "rbind (RestoreUserState t q1) (\<lambda>k. Ok (Space_RestoreState t sp k)) = Ok k'"
    using q(2) qt assms(4,5) by (auto simp: Switch_in_def Let_def elim!: rbind_OkE)
  have "threads q1 t = Some (th\<lparr>tstatus := RUNNING\<rparr>)"
    using CheckToBeDestroyed_frame [OF q1(1)] Switch_in_frame [OF q(2) qt(3)] qt(1,2) by auto
  moreover have "registers q1 = registers q"
    using q1(1) by (auto simp: CheckToBeDestroyed_def Thread_delete_def AddrSpace_delete_def
        elim!: rbind_OkE split: option.splits)
  ultimately have "RestoreUserState t q1 = Ok (q1\<lparr>registers := us\<rparr>)"
    using qt(4) assms(6,7) RestoreUserState_eq [of q1 t "th\<lparr>tstatus := RUNNING\<rparr>" us] by simp
  with q1(2) show ?thesis by (auto simp: Space_RestoreState_def RestoreState_def)
qed

section \<open>A run\<close>

text \<open>The machine without interrupts and time slices is deterministic.\<close>

definition advance_sys :: "(nat \<Rightarrow> instr list) \<Rightarrow> 'h Sys \<Rightarrow> 'h Sys result" where
  "advance_sys F c =
     (case sleeping c of
        Some fin \<Rightarrow> rbind (Sleep_leave fin (kern c)) (\<lambda>k. case k of
            None \<Rightarrow> Fault Diverges
          | Some k \<Rightarrow> Ok (c\<lparr>kern := k, sleeping := None\<rparr>))
      | None \<Rightarrow> (case progs c (currentThread (kern c)) of
            [] \<Rightarrow> rbind (Thread_Finish (kern c)) (\<lambda>k. Ok (c\<lparr>kern := k, sleeping := Some True\<rparr>))
          | i # rest \<Rightarrow> exec F i rest c))"

primrec run_threads :: "(nat \<Rightarrow> instr list) \<Rightarrow> nat \<Rightarrow> 'h Sys \<Rightarrow> 'h Sys result" where
  "run_threads F 0 c = Ok c"
| "run_threads F (Suc n) c = rbind (advance_sys F c) (run_threads F n)"

lemma advance_step: "advance_sys F c = Ok c' \<Longrightarrow> step F D c c'"
  by (cases "sleeping c"; cases "progs c (currentThread (kern c))")
    (auto simp: advance_sys_def split: option.splits elim!: rbind_OkE
      intro: step.run step.finish step.dispatch)

lemma run_threads_reachable: "run_threads F n c = Ok c' \<Longrightarrow> reachable F D c0 c \<Longrightarrow> reachable F D c0 c'"
  by (induction n arbitrary: c) (auto elim!: rbind_OkE intro: reachable.more advance_step)

text \<open>The main thread forks a thread that waits for semaphore 1, and acquires a lock meanwhile.\<close>

definition demo_text :: "nat \<Rightarrow> instr list" where
  "demo_text f = (if f = 0 then [P 1] else [])"

definition demo_kernel :: "unit ThreadKernel" where
  "demo_kernel = \<lparr>registers = replicate NumTotalRegs 0, mainMemory = [],
     pageTableMap = \<lparr>numBits = 128, numWords = 4, bwords = [0, 0, 0, 0]\<rparr>, tlb = None,
     pageTable = None, pageTableSize = 0, singleStep = False, status = SystemMode,
     fileSystem = \<lparr>fileSlot = [], host = ()\<rparr>,
     currentThread = 0, threads = [0 \<mapsto> (Thread_new 0)\<lparr>tstatus := RUNNING, fresh := False\<rparr>],
     threadCount = 1, readyList = [], toBeDestroyed = None, level = IntOn,
     sems = [0 \<mapsto> \<lparr>semval = 1, queue = []\<rparr>, 1 \<mapsto> \<lparr>semval = 0, queue = []\<rparr>], semCount = 2,
     locks = [0 \<mapsto> \<lparr>semaphore = 0, lockHolder = None\<rparr>], conds = Map.empty, tableOwner = None\<rparr>"

definition demo_sys :: "unit Sys" where
  "demo_sys = \<lparr>kern = demo_kernel,
     progs = (\<lambda>t. if t = 0 then [Fork 0, Yield, Acquire 0, V 1, Release 0] else []), sleeping = None\<rparr>"

lemma demo_booted: "booted demo_text {} demo_sys"
proof -
  have ls: "lock_sem (abs_sys demo_sys) = [0 \<mapsto> 0]"
    by (auto simp: lock_sem_def abs_sys_def demo_sys_def demo_kernel_def fun_eq_iff)
  show ?thesis
    unfolding booted_def Let_def ls
    by (auto simp: demo_sys_def demo_kernel_def demo_text_def split: if_splits)
qed

lemmas thread_ops = advance_sys_def upd_def do_yield_def Thread_Fork_def Thread_new_def StackAllocate_def
  ReadyToRun_def SetLevel_def Thread_Yield_def FindNextToRun_def Scheduler_Run_def Run_out_def Switch_in_def
  Thread_Begin_def CheckToBeDestroyed_def sync_table_def CheckOverflow_def Semaphore_P_def Sleep_enter_def
  Sleep_leave_def Lock_SetHolder_def Semaphore_V_def Let_def

lemma demo_run:
  "\<exists>c. run_threads demo_text 8 demo_sys = Ok c \<and> sems (kern c) 1 = Some \<lparr>semval = 0, queue = [1]\<rparr>
     \<and> locks (kern c) 0 = Some \<lparr>semaphore = 0, lockHolder = Some 0\<rparr> \<and> runnable c = [0]"
  by (simp add: numeral_eq_Suc demo_sys_def demo_kernel_def demo_text_def thread_ops runnable_def)

lemma demo_reachable:
  "\<exists>c. reachable demo_text {} demo_sys c \<and> sems (kern c) 1 = Some \<lparr>semval = 0, queue = [1]\<rparr>
     \<and> locks (kern c) 0 = Some \<lparr>semaphore = 0, lockHolder = Some 0\<rparr> \<and> runnable c = [0]"
  using demo_run run_threads_reachable reachable.start by metis

section \<open>Self tests\<close>

text \<open>
  \<open>Semaphore::SelfTest\<close> on the semaphore 0, with \<open>ping\<close> as semaphore 1, and \<open>Thread::SelfTest\<close>:
  the calls of the main thread and of the thread it forks.
\<close>

definition Semaphore_SelfTest :: "sref \<Rightarrow> sref \<Rightarrow> instr list" where
  "Semaphore_SelfTest this ping = Fork 0 # concat (replicate 10 [V ping, P this]) @ [Delete ping]"

definition SelfTestHelper :: "sref \<Rightarrow> sref \<Rightarrow> instr list" where
  "SelfTestHelper pong ping = concat (replicate 10 [P ping, V pong])"

definition SimpleThread :: "instr list" where
  "SimpleThread = replicate 5 Yield"

definition Thread_SelfTest :: "instr list" where
  "Thread_SelfTest = Fork 1 # Yield # SimpleThread"

definition selftest_text :: "nat \<Rightarrow> instr list" where
  "selftest_text f = (if f = 0 then SelfTestHelper 0 1 else if f = 1 then SimpleThread else [])"

definition selftest_sys :: "instr list \<Rightarrow> unit Sys" where
  "selftest_sys p = \<lparr>kern = demo_kernel\<lparr>sems := [0 \<mapsto> \<lparr>semval = 0, queue = []\<rparr>, 1 \<mapsto> \<lparr>semval = 0, queue = []\<rparr>],
     locks := Map.empty\<rparr>, progs = (\<lambda>t. if t = 0 then p else []), sleeping = None\<rparr>"

text \<open>A machine on which a thread with an empty address space and a kernel thread take turns.\<close>

definition user_kernel :: "unit ThreadKernel" where
  "user_kernel = demo_kernel\<lparr>level := IntOff, readyList := [],
     threads := [0 \<mapsto> \<lparr>processID = 0, tstatus = READY, stack = None, fresh = False, userRegisters = None,
                       space = Some \<lparr>stackptr = 0, sp_argc = 0, sp_argv = 0, sp_pageTable = [], sp_numPages = 0\<rparr>\<rparr>,
                 1 \<mapsto> \<lparr>processID = 1, tstatus = READY, stack = Some STACK_FENCEPOST, fresh = False,
                       userRegisters = None, space = None\<rparr>],
     pageTable := Some [], tableOwner := Some 0, registers := replicate NumTotalRegs 5\<rparr>"

section \<open>Properties\<close>

text \<open>C1: The threads library implements the abstract machine of semaphores, locks and condition
  variables: whatever the current thread, an interrupt handler, the idle loop or the time slice does
  to the kernel, on the abstract state it is one step of some runnable thread or of a device, or
  nothing at all (a dispatch). The scheduler, the ready list and the context switches show on the
  abstract level only as the choice of the thread that moves.\<close>

theorem Threads_refine_abstract_machine:
  assumes "step F D c c'"
  shows "astep F D (abs_sys c) (abs_sys c') \<or> abs_sys c' = abs_sys c"
  by (rule step_simulates [OF assms])

theorem Threads_refine_abstract_machine_witness:
  "\<exists>c. step demo_text {} demo_sys c
     \<and> (astep demo_text {} (abs_sys demo_sys) (abs_sys c) \<or> abs_sys c = abs_sys demo_sys)"
proof -
  obtain c where "run_threads demo_text 8 demo_sys = Ok c" using demo_run by blast
  then obtain c1 where "advance_sys demo_text demo_sys = Ok c1"
    by (auto simp: numeral_eq_Suc elim!: rbind_OkE)
  then have "step demo_text {} demo_sys c1" by (rule advance_step)
  with Threads_refine_abstract_machine [OF this] show ?thesis by blast
qed

text \<open>C26: No thread is in two places: in every reachable state the runnable threads (the current one,
  unless it sleeps, and the ready list) are pairwise different, and a thread in the queue of a
  semaphore occurs there once, is not runnable, is in no other queue, and its next action is to test
  that semaphore again.\<close>

theorem Threads_in_one_place:
  assumes "reachable F D c0 c" "booted F D c0"
  shows "distinct (runnable c)
    \<and> (\<forall>s x. sems (kern c) s = Some x \<longrightarrow> distinct (queue x) \<and> (\<forall>t\<in>set (queue x).
         t \<notin> set (runnable c) \<and> (\<exists>r. progs c t = P s # r)
         \<and> (\<forall>s' x'. sems (kern c) s' = Some x' \<longrightarrow> t \<in> set (queue x') \<longrightarrow> s' = s)))"
proof -
  have pl: "placed (abs_sys c)" using reachable_invariant [OF assms] by (simp add: exclusive_def)
  have "count (mset (runnable c)) t \<le> 1" for t using pl by (simp add: placed_def abs_sys_def)
  then have "distinct (runnable c)"
    by (metis distinct_count_atmost_1 One_nat_def count_eq_zero_iff le_Suc_eq le_zero_eq set_mset_mset
        count_greater_eq_one_iff)
  moreover have q: "distinct (queue x) \<and> (\<forall>t\<in>set (queue x). t \<notin> set (runnable c) \<and> (\<exists>r. progs c t = P s # r))"
    if "sems (kern c) s = Some x" for s x
    using pl that by (simp add: placed_def abs_sys_def)
  ultimately show ?thesis by (metis instr.inject(1) list.inject)
qed

theorem Threads_in_one_place_witness:
  "\<exists>c x. reachable demo_text {} demo_sys c \<and> sems (kern c) 1 = Some x \<and> queue x = [1]
     \<and> 1 \<notin> set (runnable c) \<and> (\<exists>r. progs c 1 = P 1 # r)"
proof -
  obtain c where c: "reachable demo_text {} demo_sys c" "sems (kern c) 1 = Some \<lparr>semval = 0, queue = [1]\<rparr>"
    using demo_reachable by blast
  with Threads_in_one_place [OF c(1) demo_booted] show ?thesis by fastforce
qed

text \<open>C2: No wake-up is lost: in every reachable state, while threads wait for a semaphore, its value is
  at most the number of runnable threads that are about to test it. In particular a semaphore with a
  positive value never has all of its waiters asleep.\<close>

theorem Semaphore_no_lost_wakeup:
  assumes "reachable F D c0 c" "booted F D c0"
    and "sems (kern c) s = Some x" "queue x \<noteq> []"
  shows "semval x \<le> int (length (filter (\<lambda>t. at (P s) (progs c t)) (runnable c)))"
proof -
  have "semval x \<le> int (threads_at (at (P s)) (abs_sys c))"
    using reachable_invariant [OF assms(1,2)] assms(3,4) by (simp add: no_lost_wakeup_def abs_sys_def)
  then show ?thesis by (simp add: threads_at_def abs_sys_def mset_filter [symmetric] del: mset_filter)
qed

theorem Semaphore_no_lost_wakeup_witness:
  "\<exists>c. reachable demo_text {} demo_sys c \<and> sems (kern c) 1 = Some \<lparr>semval = 0, queue = [1]\<rparr>
     \<and> 0 \<le> int (length (filter (\<lambda>t. at (P 1) (progs c t)) (runnable c)))"
proof -
  obtain c where c: "reachable demo_text {} demo_sys c" "sems (kern c) 1 = Some \<lparr>semval = 0, queue = [1]\<rparr>"
    using demo_reachable by blast
  with Semaphore_no_lost_wakeup [OF c(1) demo_booted c(2)] show ?thesis by auto
qed

text \<open>C3: Locks are mutually exclusive: in every reachable state, while a lock has a holder its semaphore
  is 0, and no runnable thread is inside \<open>Acquire\<close> behind the \<open>P\<close> or inside \<open>Release\<close> before the \<open>V\<close>.
  So no second thread gets past \<open>Acquire\<close> before the holder has called \<open>Release\<close>, however the threads
  are interleaved.\<close>

theorem Lock_mutual_exclusion:
  assumes "reachable F D c0 c" "booted F D c0"
    and "locks (kern c) l = Some L" "lockHolder L = Some t"
  shows "map_option semval (sems (kern c) (semaphore L)) = Some 0
    \<and> (\<forall>u\<in>set (runnable c). \<not> at (SetHolder l) (progs c u) \<and> \<not> at (V (semaphore L)) (progs c u))"
proof -
  have tok: "tokens (abs_sys c)" using reachable_invariant [OF assms(1,2)] by (simp add: exclusive_def)
  have l: "lock_sem (abs_sys c) l = Some (semaphore L)" "held l (abs_sys c)"
    using assms(3,4) by (auto simp: lock_sem_def held_def abs_sys_def)
  then obtain x where x: "asem (abs_sys c) (semaphore L) = Some x" "0 \<le> semval x"
      "semval x + 1 + int (threads_at (claims l (semaphore L)) (abs_sys c)) = 1"
    using tok unfolding tokens_def by fastforce
  then have "semval x = 0" "threads_at (claims l (semaphore L)) (abs_sys c) = 0" by linarith+
  then have "\<forall>u\<in>set (runnable c). \<not> claims l (semaphore L) (progs c u)"
    by (simp add: threads_at_def abs_sys_def mset_filter [symmetric] filter_empty_conv del: mset_filter)
  with x(1) \<open>semval x = 0\<close> show ?thesis by (simp add: abs_sys_def claims_def)
qed

theorem Lock_mutual_exclusion_witness:
  "\<exists>c. reachable demo_text {} demo_sys c
     \<and> locks (kern c) 0 = Some \<lparr>semaphore = 0, lockHolder = Some 0\<rparr>
     \<and> map_option semval (sems (kern c) 0) = Some 0"
proof -
  obtain c where c: "reachable demo_text {} demo_sys c"
      "locks (kern c) 0 = Some \<lparr>semaphore = 0, lockHolder = Some 0\<rparr>"
    using demo_reachable by blast
  with Lock_mutual_exclusion [OF c(1) demo_booted c(2)] show ?thesis by auto
qed

text \<open>C11: Context switches preserve a user program: when a thread that runs in an address space is switched
  out, anything may happen to the machine's registers and page table until it is switched in again
  (its saved state apart); then the 40 user registers and the page table are what they were, including
  the use and dirty bits set before the switch.\<close>

theorem Context_switch_restores_user_state:
  assumes "Scheduler_Run n False k = Ok k1" "currentThread k = t" "n \<noteq> t" "toBeDestroyed k \<noteq> Some t"
    and "threads k t = Some th" "\<not> fresh th" "space th = Some sp" "length (registers k) = NumTotalRegs"
    and "tableOwner k = Some t" "pageTable k = Some pt"
    and "threads k2 t = map_option (tstatus_update (\<lambda>_. st)) (threads k1 t)" "currentThread k2 \<noteq> t"
    and "length (registers k2) = NumTotalRegs" "tableOwner k2 = Some t \<Longrightarrow> pageTable k2 = Some pt"
    and "Scheduler_Run t fin k2 = Ok k3"
  shows "registers k3 = registers k \<and> pageTable k3 = Some pt \<and> pageTableSize k3 = sp_numPages sp"
proof -
  have "threads k1 t = Some (th\<lparr>userRegisters := Some (registers k), space := Some (sp\<lparr>sp_pageTable := pt\<rparr>)\<rparr>)"
    using Run_saves [OF assms(1)] assms(2-10) by simp
  with assms(11) have t: "threads k2 t = Some (th\<lparr>userRegisters := Some (registers k),
      space := Some (sp\<lparr>sp_pageTable := pt\<rparr>), tstatus := st\<rparr>)" by simp
  from Run_restores [OF assms(15) _ t] assms(2,6,8,12-14) show ?thesis by simp
qed

theorem Context_switch_restores_user_state_witness:
  "\<exists>k1 k3. Scheduler_Run 1 False user_kernel = Ok k1
     \<and> Scheduler_Run 0 False (k1\<lparr>registers := replicate NumTotalRegs 9\<rparr>) = Ok k3
     \<and> registers k3 = replicate NumTotalRegs 5"
proof -
  obtain k1 where k1: "Scheduler_Run 1 False user_kernel = Ok k1" "currentThread k1 = 1" "pageTable k1 = Some []"
      "threads k1 0 = map_option (tstatus_update (\<lambda>_. READY)) (threads k1 0)"
    by (simp add: thread_ops user_kernel_def demo_kernel_def SaveUserState_eq)
  obtain k3 where k3: "Scheduler_Run 0 False (k1\<lparr>registers := replicate NumTotalRegs 9\<rparr>) = Ok k3"
    using k1(1) by (auto simp: thread_ops user_kernel_def demo_kernel_def SaveUserState_eq RestoreUserState_eq)
  have u: "currentThread user_kernel = 0" "toBeDestroyed user_kernel \<noteq> Some 0"
      "registers user_kernel = replicate NumTotalRegs 5" "length (registers user_kernel) = NumTotalRegs"
      "tableOwner user_kernel = Some 0" "pageTable user_kernel = Some []"
    by (simp_all add: user_kernel_def demo_kernel_def)
  have "registers k3 = registers user_kernel"
    using Context_switch_restores_user_state [OF k1(1) u(1) _ u(2) _ _ _ u(4,5,6), where ?k2.0 = "k1\<lparr>registers := replicate NumTotalRegs 9\<rparr>"
        and st = READY and fin = False and ?k3.0 = k3] k1 k3
    by (simp add: user_kernel_def demo_kernel_def)
  with k1(1) k3 u(3) show ?thesis by auto
qed

text \<open>The two self tests run to their ends on a machine without interrupts, as the code expects them to:
  in \<open>Thread::SelfTest\<close> the two threads take turns at every \<open>Yield\<close>, and the forked thread is gone at
  the end; in \<open>Semaphore::SelfTest\<close> the ten rounds of \<open>ping\<close> and \<open>pong\<close> leave both semaphores as they
  were, with no thread waiting.\<close>

theorem SelfTests_finish:
  "\<exists>c d. run_threads selftest_text 25 (selftest_sys Thread_SelfTest) = Ok c
     \<and> progs c 0 = [] \<and> runnable c = [0] \<and> threads (kern c) 1 = None
     \<and> run_threads selftest_text 82 (selftest_sys (Semaphore_SelfTest 0 1)) = Ok d
     \<and> progs d 0 = [] \<and> currentThread (kern d) = 0 \<and> sems (kern d) 1 = None
     \<and> sems (kern d) 0 = Some \<lparr>semval = 0, queue = []\<rparr>"
  by (simp add: numeral_eq_Suc selftest_sys_def demo_kernel_def selftest_text_def SelfTestHelper_def
      Semaphore_SelfTest_def Thread_SelfTest_def SimpleThread_def thread_ops Semaphore_delete_def
      Thread_Finish_def Thread_delete_def runnable_def)

end
