(* ===== verification/Processes.thy ===== *)
theory Processes
  imports Threads
begin

text \<open>
  Processes and named semaphores (\<^verbatim>\<open>threads/pcb.cc\<close>, \<^verbatim>\<open>threads/ptable.cc\<close>,
  \<^verbatim>\<open>threads/stable.cc\<close>, \<^verbatim>\<open>threads/sem.cc\<close>, \<^verbatim>\<open>threads/ProcessArg.h\<close>): the process table
  behind the system calls \<open>Exec\<close>, \<open>Join\<close> and \<open>Exit\<close>, and the table of semaphores behind
  \<open>CreateSemaphore\<close>, \<open>Wait\<close> and \<open>Signal\<close>.

  The operations here are what one thread does until it returns or goes to sleep: a \<open>P\<close> on a
  semaphore whose value is 0 is the outcome \<open>Fault Asleep\<close>. How the operations of several processes
  interleave is the subject of the last section, which runs their semaphore operations on the
  machine of \<open>Threads\<close>.
\<close>

section \<open>Data\<close>

definition MAX_PROCESS :: int where "MAX_PROCESS = 10"
definition MAX_SEMAPHORE :: int where "MAX_SEMAPHORE = 10"

record PCB =
  joinsem :: sref
  exitsem :: sref
  multex :: sref
  exitcode :: "32 word"
  numwait :: "32 word"
  filename :: "bytes option"
  isJoined :: bool
  parentID :: int
  pid :: int

record PTable =
  psize :: int
  pt_bm :: bitmap
  pcb :: "PCB option list"
  bmsem :: sref

record Sem =
  sname :: bytes
  ssem :: sref

record STable =
  st_bm :: bitmap
  semTab :: "Sem option list"

text \<open>The argument of a forked process; the strings of \<open>argv\<close> are C strings.\<close>

record ProcessArg =
  pa_pid :: int
  pa_argv :: "bytes list"

text \<open>\<open>startArg\<close> is the argument in the saved machine state of a thread forked with \<open>RunProcess\<close>.\<close>

record 'h ProcKernel = "'h ThreadKernel" +
  pTable :: PTable
  sTable :: STable
  startArg :: "tid \<Rightarrow> ProcessArg option"

section \<open>Semaphores, without blocking\<close>

definition sem_P :: "sref \<Rightarrow> ('h, 'k) ThreadKernel_scheme \<Rightarrow> ('h, 'k) ThreadKernel_scheme result" where
  "sem_P s k =
     rbind (Semaphore_P (level k) s k) (\<lambda>(got, k). if got then Ok k else Fault Asleep)"

abbreviation "sem_V \<equiv> Semaphore_V"

section \<open>Process control blocks\<close>

definition PCB_new ::
  "int \<Rightarrow> int \<Rightarrow> ('h, 'k) ThreadKernel_scheme \<Rightarrow> PCB \<times> ('h, 'k) ThreadKernel_scheme" where
  "PCB_new parent p k =
     (let (j, k) = Semaphore_new 0 k; (e, k) = Semaphore_new 0 k; (x, k) = Semaphore_new 1 k in
      (\<lparr>joinsem = j, exitsem = e, multex = x, exitcode = 0, numwait = 0, filename = None,
        isJoined = False, parentID = parent, pid = p\<rparr>, k))"

definition pcb_at :: "int \<Rightarrow> ('h, 'k) ProcKernel_scheme \<Rightarrow> PCB option result" where
  "pcb_at i k = arr_get (pcb (pTable k)) i"

definition the_pcb :: "int \<Rightarrow> ('h, 'k) ProcKernel_scheme \<Rightarrow> PCB result" where
  "the_pcb i k = rbind (pcb_at i k) (\<lambda>p. case p of None \<Rightarrow> Fault NullDereference | Some p \<Rightarrow> Ok p)"

definition set_pcb :: "int \<Rightarrow> PCB option \<Rightarrow> ('h, 'k) ProcKernel_scheme \<Rightarrow> ('h, 'k) ProcKernel_scheme result"
where
  "set_pcb i p k =
     rbind (arr_set (pcb (pTable k)) i p) (\<lambda>ps. Ok (k\<lparr>pTable := (pTable k)\<lparr>pcb := ps\<rparr>\<rparr>))"

text \<open>
  \<open>Exec\<close> of the PCB at index \<open>i\<close>; the version with arguments takes the file name from \<open>argv[0]\<close>.
\<close>

definition PCB_start ::
  "int \<Rightarrow> bytes \<Rightarrow> bytes list \<Rightarrow> ('h, 'k) ProcKernel_scheme \<Rightarrow> (int \<times> ('h, 'k) ProcKernel_scheme) result"
where
  "PCB_start i name argv k =
     rbind (the_pcb i k) (\<lambda>p.
     rbind (sem_P (multex p) k) (\<lambda>k.
     if filename p \<noteq> None then rbind (sem_V (multex p) k) (\<lambda>k. Ok (-1, k))
     else
     rbind (set_pcb i (Some (p\<lparr>filename := Some name\<rparr>)) k) (\<lambda>k.
     rbind (Thread_Fork (pid p) k) (\<lambda>(t, k).
     let k = k\<lparr>startArg := (startArg k)(t \<mapsto> \<lparr>pa_pid = pid p, pa_argv = argv\<rparr>)\<rparr> in
     rbind (sem_V (multex p) k) (\<lambda>k. Ok (0, k))))))"

definition PCB_Exec ::
  "int \<Rightarrow> bytes \<Rightarrow> ('h, 'k) ProcKernel_scheme \<Rightarrow> (int \<times> ('h, 'k) ProcKernel_scheme) result" where
  "PCB_Exec i name k = PCB_start i name [] k"

definition PCB_ExecV ::
  "int \<Rightarrow> bytes list \<Rightarrow> ('h, 'k) ProcKernel_scheme \<Rightarrow> (int \<times> ('h, 'k) ProcKernel_scheme) result" where
  "PCB_ExecV i argv k =
     rbind (arr_get argv 0) (\<lambda>name. PCB_start i name argv k)"

definition JoinWait :: "PCB \<Rightarrow> ('h, 'k) ThreadKernel_scheme \<Rightarrow> ('h, 'k) ThreadKernel_scheme result" where
  "JoinWait p = sem_P (joinsem p)"

definition ExitWait :: "PCB \<Rightarrow> ('h, 'k) ThreadKernel_scheme \<Rightarrow> ('h, 'k) ThreadKernel_scheme result" where
  "ExitWait p = sem_P (exitsem p)"

definition JoinRelease :: "PCB \<Rightarrow> ('h, 'k) ThreadKernel_scheme \<Rightarrow> ('h, 'k) ThreadKernel_scheme result" where
  "JoinRelease p = sem_V (joinsem p)"

definition ExitRelease :: "PCB \<Rightarrow> ('h, 'k) ThreadKernel_scheme \<Rightarrow> ('h, 'k) ThreadKernel_scheme result" where
  "ExitRelease p = sem_V (exitsem p)"

definition add_numwait ::
  "32 word \<Rightarrow> int \<Rightarrow> ('h, 'k) ProcKernel_scheme \<Rightarrow> ('h, 'k) ProcKernel_scheme result" where
  "add_numwait d i k =
     rbind (the_pcb i k) (\<lambda>p.
     rbind (sem_P (multex p) k) (\<lambda>k.
     rbind (set_pcb i (Some (p\<lparr>numwait := numwait p + d\<rparr>)) k) (\<lambda>k.
     sem_V (multex p) k)))"

definition IncNumWait :: "int \<Rightarrow> ('h, 'k) ProcKernel_scheme \<Rightarrow> ('h, 'k) ProcKernel_scheme result" where
  "IncNumWait = add_numwait 1"

definition DecNumWait :: "int \<Rightarrow> ('h, 'k) ProcKernel_scheme \<Rightarrow> ('h, 'k) ProcKernel_scheme result" where
  "DecNumWait = add_numwait (-1)"

section \<open>The process table\<close>

definition PTable_new :: "int \<Rightarrow> ('h, 'k) ThreadKernel_scheme \<Rightarrow> (PTable \<times> ('h, 'k) ThreadKernel_scheme) result"
where
  "PTable_new n k =
     rbind (Bitmap_new n) (\<lambda>bm.
     let (s, k) = Semaphore_new 1 k in
     if MAX_PROCESS < n then Fault OutOfRange
     else let (p, k) = PCB_new 0 0 k in
          rbind (arr_set (replicate (nat n) None) 0 (Some p)) (\<lambda>ps.
          rbind (Bitmap_Mark bm 0) (\<lambda>bm.
          Ok (\<lparr>psize = n, pt_bm = bm, pcb = ps, bmsem = s\<rparr>, k))))"

definition current_pid :: "('h, 'k) ThreadKernel_scheme \<Rightarrow> int result" where
  "current_pid k = rbind (live (threads k (currentThread k))) (\<lambda>th. Ok (processID th))"

text \<open>The part the two versions of \<open>ExecUpdate\<close> share: a slot of the table and a new PCB in it.\<close>

definition new_process :: "('h, 'k) ProcKernel_scheme \<Rightarrow> (int \<times> ('h, 'k) ProcKernel_scheme) result" where
  "new_process k =
     rbind (sem_P (bmsem (pTable k)) k) (\<lambda>k.
     rbind (Bitmap_FindAndSet (pt_bm (pTable k))) (\<lambda>(p, bm).
     let k = k\<lparr>pTable := (pTable k)\<lparr>pt_bm := bm\<rparr>\<rparr> in
     if p = -1 then rbind (sem_V (bmsem (pTable k)) k) (\<lambda>k. Ok (-1, k))
     else
     rbind (current_pid k) (\<lambda>parent.
     let (b, k) = PCB_new parent p k in
     rbind (set_pcb p (Some b) k) (\<lambda>k.
     rbind (sem_V (bmsem (pTable k)) k) (\<lambda>k. Ok (p, k))))))"

definition ExecUpdate ::
  "bytes \<Rightarrow> ('h, 'k) ProcKernel_scheme \<Rightarrow> (int \<times> ('h, 'k) ProcKernel_scheme) result" where
  "ExecUpdate name k =
     rbind (new_process k) (\<lambda>(p, k).
     if p = -1 then Ok (-1, k) else rbind (PCB_Exec p name k) (\<lambda>(_, k). Ok (p, k)))"

definition ExecUpdateV ::
  "bytes list \<Rightarrow> ('h, 'k) ProcKernel_scheme \<Rightarrow> (int \<times> ('h, 'k) ProcKernel_scheme) result" where
  "ExecUpdateV argv k =
     rbind (new_process k) (\<lambda>(p, k).
     if p = -1 then Ok (-1, k) else rbind (PCB_ExecV p argv k) (\<lambda>(_, k). Ok (p, k)))"

definition JoinUpdate ::
  "int \<Rightarrow> ('h, 'k) ProcKernel_scheme \<Rightarrow> (int \<times> ('h, 'k) ProcKernel_scheme) result" where
  "JoinUpdate childID k =
     rbind (current_pid k) (\<lambda>parent.
     rbind (pcb_at childID k) (\<lambda>c. case c of
       None \<Rightarrow> Ok (-1, k)
     | Some c \<Rightarrow>
         if parentID c \<noteq> parent then Ok (-1, k)
         else
         rbind (JoinWait c k) (\<lambda>k.
         rbind (IncNumWait parent k) (\<lambda>k.
         rbind (the_pcb parent k) (\<lambda>p.
         rbind (ExitRelease p k) (\<lambda>k. Ok (0, k)))))))"

definition ExitUpdate ::
  "32 word \<Rightarrow> ('h, 'k) ProcKernel_scheme \<Rightarrow> (int \<times> ('h, 'k) ProcKernel_scheme) result" where
  "ExitUpdate ec k =
     rbind (current_pid k) (\<lambda>p.
     if p = 0 then Ok (-1, k)
     else
     rbind (the_pcb p k) (\<lambda>c.
     rbind (set_pcb p (Some (c\<lparr>exitcode := ec\<rparr>)) k) (\<lambda>k.
     rbind (JoinRelease c k) (\<lambda>k.
     rbind (DecNumWait (parentID c) k) (\<lambda>k.
     rbind (the_pcb (parentID c) k) (\<lambda>q.
     rbind (ExitWait q k) (\<lambda>k. Ok (0, k))))))))"

definition PTable_GetFileName :: "int \<Rightarrow> ('h, 'k) ProcKernel_scheme \<Rightarrow> bytes option result" where
  "PTable_GetFileName i k =
     rbind (pcb_at i k) (\<lambda>p. Ok (case p of None \<Rightarrow> None | Some p \<Rightarrow> filename p))"

text \<open>
  The first code of a forked process, up to the point where it enters the simulator (\<open>True\<close>) or
  returns because its file could not be loaded (\<open>False\<close>). The constructor of \<open>AddrSpace\<close> sets
  nothing: \<open>garbage\<close> is what the new object contains.
\<close>

definition RunProcess ::
  "'h unix \<Rightarrow> AddrSpace \<Rightarrow> ProcessArg \<Rightarrow> ('h, 'k) ProcKernel_scheme
    \<Rightarrow> (bool \<times> ('h, 'k) ProcKernel_scheme) result" where
  "RunProcess U garbage arg k =
     (let t = currentThread k in
      rbind (PTable_GetFileName (pa_pid arg) k) (\<lambda>name.
      rbind (live (threads k t)) (\<lambda>th.
      let k = put_thread k t (th\<lparr>space := Some garbage\<rparr>) in
      case name of
        None \<Rightarrow> Fault NullDereference
      | Some name \<Rightarrow>
          rbind (AddrSpace_Load U name (pa_argv arg) garbage k) (\<lambda>(loaded, sp, k).
          let k = put_thread k t (th\<lparr>space := Some sp\<rparr>) in
          if \<not> loaded then Ok (False, k)
          else rbind (AddrSpace_Execute sp k) (\<lambda>k. Ok (True, k\<lparr>tableOwner := Some t\<rparr>))))))"

section \<open>Named semaphores\<close>

text \<open>The name is copied into an array of 50 characters without a check.\<close>

definition Sem_new ::
  "bytes \<Rightarrow> int \<Rightarrow> ('h, 'k) ThreadKernel_scheme \<Rightarrow> (Sem \<times> ('h, 'k) ThreadKernel_scheme) result" where
  "Sem_new na i k =
     (if length na < 50 then let (s, k) = Semaphore_new i k in Ok (\<lparr>sname = na, ssem = s\<rparr>, k)
      else Fault OutOfRange)"

definition STable_new :: "STable result" where
  "STable_new = rbind (Bitmap_new MAX_SEMAPHORE) (\<lambda>bm.
     Ok \<lparr>st_bm = bm, semTab = replicate (nat MAX_SEMAPHORE) None\<rparr>)"

definition STable_Create ::
  "bytes \<Rightarrow> int \<Rightarrow> ('h, 'k) ProcKernel_scheme \<Rightarrow> (int \<times> ('h, 'k) ProcKernel_scheme) result" where
  "STable_Create name init k =
     rbind (Bitmap_FindAndSet (st_bm (sTable k))) (\<lambda>(i, bm).
     let k = k\<lparr>sTable := (sTable k)\<lparr>st_bm := bm\<rparr>\<rparr> in
     if i = -1 then Ok (-1, k)
     else
     rbind (Sem_new name init k) (\<lambda>(s, k).
     rbind (arr_set (semTab (sTable k)) i (Some s)) (\<lambda>tab.
     Ok (i, k\<lparr>sTable := (sTable k)\<lparr>semTab := tab\<rparr>\<rparr>))))"

text \<open>The end of the boot (\<open>Kernel::Initialize\<close>): the two tables.\<close>

definition boot_tables :: "'h ThreadKernel \<Rightarrow> 'h ProcKernel result" where
  "boot_tables k =
     rbind (PTable_new MAX_PROCESS k) (\<lambda>(t, k).
     rbind STable_new (\<lambda>st.
     Ok (ThreadKernel.extend k (ProcKernel.fields t st (\<lambda>t. None)))))"

text \<open>The search loop of \<open>Wait\<close> and \<open>Signal\<close>: the first entry with the name.\<close>

function find_sem :: "Sem option list \<Rightarrow> bytes \<Rightarrow> int \<Rightarrow> Sem option result" where
  "find_sem tab name i =
     (if i < MAX_SEMAPHORE
      then rbind (arr_get tab i) (\<lambda>s. case s of
             None \<Rightarrow> find_sem tab name (i + 1)
           | Some s \<Rightarrow> if sname s = name then Ok (Some s) else find_sem tab name (i + 1))
      else Ok None)"
  by pat_completeness auto
termination by (relation "measure (\<lambda>(tab, name, i). nat (MAX_SEMAPHORE - i))") auto

declare find_sem.simps [simp del]

definition STable_Wait ::
  "bytes \<Rightarrow> ('h, 'k) ProcKernel_scheme \<Rightarrow> (int \<times> ('h, 'k) ProcKernel_scheme) result" where
  "STable_Wait name k =
     rbind (find_sem (semTab (sTable k)) name 0) (\<lambda>s. case s of
       None \<Rightarrow> Ok (-1, k)
     | Some s \<Rightarrow> rbind (sem_P (ssem s) k) (\<lambda>k. Ok (0, k)))"

definition STable_Signal ::
  "bytes \<Rightarrow> ('h, 'k) ProcKernel_scheme \<Rightarrow> (int \<times> ('h, 'k) ProcKernel_scheme) result" where
  "STable_Signal name k =
     rbind (find_sem (semTab (sTable k)) name 0) (\<lambda>s. case s of
       None \<Rightarrow> Ok (-1, k)
     | Some s \<Rightarrow> rbind (sem_V (ssem s) k) (\<lambda>k. Ok (0, k)))"


section \<open>Semaphores that nobody waits for\<close>

lemma sem_P_free:
  "sems k s = Some x \<Longrightarrow> semval x \<noteq> 0 \<Longrightarrow> sem_P s k = Ok (put_sem k s (x\<lparr>semval := semval x - 1\<rparr>))"
  by (simp add: sem_P_def Semaphore_P_def SetLevel_def Let_def)

lemma sem_P_blocks:
  "sems k s = Some x \<Longrightarrow> semval x = 0 \<Longrightarrow> threads k (currentThread k) = Some th
    \<Longrightarrow> sem_P s k = Fault Asleep"
  by (simp add: sem_P_def Semaphore_P_def SetLevel_def Let_def Sleep_enter_def)

lemma sem_V_free:
  "sems k s = Some x \<Longrightarrow> queue x = [] \<Longrightarrow> sem_V s k = Ok (put_sem k s (x\<lparr>semval := semval x + 1\<rparr>))"
  by (simp add: Semaphore_V_def SetLevel_def Let_def)

abbreviation "unlocked \<equiv> \<lparr>semval = 1, queue = []\<rparr>"

section \<open>Creating processes\<close>

text \<open>The process table between two operations.\<close>

definition wf_procs :: "('h, 'k) ProcKernel_scheme \<Rightarrow> bool" where
  "wf_procs k \<longleftrightarrow> (let t = pTable k in
     wf_bitmap (pt_bm t) \<and> numBits (pt_bm t) = MAX_PROCESS \<and> int (length (pcb t)) = MAX_PROCESS
     \<and> (\<forall>i. 0 \<le> i \<longrightarrow> i < MAX_PROCESS \<longrightarrow> (pcb t ! nat i \<noteq> None \<longleftrightarrow> i \<in> marked (pt_bm t)))
     \<and> sems k (bmsem t) = Some unlocked \<and> bmsem t < semCount k)"

lemma PCB_new_eq: "PCB_new parent p k =
   (\<lparr>joinsem = semCount k, exitsem = semCount k + 1, multex = semCount k + 2, exitcode = 0, numwait = 0,
     filename = None, isJoined = False, parentID = parent, pid = p\<rparr>,
    k\<lparr>sems := (sems k)(semCount k \<mapsto> \<lparr>semval = 0, queue = []\<rparr>, semCount k + 1 \<mapsto> \<lparr>semval = 0, queue = []\<rparr>,
        semCount k + 2 \<mapsto> unlocked), semCount := semCount k + 3\<rparr>)"
  by (simp add: PCB_new_def Semaphore_new_def Let_def)

lemma new_process_full:
  assumes "wf_procs k" "marked (pt_bm (pTable k)) = {0..<MAX_PROCESS}"
  shows "new_process k = Ok (-1, k)"
proof -
  have w: "wf_bitmap (pt_bm (pTable k))" "numBits (pt_bm (pTable k)) = MAX_PROCESS"
      "sems k (bmsem (pTable k)) = Some unlocked"
    using assms(1) by (auto simp: wf_procs_def Let_def)
  have "Bitmap_FindAndSet (pt_bm (pTable k)) = Ok (-1, pt_bm (pTable k))"
    using FindAndSet_full w(1,2) assms(2) by simp
  then show ?thesis
    using w(3) by (simp add: new_process_def sem_P_free sem_V_free fun_upd_idem Let_def)
qed

lemma new_process_slot:
  assumes "wf_procs k" "marked (pt_bm (pTable k)) \<noteq> {0..<MAX_PROCESS}"
    and "threads k (currentThread k) = Some th"
  shows "\<exists>p bm. 0 \<le> p \<and> p < MAX_PROCESS \<and> p \<notin> marked (pt_bm (pTable k)) \<and> {0..<p} \<subseteq> marked (pt_bm (pTable k))
    \<and> wf_bitmap bm \<and> numBits bm = MAX_PROCESS \<and> marked bm = insert p (marked (pt_bm (pTable k)))
    \<and> new_process k = Ok (p, (snd (PCB_new (processID th) p k))\<lparr>pTable := (pTable k)
        \<lparr>pt_bm := bm, pcb := (pcb (pTable k))[nat p := Some (fst (PCB_new (processID th) p k))]\<rparr>\<rparr>)"
proof -
  have w: "wf_bitmap (pt_bm (pTable k))" "numBits (pt_bm (pTable k)) = MAX_PROCESS"
      "sems k (bmsem (pTable k)) = Some unlocked" "bmsem (pTable k) < semCount k"
      "int (length (pcb (pTable k))) = MAX_PROCESS"
    using assms(1) by (auto simp: wf_procs_def Let_def)
  obtain p bm where b: "Bitmap_FindAndSet (pt_bm (pTable k)) = Ok (p, bm)" "0 \<le> p" "p < MAX_PROCESS"
      "p \<notin> marked (pt_bm (pTable k))" "\<forall>j. 0 \<le> j \<longrightarrow> j < p \<longrightarrow> j \<in> marked (pt_bm (pTable k))"
      "wf_bitmap bm" "numBits bm = MAX_PROCESS" "marked bm = insert p (marked (pt_bm (pTable k)))"
    using FindAndSet_free [OF w(1)] assms(2) w(2) by auto
  let ?s = "bmsem (pTable k)"
  have upd: "(sems k)(?s \<mapsto> a, semCount k \<mapsto> x, Suc (semCount k) \<mapsto> y, Suc (Suc (semCount k)) \<mapsto> z, ?s \<mapsto> unlocked)
      = (sems k)(semCount k \<mapsto> x, Suc (semCount k) \<mapsto> y, Suc (Suc (semCount k)) \<mapsto> z)" for a x y z
    using w(3,4) by (auto simp: fun_eq_iff)
  have "new_process k = Ok (p, (snd (PCB_new (processID th) p k))\<lparr>pTable := (pTable k)
        \<lparr>pt_bm := bm, pcb := (pcb (pTable k))[nat p := Some (fst (PCB_new (processID th) p k))]\<rparr>\<rparr>)"
    using b(1-3) w(3-5) assms(3)
    by (simp add: new_process_def sem_P_free PCB_new_eq current_pid_def set_pcb_def sem_V_free Let_def
        numeral_eq_Suc upd)
  with b show ?thesis by (intro exI [of _ p] exI [of _ bm]) auto
qed

lemma Thread_Fork_eq:
  "Thread_Fork p k = Ok (threadCount k,
     k\<lparr>threads := (threads k)(threadCount k \<mapsto> (StackAllocate (Thread_new p))\<lparr>tstatus := READY\<rparr>),
       threadCount := threadCount k + 1, readyList := readyList k @ [threadCount k]\<rparr>)"
  by (simp add: Thread_Fork_def SetLevel_def ReadyToRun_def Let_def)

text \<open>A new PCB has no file name yet, so its \<open>Exec\<close> forks a thread.\<close>

lemma PCB_start_eq:
  assumes "arr_get (pcb (pTable k)) i = Ok (Some p)" "sems k (multex p) = Some unlocked" "filename p = None"
  shows "PCB_start i name argv k = Ok (0, k\<lparr>
     pTable := (pTable k)\<lparr>pcb := (pcb (pTable k))[nat i := Some (p\<lparr>filename := Some name\<rparr>)]\<rparr>,
     threads := (threads k)(threadCount k \<mapsto> (StackAllocate (Thread_new (pid p)))\<lparr>tstatus := READY\<rparr>),
     threadCount := threadCount k + 1, readyList := readyList k @ [threadCount k],
     startArg := (startArg k)(threadCount k \<mapsto> \<lparr>pa_pid = pid p, pa_argv = argv\<rparr>)\<rparr>)"
proof -
  have i: "0 \<le> i" "i < int (length (pcb (pTable k)))" "pcb (pTable k) ! nat i = Some p"
    using assms(1) by (auto simp: arr_get_eq_Ok)
  show ?thesis
    using assms(2,3) i
    by (simp add: PCB_start_def the_pcb_def pcb_at_def sem_P_free set_pcb_def Thread_Fork_eq sem_V_free Let_def
        fun_upd_idem)
qed

text \<open>
  What \<open>Exec\<close> and \<open>ExecV\<close> leave behind when the table has a free slot: a child of the calling
  process in the lowest free slot, with a thread of its own at the end of the ready list.
\<close>

definition child_started ::
  "int \<Rightarrow> bytes \<Rightarrow> bytes list \<Rightarrow> int \<Rightarrow> ('h, 'k) ProcKernel_scheme \<Rightarrow> ('h, 'k) ProcKernel_scheme \<Rightarrow> bool" where
  "child_started parent name argv p k k' \<longleftrightarrow>
     0 \<le> p \<and> p < MAX_PROCESS \<and> p \<notin> marked (pt_bm (pTable k)) \<and> {0..<p} \<subseteq> marked (pt_bm (pTable k))
     \<and> marked (pt_bm (pTable k')) = insert p (marked (pt_bm (pTable k))) \<and> wf_procs k'
     \<and> (\<exists>b. pcb (pTable k') = (pcb (pTable k))[nat p := Some b] \<and> parentID b = parent \<and> pid b = p
          \<and> filename b = Some name \<and> sems k' (joinsem b) = Some \<lparr>semval = 0, queue = []\<rparr>
          \<and> sems k' (exitsem b) = Some \<lparr>semval = 0, queue = []\<rparr>
          \<and> semCount k \<le> joinsem b \<and> semCount k \<le> exitsem b \<and> semCount k \<le> multex b)
     \<and> currentThread k' = currentThread k
     \<and> (\<exists>th. threads k' = (threads k)(threadCount k \<mapsto> th) \<and> processID th = p \<and> tstatus th = READY \<and> fresh th)
     \<and> readyList k' = readyList k @ [threadCount k]
     \<and> startArg k' (threadCount k) = Some \<lparr>pa_pid = p, pa_argv = argv\<rparr>
     \<and> (\<forall>s < semCount k. sems k' s = sems k s)"

lemma child_started:
  assumes "wf_procs k" "marked (pt_bm (pTable k)) \<noteq> {0..<MAX_PROCESS}"
    and "threads k (currentThread k) = Some th"
  shows "\<exists>p k'. rbind (new_process k) (\<lambda>(p, k). if p = -1 then Ok (-1, k)
        else rbind (PCB_start p name argv k) (\<lambda>(_, k). Ok (p, k))) = Ok (p, k')
    \<and> child_started (processID th) name argv p k k'"
proof -
  obtain p bm where p: "0 \<le> p" "p < MAX_PROCESS" "p \<notin> marked (pt_bm (pTable k))"
      "{0..<p} \<subseteq> marked (pt_bm (pTable k))" "wf_bitmap bm" "numBits bm = MAX_PROCESS"
      "marked bm = insert p (marked (pt_bm (pTable k)))"
      "new_process k = Ok (p, (snd (PCB_new (processID th) p k))\<lparr>pTable := (pTable k)
        \<lparr>pt_bm := bm, pcb := (pcb (pTable k))[nat p := Some (fst (PCB_new (processID th) p k))]\<rparr>\<rparr>)"
    using new_process_slot [OF assms] by blast
  let ?b = "fst (PCB_new (processID th) p k)"
  let ?k = "(snd (PCB_new (processID th) p k))\<lparr>pTable := (pTable k)
        \<lparr>pt_bm := bm, pcb := (pcb (pTable k))[nat p := Some ?b]\<rparr>\<rparr>"
  have w: "int (length (pcb (pTable k))) = MAX_PROCESS" "sems k (bmsem (pTable k)) = Some unlocked"
      "bmsem (pTable k) < semCount k"
      "\<forall>i. 0 \<le> i \<longrightarrow> i < MAX_PROCESS \<longrightarrow> (pcb (pTable k) ! nat i \<noteq> None \<longleftrightarrow> i \<in> marked (pt_bm (pTable k)))"
    using assms(1) by (auto simp: wf_procs_def Let_def)
  have s: "arr_get (pcb (pTable ?k)) p = Ok (Some ?b)" "sems ?k (multex ?b) = Some unlocked" "filename ?b = None"
    using p(1,2) w(1) by (simp_all add: PCB_new_eq)
  note st = PCB_start_eq [OF s, of name argv]
  obtain k' where k': "PCB_start p name argv ?k = Ok (0, k')" using st by blast
  have "child_started (processID th) name argv p k k'"
  proof -
    have i: "\<forall>i. 0 \<le> i \<longrightarrow> i < MAX_PROCESS \<longrightarrow> ((pcb (pTable k))[nat p := Some x] ! nat i \<noteq> None
        \<longleftrightarrow> i \<in> insert p (marked (pt_bm (pTable k))))" for x
      using w(1,4) p(1,2) by (auto simp: nth_list_update)
    have e: "k' = ?k\<lparr>
     pTable := (pTable ?k)\<lparr>pcb := (pcb (pTable ?k))[nat p := Some (?b\<lparr>filename := Some name\<rparr>)]\<rparr>,
     threads := (threads ?k)(threadCount ?k \<mapsto> (StackAllocate (Thread_new (pid ?b)))\<lparr>tstatus := READY\<rparr>),
     threadCount := threadCount ?k + 1, readyList := readyList ?k @ [threadCount ?k],
     startArg := (startArg ?k)(threadCount ?k \<mapsto> \<lparr>pa_pid = pid ?b, pa_argv = argv\<rparr>)\<rparr>"
      using st k' by simp
    have "wf_procs k'" unfolding e
      using p w(1-3) i by (simp add: wf_procs_def Let_def PCB_new_eq)
    with p(1-4,7) w show ?thesis unfolding child_started_def e
      by (auto simp: PCB_new_eq StackAllocate_def Thread_new_def)
  qed
  with p(1,8) k' show ?thesis by auto
qed


section \<open>What Join and Exit do to the semaphores\<close>

text \<open>The calls of semaphore operations in \<open>JoinUpdate\<close> and \<open>ExitUpdate\<close>, for a child \<open>b\<close> and its parent \<open>q\<close>.\<close>

definition Join_code :: "PCB \<Rightarrow> PCB \<Rightarrow> instr list" where
  "Join_code b q = [P (joinsem b), P (multex q), V (multex q), V (exitsem q)]"

definition Exit_code :: "PCB \<Rightarrow> PCB \<Rightarrow> instr list" where
  "Exit_code b q = [V (joinsem b), P (multex q), V (multex q), P (exitsem q)]"

fun sem_run :: "instr list \<Rightarrow> ('h, 'k) ThreadKernel_scheme \<Rightarrow> ('h, 'k) ThreadKernel_scheme result" where
  "sem_run (P s # is) k = rbind (sem_P s k) (sem_run is)"
| "sem_run (V s # is) k = rbind (sem_V s k) (sem_run is)"
| "sem_run is k = Ok k"

lemma sem_run_last [simp]: "rbind r (sem_run []) = r"
  by (cases r) simp_all

lemma sem_V_table: "sem_V s (k\<lparr>pTable := t\<rparr>) = map_result (\<lambda>k. k\<lparr>pTable := t\<rparr>) (sem_V s k)"
  by (cases "sems k s") (auto simp: Semaphore_V_def SetLevel_def Let_def live_def ReadyToRun_def ASSERT_def
      split: list.split option.split)

lemma sem_P_table: "sem_P s (k\<lparr>pTable := t\<rparr>) = map_result (\<lambda>k. k\<lparr>pTable := t\<rparr>) (sem_P s k)"
  by (cases "sems k s") (auto simp: sem_P_def Semaphore_P_def Sleep_enter_def SetLevel_def Let_def live_def
      ASSERT_def split: option.split)

lemma sem_P_frame: "sem_P s k = Ok k' \<Longrightarrow> pTable k' = pTable k"
  by (auto simp: sem_P_def Semaphore_P_def Sleep_enter_def SetLevel_def Let_def elim!: rbind_OkE split: if_splits)

lemma sem_V_frame: "sem_V s k = Ok k' \<Longrightarrow> pTable k' = pTable k"
  by (auto simp: Semaphore_V_def SetLevel_def Let_def ReadyToRun_eq elim!: rbind_OkE split: list.splits)

lemma map_result_bind: "rbind (map_result f r) g = rbind r (\<lambda>x. g (f x))"
  by (cases r) simp_all

lemma map_result_rbind: "map_result f r = rbind r (\<lambda>x. Ok (f x))"
  by (cases r) simp_all

lemma rbind_cong_Ok: "r = r' \<Longrightarrow> (\<And>x. r' = Ok x \<Longrightarrow> f x = g x) \<Longrightarrow> rbind r f = rbind r' g"
  by (cases r') simp_all

lemma rbind_Ok [simp]: "rbind r Ok = r"
  by (cases r) simp_all

lemma rbind_assoc [simp]: "rbind (rbind r f) g = rbind r (\<lambda>x. rbind (f x) g)"
  by (cases r) simp_all

definition bump :: "32 word \<Rightarrow> int \<Rightarrow> PCB \<Rightarrow> PTable \<Rightarrow> PTable" where
  "bump d i q t = t\<lparr>pcb := (pcb t)[nat i := Some (q\<lparr>numwait := numwait q + d\<rparr>)]\<rparr>"

lemma add_numwait_run:
  assumes "arr_get (pcb (pTable k)) i = Ok (Some q)"
  shows "add_numwait d i k = map_result (\<lambda>k'. k'\<lparr>pTable := bump d i q (pTable k)\<rparr>)
      (sem_run [P (multex q), V (multex q)] k)"
proof -
  have i: "0 \<le> i" "i < int (length (pcb (pTable k)))" "pcb (pTable k) ! nat i = Some q"
    using assms by (auto simp: arr_get_eq_Ok)
  have "set_pcb i (Some x) k' = Ok (k'\<lparr>pTable := (pTable k)\<lparr>pcb := (pcb (pTable k))[nat i := Some x]\<rparr>\<rparr>)"
    if "sem_P (multex q) k = Ok k'" for k' x
    using i sem_P_frame [OF that] by (simp add: set_pcb_def)
  then show ?thesis
    using i
    by (simp add: add_numwait_def the_pcb_def pcb_at_def map_result_rbind sem_V_table bump_def
        cong: rbind_cong_Ok)
qed

lemma JoinUpdate_run:
  assumes "threads k (currentThread k) = Some th" "arr_get (pcb (pTable k)) c = Ok (Some b)"
    and "parentID b = processID th" "arr_get (pcb (pTable k)) (processID th) = Ok (Some q)"
  shows "JoinUpdate c k = map_result (\<lambda>k'. (0, k'\<lparr>pTable := bump 1 (processID th) q (pTable k)\<rparr>))
      (sem_run (Join_code b q) k)"
proof -
  let ?i = "processID th"
  have i: "0 \<le> ?i" "?i < int (length (pcb (pTable k)))" "pcb (pTable k) ! nat ?i = Some q"
    using assms(4) by (auto simp: arr_get_eq_Ok)
  have 1: "IncNumWait ?i k1 = map_result (\<lambda>k'. k'\<lparr>pTable := bump 1 ?i q (pTable k)\<rparr>)
      (sem_run [P (multex q), V (multex q)] k1)" if "sem_P (joinsem b) k = Ok k1" for k1
    using add_numwait_run [of k1 ?i q 1] assms(4) sem_P_frame [OF that] by (simp add: IncNumWait_def)
  have 2: "the_pcb ?i (k'\<lparr>pTable := bump 1 ?i q (pTable k)\<rparr>) = Ok (q\<lparr>numwait := numwait q + 1\<rparr>)"
    for k' :: "('a, 'b) ProcKernel_scheme"
    using i by (simp add: the_pcb_def pcb_at_def bump_def)
  show ?thesis
    using assms(1-3) 1
    by (simp add: JoinUpdate_def current_pid_def pcb_at_def JoinWait_def Join_code_def ExitRelease_def
        map_result_bind map_result_rbind 2 sem_V_table cong: rbind_cong_Ok)
qed


lemma ExitUpdate_run:
  assumes "threads k (currentThread k) = Some th" "processID th \<noteq> 0"
    and "arr_get (pcb (pTable k)) (processID th) = Ok (Some b)" "parentID b \<noteq> processID th"
    and "arr_get (pcb (pTable k)) (parentID b) = Ok (Some q)"
  shows "ExitUpdate ec k = map_result (\<lambda>k'. (0, k'\<lparr>pTable := bump (-1) (parentID b) q
      ((pTable k)\<lparr>pcb := (pcb (pTable k))[nat (processID th) := Some (b\<lparr>exitcode := ec\<rparr>)]\<rparr>)\<rparr>))
      (sem_run (Exit_code b q) k)"
proof -
  let ?i = "processID th" and ?j = "parentID b"
  have i: "0 \<le> ?i" "?i < int (length (pcb (pTable k)))" "pcb (pTable k) ! nat ?i = Some b"
      "0 \<le> ?j" "?j < int (length (pcb (pTable k)))" "pcb (pTable k) ! nat ?j = Some q"
    using assms(3,5) by (auto simp: arr_get_eq_Ok)
  have ij: "nat ?i \<noteq> nat ?j" using i(1,4) assms(4) by simp
  let ?t = "(pTable k)\<lparr>pcb := (pcb (pTable k))[nat ?i := Some (b\<lparr>exitcode := ec\<rparr>)]\<rparr>"
  have set: "set_pcb ?i (Some (b\<lparr>exitcode := ec\<rparr>)) k = Ok (k\<lparr>pTable := ?t\<rparr>)"
    using i by (simp add: set_pcb_def)
  have 1: "DecNumWait ?j (k1\<lparr>pTable := ?t\<rparr>) = map_result (\<lambda>k'. k'\<lparr>pTable := bump (-1) ?j q ?t\<rparr>)
      (sem_run [P (multex q), V (multex q)] k1)" for k1 :: "('a, 'b) ProcKernel_scheme"
  proof -
    have "arr_get (pcb (pTable (k1\<lparr>pTable := ?t\<rparr>))) ?j = Ok (Some q)"
      using i ij by simp
    from add_numwait_run [OF this, of "-1"] show ?thesis
      by (simp add: DecNumWait_def map_result_rbind sem_P_table sem_V_table)
  qed
  have 2: "the_pcb ?j (k'\<lparr>pTable := bump (-1) ?j q ?t\<rparr>) = Ok (q\<lparr>numwait := numwait q + -1\<rparr>)"
    for k' :: "('a, 'b) ProcKernel_scheme"
    using i by (simp add: the_pcb_def pcb_at_def bump_def)
  have 3: "the_pcb ?i k = Ok b" using i by (simp add: the_pcb_def pcb_at_def)
  show ?thesis
    using assms(1,2)
    by (simp add: ExitUpdate_def current_pid_def 3 set JoinRelease_def Exit_code_def ExitWait_def sem_V_table
        map_result_rbind 1 2 sem_P_table cong: rbind_cong_Ok)
qed


section \<open>Join and Exit in any interleaving\<close>

text \<open>
  A system of threads that only use semaphores. For every semaphore that no device signals, the value
  plus the \<open>V\<close>s still to come minus the \<open>P\<close>s still to come never changes.
\<close>

definition sem_only :: "instr list \<Rightarrow> bool" where
  "sem_only is \<longleftrightarrow> (\<forall>i\<in>set is. is_Reset i \<or> (\<exists>s. i = P s \<or> i = V s))"

definition pending :: "instr \<Rightarrow> tid set \<Rightarrow> Abs \<Rightarrow> int" where
  "pending i T a = (\<Sum>t\<in>T. int (count_list (prg a t) i))"

definition balanced :: "int \<Rightarrow> sref \<Rightarrow> tid set \<Rightarrow> Abs \<Rightarrow> bool" where
  "balanced n s T a \<longleftrightarrow> finite T \<and> (\<forall>t. sem_only (prg a t)) \<and> (\<forall>t. t \<notin> T \<longrightarrow> (\<forall>i\<in>set (prg a t). is_Reset i))
     \<and> (\<exists>x. asem a s = Some x \<and> 0 \<le> semval x
          \<and> semval x + pending (V s) T a - pending (P s) T a = n)"

lemma pending_goto:
  assumes "finite T" "t \<in> T"
  shows "pending i T (goto a t r) = pending i T a - int (count_list (prg a t) i) + int (count_list r i)"
proof -
  have "(\<Sum>u\<in>T - {t}. int (count_list (((prg a)(t := r)) u) i)) = (\<Sum>u\<in>T - {t}. int (count_list (prg a u) i))"
    by (intro sum.cong) auto
  then show ?thesis
    using assms by (simp add: pending_def sum.remove [OF assms])
qed

lemma pending_upd [simp]:
  "pending i T (a\<lparr>run := m\<rparr>) = pending i T a" "pending i T (a\<lparr>asem := f\<rparr>) = pending i T a"
  by (simp_all add: pending_def)

lemma sem_only_Cons: "sem_only (i # is) \<longleftrightarrow> (is_Reset i \<or> (\<exists>s. i = P s \<or> i = V s)) \<and> sem_only is"
  by (auto simp: sem_only_def)

lemma pending_other: "t \<notin> T \<Longrightarrow> pending i T (goto a t r) = pending i T a"
  unfolding pending_def by (intro sum.cong) auto

text \<open>Beginning and ending the rest of a \<open>Yield\<close>.\<close>

lemma balanced_Reset:
  assumes "balanced n s T a" "r = Reset lv # prg a t \<or> prg a t = Reset lv # r"
  shows "balanced n s T (goto a t r)"
proof -
  have r: "sem_only r" "\<forall>i\<in>set (prg a t). is_Reset i \<Longrightarrow> \<forall>i\<in>set r. is_Reset i"
      "count_list r (V s) = count_list (prg a t) (V s)" "count_list r (P s) = count_list (prg a t) (P s)"
    using assms by (auto simp: balanced_def sem_only_Cons dest: spec [of _ t])
  have "pending i T (goto a t r) = pending i T a" if "i = V s \<or> i = P s" for i
  proof (cases "t \<in> T")
    case True
    then show ?thesis using pending_goto [of T t i a r] assms(1) r that by (auto simp: balanced_def)
  qed (rule pending_other)
  with assms(1) r show ?thesis by (auto simp: balanced_def)
qed

lemma wake_balanced:
  assumes "wake u a = Some a'" "asem a s = Some x"
  shows "\<exists>y. asem a' s = Some y \<and> semval y = semval x + of_bool (s = u)"
    and "pending i T a' = pending i T a"
  using wake_frame [OF assms(1)] assms(2) by (auto simp: pending_def)

lemma astep_balanced:
  assumes "astep F D a a'" "balanced n s T a" "s \<notin> D"
  shows "balanced n s T a'"
proof -
  have T: "finite T" "\<And>t. t \<notin> T \<Longrightarrow> \<forall>i\<in>set (prg a t). is_Reset i" and so: "\<And>t. sem_only (prg a t)"
    using assms(2) by (auto simp: balanced_def)
  obtain x where x: "asem a s = Some x" "0 \<le> semval x"
      "semval x + pending (V s) T a - pending (P s) T a = n"
    using assms(2) by (auto simp: balanced_def)
  have mem: "t \<in> T" if "prg a t = i # r" "\<not> is_Reset i" for t i r
    using that T(2) [of t] by auto
  have no: "prg a t \<noteq> Acquire l # r" "prg a t \<noteq> SetHolder l # r" "prg a t \<noteq> Release l # r"
      "prg a t \<noteq> Wait v l # r" "prg a t \<noteq> Signal v l # r" "prg a t \<noteq> Broadcast v l # r"
      "prg a t \<noteq> Delete l # r" "prg a t \<noteq> Yield # r" "prg a t \<noteq> Fork l # r" for t v l r
    using so [of t] by (auto simp: sem_only_Cons)
  show ?thesis
    using assms(1)
  proof cases
    case (take t u r y)
    have t: "t \<in> T" using mem [OF take(3)] by simp
    have "sem_only r" using so [of t] take(3) by (simp add: sem_only_Cons)
    then show ?thesis
      using assms(2) x take pending_goto [OF T(1) t, where a = a and r = r] by (auto simp: balanced_def)
  next
    case (block t u r y)
    then show ?thesis using assms(2) by (auto simp: balanced_def)
  next
    case (signal t u r)
    have t: "t \<in> T" using mem [OF signal(2)] by simp
    have "sem_only r" using so [of t] signal(2) by (simp add: sem_only_Cons)
    moreover have "asem (goto a t r) s = Some x" using x(1) by simp
    from wake_balanced [OF signal(3) this]
    obtain y where "asem a' s = Some y" "semval y = semval x + of_bool (s = u)"
        "\<And>i. pending i T a' = pending i T (goto a t r)" by blast
    moreover have "prg a' = (prg a)(t := r)" using wake_frame [OF signal(3)] by auto
    ultimately show ?thesis
      using assms(2) x pending_goto [OF T(1) t, where a = a and r = r] signal(2) t by (auto simp: balanced_def)
  next
    case (device u)
    have "s \<noteq> u" using device(1) assms(3) by blast
    moreover obtain y where "asem a' s = Some y" "semval y = semval x + of_bool (s = u)"
        "\<And>i. pending i T a' = pending i T a"
      using wake_balanced [OF device(2) x(1)] by blast
    moreover have "prg a' = prg a" using wake_frame [OF device(2)] by auto
    ultimately show ?thesis using assms(2) x by (auto simp: balanced_def)
  next
    case (sliced t lv)
    then show ?thesis using balanced_Reset [OF assms(2)] by blast
  next
    case (reset t lv r)
    then show ?thesis using balanced_Reset [OF assms(2)] by blast
  next
    case (finished t)
    then show ?thesis using assms(2) by (auto simp: balanced_def)
  qed (simp_all add: no)
qed


lemma reachable_balanced:
  assumes "reachable F D c0 c" "balanced n s T (abs_sys c0)" "s \<notin> D"
  shows "balanced n s T (abs_sys c)"
  using assms
proof (induction rule: reachable.induct)
  case (more c c')
  then show ?case using step_simulates [OF more.hyps(2)] astep_balanced by metis
qed

text \<open>Threads that only use semaphores never gain a call.\<close>

lemma astep_shrinks:
  assumes "astep F D a a'" "\<forall>t. sem_only (prg a t)"
  shows "\<forall>t. \<forall>i\<in>set (prg a' t). is_Reset i \<or> i \<in> set (prg a t)"
proof -
  have no: "prg a t \<noteq> Acquire l # r" "prg a t \<noteq> SetHolder l # r" "prg a t \<noteq> Release l # r"
      "prg a t \<noteq> Wait v l # r" "prg a t \<noteq> Signal v l # r" "prg a t \<noteq> Broadcast v l # r"
      "prg a t \<noteq> Delete l # r" "prg a t \<noteq> Yield # r" "prg a t \<noteq> Fork l # r" for t v l r
    using assms(2) by (auto simp: sem_only_Cons dest: spec [of _ t])
  show ?thesis
    using assms(1)
  proof cases
    case (signal t u r)
    have "prg a' = (prg a)(t := r)" using wake_frame [OF signal(3)] by auto
    with signal(2) show ?thesis by auto
  next
    case (device u)
    have "prg a' = prg a" using wake_frame [OF device(2)] by auto
    then show ?thesis by simp
  qed (auto simp: no)
qed

lemma reachable_shrinks:
  assumes "reachable F D c0 c" "\<forall>t. sem_only (progs c0 t)"
  shows "(\<forall>t. sem_only (progs c t)) \<and> (\<forall>t. \<forall>i\<in>set (progs c t). is_Reset i \<or> i \<in> set (progs c0 t))"
  using assms
proof (induction rule: reachable.induct)
  case (more c c')
  then have c: "\<forall>t. sem_only (prg (abs_sys c) t)"
      "\<forall>t. \<forall>i\<in>set (prg (abs_sys c) t). is_Reset i \<or> i \<in> set (progs c0 t)"
    by (auto simp: abs_sys_def)
  have "\<forall>t. \<forall>i\<in>set (prg (abs_sys c') t). is_Reset i \<or> i \<in> set (prg (abs_sys c) t)"
    using step_simulates [OF more.hyps(2)] astep_shrinks [OF _ c(1)] by metis
  with c(2) have "\<forall>t. \<forall>i\<in>set (progs c' t). is_Reset i \<or> i \<in> set (progs c0 t)"
    by (auto simp: abs_sys_def)
  then show ?case using more.prems unfolding sem_only_def by blast
qed simp

lemma no_V_left:
  assumes "balanced 0 s T a" "\<forall>t\<in>T. P s \<notin> set (prg a t)"
  shows "\<forall>t\<in>T. V s \<notin> set (prg a t)"
proof -
  have T: "finite T" using assms(1) by (simp add: balanced_def)
  have "pending (P s) T a = 0" using assms(2) by (simp add: pending_def count_list_0_iff)
  then have "pending (V s) T a \<le> 0" using assms(1) by (auto simp: balanced_def)
  then have "pending (V s) T a = 0" by (simp add: pending_def sum_nonneg order_antisym)
  then show ?thesis
    using T by (simp add: pending_def sum_nonneg_eq_0_iff count_list_0_iff)
qed

text \<open>
  A semaphore of value 0 on which one thread \<open>t\<close> waits once and one thread \<open>u\<close> signals once: the wait
  ends behind the signal.
\<close>

lemma wait_after_signal:
  assumes "reachable F D c0 c" "s \<notin> D" "finite T" "t \<in> T" "u \<in> T" "t \<noteq> u"
    and "\<forall>v. sem_only (progs c0 v)" "\<forall>v. v \<notin> T \<longrightarrow> progs c0 v = []"
    and "map_option semval (sems (kern c0) s) = Some 0"
    and "count_list (progs c0 t) (P s) = 1" "count_list (progs c0 u) (V s) = 1"
    and "\<forall>v. v \<noteq> t \<longrightarrow> P s \<notin> set (progs c0 v)" "\<forall>v. v \<noteq> u \<longrightarrow> V s \<notin> set (progs c0 v)"
    and "P s \<notin> set (progs c t)"
  shows "V s \<notin> set (progs c u)"
proof -
  have pend: "pending i T (abs_sys c0) = 1"
    if "v \<in> T" "count_list (progs c0 v) i = 1" "\<forall>w. w \<noteq> v \<longrightarrow> i \<notin> set (progs c0 w)" for i v
  proof -
    have "pending i T (abs_sys c0) = int (count_list (progs c0 v) i) + (\<Sum>w\<in>T - {v}. int (count_list (progs c0 w) i))"
      using assms(3) that(1) by (simp add: pending_def abs_sys_def sum.remove)
    also have "(\<Sum>w\<in>T - {v}. int (count_list (progs c0 w) i)) = 0"
      using that(3) by (intro sum.neutral) (simp add: count_list_0_iff)
    finally show ?thesis using that(2) by simp
  qed
  have "balanced 0 s T (abs_sys c0)"
    using assms(3,7,8,9) pend [OF assms(4,10,12)] pend [OF assms(5,11,13)]
    by (auto simp: balanced_def abs_sys_def)
  from reachable_balanced [OF assms(1) this assms(2)] have b: "balanced 0 s T (abs_sys c)" .
  have "P s \<notin> set (progs c v)" for v
    using reachable_shrinks [OF assms(1,7)] assms(12,14) by (cases "v = t") fastforce+
  with no_V_left [OF b] assms(5) show ?thesis by (simp add: abs_sys_def)
qed

section \<open>The table of semaphores\<close>

text \<open>The entries are used from the first one on, since none is ever given back.\<close>

definition stable_is :: "Sem list \<Rightarrow> ('h, 'k) ProcKernel_scheme \<Rightarrow> bool" where
  "stable_is xs k \<longleftrightarrow> (let t = sTable k in
     semTab t = map Some xs @ replicate (10 - length xs) None \<and> length xs \<le> 10
     \<and> wf_bitmap (st_bm t) \<and> numBits (st_bm t) = MAX_SEMAPHORE \<and> marked (st_bm t) = {0..<int (length xs)}
     \<and> (\<forall>x\<in>set xs. \<exists>y. sems k (ssem x) = Some y) \<and> (\<forall>s\<in>dom (sems k). s < semCount k))"

lemma find_sem_list:
  assumes "n \<le> length xs" "length xs \<le> 10"
  shows "find_sem (map Some xs @ replicate (10 - length xs) None) name (int n)
    = Ok (List.find (\<lambda>s. sname s = name) (drop n xs))"
proof -
  let ?t = "map Some xs @ replicate (10 - length xs) None"
  have none: "find_sem ?t name (int m) = Ok None" if "length xs \<le> m" "m \<le> 10" for m
    using that
  proof (induction "10 - m" arbitrary: m)
    case 0
    then show ?case by (subst find_sem.simps) (simp add: MAX_SEMAPHORE_def)
  next
    case (Suc d)
    have "arr_get ?t (int m) = Ok None"
      using Suc.hyps(2) Suc.prems assms(2) by (subst arr_get_nat) (simp_all add: nth_append)
    moreover have "find_sem ?t name (int m + 1) = Ok None"
      using Suc.hyps(1) [of "Suc m"] Suc.hyps(2) Suc.prems by (simp add: add.commute)
    ultimately show ?case
      using Suc.hyps(2) by (subst find_sem.simps) (simp add: MAX_SEMAPHORE_def)
  qed
  show ?thesis
    using assms(1)
  proof (induction "length xs - n" arbitrary: n)
    case 0
    then show ?case using none [of n] assms(2) by simp
  next
    case (Suc d)
    then have n: "n < length xs" by simp
    have get: "arr_get ?t (int n) = Ok (Some (xs ! n))"
      using n by (subst arr_get_nat) (simp_all add: nth_append)
    have "find_sem ?t name (int n + 1) = Ok (List.find (\<lambda>s. sname s = name) (drop (Suc n) xs))"
      using Suc.hyps(1) [of "Suc n"] Suc.hyps(2) n by (simp add: add.commute)
    with n assms(2) get show ?case
      by (subst find_sem.simps) (simp add: MAX_SEMAPHORE_def Cons_nth_drop_Suc [symmetric])
  qed
qed

lemma find_sem_stable:
  "stable_is xs k \<Longrightarrow> find_sem (semTab (sTable k)) name 0 = Ok (List.find (\<lambda>s. sname s = name) xs)"
  using find_sem_list [of 0 xs name] by (simp add: stable_is_def Let_def)

lemma Create_stable:
  assumes "stable_is xs k" "length xs < 10" "length name < 50"
  shows "\<exists>k'. STable_Create name v k = Ok (int (length xs), k')
    \<and> stable_is (xs @ [\<lparr>sname = name, ssem = semCount k\<rparr>]) k'
    \<and> sems k' = (sems k)(semCount k \<mapsto> \<lparr>semval = v, queue = []\<rparr>)
    \<and> threads k' = threads k \<and> currentThread k' = currentThread k"
proof -
  have s: "wf_bitmap (st_bm (sTable k))" "numBits (st_bm (sTable k)) = MAX_SEMAPHORE"
      "marked (st_bm (sTable k)) = {0..<int (length xs)}"
      "semTab (sTable k) = map Some xs @ replicate (10 - length xs) None"
    using assms(1) by (auto simp: stable_is_def Let_def)
  obtain bm where bm: "Bitmap_FindAndSet (st_bm (sTable k)) = Ok (int (length xs), bm)" "wf_bitmap bm"
      "numBits bm = MAX_SEMAPHORE" "marked bm = insert (int (length xs)) {0..<int (length xs)}"
    using FindAndSet_at [OF s(1), of "int (length xs)"] s(2,3) assms(2) by (auto simp: MAX_SEMAPHORE_def)
  have tab: "(map Some xs @ replicate (10 - length xs) None)[length xs := Some y]
      = map Some (xs @ [y]) @ replicate (10 - Suc (length xs)) None" for y :: Sem
  proof -
    have "10 - length xs = Suc (10 - Suc (length xs))" using assms(2) by simp
    then show ?thesis by (simp add: list_update_append)
  qed
  have "{0..<int (length xs) + 1} = insert (int (length xs)) {0..<int (length xs)}" by auto
  moreover have "semCount k \<notin> dom (sems k)" using assms(1) by (auto simp: stable_is_def Let_def)
  moreover have "s < Suc (semCount k)" if "sems k s = Some y" for s y
    using assms(1) that by (intro less_SucI) (auto simp: stable_is_def Let_def)
  ultimately show ?thesis
    using bm s(4) assms
    by (auto simp: STable_Create_def Sem_new_def Semaphore_new_def Let_def tab stable_is_def add.commute)
qed



section \<open>Properties\<close>

lemma ExecUpdate_eq: "ExecUpdate name k = rbind (new_process k) (\<lambda>(p, k). if p = -1 then Ok (-1, k)
        else rbind (PCB_start p name [] k) (\<lambda>(_, k). Ok (p, k)))"
  unfolding ExecUpdate_def PCB_Exec_def ..

lemma ExecUpdateV_eq:
  fixes k :: "('a, 'b) ProcKernel_scheme"
  shows "ExecUpdateV (a # as) k = rbind (new_process k) (\<lambda>(p, k). if p = -1 then Ok (-1, k)
        else rbind (PCB_start p a (a # as) k) (\<lambda>(_, k). Ok (p, k)))"
proof -
  have *: "PCB_ExecV p (a # as) x = PCB_start p a (a # as) x" for p and x :: "('a, 'b) ProcKernel_scheme"
    by (simp add: PCB_ExecV_def)
  show ?thesis unfolding ExecUpdateV_def * ..
qed

lemma boot_tables_ok:
  assumes "\<forall>s\<in>dom (sems k). s < semCount k"
  shows "\<exists>k'. boot_tables k = Ok k' \<and> wf_procs k' \<and> marked (pt_bm (pTable k')) = {0} \<and> stable_is [] k'
    \<and> threads k' = threads k \<and> currentThread k' = currentThread k \<and> threadCount k' = threadCount k
    \<and> (\<exists>q. pcb_at 0 k' = Ok (Some q) \<and> sems k' (exitsem q) = Some \<lparr>semval = 0, queue = []\<rparr>
         \<and> sems k' (multex q) = Some unlocked \<and> exitsem q < multex q \<and> multex q < semCount k' \<and> parentID q = 0)"
proof -
  obtain b where b: "Bitmap_new MAX_PROCESS = Ok b" "wf_bitmap b" "numBits b = MAX_PROCESS" "marked b = {}"
    using Bitmap_new_correct [of MAX_PROCESS] by (auto simp: MAX_PROCESS_def)
  obtain b' where b': "Bitmap_Mark b 0 = Ok b'" "wf_bitmap b'" "numBits b' = MAX_PROCESS" "marked b' = {0}"
    using Mark_correct [OF b(2), of 0] b(3,4) by (auto simp: MAX_PROCESS_def)
  obtain c where c: "Bitmap_new MAX_SEMAPHORE = Ok c" "wf_bitmap c" "numBits c = MAX_SEMAPHORE" "marked c = {}"
    using Bitmap_new_correct [of MAX_SEMAPHORE] by (auto simp: MAX_SEMAPHORE_def)
  have i: "(replicate 10 None)[0 := Some p] ! nat i \<noteq> None \<longleftrightarrow> i = 0" if "0 \<le> i" "i < 10" for i and p :: PCB
    using that by (cases "i = 0") (simp_all add: nth_list_update)
  have s: "\<forall>s\<in>dom (sems k). s < 4 + semCount k"
    using assms by (auto intro: trans_less_add2)
  show ?thesis
    using b(1) b' c i s
    by (simp add: boot_tables_def PTable_new_def STable_new_def Semaphore_new_def PCB_new_eq Let_def
        MAX_PROCESS_def MAX_SEMAPHORE_def ThreadKernel.defs ProcKernel.defs wf_procs_def stable_is_def
        pcb_at_def)
qed

lemma demo_tables:
  "\<exists>k'. boot_tables demo_kernel = Ok k' \<and> wf_procs k' \<and> marked (pt_bm (pTable k')) = {0} \<and> stable_is [] k'
    \<and> threads k' = threads demo_kernel \<and> currentThread k' = 0 \<and> threadCount k' = 1
    \<and> (\<exists>q. pcb_at 0 k' = Ok (Some q) \<and> sems k' (exitsem q) = Some \<lparr>semval = 0, queue = []\<rparr>
         \<and> sems k' (multex q) = Some unlocked \<and> exitsem q < multex q \<and> multex q < semCount k' \<and> parentID q = 0)"
  using boot_tables_ok [of demo_kernel] by (auto simp: demo_kernel_def split: if_splits)

subsection \<open>Exec\<close>

text \<open>C32: \<open>Exec\<close> and \<open>ExecV\<close>, when the table has a free slot: the new process gets the lowest free
  slot as its number, the calling process as its parent, its file name and fresh semaphores of value
  0 to join and to exit with, and a new thread that carries this number and the arguments, at the
  end of the ready list; every semaphore that existed keeps its value and its queue. The table stays
  consistent: a slot is marked exactly if it holds a PCB.\<close>

theorem ExecUpdate_starts_child:
  assumes "wf_procs k" "marked (pt_bm (pTable k)) \<noteq> {0..<MAX_PROCESS}"
    and "threads k (currentThread k) = Some th"
  shows "(\<exists>p k'. ExecUpdate name k = Ok (p, k') \<and> child_started (processID th) name [] p k k')
    \<and> (\<exists>p k'. ExecUpdateV (name # as) k = Ok (p, k') \<and> child_started (processID th) name (name # as) p k k')"
  unfolding ExecUpdate_eq ExecUpdateV_eq
  using child_started [OF assms, of name "[]"] child_started [OF assms, of name "name # as"] by blast

theorem ExecUpdate_starts_child_witness:
  "\<exists>k. boot_tables demo_kernel = Ok k \<and> wf_procs k
     \<and> (\<exists>p k'. ExecUpdate [115] k = Ok (p, k') \<and> child_started 0 [115] [] p k k')"
proof -
  obtain k where k: "boot_tables demo_kernel = Ok k" "wf_procs k" "marked (pt_bm (pTable k)) = {0}"
      "threads k = threads demo_kernel" "currentThread k = 0"
    using demo_tables by blast
  have "(1::int) \<notin> {0}" "(1::int) \<in> {0..<MAX_PROCESS}" by (simp_all add: MAX_PROCESS_def)
  then have m: "marked (pt_bm (pTable k)) \<noteq> {0..<MAX_PROCESS}" using k(3) by blast
  obtain th where "threads k (currentThread k) = Some th" "processID th = 0"
    using k(4,5) by (simp add: demo_kernel_def Thread_new_def)
  with ExecUpdate_starts_child [OF k(2) m, of th "[115]"] k(1,2) show ?thesis by auto
qed

text \<open>What the operations of the table do to its bitmap.\<close>

lemma set_pcb_bm: "set_pcb i x k = Ok k' \<Longrightarrow> pt_bm (pTable k') = pt_bm (pTable k)"
  by (auto simp: set_pcb_def)

lemma add_numwait_bm: "add_numwait d i k = Ok k' \<Longrightarrow> pt_bm (pTable k') = pt_bm (pTable k)"
  by (auto simp: add_numwait_def rbind_eq_Ok dest!: sem_P_frame sem_V_frame set_pcb_bm)

lemma JoinUpdate_bm: "JoinUpdate c k = Ok (r, k') \<Longrightarrow> pt_bm (pTable k') = pt_bm (pTable k)"
  by (auto simp: JoinUpdate_def rbind_eq_Ok JoinWait_def IncNumWait_def ExitRelease_def
      dest!: sem_P_frame sem_V_frame add_numwait_bm split: option.splits if_splits)

lemma ExitUpdate_bm: "ExitUpdate ec k = Ok (r, k') \<Longrightarrow> pt_bm (pTable k') = pt_bm (pTable k)"
  by (auto simp: ExitUpdate_def rbind_eq_Ok JoinRelease_def DecNumWait_def ExitWait_def
      dest!: sem_P_frame sem_V_frame add_numwait_bm set_pcb_bm split: option.splits if_splits)

lemma PCB_start_bm: "PCB_start i name argv k = Ok (r, k') \<Longrightarrow> pt_bm (pTable k') = pt_bm (pTable k)"
  by (auto simp: PCB_start_def rbind_eq_Ok Thread_Fork_eq Let_def
      dest!: sem_P_frame sem_V_frame set_pcb_bm split: if_splits)

lemma sem_V_bm: "sem_V s k = Ok k' \<Longrightarrow> pt_bm (pTable k') = pt_bm (pTable k)"
  by (simp add: sem_V_frame)

lemma new_process_run:
  assumes "new_process k = Ok (p, k')"
  shows "Bitmap_FindAndSet (pt_bm (pTable k)) = Ok (p, pt_bm (pTable k'))"
  using assms
  by (auto simp: new_process_def rbind_eq_Ok Let_def PCB_new_eq
      dest!: sem_P_frame sem_V_bm set_pcb_bm split: if_splits)

lemma new_process_bm:
  assumes "new_process k = Ok (p, k')" "wf_bitmap (pt_bm (pTable k))"
  shows "wf_bitmap (pt_bm (pTable k')) \<and> numBits (pt_bm (pTable k')) = numBits (pt_bm (pTable k))
    \<and> marked (pt_bm (pTable k')) = marked (pt_bm (pTable k)) \<union> (if p = -1 then {} else {p})
    \<and> (p \<noteq> -1 \<longrightarrow> p \<notin> marked (pt_bm (pTable k)))"
proof (cases "marked (pt_bm (pTable k)) = {0..<numBits (pt_bm (pTable k))}")
  case True
  then show ?thesis
    using FindAndSet_full [OF assms(2)] new_process_run [OF assms(1)] assms(2) by auto
next
  case False
  show ?thesis
    using FindAndSet_free [OF assms(2) False] new_process_run [OF assms(1)] by auto
qed

text \<open>
  A run of the kernel as its process table sees it, with the number of processes that were started:
  calls of the four operations, and anything that leaves the bitmap of the table alone (every other
  operation of the kernel, and a \<open>Join\<close> or an \<open>Exit\<close> up to the point where it sleeps).
\<close>

inductive table_run :: "'h ProcKernel \<Rightarrow> nat \<Rightarrow> 'h ProcKernel \<Rightarrow> bool" for k0 where
  start: "table_run k0 0 k0"
| exec: "table_run k0 n k \<Longrightarrow> ExecUpdate name k = Ok (p, k') \<Longrightarrow> table_run k0 (if p = -1 then n else Suc n) k'"
| execv: "table_run k0 n k \<Longrightarrow> ExecUpdateV argv k = Ok (p, k') \<Longrightarrow> table_run k0 (if p = -1 then n else Suc n) k'"
| join: "table_run k0 n k \<Longrightarrow> JoinUpdate c k = Ok (r, k') \<Longrightarrow> table_run k0 n k'"
| exit: "table_run k0 n k \<Longrightarrow> ExitUpdate ec k = Ok (r, k') \<Longrightarrow> table_run k0 n k'"
| other: "table_run k0 n k \<Longrightarrow> pt_bm (pTable k') = pt_bm (pTable k) \<Longrightarrow> table_run k0 n k'"

definition counted :: "nat \<Rightarrow> bitmap \<Rightarrow> bool" where
  "counted n bm \<longleftrightarrow> wf_bitmap bm \<and> numBits bm = MAX_PROCESS \<and> card (marked bm) = n + 1"

lemma exec_counted:
  assumes "rbind (new_process k) (\<lambda>(p, k). if p = -1 then Ok (-1, k)
        else rbind (PCB_start p name argv k) (\<lambda>(_, k). Ok (p, k))) = Ok (p, k')"
    and "counted n (pt_bm (pTable k))"
  shows "counted (if p = -1 then n else Suc n) (pt_bm (pTable k'))"
proof -
  from assms(1) obtain q k1 where q: "new_process k = Ok (q, k1)"
      "if q = -1 then Ok (-1, k1) = Ok (p, k') else rbind (PCB_start q name argv k1) (\<lambda>(_, k). Ok (q, k)) = Ok (p, k')"
    by (auto simp: rbind_eq_Ok split: if_splits)
  then have "q = p" "pt_bm (pTable k') = pt_bm (pTable k1)"
    by (auto split: if_splits dest!: PCB_start_bm)
  with new_process_bm [OF q(1)] assms(2) show ?thesis by (auto simp: counted_def)
qed

lemma table_run_counted:
  "table_run k0 n k \<Longrightarrow> counted 0 (pt_bm (pTable k0)) \<Longrightarrow> counted n (pt_bm (pTable k))"
proof (induction rule: table_run.induct)
  case (exec n k name p k')
  then show ?case using exec_counted [of k name "[]" p k' n] unfolding ExecUpdate_eq by blast
next
  case (execv n k argv p k')
  then show ?case
  proof (cases argv)
    case Nil
    with execv.hyps(2) have "new_process k = Ok (-1, k') \<and> p = -1"
      by (auto simp: ExecUpdateV_def PCB_ExecV_def arr_get_def rbind_eq_Ok split: if_splits)
    with new_process_bm [of k "-1" k'] execv.IH execv.prems show ?thesis by (auto simp: counted_def)
  next
    case (Cons a as)
    then show ?thesis
      using exec_counted [of k a argv p k' n] execv unfolding Cons ExecUpdateV_eq by blast
  qed
next
  case (join n k c r k')
  then show ?case by (simp add: JoinUpdate_bm)
next
  case (exit n k ec r k')
  then show ?case by (simp add: ExitUpdate_bm)
qed simp_all

text \<open>C33: The process table never gives a slot back: neither \<open>Join\<close> nor \<open>Exit\<close> clears a bit of its
  bitmap, so from the boot on at most nine processes can ever be started, however many of them have
  exited and been joined since; every later \<open>Exec\<close> answers -1.\<close>

theorem At_most_nine_processes:
  assumes "boot_tables k0 = Ok k1" "\<forall>s\<in>dom (sems k0). s < semCount k0" "table_run k1 n k"
  shows "n \<le> 9 \<and> (n = 9 \<longrightarrow> ExecUpdate name k = Ok (p, k') \<longrightarrow> p = -1)"
proof -
  have "counted 0 (pt_bm (pTable k1))"
    using boot_tables_ok [OF assms(2)] assms(1) by (auto simp: counted_def wf_procs_def Let_def)
  note c = table_run_counted [OF assms(3) this]
  have le: "n \<le> 9" if "counted n bm" for n bm
  proof -
    have "card (marked bm) \<le> card {0..<MAX_PROCESS}"
      using that marked_range [of bm] by (intro card_mono) (auto simp: counted_def)
    with that show ?thesis by (simp add: counted_def MAX_PROCESS_def)
  qed
  have "p = -1" if "n = 9" "ExecUpdate name k = Ok (p, k')"
    using le [of "if p = -1 then n else Suc n"] exec_counted [of k name "[]" p k' n] c that
    unfolding ExecUpdate_eq by (auto split: if_splits)
  with le c show ?thesis by blast
qed


theorem At_most_nine_processes_witness:
  "\<exists>k1 k p k2. boot_tables demo_kernel = Ok k1 \<and> ExecUpdate [115] k1 = Ok (p, k) \<and> p \<noteq> -1
     \<and> table_run k1 1 k \<and> (1::nat) \<le> 9"
proof -
  obtain k1 where k1: "boot_tables demo_kernel = Ok k1" "wf_procs k1" "marked (pt_bm (pTable k1)) = {0}"
      "threads k1 = threads demo_kernel" "currentThread k1 = 0"
    using demo_tables by blast
  have "(1::int) \<notin> {0}" "(1::int) \<in> {0..<MAX_PROCESS}" by (simp_all add: MAX_PROCESS_def)
  then have m: "marked (pt_bm (pTable k1)) \<noteq> {0..<MAX_PROCESS}" using k1(3) by blast
  obtain th where th: "threads k1 (currentThread k1) = Some th"
    using k1(4,5) by (simp add: demo_kernel_def)
  obtain p k where p: "ExecUpdate [115] k1 = Ok (p, k)" "p \<noteq> -1"
    using child_started [OF k1(2) m th, of "[115]" "[]"] unfolding ExecUpdate_eq child_started_def by auto
  have r: "table_run k1 1 k" using table_run.exec [OF table_run.start p(1)] p(2) by simp
  have "\<forall>s\<in>dom (sems demo_kernel). s < semCount demo_kernel"
    by (auto simp: demo_kernel_def split: if_splits)
  from At_most_nine_processes [OF k1(1) this r, of "[115]" p k] k1(1) p r show ?thesis by blast
qed

subsection \<open>Join and Exit\<close>

text \<open>The kernel after the boot and one \<open>Exec\<close> of the main process.\<close>

lemma demo_child:
  "\<exists>k p b q. 0 < p \<and> p < MAX_PROCESS \<and> int (length (pcb (pTable k))) = MAX_PROCESS \<and> currentThread k = 0
    \<and> map_option processID (threads k 0) = Some 0 \<and> map_option processID (threads k 1) = Some p
    \<and> pcb_at 0 k = Ok (Some q) \<and> pcb_at p k = Ok (Some b) \<and> parentID b = 0
    \<and> parentID q = 0 \<and> sems k (joinsem b) = Some \<lparr>semval = 0, queue = []\<rparr> \<and> sems k (exitsem q) = Some \<lparr>semval = 0, queue = []\<rparr>
    \<and> sems k (multex q) = Some unlocked \<and> distinct [joinsem b, multex q, exitsem q]
    \<and> (\<exists>k1. boot_tables demo_kernel = Ok k1 \<and> ExecUpdate [115] k1 = Ok (p, k))"
proof -
  obtain k1 q where k1: "boot_tables demo_kernel = Ok k1" "wf_procs k1" "marked (pt_bm (pTable k1)) = {0}"
      "threads k1 = threads demo_kernel" "currentThread k1 = 0" "threadCount k1 = 1"
    and q: "pcb_at 0 k1 = Ok (Some q)" "sems k1 (exitsem q) = Some \<lparr>semval = 0, queue = []\<rparr>"
      "sems k1 (multex q) = Some unlocked" "exitsem q < multex q" "multex q < semCount k1" "parentID q = 0"
    using demo_tables by blast
  have "(1::int) \<notin> {0}" "(1::int) \<in> {0..<MAX_PROCESS}" by (simp_all add: MAX_PROCESS_def)
  then have m: "marked (pt_bm (pTable k1)) \<noteq> {0..<MAX_PROCESS}" using k1(3) by blast
  obtain th where th: "threads k1 (currentThread k1) = Some th" "processID th = 0"
    using k1(4,5) by (simp add: demo_kernel_def Thread_new_def)
  obtain p k where p: "ExecUpdate [115] k1 = Ok (p, k)" "child_started 0 [115] [] p k1 k"
    using child_started [OF k1(2) m th(1), of "[115]" "[]"] th(2) unfolding ExecUpdate_eq by auto
  then obtain b where b: "pcb (pTable k) = (pcb (pTable k1))[nat p := Some b]" "parentID b = 0"
      "sems k (joinsem b) = Some \<lparr>semval = 0, queue = []\<rparr>" "semCount k1 \<le> joinsem b"
    unfolding child_started_def by blast
  have r: "0 \<le> p" "p < MAX_PROCESS" "p \<noteq> 0" "wf_procs k" "currentThread k = 0"
      "\<forall>s < semCount k1. sems k s = sems k1 s"
    using p(2) k1(3,5) by (auto simp: child_started_def)
  have len: "int (length (pcb (pTable k))) = MAX_PROCESS" using r(4) by (simp add: wf_procs_def Let_def)
  have "pcb_at 0 k = Ok (Some q)"
    using q(1) b(1) r(1-3) by (auto simp: pcb_at_def arr_get_eq_Ok nth_list_update)
  moreover have "pcb_at p k = Ok (Some b)" using b(1) r(1,2) len by (simp add: pcb_at_def)
  moreover have "map_option processID (threads k 0) = Some 0 \<and> map_option processID (threads k 1) = Some p"
    using p(2) th k1(5,6) by (auto simp: child_started_def)
  ultimately show ?thesis
    using p(1) b(2-4) r len q k1(1) by (intro exI [of _ k] exI [of _ p] exI [of _ b] exI [of _ q]) auto
qed








text \<open>The main thread joins a child that has not run yet.\<close>

definition demo_PCB :: "nat \<Rightarrow> PCB" where
  "demo_PCB n = \<lparr>joinsem = 3 * n, exitsem = 3 * n + 1, multex = 3 * n + 2, exitcode = 0, numwait = 0,
     filename = None, isJoined = False, parentID = 0, pid = int n\<rparr>"

definition rendezvous_sys :: "unit Sys" where
  "rendezvous_sys = \<lparr>kern = demo_kernel\<lparr>
       sems := [1 \<mapsto> \<lparr>semval = 0, queue = []\<rparr>, 2 \<mapsto> unlocked, 3 \<mapsto> \<lparr>semval = 0, queue = []\<rparr>],
       locks := Map.empty, threadCount := 2, readyList := [1],
       threads := (threads demo_kernel)(1 \<mapsto> (StackAllocate (Thread_new 1))\<lparr>tstatus := READY\<rparr>)\<rparr>,
     progs = (\<lambda>t. if t = 0 then Join_code (demo_PCB 1) (demo_PCB 0)
                   else if t = 1 then Exit_code (demo_PCB 1) (demo_PCB 0) else []),
     sleeping = None\<rparr>"


subsection \<open>Named semaphores\<close>

lemma Create_full:
  assumes "stable_is xs k" "length xs = 10"
  shows "STable_Create name v k = Ok (-1, k)"
proof -
  have "Bitmap_FindAndSet (st_bm (sTable k)) = Ok (-1, st_bm (sTable k))"
    using assms by (intro FindAndSet_full) (auto simp: stable_is_def Let_def MAX_SEMAPHORE_def)
  then show ?thesis by (simp add: STable_Create_def Let_def)
qed

text \<open>The table of named semaphores. \<open>Create\<close> adds a semaphore with the given value as the next of
  at most ten entries, also when the name exists already (no operation gives an entry back); \<open>Wait\<close>
  and \<open>Signal\<close> act on the first entry with the name, so a second semaphore of the same name can
  never be used; a name nobody created is answered with -1.\<close>

theorem STable_first_of_name:
  assumes "stable_is xs k" "threads k (currentThread k) = Some th"
  shows "(length name < 50 \<and> length xs < 10 \<longrightarrow> (\<exists>k'. STable_Create name v k = Ok (int (length xs), k')
            \<and> stable_is (xs @ [\<lparr>sname = name, ssem = semCount k\<rparr>]) k'
            \<and> sems k' = (sems k)(semCount k \<mapsto> \<lparr>semval = v, queue = []\<rparr>)))
    \<and> (length xs = 10 \<longrightarrow> STable_Create name v k = Ok (-1, k))
    \<and> (name \<notin> sname ` set xs \<longrightarrow> STable_Wait name k = Ok (-1, k) \<and> STable_Signal name k = Ok (-1, k))
    \<and> (\<forall>ys s zs x. xs = ys @ s # zs \<and> name \<notin> sname ` set ys \<and> sname s = name \<and> sems k (ssem s) = Some x \<longrightarrow>
         (semval x = 0 \<longrightarrow> STable_Wait name k = Fault Asleep)
         \<and> (semval x \<noteq> 0 \<longrightarrow> STable_Wait name k = Ok (0, put_sem k (ssem s) (x\<lparr>semval := semval x - 1\<rparr>)))
         \<and> (queue x = [] \<longrightarrow> STable_Signal name k = Ok (0, put_sem k (ssem s) (x\<lparr>semval := semval x + 1\<rparr>))))"
proof (intro conjI allI impI)
  assume "length name < 50 \<and> length xs < 10"
  then show "\<exists>k'. STable_Create name v k = Ok (int (length xs), k')
            \<and> stable_is (xs @ [\<lparr>sname = name, ssem = semCount k\<rparr>]) k'
            \<and> sems k' = (sems k)(semCount k \<mapsto> \<lparr>semval = v, queue = []\<rparr>)"
    using Create_stable [OF assms(1), of name v] by blast
next
  fix ys s zs x
  assume a: "xs = ys @ s # zs \<and> name \<notin> sname ` set ys \<and> sname s = name \<and> sems k (ssem s) = Some x"
  have "List.find (\<lambda>s. sname s = name) (us @ s # zs) = Some s" if "name \<notin> sname ` set us" for us
    using that a by (induction us) auto
  with a have f: "find_sem (semTab (sTable k)) name 0 = Ok (Some s)"
    using find_sem_stable [OF assms(1), of name] by simp
  show "STable_Wait name k = Fault Asleep" if "semval x = 0"
    using f a that assms(2) by (simp add: STable_Wait_def sem_P_blocks)
  show "STable_Wait name k = Ok (0, put_sem k (ssem s) (x\<lparr>semval := semval x - 1\<rparr>))" if "semval x \<noteq> 0"
    using f a that by (simp add: STable_Wait_def sem_P_free)
  show "STable_Signal name k = Ok (0, put_sem k (ssem s) (x\<lparr>semval := semval x + 1\<rparr>))" if "queue x = []"
    using f a that by (simp add: STable_Signal_def sem_V_free)
next
  assume n: "name \<notin> sname ` set xs"
  then have "List.find (\<lambda>s. sname s = name) xs = None" by (auto simp: find_None_iff)
  then have "find_sem (semTab (sTable k)) name 0 = Ok None"
    using find_sem_stable [OF assms(1), of name] by simp
  then show "STable_Wait name k = Ok (-1, k)" "STable_Signal name k = Ok (-1, k)"
    by (simp_all add: STable_Wait_def STable_Signal_def)
qed (rule Create_full [OF assms(1)])

theorem STable_first_of_name_witness:
  "\<exists>k1 k2 k3. boot_tables demo_kernel = Ok k1 \<and> STable_Create [109] 1 k1 = Ok (0, k2)
     \<and> STable_Create [109] 5 k2 = Ok (1, k3)
     \<and> STable_Wait [109] k3 = Ok (0, put_sem k3 (semCount k1) \<lparr>semval = 0, queue = []\<rparr>)"
proof -
  obtain k1 where k1: "boot_tables demo_kernel = Ok k1" "stable_is [] k1"
      "threads k1 = threads demo_kernel" "currentThread k1 = 0"
    using demo_tables by blast
  let ?s = "\<lparr>sname = [109], ssem = semCount k1\<rparr>"
  obtain k2 where k2: "STable_Create [109] 1 k1 = Ok (0, k2)" "stable_is [?s] k2"
      "sems k2 = (sems k1)(semCount k1 \<mapsto> \<lparr>semval = 1, queue = []\<rparr>)" "threads k2 = threads demo_kernel"
      "currentThread k2 = 0"
    using Create_stable [OF k1(2), of "[109]" 1] k1(3,4) by auto
  obtain k3 where k3: "STable_Create [109] 5 k2 = Ok (1, k3)"
      "stable_is [?s, \<lparr>sname = [109], ssem = semCount k2\<rparr>] k3"
      "sems k3 = (sems k2)(semCount k2 \<mapsto> \<lparr>semval = 5, queue = []\<rparr>)" "threads k3 = threads demo_kernel"
      "currentThread k3 = 0"
    using Create_stable [OF k2(2), of "[109]" 5] k2(4,5) by auto
  obtain th where th: "threads k3 (currentThread k3) = Some th"
    using k3(4,5) by (simp add: demo_kernel_def)
  have "semCount k1 < semCount k2" using k2(2,3) by (auto simp: stable_is_def Let_def)
  then have "sems k3 (semCount k1) = Some \<lparr>semval = 1, queue = []\<rparr>" using k2(3) k3(3) by simp
  then have "STable_Wait [109] k3 = Ok (0, put_sem k3 (semCount k1) \<lparr>semval = 0, queue = []\<rparr>)"
    using STable_first_of_name [OF k3(2) th, of "[109]"] by fastforce
  with k1(1) k2(1) k3(1) show ?thesis by blast
qed

end
