(* ===== verification/Syscalls.thy ===== *)
theory Syscalls
  imports Processes
begin

text \<open>
  System calls (\<^verbatim>\<open>userprog/exception.cc\<close>, \<^verbatim>\<open>userprog/ksyscall.h\<close>,
  \<^verbatim>\<open>userprog/syscall.h\<close>): the copying of strings between user and kernel memory, one definition
  for each handler, and \<open>ExceptionHandler\<close>.

  A call that blocks ends in \<open>Fault Asleep\<close> (the state of the others while a thread sleeps is the
  subject of \<open>Threads\<close> and of the last sections of \<open>Processes\<close>); \<open>Halt\<close> and the end of a process are
  \<open>Fault Halted\<close>. The synchronised consoles are what a thread that uses them sees: \<open>conIn\<close> are the
  characters typed and not yet read (with none left, a reader sleeps), \<open>conOut\<close> the characters
  written. The results of \<open>new\<close> are never null; a negative size is an exception nobody catches
  (\<open>AssertFailed\<close>).

  The call codes are those of \<^verbatim>\<open>syscall.h\<close>. The output statement of \<^verbatim>\<open>handle_SC_ExecV\<close> lacks its
  semicolon; the model is of the call as it reads with one.
\<close>

section \<open>State\<close>

record 'h Kernel = "'h ProcKernel" +
  conIn :: bytes
  conOut :: bytes

definition MaxFileLength :: int where "MaxFileLength = 32"
definition MAXIpAddressLength :: int where "MAXIpAddressLength = 15"

definition SC_Halt :: "32 word" where "SC_Halt = 0"
definition SC_Exit :: "32 word" where "SC_Exit = 1"
definition SC_Exec :: "32 word" where "SC_Exec = 2"
definition SC_Join :: "32 word" where "SC_Join = 3"
definition SC_Create :: "32 word" where "SC_Create = 4"
definition SC_Remove :: "32 word" where "SC_Remove = 5"
definition SC_Open :: "32 word" where "SC_Open = 6"
definition SC_Read :: "32 word" where "SC_Read = 7"
definition SC_Write :: "32 word" where "SC_Write = 8"
definition SC_Seek :: "32 word" where "SC_Seek = 9"
definition SC_Close :: "32 word" where "SC_Close = 10"
definition SC_ExecV :: "32 word" where "SC_ExecV = 13"
definition SC_SocketTCP_Open :: "32 word" where "SC_SocketTCP_Open = 16"
definition SC_SocketTCP_Connect :: "32 word" where "SC_SocketTCP_Connect = 17"
definition SC_SocketTCP_Send :: "32 word" where "SC_SocketTCP_Send = 18"
definition SC_SocketTCP_Receive :: "32 word" where "SC_SocketTCP_Receive = 19"
definition SC_SocketTCP_Close :: "32 word" where "SC_SocketTCP_Close = 20"
definition SC_Wait :: "32 word" where "SC_Wait = 21"
definition SC_Signal :: "32 word" where "SC_Signal = 22"
definition SC_CreateSemaphore :: "32 word" where "SC_CreateSemaphore = 23"
definition SC_Add :: "32 word" where "SC_Add = 42"

lemmas syscall_codes = SC_Halt_def SC_Exit_def SC_Exec_def SC_Join_def SC_Create_def SC_Remove_def
  SC_Open_def SC_Read_def SC_Write_def SC_Seek_def SC_Close_def SC_ExecV_def SC_SocketTCP_Open_def
  SC_SocketTCP_Connect_def SC_SocketTCP_Send_def SC_SocketTCP_Receive_def SC_SocketTCP_Close_def
  SC_Wait_def SC_Signal_def SC_CreateSemaphore_def SC_Add_def

section \<open>Strings and registers\<close>

text \<open>
  A trap while the kernel copies enters \<open>ExceptionHandler\<close> again, with an exception that is no system
  call; that ends in \<open>ASSERTNOTREACHED\<close>.
\<close>

definition no_return :: "'k handler" where
  "no_return which m = Fault AssertFailed"

definition new_chars :: "int \<Rightarrow> bytes result" where
  "new_chars n = ASSERT (0 \<le> n \<and> n < 2 ^ 31) (Ok (replicate (nat n) 0))"

definition c_string :: "bytes \<Rightarrow> bytes" where
  "c_string = takeWhile (\<lambda>c. c \<noteq> 0)"

function User2System_loop ::
  "32 word \<Rightarrow> int \<Rightarrow> int \<Rightarrow> bytes \<Rightarrow> 'k Machine_scheme \<Rightarrow> (bytes \<times> 'k Machine_scheme) result" where
  "User2System_loop virtAddr limit i kernelBuf k =
     (if i < limit
      then rbind (ReadMem no_return k (virtAddr + word_of_int i) 1) (\<lambda>(oneChar, k).
           case oneChar of None \<Rightarrow> Fault Uninitialised
           | Some oneChar \<Rightarrow>
               rbind (arr_set kernelBuf i (ucast oneChar)) (\<lambda>kernelBuf.
               if oneChar = 0 then Ok (kernelBuf, k)
               else User2System_loop virtAddr limit (i + 1) kernelBuf k))
      else Ok (kernelBuf, k))"
  by pat_completeness auto
termination by (relation "measure (\<lambda>(virtAddr, limit, i, kernelBuf, k). nat (limit - i))") auto

declare User2System_loop.simps [simp del]

definition User2System ::
  "32 word \<Rightarrow> int \<Rightarrow> 'k Machine_scheme \<Rightarrow> (bytes \<times> 'k Machine_scheme) result" where
  "User2System virtAddr limit k =
     rbind (new_chars (limit + 1)) (\<lambda>kernelBuf. User2System_loop virtAddr limit 0 kernelBuf k)"

function System2User_loop ::
  "32 word \<Rightarrow> int \<Rightarrow> bytes \<Rightarrow> int \<Rightarrow> 'k Machine_scheme \<Rightarrow> (int \<times> 'k Machine_scheme) result" where
  "System2User_loop virtAddr len buffer i k =
     rbind (arr_get buffer i) (\<lambda>oneChar.
     rbind (WriteMem no_return k (virtAddr + word_of_int i) 1 (scast oneChar)) (\<lambda>(_, k).
     if i + 1 < len \<and> oneChar \<noteq> 0 then System2User_loop virtAddr len buffer (i + 1) k
     else Ok (i + 1, k)))"
  by pat_completeness auto
termination by (relation "measure (\<lambda>(virtAddr, len, buffer, i, k). nat (len - i))") auto

declare System2User_loop.simps [simp del]

definition System2User ::
  "32 word \<Rightarrow> int \<Rightarrow> bytes \<Rightarrow> 'k Machine_scheme \<Rightarrow> (int \<times> 'k Machine_scheme) result" where
  "System2User virtAddr len buffer k =
     (if len < 0 then Ok (-1, k) else if len = 0 then Ok (len, k)
      else System2User_loop virtAddr len buffer 0 k)"

definition PCIncrease :: "'k Machine_scheme \<Rightarrow> 'k Machine_scheme result" where
  "PCIncrease k =
     rbind (ReadRegister k (int PCReg)) (\<lambda>pc.
     rbind (WriteRegister k (int PrevPCReg) pc) (\<lambda>k.
     rbind (ReadRegister k (int PCReg)) (\<lambda>pc.
     rbind (WriteRegister k (int PCReg) (pc + 4)) (\<lambda>k.
     rbind (ReadRegister k (int PCReg)) (\<lambda>pc.
     WriteRegister k (int NextPCReg) (pc + 4))))))"

text \<open>The end of almost every path: the result in register 2, and \<open>return PCIncrease()\<close>.\<close>

definition return_value :: "int \<Rightarrow> 'k Machine_scheme \<Rightarrow> 'k Machine_scheme result" where
  "return_value v k = rbind (WriteRegister k 2 (word_of_int v)) PCIncrease"

definition SysHalt :: "'k Machine_scheme \<Rightarrow> 'k Machine_scheme result" where
  "SysHalt k = Fault Halted"

definition SysAdd :: "32 word \<Rightarrow> 32 word \<Rightarrow> 32 word" where
  "SysAdd op1 op2 = op1 + op2"

section \<open>Access to the file system\<close>

definition fs_call ::
  "('h FileSystem \<Rightarrow> ('a \<times> 'h FileSystem) result) \<Rightarrow> ('h, 'k) MachineFS_scheme
    \<Rightarrow> ('a \<times> ('h, 'k) MachineFS_scheme) result" where
  "fs_call f k = rbind (f (fileSystem k)) (\<lambda>(x, fs). Ok (x, k\<lparr>fileSystem := fs\<rparr>))"

text \<open>\<open>kernel->fileSystem->fileSlot[fid]\<close>, the slot it points to, and its \<open>fileOpen\<close>.\<close>

definition slot_at :: "int \<Rightarrow> ('h, 'k) MachineFS_scheme \<Rightarrow> FileSlot ptr result" where
  "slot_at fid k = arr_get (fileSlot (fileSystem k)) fid"

definition the_slot :: "int \<Rightarrow> ('h, 'k) MachineFS_scheme \<Rightarrow> FileSlot result" where
  "the_slot fid k = rbind (slot_at fid k) deref_ptr"

definition the_file :: "int \<Rightarrow> ('h, 'k) MachineFS_scheme \<Rightarrow> OpenFile result" where
  "the_file fid k = rbind (the_slot fid k) (\<lambda>s. deref_ptr (fileOpen s))"

definition file_type :: "int \<Rightarrow> ('h, 'k) MachineFS_scheme \<Rightarrow> int result" where
  "file_type fid k =
     rbind (the_file fid k) (\<lambda>f. case otype f of None \<Rightarrow> Fault Uninitialised | Some t \<Rightarrow> Ok t)"

definition set_file :: "int \<Rightarrow> OpenFile ptr \<Rightarrow> 'h FileSystem \<Rightarrow> 'h FileSystem result" where
  "set_file fid f fs =
     rbind (arr_get (fileSlot fs) fid) (\<lambda>p. rbind (deref_ptr p) (\<lambda>s.
     set_slot fid (Ptr (s\<lparr>fileOpen := f\<rparr>)) fs))"

text \<open>A method of the \<open>OpenFile\<close> in slot \<open>fid\<close>.\<close>

definition file_call ::
  "int \<Rightarrow> (OpenFile \<Rightarrow> 'h \<Rightarrow> ('a \<times> OpenFile \<times> 'h) result) \<Rightarrow> ('h, 'k) MachineFS_scheme
    \<Rightarrow> ('a \<times> ('h, 'k) MachineFS_scheme) result" where
  "file_call fid op k =
     rbind (the_file fid k) (\<lambda>f.
     rbind (op f (host (fileSystem k))) (\<lambda>(x, f, h).
     rbind (set_file fid (Ptr f) ((fileSystem k)\<lparr>host := h\<rparr>)) (\<lambda>fs.
     Ok (x, k\<lparr>fileSystem := fs\<rparr>))))"

definition CurrentPos_of :: "'h unix \<Rightarrow> int \<Rightarrow> ('h, 'k) MachineFS_scheme \<Rightarrow> (int \<times> ('h, 'k) MachineFS_scheme) result"
where
  "CurrentPos_of U fid = file_call fid (\<lambda>f h. Ok (OpenFile_GetCurrentPos U f h))"

definition Length_of :: "'h unix \<Rightarrow> int \<Rightarrow> ('h, 'k) MachineFS_scheme \<Rightarrow> (int \<times> ('h, 'k) MachineFS_scheme) result"
where
  "Length_of U fid = file_call fid (\<lambda>f h. rbind (OpenFile_Length U f h) (\<lambda>(n, h). Ok (n, f, h)))"

section \<open>The consoles\<close>

definition Console_GetChar :: "('h, 'k) Kernel_scheme \<Rightarrow> (8 word \<times> ('h, 'k) Kernel_scheme) result" where
  "Console_GetChar k = (case conIn k of [] \<Rightarrow> Fault Asleep | c # cs \<Rightarrow> Ok (c, k\<lparr>conIn := cs\<rparr>))"

definition Console_PutChar :: "8 word \<Rightarrow> ('h, 'k) Kernel_scheme \<Rightarrow> ('h, 'k) Kernel_scheme" where
  "Console_PutChar c k = k\<lparr>conOut := conOut k @ [c]\<rparr>"

section \<open>Handlers\<close>

definition reg_int :: "'k Machine_scheme \<Rightarrow> int \<Rightarrow> int result" where
  "reg_int k r = rbind (ReadRegister k r) (\<lambda>v. Ok (sint v))"

definition handle_SC_Add :: "'k Machine_scheme \<Rightarrow> 'k Machine_scheme result" where
  "handle_SC_Add k =
     rbind (ReadRegister k 4) (\<lambda>op1.
     rbind (ReadRegister k 5) (\<lambda>op2.
     return_value (sint (SysAdd op1 op2)) k))"

definition handle_SC_Create :: "'h unix \<Rightarrow> ('h, 'k) Kernel_scheme \<Rightarrow> ('h, 'k) Kernel_scheme result" where
  "handle_SC_Create U k =
     rbind (ReadRegister k 4) (\<lambda>virtAddr.
     rbind (User2System virtAddr (MaxFileLength + 1) k) (\<lambda>(filename, k).
     rbind (fs_call (FS_Create U (c_string filename)) k) (\<lambda>(created, k).
     return_value (if created then 0 else -1) k)))"

text \<open>
  The name is deleted behind \<open>Open\<close>, but the new \<open>OpenFile\<close> keeps the pointer to it. The result of
  \<open>new FileSlot\<close> is never null, so the handler does not see that \<open>Open\<close> found no file.
\<close>

definition handle_SC_Open :: "'h unix \<Rightarrow> ('h, 'k) Kernel_scheme \<Rightarrow> ('h, 'k) Kernel_scheme result" where
  "handle_SC_Open U k =
     rbind (ReadRegister k 4) (\<lambda>virAddr.
     rbind (reg_int k 5) (\<lambda>type.
     rbind (User2System virAddr MaxFileLength k) (\<lambda>(filename, k).
     rbind (FindFreeSlot (fileSystem k)) (\<lambda>freeSlot.
     if freeSlot = -1 then return_value (-1) k
     else if type = 0 \<or> type = 1 \<or> type = 4
     then rbind (fs_call (FS_Open_type U (c_string filename) type freeSlot) k) (\<lambda>(f, k).
          let f = (case f of Ptr f \<Rightarrow> Ptr (f\<lparr>fName := Dangling\<rparr>) | p \<Rightarrow> p) in
          rbind (set_slot freeSlot (Ptr (FileSlot_file f)) (fileSystem k)) (\<lambda>fs.
          return_value freeSlot (k\<lparr>fileSystem := fs\<rparr>)))
     else if type = 2 then return_value 0 k
     else return_value 1 k))))"

definition handle_SC_Close :: "'h unix \<Rightarrow> ('h, 'k) Kernel_scheme \<Rightarrow> ('h, 'k) Kernel_scheme result" where
  "handle_SC_Close U k =
     rbind (reg_int k 4) (\<lambda>fileID.
     if 2 \<le> fileID \<and> fileID < MaxFileOpen
     then rbind (slot_at fileID k) (\<lambda>p.
          if p \<noteq> Null
          then rbind (deref_ptr p) (\<lambda>s.
               if stype s = 1
               then rbind (fs_call (closeTCP U fileID) k) (\<lambda>(rVal, k). return_value rVal k)
               else rbind (FileSlot_delete U s (host (fileSystem k))) (\<lambda>h.
                    rbind (set_slot fileID Null ((fileSystem k)\<lparr>host := h\<rparr>)) (\<lambda>fs.
                    return_value 0 (k\<lparr>fileSystem := fs\<rparr>))))
          else return_value (-1) k)
     else return_value (-1) k)"

text \<open>The loop that reads a line from the console into \<open>tmp\<close>, of which \<open>sz\<close> characters are filled.\<close>

function read_line ::
  "int \<Rightarrow> int \<Rightarrow> bytes \<Rightarrow> ('h, 'k) Kernel_scheme \<Rightarrow> (int \<times> bytes \<times> ('h, 'k) Kernel_scheme) result" where
  "read_line charCnt sz tmp k =
     (if sz < charCnt
      then rbind (Console_GetChar k) (\<lambda>(t, k).
           if t = 0xFF \<or> t = 10 \<or> t = 0 then Ok (sz, tmp, k)
           else rbind (arr_set tmp sz t) (\<lambda>tmp. read_line charCnt (sz + 1) tmp k))
      else Ok (sz, tmp, k))"
  by pat_completeness auto
termination by (relation "measure (\<lambda>(charCnt, sz, tmp, k). nat (charCnt - sz))") auto

declare read_line.simps [simp del]

text \<open>The part of \<open>Read\<close> and \<open>SocketTCP_Receive\<close> that receives from a socket.\<close>

definition receive_into ::
  "'h unix \<Rightarrow> int \<Rightarrow> 32 word \<Rightarrow> int \<Rightarrow> ('h, 'k) Kernel_scheme \<Rightarrow> ('h, 'k) Kernel_scheme result" where
  "receive_into U socketID vAddress len k =
     rbind (new_chars len) (\<lambda>_.
     rbind (fs_call (receiveTCP U socketID len) k) (\<lambda>((rVal, buffer), k).
     rbind (if rVal = -1 \<or> rVal = 0 then Ok (rVal, k) else System2User vAddress rVal buffer k) (\<lambda>(rVal, k).
     return_value rVal k)))"

definition handle_SC_Read :: "'h unix \<Rightarrow> ('h, 'k) Kernel_scheme \<Rightarrow> ('h, 'k) Kernel_scheme result" where
  "handle_SC_Read U k =
     rbind (ReadRegister k 4) (\<lambda>virAddr.
     rbind (reg_int k 5) (\<lambda>charCnt.
     rbind (reg_int k 6) (\<lambda>fid.
     if fid < 0 \<or> MaxFileOpen \<le> fid then return_value (-1) k
     else rbind (slot_at fid k) (\<lambda>p.
     if p = Null then return_value (-1) k
     else rbind (the_slot fid k) (\<lambda>s.
     if stype s = 1 then receive_into U fid virAddr charCnt k
     else rbind (file_type fid k) (\<lambda>type.
     if type = 3 then return_value (-1) k
     else
     rbind (CurrentPos_of U fid k) (\<lambda>(oldPosition, k).
     rbind (User2System virAddr charCnt k) (\<lambda>(buf, k).
     if type = 2
     then rbind (new_chars (charCnt + 1)) (\<lambda>tmp.
          rbind (read_line charCnt 0 tmp k) (\<lambda>(sz, tmp, k).
          rbind (arr_set tmp sz 0) (\<lambda>tmp.
          rbind (System2User virAddr (sz + 1) tmp k) (\<lambda>(_, k).
          return_value sz k))))
     else
     rbind (file_call fid (\<lambda>f. OpenFile_Read U f charCnt) k) (\<lambda>((numRead, data), k).
     if 0 < numRead
     then rbind (CurrentPos_of U fid k) (\<lambda>(newPosition, k).
          rbind (System2User virAddr (newPosition - oldPosition) (data @ drop (length data) buf) k) (\<lambda>(_, k).
          return_value (newPosition - oldPosition) k))
     else return_value 0 k)))))))))"

definition first_chars :: "int \<Rightarrow> bytes \<Rightarrow> bytes result" where
  "first_chars n buf = (if 0 \<le> n \<and> n \<le> int (length buf) then Ok (take (nat n) buf) else Fault OutOfRange)"

text \<open>The loop that writes to the console; it returns the number of characters before the end.\<close>

function write_chars ::
  "int \<Rightarrow> bytes \<Rightarrow> int \<Rightarrow> ('h, 'k) Kernel_scheme \<Rightarrow> (int \<times> ('h, 'k) Kernel_scheme) result" where
  "write_chars charCnt buf i k =
     (if i < charCnt
      then rbind (arr_get buf i) (\<lambda>c.
           if c \<noteq> 0 then write_chars charCnt buf (i + 1) (Console_PutChar c k) else Ok (i, k))
      else Ok (i, k))"
  by pat_completeness auto
termination by (relation "measure (\<lambda>(charCnt, buf, i, k). nat (charCnt - i))") auto

declare write_chars.simps [simp del]

definition handle_SC_Write :: "'h unix \<Rightarrow> ('h, 'k) Kernel_scheme \<Rightarrow> ('h, 'k) Kernel_scheme result" where
  "handle_SC_Write U k =
     rbind (ReadRegister k 4) (\<lambda>virAddr.
     rbind (reg_int k 5) (\<lambda>charCnt.
     rbind (reg_int k 6) (\<lambda>fid.
     if fid < 0 \<or> MaxFileOpen \<le> fid then return_value (-1) k
     else rbind (slot_at fid k) (\<lambda>p.
     if p = Null then return_value (-1) k
     else rbind (the_slot fid k) (\<lambda>s.
     if stype s = 1
     then rbind (User2System virAddr charCnt k) (\<lambda>(buf, k).
          rbind (first_chars charCnt buf) (\<lambda>buf.
          rbind (fs_call (sendTCP U fid buf) k) (\<lambda>(rVal, k). return_value rVal k)))
     else rbind (file_type fid k) (\<lambda>type.
     if type = 1 \<or> type = 2 then return_value (-1) k
     else
     rbind (CurrentPos_of U fid k) (\<lambda>(oldPosition, k).
     rbind (User2System virAddr charCnt k) (\<lambda>(buf, k).
     rbind (if type = 0 \<or> type = 4
            then rbind (first_chars charCnt buf) (\<lambda>buf. file_call fid (\<lambda>f. OpenFile_Write U f buf) k)
            else Ok (0, k)) (\<lambda>(written, k).
     if 0 < written
     then rbind (CurrentPos_of U fid k) (\<lambda>(newPosition, k). return_value (newPosition - oldPosition) k)
     else if type = 3
     then rbind (write_chars charCnt buf 0 k) (\<lambda>(i, k).
          rbind (arr_set buf i 0) (\<lambda>buf.
          return_value i (Console_PutChar 0 k)))
     else PCIncrease k)))))))))"

definition handle_SC_Seek :: "'h unix \<Rightarrow> ('h, 'k) Kernel_scheme \<Rightarrow> ('h, 'k) Kernel_scheme result" where
  "handle_SC_Seek U k =
     rbind (reg_int k 4) (\<lambda>position.
     rbind (reg_int k 5) (\<lambda>fid.
     if fid < 0 \<or> MaxFileOpen \<le> fid then return_value (-1) k
     else rbind (slot_at fid k) (\<lambda>p.
     if p = Null then return_value (-1) k
     else if fid = 0 \<or> fid = 1 then return_value (-1) k
     else
     rbind (if position = -1 then Length_of U fid k else Ok (position, k)) (\<lambda>(position, k).
     rbind (Length_of U fid k) (\<lambda>(len, k).
     if len < position \<or> position < 0 then return_value (-1) k
     else rbind (file_call fid (\<lambda>f. OpenFile_Seek U f position) k) (\<lambda>(_, k).
          return_value position k))))))"

text \<open>The search of \<open>Remove\<close> for an open file with the name.\<close>

function name_is_open :: "bytes \<Rightarrow> int \<Rightarrow> ('h, 'k) MachineFS_scheme \<Rightarrow> bool result" where
  "name_is_open name i k =
     (if i < MaxFileOpen
      then rbind (slot_at i k) (\<lambda>p.
           if p = Null then name_is_open name (i + 1) k
           else rbind (the_file i k) (\<lambda>f.
                rbind (deref_ptr (fName f)) (\<lambda>n.
                if n = name then Ok True else name_is_open name (i + 1) k)))
      else Ok False)"
  by pat_completeness auto
termination by (relation "measure (\<lambda>(name, i, k). nat (MaxFileOpen - i))") auto

declare name_is_open.simps [simp del]

definition handle_SC_Remove :: "'h unix \<Rightarrow> ('h, 'k) Kernel_scheme \<Rightarrow> ('h, 'k) Kernel_scheme result" where
  "handle_SC_Remove U k =
     rbind (ReadRegister k 4) (\<lambda>virtAdr.
     rbind (User2System virtAdr (MaxFileLength + 1) k) (\<lambda>(filename, k).
     rbind (name_is_open (c_string filename) 0 k) (\<lambda>is_open.
     if is_open then return_value (-1) k
     else
     rbind (fs_call (\<lambda>fs. Ok (FS_Remove U (c_string filename) fs)) k) (\<lambda>(ans, k).
     return_value (if ans then 0 else -1) k))))"

section \<open>Sockets\<close>

definition handle_SC_SocketTCP_Open :: "'h unix \<Rightarrow> ('h, 'k) Kernel_scheme \<Rightarrow> ('h, 'k) Kernel_scheme result" where
  "handle_SC_SocketTCP_Open U k =
     rbind (fs_call (createTCP U) k) (\<lambda>(socketID, k). return_value socketID k)"

definition handle_SC_SocketTCP_Connect :: "'h unix \<Rightarrow> ('h, 'k) Kernel_scheme \<Rightarrow> ('h, 'k) Kernel_scheme result"
where
  "handle_SC_SocketTCP_Connect U k =
     rbind (reg_int k 4) (\<lambda>socketID.
     rbind (ReadRegister k 5) (\<lambda>vAddress.
     rbind (User2System vAddress MAXIpAddressLength k) (\<lambda>(ip, k).
     rbind (reg_int k 6) (\<lambda>port.
     rbind (fs_call (connectTCP U socketID (c_string ip) port) k) (\<lambda>(r, k).
     return_value (if r = -1 then -1 else 0) k)))))"

text \<open>The length that \<open>Send\<close> copies is read before it is set: \<open>leng\<close> is what the variable contains.\<close>

definition handle_SC_SocketTCP_Send ::
  "int \<Rightarrow> 'h unix \<Rightarrow> ('h, 'k) Kernel_scheme \<Rightarrow> ('h, 'k) Kernel_scheme result" where
  "handle_SC_SocketTCP_Send leng U k =
     rbind (reg_int k 4) (\<lambda>socketID.
     rbind (ReadRegister k 5) (\<lambda>vAddress.
     rbind (User2System vAddress leng k) (\<lambda>(buff, k).
     rbind (reg_int k 6) (\<lambda>leng.
     rbind (first_chars leng buff) (\<lambda>buff.
     rbind (fs_call (sendTCP U socketID buff) k) (\<lambda>(rVal, k). return_value rVal k))))))"

definition handle_SC_SocketTCP_Receive :: "'h unix \<Rightarrow> ('h, 'k) Kernel_scheme \<Rightarrow> ('h, 'k) Kernel_scheme result"
where
  "handle_SC_SocketTCP_Receive U k =
     rbind (reg_int k 4) (\<lambda>socketID.
     rbind (ReadRegister k 5) (\<lambda>vAddress.
     rbind (reg_int k 6) (\<lambda>len.
     receive_into U socketID vAddress len k)))"

definition handle_SC_SocketTCP_Close :: "'h unix \<Rightarrow> ('h, 'k) Kernel_scheme \<Rightarrow> ('h, 'k) Kernel_scheme result" where
  "handle_SC_SocketTCP_Close U k =
     rbind (reg_int k 4) (\<lambda>socketID.
     rbind (fs_call (closeTCP U socketID) k) (\<lambda>(rVal, k). return_value rVal k))"

section \<open>Processes and semaphores\<close>

text \<open>
  \<open>Exec\<close> opens the file to see whether it is there and deletes the \<open>OpenFile\<close> again; the entry of
  the descriptor table that \<open>Open\<close> made stays, with a pointer to the deleted object.
\<close>

definition handle_SC_Exec :: "'h unix \<Rightarrow> ('h, 'k) Kernel_scheme \<Rightarrow> ('h, 'k) Kernel_scheme result" where
  "handle_SC_Exec U k =
     rbind (ReadRegister k 4) (\<lambda>vAddr.
     rbind (User2System vAddr (MaxFileLength + 1) k) (\<lambda>(name, k).
     rbind (fs_call (FS_Open U (c_string name)) k) (\<lambda>(file1, k).
     if file1 = Null then return_value (-1) k
     else
     rbind (deref_ptr file1) (\<lambda>f.
     rbind (OpenFile_delete U f (host (fileSystem k))) (\<lambda>h.
     rbind (set_file (fileDescriptorId f) Dangling ((fileSystem k)\<lparr>host := h\<rparr>)) (\<lambda>fs.
     rbind (ExecUpdate (c_string name) (k\<lparr>fileSystem := fs\<rparr>)) (\<lambda>(n, k).
     return_value n k)))))))"

text \<open>The loop of \<open>ExecV\<close>: the arguments lie 100 bytes apart.\<close>

primrec fetch_args :: "nat \<Rightarrow> 32 word \<Rightarrow> 'k Machine_scheme \<Rightarrow> (bytes list \<times> 'k Machine_scheme) result" where
  "fetch_args 0 virtAddr k = Ok ([], k)"
| "fetch_args (Suc n) virtAddr k =
     rbind (User2System virtAddr (MaxFileLength + 1) k) (\<lambda>(arg, k).
     rbind (fetch_args n (virtAddr + 100) k) (\<lambda>(args, k). Ok (c_string arg # args, k)))"

definition handle_SC_ExecV :: "('h, 'k) Kernel_scheme \<Rightarrow> ('h, 'k) Kernel_scheme result" where
  "handle_SC_ExecV k =
     rbind (reg_int k 4) (\<lambda>argc.
     rbind (ReadRegister k 5) (\<lambda>virtAddr.
     ASSERT (0 \<le> argc)
     (rbind (fetch_args (nat argc) virtAddr k) (\<lambda>(argv, k).
      rbind (ExecUpdateV argv k) (\<lambda>(n, k). return_value n k)))))"

definition handle_SC_Wait :: "('h, 'k) Kernel_scheme \<Rightarrow> ('h, 'k) Kernel_scheme result" where
  "handle_SC_Wait k =
     rbind (ReadRegister k 4) (\<lambda>vAddr.
     rbind (User2System vAddr (MaxFileLength + 1) k) (\<lambda>(name, k).
     rbind (STable_Wait (c_string name) k) (\<lambda>(result, k). return_value result k)))"

definition handle_SC_Signal :: "('h, 'k) Kernel_scheme \<Rightarrow> ('h, 'k) Kernel_scheme result" where
  "handle_SC_Signal k =
     rbind (ReadRegister k 4) (\<lambda>vAddr.
     rbind (User2System vAddr (MaxFileLength + 1) k) (\<lambda>(name, k).
     rbind (STable_Signal (c_string name) k) (\<lambda>(result, k). return_value result k)))"

definition handle_SC_Join :: "('h, 'k) Kernel_scheme \<Rightarrow> ('h, 'k) Kernel_scheme result" where
  "handle_SC_Join k =
     rbind (reg_int k 4) (\<lambda>n. rbind (JoinUpdate n k) (\<lambda>(result, k). return_value result k))"

definition handle_SC_Exit :: "('h, 'k) Kernel_scheme \<Rightarrow> ('h, 'k) Kernel_scheme result" where
  "handle_SC_Exit k =
     rbind (ReadRegister k 4) (\<lambda>ec.
     rbind (ExitUpdate ec k) (\<lambda>(r, k).
     rbind (WriteRegister k 2 (word_of_int r)) (\<lambda>k.
     rbind (current_pid k) (\<lambda>pid.
     if pid = 0 then SysHalt k else rbind (Thread_Finish k) (\<lambda>_. Fault Halted)))))"

definition handle_SC_CreateSemaphore :: "('h, 'k) Kernel_scheme \<Rightarrow> ('h, 'k) Kernel_scheme result" where
  "handle_SC_CreateSemaphore k =
     rbind (ReadRegister k 4) (\<lambda>vAddr.
     rbind (reg_int k 5) (\<lambda>sVal.
     rbind (User2System vAddr (MaxFileLength + 1) k) (\<lambda>(name, k).
     rbind (STable_Create (c_string name) sVal k) (\<lambda>(result, k). return_value result k))))"

section \<open>ExceptionHandler\<close>

definition ExceptionHandler ::
  "int \<Rightarrow> 'h unix \<Rightarrow> ExceptionType \<Rightarrow> ('h, 'k) Kernel_scheme \<Rightarrow> ('h, 'k) Kernel_scheme result" where
  "ExceptionHandler leng U which k =
     rbind (ReadRegister k 2) (\<lambda>type.
     if which \<noteq> SyscallException then Fault AssertFailed
     else if type = SC_Halt then SysHalt k
     else if type = SC_Add then handle_SC_Add k
     else if type = SC_Create then handle_SC_Create U k
     else if type = SC_Open then handle_SC_Open U k
     else if type = SC_Close then handle_SC_Close U k
     else if type = SC_Read then handle_SC_Read U k
     else if type = SC_Write then handle_SC_Write U k
     else if type = SC_Seek then handle_SC_Seek U k
     else if type = SC_Remove then handle_SC_Remove U k
     else if type = SC_SocketTCP_Open then handle_SC_SocketTCP_Open U k
     else if type = SC_SocketTCP_Connect then handle_SC_SocketTCP_Connect U k
     else if type = SC_SocketTCP_Send then handle_SC_SocketTCP_Send leng U k
     else if type = SC_SocketTCP_Receive then handle_SC_SocketTCP_Receive U k
     else if type = SC_SocketTCP_Close then handle_SC_SocketTCP_Close U k
     else if type = SC_Exec then handle_SC_Exec U k
     else if type = SC_ExecV then handle_SC_ExecV k
     else if type = SC_Join then handle_SC_Join k
     else if type = SC_Exit then handle_SC_Exit k
     else if type = SC_Wait then handle_SC_Wait k
     else if type = SC_Signal then handle_SC_Signal k
     else if type = SC_CreateSemaphore then handle_SC_CreateSemaphore k
     else Fault AssertFailed)"


section \<open>What every system call leaves of the machine\<close>

definition returns :: "('a \<Rightarrow> bool) \<Rightarrow> 'a result \<Rightarrow> bool" where
  "returns Q r \<longleftrightarrow> (\<forall>x. r = Ok x \<longrightarrow> Q x)"

text \<open>The machine is well formed and has the registers \<open>R\<close>.\<close>

definition with_regs :: "32 word list \<Rightarrow> 'k Machine_scheme \<Rightarrow> bool" where
  "with_regs R k \<longleftrightarrow> wf_machine k \<and> registers k = R"

definition advanced :: "32 word list \<Rightarrow> 32 word list" where
  "advanced R = R[PrevPCReg := R ! PCReg, PCReg := R ! PCReg + 4, NextPCReg := R ! PCReg + 8]"

definition call_done :: "32 word list \<Rightarrow> 'k Machine_scheme \<Rightarrow> bool" where
  "call_done R k \<longleftrightarrow> wf_machine k \<and> (\<exists>v. registers k = advanced (R[2 := v]))"

lemma returns_simps [simp]: "returns Q (Ok x) = Q x" "returns Q (Fault f)"
  by (simp_all add: returns_def)

lemma ret_pure: "(\<And>x. returns Q (f x)) \<Longrightarrow> returns Q (rbind r f)"
  by (cases r) simp_all

lemma ret_bind1:
  "returns (with_regs R) r \<Longrightarrow> (\<And>k. with_regs R k \<Longrightarrow> returns Q (f k)) \<Longrightarrow> returns Q (rbind r f)"
  by (cases r) simp_all

lemma ret_bind2:
  "returns (\<lambda>(x, k). with_regs R k) r \<Longrightarrow> (\<And>x k. with_regs R k \<Longrightarrow> returns Q (f x k))
    \<Longrightarrow> returns Q (rbind r (\<lambda>(x, k). f x k))"
  by (cases r) auto

lemma ret_bind3:
  "returns (\<lambda>(x, y, k). with_regs R k) r \<Longrightarrow> (\<And>x y k. with_regs R k \<Longrightarrow> returns Q (f x y k))
    \<Longrightarrow> returns Q (rbind r (\<lambda>(x, y, k). f x y k))"
  by (cases r) auto

lemma ret_if: "(c \<Longrightarrow> returns Q a) \<Longrightarrow> (\<not> c \<Longrightarrow> returns Q b) \<Longrightarrow> returns Q (if c then a else b)"
  by simp

lemma ret_option: "(x = None \<Longrightarrow> returns Q a) \<Longrightarrow> (\<And>y. x = Some y \<Longrightarrow> returns Q (b y))
    \<Longrightarrow> returns Q (case x of None \<Rightarrow> a | Some y \<Rightarrow> b y)"
  by (cases x) simp_all

lemma ret_sum: "(\<And>y. x = Inl y \<Longrightarrow> returns Q (a y)) \<Longrightarrow> (\<And>y. x = Inr y \<Longrightarrow> returns Q (b y))
    \<Longrightarrow> returns Q (case x of Inl y \<Rightarrow> a y | Inr y \<Rightarrow> b y)"
  by (cases x) simp_all

lemma ret_prod: "(\<And>x y. p = (x, y) \<Longrightarrow> returns Q (f x y)) \<Longrightarrow> returns Q (case p of (x, y) \<Rightarrow> f x y)"
  by (cases p) simp

lemma ret_prod_fun: "(\<And>x y. returns Q (f x y k)) \<Longrightarrow> returns Q ((case p of (x, y) \<Rightarrow> \<lambda>k. f x y k) k)"
  by (cases p) simp

lemma ret_list: "(xs = [] \<Longrightarrow> returns Q a) \<Longrightarrow> (\<And>y ys. xs = y # ys \<Longrightarrow> returns Q (b y ys))
    \<Longrightarrow> returns Q (case xs of [] \<Rightarrow> a | y # ys \<Rightarrow> b y ys)"
  by (cases xs) simp_all

lemma ret_ASSERT: "(c \<Longrightarrow> returns Q r) \<Longrightarrow> returns Q (ASSERT c r)"
  by (simp add: ASSERT_def)

lemma ret_Ok2: "with_regs R k \<Longrightarrow> returns (\<lambda>(x, k). with_regs R k) (Ok (x, k))"
  and ret_Ok3: "with_regs R k \<Longrightarrow> returns (\<lambda>(x, y, k). with_regs R k) (Ok (x, y, k))"
  and ret_Ok1: "with_regs R k \<Longrightarrow> returns (with_regs R) (Ok k)"
  and ret_Fault: "returns Q (Fault e)"
  by simp_all

lemma with_regs_upd:
  "with_regs R (k0\<lparr>fileSystem := x0\<rparr>) = with_regs R k0" "with_regs R (k1\<lparr>threads := x1\<rparr>) = with_regs R k1"
  "with_regs R (k2\<lparr>threadCount := x2\<rparr>) = with_regs R k2" "with_regs R (k3\<lparr>readyList := x3\<rparr>) = with_regs R k3"
  "with_regs R (k4\<lparr>level := x4\<rparr>) = with_regs R k4" "with_regs R (k5\<lparr>sems := x5\<rparr>) = with_regs R k5"
  "with_regs R (k6\<lparr>semCount := x6\<rparr>) = with_regs R k6" "with_regs R (k7\<lparr>pTable := x7\<rparr>) = with_regs R k7"
  "with_regs R (k8\<lparr>sTable := x8\<rparr>) = with_regs R k8" "with_regs R (k9\<lparr>startArg := x9\<rparr>) = with_regs R k9"
  "with_regs R (k10\<lparr>conIn := x10\<rparr>) = with_regs R k10" "with_regs R (k11\<lparr>conOut := x11\<rparr>) = with_regs R k11"
  by (auto simp: with_regs_def wf_machine_defs wf_tables_def split: option.splits)

lemma ReadMem_keeps: "with_regs R k \<Longrightarrow> returns (\<lambda>(x, k). with_regs R k) (ReadMem no_return k a 1)"
proof -
  assume k: "with_regs R k"
  then have "wf_tables k" by (simp add: with_regs_def wf_machine_defs)
  moreover have "(1::int) \<in> {1, 2, 4}" by simp
  ultimately show ?thesis
  proof (cases rule: Translate_cases [where a = a and w = False])
    case (exception x)
    then show ?thesis
      by (auto simp: ReadMem_def returns_def RaiseException_def no_return_def rbind_eq_Ok)
  next
    case (address i p)
    with k ReadMem_address [OF address(1), of no_return] show ?thesis
      by (auto simp: with_regs_def wf_machine_defs)
  qed
qed

lemma WriteMem_keeps: "with_regs R k \<Longrightarrow> returns (\<lambda>(x, k). with_regs R k) (WriteMem no_return k a 1 v)"
proof -
  assume k: "with_regs R k"
  then have "wf_tables k" by (simp add: with_regs_def wf_machine_defs)
  moreover have "(1::int) \<in> {1, 2, 4}" by simp
  ultimately show ?thesis
  proof (cases rule: Translate_cases [where a = a and w = True])
    case (exception x)
    then show ?thesis
      by (auto simp: WriteMem_def returns_def RaiseException_def no_return_def rbind_eq_Ok)
  next
    case (address i p)
    with k WriteMem_address [OF address(1), of no_return v] show ?thesis
      by (auto simp: with_regs_def wf_machine_defs)
  qed
qed


lemma User2System_loop_keeps:
  "with_regs R k \<Longrightarrow> returns (\<lambda>(x, k). with_regs R k) (User2System_loop a limit i buf k)"
proof (induction a limit i buf k rule: User2System_loop.induct)
  case (1 a limit i buf k)
  show ?case
    by (subst User2System_loop.simps)
       (rule ret_if ret_bind2 [OF ReadMem_keeps [OF "1.prems"]] ret_option ret_Fault ret_Ok2 ret_pure "1.IH"
        | (rule refl) | assumption | (rule "1.prems"))+
qed

lemma System2User_loop_keeps:
  "with_regs R k \<Longrightarrow> returns (\<lambda>(x, k). with_regs R k) (System2User_loop a len buf i k)"
proof (induction a len buf i k rule: System2User_loop.induct)
  case (1 a len buf i k)
  show ?case
    by (subst System2User_loop.simps)
       (rule ret_if ret_bind2 [OF WriteMem_keeps [OF "1.prems"]] ret_Ok2 ret_pure "1.IH"
        | (rule refl) | assumption)+
qed

lemma User2System_keeps: "with_regs R k \<Longrightarrow> returns (\<lambda>(x, k). with_regs R k) (User2System a limit k)"
  unfolding User2System_def by (rule ret_pure User2System_loop_keeps | assumption)+

lemma System2User_keeps: "with_regs R k \<Longrightarrow> returns (\<lambda>(x, k). with_regs R k) (System2User a len buf k)"
  unfolding System2User_def by (rule ret_if ret_Ok2 System2User_loop_keeps | assumption)+

lemma PCIncrease_done:
  "with_regs R k \<Longrightarrow> returns (\<lambda>k. wf_machine k \<and> registers k = advanced R) (PCIncrease k)"
  by (auto simp: PCIncrease_def with_regs_def ReadRegister_def WriteRegister_def advanced_def NumTotalRegs_def
      returns_def rbind_eq_Ok wf_machine_defs wf_tables_def add.assoc split: option.splits)

lemma return_value_done:
  "with_regs R k \<Longrightarrow> returns (call_done R) (return_value v k)"
proof -
  assume k: "with_regs R k"
  then have len: "2 < length R" by (auto simp: with_regs_def wf_machine_defs)
  let ?k = "k\<lparr>registers := R[2 := word_of_int v]\<rparr>"
  have "with_regs (R[2 := word_of_int v]) ?k"
    using k by (auto simp: with_regs_def wf_machine_defs wf_tables_def split: option.splits)
  from PCIncrease_done [OF this] k len show ?thesis
    by (auto simp: return_value_def WriteRegister_def NumTotalRegs_def with_regs_def returns_def call_done_def)
qed

lemma fs_call_keeps: "with_regs R k \<Longrightarrow> returns (\<lambda>(x, k). with_regs R k) (fs_call f k)"
  unfolding fs_call_def by (rule ret_pure ret_prod ret_Ok2 | simp add: with_regs_upd)+

lemma file_call_keeps: "with_regs R k \<Longrightarrow> returns (\<lambda>(x, k). with_regs R k) (file_call fid op k)"
  unfolding file_call_def by (rule ret_pure ret_prod ret_Ok2 | simp add: with_regs_upd)+

lemmas Pos_keeps = file_call_keeps [of R k fid "\<lambda>f h. Ok (OpenFile_GetCurrentPos U f h)" for R k fid U,
    folded CurrentPos_of_def]
lemmas Length_keeps = file_call_keeps [of R k fid
    "\<lambda>f h. rbind (OpenFile_Length U f h) (\<lambda>(n, h). Ok (n, f, h))" for R k fid U, folded Length_of_def]

lemma GetChar_keeps: "with_regs R k \<Longrightarrow> returns (\<lambda>(x, k). with_regs R k) (Console_GetChar k)"
  by (simp add: Console_GetChar_def with_regs_upd split: list.split)

lemma read_line_keeps:
  "with_regs R k \<Longrightarrow> returns (\<lambda>(x, y, k). with_regs R k) (read_line n i buf k)"
proof (induction n i buf k rule: read_line.induct)
  case (1 n i buf k)
  show ?case
    by (subst read_line.simps)
       (rule ret_if ret_bind2 [OF GetChar_keeps [OF "1.prems"]] ret_Ok3 ret_pure "1.IH" "1.prems"
        | (rule refl) | assumption)+
qed

lemma write_chars_keeps:
  "with_regs R k \<Longrightarrow> returns (\<lambda>(x, k). with_regs R k) (write_chars n buf i k)"
proof (induction n buf i k rule: write_chars.induct)
  case (1 n buf i k)
  have "with_regs R (Console_PutChar c k)" for c
    using "1.prems" by (simp add: Console_PutChar_def with_regs_upd)
  then show ?case
    by (subst write_chars.simps)
       (rule ret_if ret_Ok2 ret_pure "1.IH" "1.prems" | assumption)+
qed


text \<open>The operations on threads, semaphores and processes.\<close>

lemma sem_P_keeps: "with_regs R k \<Longrightarrow> returns (with_regs R) (sem_P s k)"
  by (auto simp: returns_def sem_P_def Semaphore_P_def Sleep_enter_def SetLevel_def rbind_eq_Ok with_regs_upd
      Let_def split: if_splits)

lemma ReadyToRun_keeps: "with_regs R k \<Longrightarrow> returns (with_regs R) (ReadyToRun t k)"
  by (auto simp: returns_def ReadyToRun_eq with_regs_upd)

lemma sem_V_keeps: "with_regs R k \<Longrightarrow> returns (with_regs R) (sem_V s k)"
  unfolding Semaphore_V_def SetLevel_def Let_def case_prod_conv
  by (rule ret_pure ret_bind1 ret_list ret_Ok1 ReadyToRun_keeps | simp add: with_regs_upd)+

lemma Fork_keeps: "with_regs R k \<Longrightarrow> returns (\<lambda>(x, k). with_regs R k) (Thread_Fork p k)"
  by (simp add: Thread_Fork_eq with_regs_upd)

lemma Semaphore_new_keeps: "with_regs R k \<Longrightarrow> with_regs R (snd (Semaphore_new n k))"
  by (simp add: Semaphore_new_def with_regs_upd)

lemma PCB_new_keeps: "with_regs R k \<Longrightarrow> with_regs R (snd (PCB_new a b k))"
  by (simp add: PCB_new_eq with_regs_upd)

lemma set_pcb_keeps: "with_regs R k \<Longrightarrow> returns (with_regs R) (set_pcb i x k)"
  by (auto simp: set_pcb_def returns_def with_regs_upd)

lemma ret_Let: "returns Q (f x) \<Longrightarrow> returns Q (let y = x in f y)"
  by simp

lemmas process_keeps = sem_P_keeps sem_V_keeps Fork_keeps set_pcb_keeps

lemma new_process_keeps: "with_regs R k \<Longrightarrow> returns (\<lambda>(x, k). with_regs R k) (new_process k)"
  unfolding new_process_def PCB_new_eq Let_def case_prod_conv
  by (rule ret_if ret_bind1 process_keeps ret_pure ret_prod ret_Ok2 | assumption | simp add: with_regs_upd)+

lemma PCB_start_keeps: "with_regs R k \<Longrightarrow> returns (\<lambda>(x, k). with_regs R k) (PCB_start i name argv k)"
  unfolding PCB_start_def Let_def
  by (rule ret_if ret_bind1 ret_bind2 process_keeps ret_pure ret_prod ret_Ok2 | assumption | simp add: with_regs_upd)+

lemma add_numwait_keeps: "with_regs R k \<Longrightarrow> returns (with_regs R) (add_numwait d i k)"
  unfolding add_numwait_def
  by (rule ret_bind1 process_keeps ret_pure | assumption)+

lemma JoinUpdate_keeps: "with_regs R k \<Longrightarrow> returns (\<lambda>(x, k). with_regs R k) (JoinUpdate c k)"
  unfolding JoinUpdate_def JoinWait_def IncNumWait_def ExitRelease_def
  by (rule ret_if ret_bind1 process_keeps add_numwait_keeps ret_pure ret_option ret_Ok2 | assumption)+

lemma ExitUpdate_keeps: "with_regs R k \<Longrightarrow> returns (\<lambda>(x, k). with_regs R k) (ExitUpdate c k)"
  unfolding ExitUpdate_def JoinRelease_def DecNumWait_def ExitWait_def
  by (rule ret_if ret_bind1 process_keeps add_numwait_keeps ret_pure ret_option ret_Ok2 | assumption)+

lemma ExecUpdate_keeps: "with_regs R k \<Longrightarrow> returns (\<lambda>(x, k). with_regs R k) (ExecUpdate name k)"
  unfolding ExecUpdate_eq
  by (rule ret_if ret_bind2 new_process_keeps PCB_start_keeps ret_Ok2 | assumption)+

lemma ExecUpdateV_keeps: "with_regs R k \<Longrightarrow> returns (\<lambda>(x, k). with_regs R k) (ExecUpdateV argv k)"
  unfolding ExecUpdateV_def PCB_ExecV_def
  by (rule ret_if ret_bind2 new_process_keeps PCB_start_keeps ret_pure ret_Ok2 | assumption)+

lemma STable_keeps:
  "with_regs R k \<Longrightarrow> returns (\<lambda>(x, k). with_regs R k) (STable_Wait name k)"
  "with_regs R k \<Longrightarrow> returns (\<lambda>(x, k). with_regs R k) (STable_Signal name k)"
  "with_regs R k \<Longrightarrow> returns (\<lambda>(x, k). with_regs R k) (STable_Create name v k)"
    apply (unfold STable_Wait_def STable_Signal_def STable_Create_def Sem_new_def Semaphore_new_def Let_def case_prod_conv)
    apply (rule ret_if ret_bind1 ret_bind2 process_keeps ret_pure ret_option ret_prod ret_Ok2 ret_Fault| assumption | simp add: with_regs_upd)+
done

lemma fetch_args_keeps: "with_regs R k \<Longrightarrow> returns (\<lambda>(x, k). with_regs R k) (fetch_args n a k)"
  by (induction n arbitrary: a k)
     (simp, unfold fetch_args.simps, (rule ret_bind2 User2System_keeps ret_Ok2 | assumption)+)

lemma PCIncrease_call_done: "with_regs R k \<Longrightarrow> returns (call_done R) (PCIncrease k)"
  using PCIncrease_done [of R k] by (auto simp: returns_def call_done_def intro!: exI [of _ "R ! 2"])

lemma deref_keeps: "with_regs R k \<Longrightarrow> with_regs R (k\<lparr>fileSystem := fs\<rparr>)"
  by (simp add: with_regs_upd)

lemmas call_rules = ret_if ret_ASSERT ret_Let return_value_done PCIncrease_call_done ret_Fault

lemmas keeps_rules = User2System_keeps System2User_keeps fs_call_keeps file_call_keeps Pos_keeps Length_keeps
  fetch_args_keeps ExecUpdate_keeps ExecUpdateV_keeps JoinUpdate_keeps ExitUpdate_keeps STable_keeps
  write_chars_keeps ret_Ok2

lemma receive_into_done: "with_regs R k \<Longrightarrow> returns (call_done R) (receive_into U s a n k)"
  unfolding receive_into_def
  by (rule call_rules ret_bind2 keeps_rules ret_prod ret_prod_fun ret_pure | assumption)+

lemma files_done:
  assumes "with_regs R k"
  shows "returns (call_done R) (handle_SC_Add k)" "returns (call_done R) (handle_SC_Create U k)"
    "returns (call_done R) (handle_SC_Open U k)" "returns (call_done R) (handle_SC_Close U k)"
    "returns (call_done R) (handle_SC_Seek U k)" "returns (call_done R) (handle_SC_Remove U k)"
  unfolding handle_SC_Add_def handle_SC_Create_def handle_SC_Open_def handle_SC_Close_def
    handle_SC_Seek_def handle_SC_Remove_def
  by (rule assms call_rules ret_bind2 keeps_rules ret_prod ret_prod_fun ret_pure deref_keeps | assumption)+

lemma Read_done: "with_regs R k \<Longrightarrow> returns (call_done R) (handle_SC_Read U k)"
  unfolding handle_SC_Read_def
  by (rule call_rules receive_into_done ret_bind3 [OF read_line_keeps] ret_bind2 keeps_rules ret_prod ret_prod_fun ret_pure | assumption)+

lemma Write_done: "with_regs R k \<Longrightarrow> returns (call_done R) (handle_SC_Write U k)"
  unfolding handle_SC_Write_def Console_PutChar_def
  by (rule call_rules ret_bind2 keeps_rules ret_pure | assumption | simp add: with_regs_upd)+

lemma sockets_done:
  assumes "with_regs R k"
  shows "returns (call_done R) (handle_SC_SocketTCP_Open U k)"
    "returns (call_done R) (handle_SC_SocketTCP_Connect U k)"
    "returns (call_done R) (handle_SC_SocketTCP_Send n U k)"
    "returns (call_done R) (handle_SC_SocketTCP_Receive U k)"
    "returns (call_done R) (handle_SC_SocketTCP_Close U k)"
  unfolding handle_SC_SocketTCP_Open_def handle_SC_SocketTCP_Connect_def handle_SC_SocketTCP_Send_def
    handle_SC_SocketTCP_Receive_def handle_SC_SocketTCP_Close_def
  by (rule assms call_rules receive_into_done ret_bind2 keeps_rules ret_pure | assumption)+

lemma processes_done:
  assumes "with_regs R k"
  shows "returns (call_done R) (handle_SC_Exec U k)" "returns (call_done R) (handle_SC_ExecV k)"
    "returns (call_done R) (handle_SC_Join k)" "returns (call_done R) (handle_SC_Exit k)"
    "returns (call_done R) (handle_SC_Wait k)" "returns (call_done R) (handle_SC_Signal k)"
    "returns (call_done R) (handle_SC_CreateSemaphore k)"
  unfolding handle_SC_Exec_def handle_SC_ExecV_def handle_SC_Join_def handle_SC_Exit_def handle_SC_Wait_def
    handle_SC_Signal_def handle_SC_CreateSemaphore_def SysHalt_def
  by (rule assms call_rules ret_bind2 keeps_rules ret_pure deref_keeps | assumption)+

lemma ExceptionHandler_done:
  assumes "with_regs R k"
  shows "returns (call_done R) (ExceptionHandler leng U x k)"
  unfolding ExceptionHandler_def SysHalt_def
  by (rule ret_pure ret_if ret_Fault files_done sockets_done processes_done Read_done Write_done assms)+

lemma ExceptionHandler_wf: "wf_machine k \<Longrightarrow> ExceptionHandler leng U x k = Ok k' \<Longrightarrow> wf_machine k'"
  using ExceptionHandler_done [of "registers k" k leng U x]
  by (simp add: with_regs_def call_done_def returns_def)

interpretation kernel: exception_handler "ExceptionHandler leng U" for leng U
  by unfold_locales (rule ExceptionHandler_wf)


section \<open>User memory, byte by byte\<close>

text \<open>The physical address of a virtual one, and whether its page may be written.\<close>

definition entry_of :: "'k Machine_scheme \<Rightarrow> 32 word \<Rightarrow> TranslationEntry option" where
  "entry_of k a = (case find_entry k (a div word_of_int PageSize) of
     Ok (Inr i) \<Rightarrow> Some (entries k ! nat i) | _ \<Rightarrow> None)"

definition paddr :: "'k Machine_scheme \<Rightarrow> 32 word \<Rightarrow> nat option" where
  "paddr k a = (case entry_of k a of None \<Rightarrow> None
     | Some e \<Rightarrow> if unat (physicalPage e) < 128 then Some (unat (physicalPage e) * 128 + unat a mod 128) else None)"

definition writable :: "'k Machine_scheme \<Rightarrow> 32 word \<Rightarrow> bool" where
  "writable k a \<longleftrightarrow> (case entry_of k a of None \<Rightarrow> False | Some e \<Rightarrow> \<not> readOnly e)"

text \<open>
  What the copying loops change: nothing but use and dirty bits of the tables and \<open>mem\<close>.
\<close>

definition remapped :: "8 word list \<Rightarrow> ('h, 'k) Kernel_scheme \<Rightarrow> ('h, 'k) Kernel_scheme \<Rightarrow> bool" where
  "remapped mem k k' \<longleftrightarrow> wf_machine k' \<and> paddr k' = paddr k \<and> writable k' = writable k
     \<and> (\<exists>t p. k' = k\<lparr>tlb := t, pageTable := p, mainMemory := mem\<rparr>)"

lemma remapped_simps:
  assumes "remapped mem k k'"
  shows "mainMemory k' = mem" "registers k' = registers k" "fileSystem k' = fileSystem k" "wf_machine k'"
    "paddr k' = paddr k" "writable k' = writable k" "conIn k' = conIn k"
  using assms by (auto simp: remapped_def)

lemma remapped_refl: "wf_machine k \<Longrightarrow> remapped (mainMemory k) k k"
  unfolding remapped_def by (intro conjI exI [of _ "tlb k"] exI [of _ "pageTable k"]) simp_all

lemma remapped_trans: "remapped m1 k k1 \<Longrightarrow> remapped m2 k1 k2 \<Longrightarrow> remapped m2 k k2"
proof -
  assume a: "remapped m1 k k1" "remapped m2 k1 k2"
  obtain t p t' p' where "k1 = k\<lparr>tlb := t, pageTable := p, mainMemory := m1\<rparr>"
      "k2 = k1\<lparr>tlb := t', pageTable := p', mainMemory := m2\<rparr>"
    using a unfolding remapped_def by blast
  then have "k2 = k\<lparr>tlb := t', pageTable := p', mainMemory := m2\<rparr>" by simp
  with a show ?thesis unfolding remapped_def by metis
qed

lemma paddr_memory [simp]: "paddr (k\<lparr>mainMemory := x\<rparr>) = paddr k" "writable (k\<lparr>mainMemory := x\<rparr>) = writable k"
proof -
  have "entry_of (k\<lparr>mainMemory := x\<rparr>) a = entry_of k a" for a
    by (auto simp: entry_of_def split: result.split sum.split)
  then show "paddr (k\<lparr>mainMemory := x\<rparr>) = paddr k" "writable (k\<lparr>mainMemory := x\<rparr>) = writable k"
    by (simp_all add: paddr_def writable_def fun_eq_iff)
qed

lemma remapped_memory:
  assumes "remapped m k k'" "length m' = length m"
  shows "remapped m' k (k'\<lparr>mainMemory := m'\<rparr>)"
proof -
  obtain t p where k': "k' = k\<lparr>tlb := t, pageTable := p, mainMemory := m\<rparr>"
    using assms(1) unfolding remapped_def by blast
  have "wf_machine (k'\<lparr>mainMemory := m'\<rparr>)"
    using assms remapped_simps(1,4) [OF assms(1)] by (simp add: wf_machine_defs)
  moreover have "k'\<lparr>mainMemory := m'\<rparr> = k\<lparr>tlb := t, pageTable := p, mainMemory := m'\<rparr>"
    unfolding k' by simp
  ultimately show ?thesis
    using remapped_simps(5,6) [OF assms(1)] unfolding remapped_def by (metis paddr_memory)
qed

lemma entry_touched:
  assumes "0 \<le> i" "i < int (length (entries k))"
  shows "paddr (set_entry k i (touched (entries k ! nat i) w)) = paddr k"
    "writable (set_entry k i (touched (entries k ! nat i) w)) = writable k"
proof -
  let ?k = "set_entry k i (touched (entries k ! nat i) w)"
  have "rel_option (\<lambda>e e'. physicalPage e' = physicalPage e \<and> readOnly e' = readOnly e)
      (entry_of k a) (entry_of ?k a)" for a
  proof (cases "find_entry k (a div word_of_int PageSize)")
    case (Ok r)
    then show ?thesis
      using find_entry_touched [OF assms, of w "a div word_of_int PageSize"] assms
      by (cases r) (auto simp: entry_of_def entries_set_entry nth_list_update nat_less_iff)
  qed (use find_entry_touched [OF assms] in \<open>simp add: entry_of_def\<close>)
  note r = this
  show "paddr ?k = paddr k"
  proof
    show "paddr ?k a = paddr k a" for a using r [of a] by (cases "entry_of k a"; cases "entry_of ?k a") (auto simp: paddr_def)
  qed
  show "writable ?k = writable k"
  proof
    show "writable ?k a = writable k a" for a using r [of a] by (cases "entry_of k a"; cases "entry_of ?k a") (auto simp: writable_def)
  qed
qed

lemma byte_translation:
  assumes "wf_machine k" "paddr k a = Some p" "w \<longrightarrow> writable k a"
  shows "\<exists>k' q. Translate k a 1 w = Ok (Inr q, k') \<and> unat q = p \<and> remapped (mainMemory k) k k'"
proof -
  have t: "wf_tables k" using assms(1) by (simp add: wf_machine_defs)
  obtain i where i: "find_entry k (a div word_of_int PageSize) = Ok (Inr i)"
      "unat (physicalPage (entries k ! nat i)) < 128" "p = unat (physicalPage (entries k ! nat i)) * 128 + unat a mod 128"
      "w \<longrightarrow> \<not> readOnly (entries k ! nat i)"
    using assms(2,3) by (auto simp: paddr_def writable_def entry_of_def split: result.splits sum.splits if_splits)
  have r: "0 \<le> i" "i < int (length (entries k))"
    using find_entry_total [OF t, of "a div word_of_int PageSize"] i(1) by auto
  have "Translate k a 1 w = Ok (Inr (phys_addr (entries k ! nat i) a), set_entry k i (touched (entries k ! nat i) w))"
    by (rule Translate_addressI) (use t i r in \<open>auto simp: misaligned_def\<close>)
  moreover have "unat (phys_addr (entries k ! nat i) a) = p"
    using i(2,3) by (simp add: unat_phys_addr)
  moreover have "remapped (mainMemory k) k (set_entry k i (touched (entries k ! nat i) w))"
  proof -
    let ?k = "set_entry k i (touched (entries k ! nat i) w)"
    have "wf_machine ?k" using assms(1) by (simp add: wf_machine_defs)
    moreover have "?k = k\<lparr>tlb := tlb ?k, pageTable := pageTable ?k, mainMemory := mainMemory k\<rparr>"
      by (auto simp: set_entry_def split: option.splits)
    ultimately show ?thesis using entry_touched [OF r, of w] unfolding remapped_def by blast
  qed
  ultimately show ?thesis by blast
qed

lemma ReadMem_byte:
  assumes "wf_machine k" "paddr k a = Some p"
  shows "\<exists>k'. ReadMem h k a 1 = Ok (Some (scast (mainMemory k ! p)), k') \<and> remapped (mainMemory k) k k'"
proof -
  obtain k' q where q: "Translate k a 1 False = Ok (Inr q, k')" "unat q = p" "remapped (mainMemory k) k k'"
    using byte_translation [OF assms, of False] by auto
  with ReadMem_address [OF q(1), of h] show ?thesis
    by (simp add: load_def fetch1_def remapped_simps(1) [OF q(3)])
qed

lemma WriteMem_byte:
  assumes "wf_machine k" "paddr k a = Some p" "writable k a"
  shows "\<exists>k'. WriteMem h k a 1 (scast c) = Ok (True, k') \<and> remapped ((mainMemory k)[p := c]) k k'"
proof -
  obtain k' q where q: "Translate k a 1 True = Ok (Inr q, k')" "unat q = p" "remapped (mainMemory k) k k'"
    using byte_translation [OF assms(1,2), of True] assms(3) by auto
  have c: "ucast (scast c :: 32 word) = c" by (intro bit_word_eqI) (simp add: bit_simps)
  have "remapped ((mainMemory k)[p := c]) k (k'\<lparr>mainMemory := (mainMemory k)[p := c]\<rparr>)"
    by (rule remapped_memory [OF q(3)]) simp
  with WriteMem_address [OF q(1), of h "scast c"] q(2,3) show ?thesis
    by (simp add: store_def c remapped_simps(1))
qed

subsection \<open>Strings\<close>

text \<open>The bytes at the virtual address \<open>a\<close>.\<close>

definition string_at :: "'k Machine_scheme \<Rightarrow> 32 word \<Rightarrow> bytes \<Rightarrow> bool" where
  "string_at k a s \<longleftrightarrow> (\<forall>j < length s. \<exists>p. paddr k (a + of_nat j) = Some p \<and> mainMemory k ! p = s ! j)"

lemma string_at_remapped: "remapped (mainMemory k) k k' \<Longrightarrow> string_at k' a s = string_at k a s"
  by (simp add: string_at_def remapped_simps)

lemma User2System_loop_string:
  assumes "wf_machine k" "string_at k a s" "0 \<notin> set s" "i \<le> length s" "length s \<le> n"
    and "length s < n \<longrightarrow> string_at k a (s @ [0])"
  shows "\<exists>k'. User2System_loop a (int n) (int i) (take i s @ replicate (Suc n - i) 0) k
      = Ok (s @ replicate (Suc n - length s) 0, k') \<and> remapped (mainMemory k) k k'"
  using assms
proof (induction "length s - i" arbitrary: i k)
  case 0
  then have i: "i = length s" by simp
  show ?case
  proof (cases "length s < n")
    case True
    then obtain p where p: "paddr k (a + of_nat (length s)) = Some p" "mainMemory k ! p = 0"
      using 0 by (auto simp: string_at_def nth_append dest: spec [of _ "length s"])
    obtain k' where "ReadMem no_return k (a + of_nat (length s)) 1 = Ok (Some 0, k')" "remapped (mainMemory k) k k'"
      using ReadMem_byte [OF "0.prems"(1) p(1), of no_return] p(2) by auto
    moreover have "(s @ replicate (Suc n - length s) 0)[length s := 0] = s @ replicate (Suc n - length s) 0"
      by (simp add: list_update_append Suc_diff_le[OF "0.prems"(5)] )
    ultimately show ?thesis using True i
      by (subst User2System_loop.simps) simp
  next
    case False
    then show ?thesis using i "0.prems" remapped_refl [OF "0.prems"(1)]
      by (subst User2System_loop.simps) auto
  qed
next
  case (Suc d)
  then have i: "i < length s" "i < n" by simp_all
  obtain p where p: "paddr k (a + of_nat i) = Some p" "mainMemory k ! p = s ! i"
    using Suc.prems(2) i(1) by (auto simp: string_at_def)
  obtain k1 where k1: "ReadMem no_return k (a + of_nat i) 1 = Ok (Some (scast (s ! i)), k1)"
      "remapped (mainMemory k) k k1"
    using ReadMem_byte [OF Suc.prems(1) p(1), of no_return] p(2) by auto
  have nz: "s ! i \<noteq> 0" using Suc.prems(3) i(1) by (metis nth_mem)
  have c: "ucast (scast c :: 32 word) = c" for c :: "8 word" by (intro bit_word_eqI) (simp add: bit_simps)
  have "(scast (s ! i) :: 32 word) \<noteq> 0" using nz c [of "s ! i"] by (metis unsigned_0)
  moreover have "(take i s @ replicate (Suc n - i) 0)[i := s ! i] = take (Suc i) s @ replicate (Suc n - Suc i) 0"
    using i by (simp add: list_update_append take_Suc_conv_app_nth Suc_diff_le)
  moreover have "\<exists>k'. User2System_loop a (int n) (int (Suc i)) (take (Suc i) s @ replicate (Suc n - Suc i) 0) k1
      = Ok (s @ replicate (Suc n - length s) 0, k') \<and> remapped (mainMemory k1) k1 k'"
    by (rule Suc.hyps(1)) (use Suc i k1(2) in \<open>auto simp: string_at_remapped remapped_simps\<close>)
  then obtain k' where "User2System_loop a (int n) (int (Suc i)) (take (Suc i) s @ replicate (Suc n - Suc i) 0) k1
      = Ok (s @ replicate (Suc n - length s) 0, k')" "remapped (mainMemory k) k1 k'"
    using remapped_simps(1) [OF k1(2)] by auto
  ultimately show ?case
    using i k1 remapped_trans [OF k1(2)]
    by (subst User2System_loop.simps) (auto simp: c add.commute)
qed


lemma User2System_string:
  assumes "wf_machine k" "string_at k a s" "0 \<notin> set s" "length s \<le> n" "n < 2 ^ 31 - 1"
    and "length s < n \<longrightarrow> string_at k a (s @ [0])"
  shows "\<exists>k'. User2System a (int n) k = Ok (s @ replicate (Suc n - length s) 0, k')
    \<and> remapped (mainMemory k) k k'"
proof -
  have "new_chars (int n + 1) = Ok (replicate (Suc n) 0)"
    using assms(5) by (simp add: new_chars_def nat_add_distrib)
  then show ?thesis
    using User2System_loop_string [OF assms(1-3) _ assms(4,6), of 0] by (simp add: User2System_def)
qed

text \<open>The bytes \<open>System2User\<close> writes: up to and with the first zero, at most \<open>n\<close>.\<close>

definition copied :: "nat \<Rightarrow> bytes \<Rightarrow> bytes" where
  "copied n buf = (let s = c_string (take n buf) in if length s < n then s @ [0] else s)"

definition mapped :: "'k Machine_scheme \<Rightarrow> 32 word \<Rightarrow> nat list \<Rightarrow> bool" where
  "mapped k a ps \<longleftrightarrow> (\<forall>j < length ps. paddr k (a + of_nat j) = Some (ps ! j) \<and> writable k (a + of_nat j))"

lemma paddr_bound: "wf_machine k \<Longrightarrow> paddr k a = Some p \<Longrightarrow> p < length (mainMemory k)"
proof -
  assume "wf_machine k" "paddr k a = Some p"
  then obtain f where e: "f < 128" "p = f * 128 + unat a mod 128"
      "int (length (mainMemory k)) = MemorySize"
    by (auto simp: paddr_def wf_machine_defs split: option.splits if_splits)
  have "unat a mod 128 < 128" by simp
  with e show ?thesis unfolding memory_consts by linarith
qed

lemma System2User_loop_copies:
  assumes "wf_machine k" "mapped k a ps" "distinct ps" "t = copied n buf" "length ps = length t"
    and "i < length t" "n \<le> length buf"
  shows "\<exists>k' mem. System2User_loop a (int n) buf (int i) k = Ok (int (length t), k') \<and> remapped mem k k'
    \<and> length mem = length (mainMemory k)
    \<and> (\<forall>j. i \<le> j \<longrightarrow> j < length t \<longrightarrow> mem ! (ps ! j) = t ! j)
    \<and> (\<forall>q. q \<notin> (\<lambda>j. ps ! j) ` {i..<length t} \<longrightarrow> mem ! q = mainMemory k ! q)"
  using assms(1,2,6)
proof (induction "length t - i" arbitrary: i k)
  case 0
  then show ?case by simp
next
  case (Suc d)
  let ?s = "c_string (take n buf)"
  have pre: "j < length ?s \<Longrightarrow> ?s ! j = buf ! j \<and> buf ! j \<noteq> 0" for j
    unfolding c_string_def using takeWhile_nth [of j "\<lambda>c. c \<noteq> 0" "take n buf"]
      set_takeWhileD [of "?s ! j" "\<lambda>c. c \<noteq> 0" "take n buf"]
    by (metis c_string_def length_takeWhile_le length_take min_less_iff_conj nth_mem nth_take order_less_le_trans)
  have len: "length ?s \<le> n" unfolding c_string_def
    by (metis length_takeWhile_le length_take min.bounded_iff)
  have zero: "buf ! length ?s = 0" if "length ?s < n"
    using nth_length_takeWhile [of "\<lambda>c. c \<noteq> 0" "take n buf"] that assms(7) by (simp add: c_string_def)
  have ti: "t ! i = buf ! i" "i < n" "i < length buf" "i + 1 < n \<and> buf ! i \<noteq> 0 \<longleftrightarrow> i + 1 < length t"
  proof -
    have t: "t = (if length ?s < n then ?s @ [0] else ?s)" using assms(4) by (simp add: copied_def Let_def)
    consider "i < length ?s" | "i = length ?s" "length ?s < n"
      using Suc.prems(3) t by (auto simp: less_Suc_eq split: if_splits)
    then have "t ! i = buf ! i \<and> i < n \<and> (i + 1 < n \<and> buf ! i \<noteq> 0 \<longleftrightarrow> i + 1 < length t)"
      by cases (use t pre [of i] len zero in \<open>auto simp: nth_append\<close>)
    then show "t ! i = buf ! i" "i < n" "i < length buf" "i + 1 < n \<and> buf ! i \<noteq> 0 \<longleftrightarrow> i + 1 < length t"
      using assms(7) by auto
  qed
  obtain p where p: "paddr k (a + of_nat i) = Some (ps ! i)" "writable k (a + of_nat i)"
    using Suc.prems assms(5) by (auto simp: mapped_def)
  obtain k1 where k1: "WriteMem no_return k (a + of_nat i) 1 (scast (buf ! i)) = Ok (True, k1)"
      "remapped ((mainMemory k)[ps ! i := buf ! i]) k k1"
    using WriteMem_byte [OF Suc.prems(1) p, of no_return "buf ! i"] by blast
  have get: "arr_get buf (int i) = Ok (buf ! i)" using ti(3) by (rule arr_get_nat)
  have pi: "ps ! i < length (mainMemory k)" by (rule paddr_bound [OF Suc.prems(1) p(1)])
  show ?case
  proof (cases "i + 1 < length t")
    case False
    then have fin: "length t = Suc i" using Suc.prems(3) by simp
    have "System2User_loop a (int n) buf (int i) k = Ok (int (length t), k1)"
      using k1(1) get ti False fin by (subst System2User_loop.simps) auto
    moreover have "(mainMemory k)[ps ! i := buf ! i] ! (ps ! j) = t ! j" if "i \<le> j" "j < length t" for j
    proof -
      have "j = i" using that fin by simp
      then show ?thesis using ti(1) pi by simp
    qed
    moreover have "(mainMemory k)[ps ! i := buf ! i] ! q = mainMemory k ! q"
      if "q \<notin> (\<lambda>j. ps ! j) ` {i..<length t}" for q
      using that Suc.prems(3) by (metis atLeastLessThan_iff image_eqI nth_list_update_neq order_refl)
    ultimately show ?thesis using k1(2)
      by (intro exI [of _ k1] exI [of _ "(mainMemory k)[ps ! i := buf ! i]"]) auto
  next
    case True
    have "mapped k1 a ps" using Suc.prems(2) by (simp add: mapped_def remapped_simps [OF k1(2)])
    then obtain k' mem where IH: "System2User_loop a (int n) buf (int (Suc i)) k1 = Ok (int (length t), k')"
        "remapped mem k1 k'" "length mem = length (mainMemory k1)"
        "\<forall>j. Suc i \<le> j \<longrightarrow> j < length t \<longrightarrow> mem ! (ps ! j) = t ! j"
        "\<forall>q. q \<notin> (\<lambda>j. ps ! j) ` {Suc i..<length t} \<longrightarrow> mem ! q = mainMemory k1 ! q"
    proof -
      have "d = length t - Suc i" "Suc i < length t" using Suc.hyps(2) True by simp_all
      from Suc.hyps(1) [OF this(1) remapped_simps(4) [OF k1(2)] \<open>mapped k1 a ps\<close> this(2)] that
      show thesis by blast
    qed
    note m1 = remapped_simps(1) [OF k1(2)]
    have "System2User_loop a (int n) buf (int i) k = Ok (int (length t), k')"
      using k1(1) get ti True IH(1) by (subst System2User_loop.simps) (simp add: add.commute)
    moreover have "remapped mem k k'" using remapped_trans [OF k1(2) IH(2)] .
    moreover have "length mem = length (mainMemory k)" using IH(3) m1 by simp
    moreover have "mem ! (ps ! j) = t ! j" if "i \<le> j" "j < length t" for j
    proof (cases "j = i")
      case True
      have "ps ! i \<notin> (\<lambda>j. ps ! j) ` {Suc i..<length t}"
        using assms(3,5) Suc.prems(3) by (auto simp: nth_eq_iff_index_eq)
      then show ?thesis using IH(5) m1 pi ti(1) True by simp
    qed (use IH(4) that in auto)
    moreover have "mem ! q = mainMemory k ! q" if "q \<notin> (\<lambda>j. ps ! j) ` {i..<length t}" for q
    proof -
      have "q \<noteq> ps ! i" "q \<notin> (\<lambda>j. ps ! j) ` {Suc i..<length t}" using that Suc.prems(3) by auto
      then show ?thesis using IH(5) m1 by simp
    qed
    ultimately show ?thesis by blast
  qed
qed


lemma System2User_copies:
  assumes "wf_machine k" "mapped k a ps" "distinct ps" "length ps = length (copied n buf)" "n \<le> length buf"
  shows "\<exists>k' mem. System2User a (int n) buf k = Ok (int (length ps), k') \<and> remapped mem k k'
    \<and> string_at k' a (copied n buf) \<and> (\<forall>q. q \<notin> set ps \<longrightarrow> mem ! q = mainMemory k ! q)
    \<and> length mem = length (mainMemory k)"
proof (cases "n = 0")
  case True
  then have "copied n buf = []" by (simp add: copied_def c_string_def)
  with True assms(1,4) show ?thesis
    by (intro exI [of _ k] exI [of _ "mainMemory k"]) (auto simp: System2User_def string_at_def remapped_refl)
next
  case False
  let ?t = "copied n buf"
  have "0 < length ?t" using False by (auto simp: copied_def Let_def)
  then obtain k' mem where k': "System2User_loop a (int n) buf (int 0) k = Ok (int (length ?t), k')"
      "remapped mem k k'" "length mem = length (mainMemory k)"
      "\<forall>j. 0 \<le> j \<longrightarrow> j < length ?t \<longrightarrow> mem ! (ps ! j) = ?t ! j"
      "\<forall>q. q \<notin> (\<lambda>j. ps ! j) ` {0..<length ?t} \<longrightarrow> mem ! q = mainMemory k ! q"
    using System2User_loop_copies [OF assms(1-3) refl assms(4) _ assms(5)] by metis
  have "string_at k' a ?t"
    using k'(4) assms(2,4) by (simp add: string_at_def mapped_def remapped_simps [OF k'(2)])
  moreover have "(\<lambda>j. ps ! j) ` {0..<length ?t} = set ps"
    using assms(4) by (auto simp: set_conv_nth)
  ultimately show ?thesis using k' False assms(4) by (auto simp: System2User_def)
qed

lemma copied_string: "0 \<notin> set s \<Longrightarrow> copied (Suc (length s)) (s @ 0 # r) = s @ [0]"
  by (auto simp: copied_def c_string_def Let_def takeWhile_append)

lemma copied_buffer: "0 \<notin> set s \<Longrightarrow> copied (length s) (s @ r) = s"
proof -
  assume "0 \<notin> set s"
  then have *: "takeWhile (\<lambda>c. c \<noteq> 0) s = s" by (auto simp: takeWhile_eq_all_conv)
  have "take (length s) (s @ r) = s" by simp
  then show ?thesis unfolding copied_def c_string_def by (simp only: * Let_def) simp
qed

section \<open>Answers of the handlers\<close>

lemma return_value_eq:
  assumes "wf_machine k"
  shows "return_value v k = Ok (k\<lparr>registers := advanced ((registers k)[2 := word_of_int v])\<rparr>)"
  using assms
  by (simp add: return_value_def PCIncrease_def ReadRegister_def WriteRegister_def advanced_def NumTotalRegs_def
      wf_machine_defs add.commute [of 8])

lemma reg_Ok: "wf_machine k \<Longrightarrow> 0 \<le> i \<Longrightarrow> i < 40 \<Longrightarrow> ReadRegister k i = Ok (registers k ! nat i)"
  by (simp add: ReadRegister_def wf_machine_defs)

lemma reg_int_Ok: "wf_machine k \<Longrightarrow> 0 \<le> i \<Longrightarrow> i < 40 \<Longrightarrow> reg_int k i = Ok (sint (registers k ! nat i))"
  by (simp add: reg_int_def reg_Ok)

lemma open_slot:
  assumes "the_slot fid k = Ok s" "fileOpen s = Ptr f"
  shows "slot_at fid k = Ok (Ptr s)" "the_file fid k = Ok f"
proof -
  obtain p where "slot_at fid k = Ok p" "deref_ptr p = Ok s" using assms(1) by (auto simp: the_slot_def rbind_eq_Ok)
  then show "slot_at fid k = Ok (Ptr s)" by (cases p) auto
  show "the_file fid k = Ok f" using assms by (simp add: the_file_def)
qed


definition answer :: "int \<Rightarrow> 'k Machine_scheme \<Rightarrow> 'k Machine_scheme" where
  "answer v k = k\<lparr>registers := advanced ((registers k)[2 := word_of_int v])\<rparr>"

lemmas return_answer = return_value_eq [folded answer_def]

lemma wf_machine_fs [simp]: "wf_machine (k\<lparr>fileSystem := fs\<rparr>) = wf_machine k"
  by (auto simp: wf_machine_defs wf_tables_def split: option.splits)

lemma paddr_fs [simp]: "paddr (k\<lparr>fileSystem := fs\<rparr>) = paddr k" "writable (k\<lparr>fileSystem := fs\<rparr>) = writable k"
proof -
  have "find_entry (k\<lparr>fileSystem := fs\<rparr>) v = find_entry k v" "entries (k\<lparr>fileSystem := fs\<rparr>) = entries k" for v
    by (simp_all add: find_entry_def entries_def split: option.split)
  then have "entry_of (k\<lparr>fileSystem := fs\<rparr>) a = entry_of k a" for a
    by (simp add: entry_of_def split: result.split sum.split)
  then show "paddr (k\<lparr>fileSystem := fs\<rparr>) = paddr k" "writable (k\<lparr>fileSystem := fs\<rparr>) = writable k"
    by (simp_all add: paddr_def writable_def fun_eq_iff)
qed

lemma paddr_regs [simp]: "paddr (k\<lparr>registers := r\<rparr>) = paddr k" "string_at (k\<lparr>registers := r\<rparr>) a t = string_at k a t"
proof -
  have "find_entry (k\<lparr>registers := r\<rparr>) v = find_entry k v" "entries (k\<lparr>registers := r\<rparr>) = entries k" for v
    by (simp_all add: find_entry_def entries_def split: option.split)
  then have "entry_of (k\<lparr>registers := r\<rparr>) a = entry_of k a" for a
    by (simp add: entry_of_def split: result.split sum.split)
  then show "paddr (k\<lparr>registers := r\<rparr>) = paddr k" by (simp add: paddr_def fun_eq_iff)
  then show "string_at (k\<lparr>registers := r\<rparr>) a t = string_at k a t" by (simp add: string_at_def)
qed

lemma the_slot_cong: "fileSystem k' = fileSystem k \<Longrightarrow> the_slot fid k' = the_slot fid k"
  by (simp add: the_slot_def slot_at_def)

lemma file_call_Ok:
  assumes "the_slot fid k = Ok s" "fileOpen s = Ptr f" "op f (host (fileSystem k)) = Ok (x, f', h')"
  shows "\<exists>fs. file_call fid op k = Ok (x, k\<lparr>fileSystem := fs\<rparr>) \<and> host fs = h'
    \<and> the_slot fid (k\<lparr>fileSystem := fs\<rparr>) = Ok (s\<lparr>fileOpen := Ptr f'\<rparr>)"
proof -
  have s: "slot_at fid k = Ok (Ptr s)" "the_file fid k = Ok f" using open_slot assms(1,2) by auto
  then have r: "0 \<le> fid" "fid < int (length (fileSlot (fileSystem k)))" "fileSlot (fileSystem k) ! nat fid = Ptr s"
    by (auto simp: slot_at_def arr_get_eq_Ok)
  let ?fs = "(fileSystem k)\<lparr>host := h', fileSlot := (fileSlot (fileSystem k))[nat fid := Ptr (s\<lparr>fileOpen := Ptr f'\<rparr>)]\<rparr>"
  show ?thesis
    by (intro exI [of _ ?fs])
       (use r s(2) assms(3) in \<open>simp add: file_call_def set_file_def set_slot_def the_slot_def slot_at_def\<close>)
qed

text \<open>A buffer in mapped memory can be copied in, whatever it contains.\<close>

lemma User2System_mapped:
  assumes "wf_machine k" "mapped k a ps" "length ps < 2 ^ 31 - 1"
  shows "\<exists>buf k'. User2System a (int (length ps)) k = Ok (buf, k') \<and> length buf = Suc (length ps)
    \<and> remapped (mainMemory k) k k'"
proof -
  let ?m = "map (\<lambda>p. mainMemory k ! p) ps"
  let ?s = "takeWhile (\<lambda>c. c \<noteq> 0) ?m"
  have len: "length ?s \<le> length ps" by (metis length_map length_takeWhile_le)
  have all: "string_at k a ?m" using assms(2) by (auto simp: string_at_def mapped_def)
  have nth: "j < length ?s \<Longrightarrow> ?s ! j = ?m ! j" for j by (rule takeWhile_nth)
  have s: "string_at k a ?s" using all len nth by (auto simp: string_at_def)
  have "string_at k a (?s @ [0])" if less: "length ?s < length ps"
  proof -
    have "?m ! length ?s = 0" using nth_length_takeWhile [of "\<lambda>c. c \<noteq> 0" ?m] less by simp
    then show ?thesis
      using all s less unfolding string_at_def by (auto simp: nth_append less_Suc_eq)
  qed
  moreover have "0 \<notin> set ?s" by (auto dest: set_takeWhileD)
  ultimately show ?thesis
    using User2System_string [OF assms(1) s _ len assms(3)] len by (fastforce simp: Suc_diff_le)
qed

definition no_file :: "('h, 'k) MachineFS_scheme \<Rightarrow> int \<Rightarrow> bool" where
  "no_file k fid \<longleftrightarrow> fid < 0 \<or> MaxFileOpen \<le> fid \<or> fileSlot (fileSystem k) ! nat fid = Null"

text \<open>An open file of the descriptor table: slot \<open>s\<close> with file \<open>f\<close> of type \<open>t\<close>.\<close>

definition open_file :: "int \<Rightarrow> FileSlot \<Rightarrow> OpenFile \<Rightarrow> int \<Rightarrow> ('h, 'k) MachineFS_scheme \<Rightarrow> bool" where
  "open_file fid s f t k \<longleftrightarrow> 0 \<le> fid \<and> fid < MaxFileOpen \<and> the_slot fid k = Ok s \<and> stype s = 0
     \<and> fileOpen s = Ptr f \<and> otype f = Some t"

lemma open_fileD:
  assumes "open_file fid s f t k"
  shows "slot_at fid k = Ok (Ptr s)" "file_type fid k = Ok t" "\<not> (fid < 0 \<or> MaxFileOpen \<le> fid)"
  using assms open_slot [of fid k s f] by (auto simp: open_file_def file_type_def)

lemma CurrentPos_open:
  assumes "the_slot fid k = Ok s" "fileOpen s = Ptr f" "posix_file U (ofile f) v"
  shows "\<exists>fs. CurrentPos_of U fid k = Ok (int (snd (v (host (fileSystem k)))), k\<lparr>fileSystem := fs\<rparr>)
    \<and> v (host fs) = v (host (fileSystem k))
    \<and> the_slot fid (k\<lparr>fileSystem := fs\<rparr>)
        = Ok (s\<lparr>fileOpen := Ptr (f\<lparr>currentOffset := int (snd (v (host (fileSystem k))))\<rparr>)\<rparr>)"
proof -
  obtain h' where h': "OpenFile_GetCurrentPos U f (host (fileSystem k))
      = (int (snd (v (host (fileSystem k)))), f\<lparr>currentOffset := int (snd (v (host (fileSystem k))))\<rparr>, h')"
      "v h' = v (host (fileSystem k))"
    using GetCurrentPos_posix [OF assms(3)] by blast
  then show ?thesis
    using file_call_Ok [OF assms(1,2), of "\<lambda>f h. Ok (OpenFile_GetCurrentPos U f h)"] by (auto simp: CurrentPos_of_def)
qed

lemma Read_mapped:
  assumes wf: "wf_machine k" and fl: "open_file fid s f t k" "t \<noteq> 2" "t \<noteq> 3" "posix_file U (ofile f) v"
    and args: "registers k ! 4 = a" "sint (registers k ! 5) = int (length ps)" "sint (registers k ! 6) = fid"
    and buf: "mapped k a ps" "distinct ps" "length ps < 2 ^ 31 - 1"
    and c: "v (host (fileSystem k)) = (c, off)" and data: "data = take (length ps) (drop off c)"
  shows "\<exists>k'. handle_SC_Read U k = Ok k'
    \<and> registers k' = advanced ((registers k)[2 := word_of_int (int (length data))])
    \<and> string_at k' a (copied (length data) data) \<and> v (host (fileSystem k')) = (c, off + length data)
    \<and> (\<forall>q. q \<notin> set ps \<longrightarrow> mainMemory k' ! q = mainMemory k ! q)"
proof -
  note o = open_fileD [OF fl(1)]
  have s: "the_slot fid k = Ok s" "fileOpen s = Ptr f" "stype s = 0" using fl(1) by (auto simp: open_file_def)
  let ?f = "f\<lparr>currentOffset := int off\<rparr>"
  obtain fs1 where fs1: "CurrentPos_of U fid k = Ok (int off, k\<lparr>fileSystem := fs1\<rparr>)" "v (host fs1) = (c, off)"
      "the_slot fid (k\<lparr>fileSystem := fs1\<rparr>) = Ok (s\<lparr>fileOpen := Ptr ?f\<rparr>)"
    using CurrentPos_open [OF s(1,2) fl(4)] c by auto
  let ?k1 = "k\<lparr>fileSystem := fs1\<rparr>"
  have m1: "mapped ?k1 a ps" using buf(1) by (simp add: mapped_def)
  obtain b k2 where k2: "User2System a (int (length ps)) ?k1 = Ok (b, k2)" "remapped (mainMemory ?k1) ?k1 k2"
    using User2System_mapped [OF _ m1 buf(3)] wf by auto
  note r2 = remapped_simps [OF k2(2)]
  have s2: "the_slot fid k2 = Ok (s\<lparr>fileOpen := Ptr ?f\<rparr>)" using fs1(3) r2(3) the_slot_cong by metis
  have "posix_file U (ofile ?f) v" using fl(4) by simp
  then obtain h3 where h3: "OpenFile_ReadAt U ?f (int (length ps)) (int off) (host fs1) = Ok ((int (length data), data), h3)"
      "v h3 = (c, off + length data)"
    using ReadAt_posix [of U ?f v "int off" "int (length ps)" "host fs1"] fs1(2) data by (auto simp: Let_def)
  let ?f3 = "f\<lparr>currentOffset := int off + int (length data)\<rparr>"
  obtain fs3 where fs3: "file_call fid (\<lambda>f. OpenFile_Read U f (int (length ps))) k2
      = Ok ((int (length data), data), k2\<lparr>fileSystem := fs3\<rparr>)" "host fs3 = h3"
      "the_slot fid (k2\<lparr>fileSystem := fs3\<rparr>) = Ok (s\<lparr>fileOpen := Ptr ?f3\<rparr>)"
    using file_call_Ok [OF s2, of ?f "\<lambda>f. OpenFile_Read U f (int (length ps))"] h3(1) r2(3)
    by (auto simp: OpenFile_Read_def)
  let ?k3 = "k2\<lparr>fileSystem := fs3\<rparr>"
  have start: "handle_SC_Read U k = (if 0 < int (length data)
     then rbind (CurrentPos_of U fid ?k3) (\<lambda>(newPosition, k).
          rbind (System2User a (newPosition - int off) (data @ drop (length data) b) k) (\<lambda>(_, k).
          return_value (newPosition - int off) k))
     else return_value 0 ?k3)"
    using o s(1,3) fl(2,3) args fs1(1) k2(1) fs3(1) wf by (simp add: handle_SC_Read_def reg_Ok reg_int_Ok)
  have wf3: "wf_machine ?k3" using r2(4) by simp
  show ?thesis
  proof (cases "data = []")
    case True
    then show ?thesis
      using start wf3 r2 fs3(2) h3(2) by (simp add: return_value_eq string_at_def copied_def c_string_def)
  next
    case False
    obtain fs4 where fs4: "CurrentPos_of U fid ?k3 = Ok (int off + int (length data), ?k3\<lparr>fileSystem := fs4\<rparr>)"
        "v (host fs4) = (c, off + length data)"
      using CurrentPos_open [OF fs3(3), of ?f3 U v] fl(4) fs3(2) h3(2) by auto
    let ?k4 = "?k3\<lparr>fileSystem := fs4\<rparr>"
    let ?t = "copied (length data) data"
    have eq: "copied (length data) (data @ x) = ?t" for x by (simp add: copied_def)
    have "length ?t \<le> length data"
      by (simp add: copied_def c_string_def Let_def length_takeWhile_le)
    then have lt: "length ?t \<le> length ps" using data by simp
    have m4: "mapped ?k4 a (take (length ?t) ps)"
      using buf(1) lt by (simp add: mapped_def r2(5,6))
    obtain k5 mem where k5: "System2User a (int (length data)) (data @ drop (length data) b) ?k4
        = Ok (int (length (take (length ?t) ps)), k5)" "remapped mem ?k4 k5" "string_at k5 a ?t"
        "\<forall>q. q \<notin> set (take (length ?t) ps) \<longrightarrow> mem ! q = mainMemory ?k4 ! q"
      using System2User_copies [OF _ m4, of "length data" "data @ drop (length data) b"] wf3 buf(2) lt eq
      by auto
    note r5 = remapped_simps [OF k5(2)]
    have "handle_SC_Read U k = Ok (answer (int (length data)) k5)"
      using start False fs4(1) k5(1) r5(4) by (simp add: return_answer)
    moreover have "mainMemory k5 ! q = mainMemory k ! q" if "q \<notin> set ps" for q
      using that k5(4) r5(1) r2(1) by (auto dest: in_set_takeD)
    ultimately show ?thesis
      using k5(3) r5(2,3) r2(2) fs4(2) by (simp add: answer_def)
  qed
qed


lemma Write_string:
  assumes wf: "wf_machine k" and fl: "open_file fid s f t k" "t = 0 \<or> t = 4" "posix_file U (ofile f) v"
    and args: "registers k ! 4 = a" "sint (registers k ! 5) = int n" "sint (registers k ! 6) = fid"
    and str: "string_at k a u" "0 \<notin> set u" "length u \<le> n" "length u < n \<longrightarrow> string_at k a (u @ [0])"
    and n: "0 < n" "n < 2 ^ 31 - 1"
    and c: "v (host (fileSystem k)) = (c, off)"
  shows "\<exists>k'. handle_SC_Write U k = Ok k'
    \<and> registers k' = advanced ((registers k)[2 := word_of_int (int n)]) \<and> mainMemory k' = mainMemory k
    \<and> v (host (fileSystem k')) = (write_at c off (u @ replicate (n - length u) 0), off + n)"
proof -
  note o = open_fileD [OF fl(1)]
  have s: "the_slot fid k = Ok s" "fileOpen s = Ptr f" "stype s = 0" using fl(1) by (auto simp: open_file_def)
  let ?f = "f\<lparr>currentOffset := int off\<rparr>"
  obtain fs1 where fs1: "CurrentPos_of U fid k = Ok (int off, k\<lparr>fileSystem := fs1\<rparr>)" "v (host fs1) = (c, off)"
      "the_slot fid (k\<lparr>fileSystem := fs1\<rparr>) = Ok (s\<lparr>fileOpen := Ptr ?f\<rparr>)"
    using CurrentPos_open [OF s(1,2) fl(3)] c by auto
  let ?k1 = "k\<lparr>fileSystem := fs1\<rparr>"
  have s1: "string_at ?k1 a u" "length u < n \<longrightarrow> string_at ?k1 a (u @ [0])"
    using str(1,4) by (simp_all add: string_at_def)
  obtain k2 where k2: "User2System a (int n) ?k1 = Ok (u @ replicate (Suc n - length u) 0, k2)"
      "remapped (mainMemory ?k1) ?k1 k2"
    using User2System_string [OF _ s1(1) str(2,3) n(2) s1(2)] wf by auto
  note r2 = remapped_simps [OF k2(2)]
  let ?b = "u @ replicate (n - length u) 0"
  have first: "first_chars (int n) (u @ replicate (Suc n - length u) 0) = Ok ?b"
    using str(3) by (simp add: first_chars_def Suc_diff_le del: replicate_Suc)
  have lb: "length ?b = n" using str(3) by simp
  have s2: "the_slot fid k2 = Ok (s\<lparr>fileOpen := Ptr ?f\<rparr>)" using fs1(3) r2(3) the_slot_cong by metis
  have "posix_file U (ofile ?f) v" using fl(3) by simp
  then obtain h3 where h3: "OpenFile_WriteAt U ?f ?b (int off) (host fs1) = Ok (int n, h3)"
      "v h3 = (write_at c off ?b, off + n)"
    using WriteAt_posix [of U ?f v "int off" ?b "host fs1"] fs1(2) lb by auto
  let ?f3 = "f\<lparr>currentOffset := int off + int n\<rparr>"
  obtain fs3 where fs3: "file_call fid (\<lambda>f. OpenFile_Write U f ?b) k2 = Ok (int n, k2\<lparr>fileSystem := fs3\<rparr>)"
      "host fs3 = h3" "the_slot fid (k2\<lparr>fileSystem := fs3\<rparr>) = Ok (s\<lparr>fileOpen := Ptr ?f3\<rparr>)"
    using file_call_Ok [OF s2, of ?f "\<lambda>f. OpenFile_Write U f ?b"] h3(1) r2(3) by (auto simp: OpenFile_Write_def)
  let ?k3 = "k2\<lparr>fileSystem := fs3\<rparr>"
  obtain fs4 where fs4: "CurrentPos_of U fid ?k3 = Ok (int off + int n, ?k3\<lparr>fileSystem := fs4\<rparr>)"
      "v (host fs4) = (write_at c off ?b, off + n)"
    using CurrentPos_open [OF fs3(3), of ?f3 U v] fl(3) fs3(2) h3(2) by auto
  have "handle_SC_Write U k = Ok (answer (int n) (?k3\<lparr>fileSystem := fs4\<rparr>))"
    using o s(1,3) fl(2) args fs1(1) k2(1) first fs3(1) fs4(1) wf n(1) r2(4)
    by (auto simp add: handle_SC_Write_def reg_Ok reg_int_Ok return_answer)
  then show ?thesis using r2(1,2) fs4(2) by (simp add: answer_def)
qed

text \<open>A kernel whose user memory is one page, with a file open in slot 2 and free slots behind it.\<close>

definition demo_user :: "8 word list \<Rightarrow> int list \<Rightarrow> bytes \<Rightarrow> nat \<Rightarrow> (bytes \<times> nat) Kernel" where
  "demo_user page args c off = \<lparr>
     registers = (replicate NumTotalRegs 0)[2 := word_of_int (args ! 0), 4 := word_of_int (args ! 1),
        5 := word_of_int (args ! 2), 6 := word_of_int (args ! 3)],
     mainMemory = replicate (3 * 128) 0 @ page @ replicate (nat MemorySize - 3 * 128 - length page) 0,
     pageTableMap = \<lparr>numBits = 128, numWords = 4, bwords = [8, 0, 0, 0]\<rparr>, tlb = None,
     pageTable = Some [\<lparr>virtualPage = 0, physicalPage = 3, valid = True, readOnly = False,
        usebit = False, dirty = False\<rparr>], pageTableSize = 1, singleStep = False, status = SystemMode,
     fileSystem = \<lparr>fileSlot = (replicate 20 Null)[2 := Ptr (FileSlot_file (Ptr (OpenFile_type 3 0 [102] 2)))],
       host = (c, off)\<rparr>,
     currentThread = 0, threads = [0 \<mapsto> (Thread_new 0)\<lparr>tstatus := RUNNING, fresh := False\<rparr>],
     threadCount = 1, readyList = [], toBeDestroyed = None, level = IntOn,
     sems = Map.empty, semCount = 0, locks = Map.empty, conds = Map.empty, tableOwner = None,
     pTable = \<lparr>psize = 10, pt_bm = \<lparr>numBits = 10, numWords = 1, bwords = [1]\<rparr>, pcb = replicate 10 None, bmsem = 0\<rparr>,
     sTable = \<lparr>st_bm = \<lparr>numBits = 10, numWords = 1, bwords = [0]\<rparr>, semTab = replicate 10 None\<rparr>,
     startArg = (\<lambda>t. None), conIn = [], conOut = []\<rparr>"

lemma demo_user_wf: "length page \<le> 128 \<Longrightarrow> wf_machine (demo_user page args c off)"
  by (simp add: wf_machine_defs wf_tables_def demo_user_def memory_consts)

lemma demo_user_paddr:
  assumes "unat a < 128"
  shows "paddr (demo_user page args c off) a = Some (384 + unat a)" "writable (demo_user page args c off) a"
proof -
  have d: "a div word_of_int PageSize = 0" using assms by (simp add: PageSize_def word_arith_nat_div)
  have "entry_of (demo_user page args c off) a = Some \<lparr>virtualPage = 0, physicalPage = 3, valid = True,
      readOnly = False, usebit = False, dirty = False\<rparr>"
    unfolding entry_of_def d by (simp add: find_entry_def entries_def demo_user_def)
  then show "paddr (demo_user page args c off) a = Some (384 + unat a)" "writable (demo_user page args c off) a"
    using assms by (simp_all add: paddr_def writable_def)
qed

lemma demo_user_mapped:
  assumes "a + n \<le> 128"
  shows "mapped (demo_user page args c off) (of_nat a) [384 + a..<384 + a + n]"
  unfolding mapped_def
proof (intro allI impI)
  fix j assume "j < length [384 + a..<384 + a + n]"
  then have j: "j < n" by simp
  have u: "unat (of_nat a + of_nat j :: 32 word) = a + j"
    using assms j by (simp add: unat_of_nat flip: of_nat_add)
  then have "unat (of_nat a + of_nat j :: 32 word) < 128" using assms j by linarith
  from demo_user_paddr [OF this] u j
  show "paddr (demo_user page args c off) (of_nat a + of_nat j) = Some ([384 + a..<384 + a + n] ! j)
      \<and> writable (demo_user page args c off) (of_nat a + of_nat j)"
    by simp
qed

lemma demo_user_string:
  assumes "a + length s \<le> 128" "take (length s) (drop a (page @ replicate (128 - length page) 0)) = s"
    "length page \<le> 128"
  shows "string_at (demo_user page args c off) (of_nat a) s"
  unfolding string_at_def
proof (intro allI impI)
  fix j assume j: "j < length s"
  have m: "mainMemory (demo_user page args c off) = replicate 384 0 @ (page @ replicate (128 - length page) 0)
      @ replicate (nat MemorySize - 512) 0"
    using assms(3) by (simp add: demo_user_def memory_consts flip: replicate_add)
  have "s ! j = (page @ replicate (128 - length page) 0) ! (a + j)"
  proof -
    have "take n (drop a l) ! j = l ! (a + j)" if "j < n" "a \<le> length l" for l :: bytes and n
      using that by simp
    from this [OF j, of "page @ replicate (128 - length page) 0"] show ?thesis
      using assms by simp
  qed
  moreover have "mainMemory (demo_user page args c off) ! (384 + a + j) = (page @ replicate (128 - length page) 0) ! (a + j)"
  proof -
    have "(replicate 384 0 @ X @ Y) ! (384 + n) = X ! n" if "n < length X" for X Y :: bytes and n
      using that by (simp add: nth_append)
    from this [of "a + j" "page @ replicate (128 - length page) 0"] show ?thesis
      unfolding m using assms(1,3) j by (simp add: add.assoc)
  qed
  moreover have "paddr (demo_user page args c off) (of_nat a + of_nat j) = Some (384 + a + j)"
    using demo_user_mapped [OF assms(1), of page args c off] j by (simp add: mapped_def)
  ultimately show "\<exists>p. paddr (demo_user page args c off) (of_nat a + of_nat j) = Some p
      \<and> mainMemory (demo_user page args c off) ! p = s ! j" by simp
qed

lemma demo_user_file:
  "open_file 2 (FileSlot_file (Ptr (OpenFile_type 3 0 [102] 2))) (OpenFile_type 3 0 [102] 2) 0 (demo_user page args c off)"
  by (simp add: open_file_def MaxFileOpen_def the_slot_def slot_at_def demo_user_def FileSlot_file_def OpenFile_type_def)

section \<open>Properties\<close>





text \<open>\<open>Read\<close>, \<open>Write\<close>, \<open>Seek\<close> and \<open>Close\<close> with a descriptor that is out of range or not open answer
  -1 and change nothing but the result register and the program counter; so does \<open>Close\<close> of the
  two console descriptors.\<close>

theorem Bad_descriptor_refused:
  assumes "wf_machine k" "wf_slots (fileSystem k)"
  shows "(no_file k (sint (registers k ! 6)) \<longrightarrow> handle_SC_Read U k = Ok (answer (-1) k)
            \<and> handle_SC_Write U k = Ok (answer (-1) k))
    \<and> (no_file k (sint (registers k ! 5)) \<longrightarrow> handle_SC_Seek U k = Ok (answer (-1) k))
    \<and> (no_file k (sint (registers k ! 4)) \<or> sint (registers k ! 4) < 2
         \<longrightarrow> handle_SC_Close U k = Ok (answer (-1) k))"
  using assms
  by (auto simp: no_file_def handle_SC_Read_def handle_SC_Write_def handle_SC_Seek_def handle_SC_Close_def
      reg_Ok reg_int_Ok return_answer slot_at_def wf_slots_def)

theorem Bad_descriptor_refused_witness:
  "handle_SC_Read one_file (demo_user [] [7, 0, 4, -1] [] 0) = Ok (answer (-1) (demo_user [] [7, 0, 4, -1] [] 0))
   \<and> handle_SC_Close one_file (demo_user [] [10, 1, 0, 0] [] 0) = Ok (answer (-1) (demo_user [] [10, 1, 0, 0] [] 0))"
proof -
  have a: "wf_machine (demo_user [] x [] 0)" "wf_slots (fileSystem (demo_user [] x [] 0))" for x
    by (simp add: demo_user_wf) (simp add: demo_user_def wf_slots_def MaxFileOpen_def)
  have "no_file (demo_user [] [7, 0, 4, -1] [] 0) (sint (registers (demo_user [] [7, 0, 4, -1] [] 0) ! 6))"
      "sint (registers (demo_user [] [10, 1, 0, 0] [] 0) ! 4) < 2"
    by (simp_all add: no_file_def demo_user_def NumTotalRegs_def)
  with Bad_descriptor_refused [OF a, of "[7, 0, 4, -1]" one_file]
    Bad_descriptor_refused [OF a, of "[10, 1, 0, 0]" one_file] show ?thesis by blast
qed


text \<open>A string passes the border between kernel and user memory unchanged: what \<open>System2User\<close> has
  written with its terminating zero, \<open>User2System\<close> reads back, filled up with zeros to the size of its
  buffer; no byte outside the destination is touched.\<close>

theorem String_round_trip:
  fixes k :: "('a, 'b) Kernel_scheme"
  assumes "wf_machine k" "mapped k a ps" "distinct ps" "length ps = Suc (length u)" "0 \<notin> set u"
    and "length u \<le> n" "n < 2 ^ 31 - 1"
  shows "\<exists>k1 k2. System2User a (int (Suc (length u))) (u @ [0]) k = Ok (int (Suc (length u)), k1)
    \<and> User2System a (int n) k1 = Ok (u @ replicate (Suc n - length u) 0, k2)
    \<and> (\<forall>q. q \<notin> set ps \<longrightarrow> mainMemory k2 ! q = mainMemory k ! q)"
proof -
  have t: "copied (Suc (length u)) (u @ [0]) = u @ [0]" using copied_string [OF assms(5), of "[]"] by simp
  obtain k1 mem where k1: "System2User a (int (Suc (length u))) (u @ [0]) k = Ok (int (length ps), k1)"
      "remapped mem k k1" "string_at k1 a (u @ [0])" "\<forall>q. q \<notin> set ps \<longrightarrow> mem ! q = mainMemory k ! q"
    using System2User_copies [OF assms(1-3), of "Suc (length u)" "u @ [0]"] assms(4) t by auto
  note r1 = remapped_simps [OF k1(2)]
  have "string_at k1 a u" using k1(3) by (auto simp: string_at_def nth_append split: if_splits dest: less_SucI)
  then obtain k2 where "User2System a (int n) k1 = Ok (u @ replicate (Suc n - length u) 0, k2)"
      "remapped (mainMemory k1) k1 k2"
    using User2System_string [OF r1(4) _ assms(5-7)] k1(3) by auto
  then show ?thesis using k1(1,4) r1(1) remapped_simps(1) assms(4) by fastforce
qed

theorem String_round_trip_witness:
  "\<exists>k1 k2. System2User 8 3 [104, 105, 0] (demo_user [] [0, 0, 0, 0] [] 0) = Ok (3, k1)
     \<and> User2System 8 4 k1 = Ok ([104, 105, 0, 0, 0], k2)"
proof -
  let ?k = "demo_user [] [0, 0, 0, 0] [] 0"
  have m: "mapped ?k 8 [392, 393, 394]"
    using demo_user_mapped [of 8 3 "[]" "[0, 0, 0, 0]" "[]" 0] by (simp add: upt_rec)
  have wf: "wf_machine ?k" by (simp add: demo_user_wf)
  have "\<exists>k1 k2. System2User 8 (int (Suc (length [104::8 word, 105]))) ([104, 105] @ [0]) ?k
        = Ok (int (Suc (length [104::8 word, 105])), k1)
      \<and> User2System 8 (int 4) k1 = Ok ([104, 105] @ replicate (Suc 4 - length [104::8 word, 105]) 0, k2)
      \<and> (\<forall>q. q \<notin> set [392, 393, 394] \<longrightarrow> mainMemory k2 ! q = mainMemory ?k ! q)"
    by (rule String_round_trip [OF wf m]) simp_all
  then show ?thesis by (simp add: numeral_eq_Suc) blast
qed

text \<open>C22: The \<open>Write\<close> call on a file: the bytes of the user's buffer up to its first zero go to the file at
  its current position, the rest of the \<open>n\<close> bytes is written as zeros whatever the buffer holds there;
  the call answers \<open>n\<close>, the position moves by \<open>n\<close>, and memory does not change.\<close>

theorem SC_Write_stores:
  assumes "wf_machine k" "open_file fid s f t k" "t = 0 \<or> t = 4" "posix_file U (ofile f) v"
    and "registers k ! 4 = a" "sint (registers k ! 5) = int n" "sint (registers k ! 6) = fid"
    and "string_at k a u" "0 \<notin> set u" "length u \<le> n" "length u < n \<longrightarrow> string_at k a (u @ [0])"
    and "0 < n" "n < 2 ^ 31 - 1" "v (host (fileSystem k)) = (c, off)"
  shows "\<exists>k'. handle_SC_Write U k = Ok k'
    \<and> registers k' = advanced ((registers k)[2 := word_of_int (int n)]) \<and> mainMemory k' = mainMemory k
    \<and> v (host (fileSystem k')) = (write_at c off (u @ replicate (n - length u) 0), off + n)"
  by (rule Write_string [OF assms])

theorem SC_Write_stores_witness:
  "\<exists>k'. handle_SC_Write one_file (demo_user [104, 105, 0, 9] [8, 0, 4, 2] [1] 1) = Ok k'
     \<and> host (fileSystem k') = ([1, 104, 105, 0, 0], 5)"
proof -
  let ?k = "demo_user [104, 105, 0, 9] [8, 0, 4, 2] [1] 1"
  have wf: "wf_machine ?k" by (simp add: demo_user_wf)
  have s: "string_at ?k 0 [104, 105]" "string_at ?k 0 ([104, 105] @ [0])"
    using demo_user_string [of 0 "[104, 105]" "[104, 105, 0, 9]"] demo_user_string [of 0 "[104, 105, 0]" "[104, 105, 0, 9]"]
    by simp_all
  have r: "registers ?k ! 4 = 0" "sint (registers ?k ! 5) = int 4" "sint (registers ?k ! 6) = 2"
      "host (fileSystem ?k) = ([1], 1)"
    by (simp_all add: demo_user_def NumTotalRegs_def)
  have "\<exists>k'. handle_SC_Write one_file ?k = Ok k'
    \<and> registers k' = advanced ((registers ?k)[2 := word_of_int (int 4)]) \<and> mainMemory k' = mainMemory ?k
    \<and> host (fileSystem k') = (write_at [1] 1 ([104, 105] @ replicate (4 - length [104::8 word, 105]) 0), 1 + 4)"
    by (rule SC_Write_stores [OF wf demo_user_file _ _ r(1-3) s(1), where v = "\<lambda>h. h"])
       (use s(2) r(4) in \<open>simp_all add: one_file_posix\<close>)
  moreover have "write_at [1] 1 ([104, 105] @ replicate (4 - length [104::8 word, 105]) 0) = [1, 104, 105, 0, 0]"
    by (simp add: write_at_def numeral_eq_Suc)
  ultimately show ?thesis by auto
qed

text \<open>C21: The \<open>Read\<close> call on a file: it answers the number of bytes that the file has from its position on,
  at most as many as were asked for, and moves the position by that number; what arrives in the user's
  buffer are these bytes only up to and with the first zero among them. No byte of memory outside the
  buffer changes.\<close>

theorem SC_Read_delivers:
  assumes "wf_machine k" "open_file fid s f t k" "t \<noteq> 2" "t \<noteq> 3" "posix_file U (ofile f) v"
    and "registers k ! 4 = a" "sint (registers k ! 5) = int (length ps)" "sint (registers k ! 6) = fid"
    and "mapped k a ps" "distinct ps" "length ps < 2 ^ 31 - 1"
    and "v (host (fileSystem k)) = (c, off)" "data = take (length ps) (drop off c)"
  shows "\<exists>k'. handle_SC_Read U k = Ok k'
    \<and> registers k' = advanced ((registers k)[2 := word_of_int (int (length data))])
    \<and> string_at k' a (copied (length data) data) \<and> v (host (fileSystem k')) = (c, off + length data)
    \<and> (\<forall>q. q \<notin> set ps \<longrightarrow> mainMemory k' ! q = mainMemory k ! q)"
  by (rule Read_mapped [OF assms])

theorem SC_Read_delivers_witness:
  "\<exists>k'. handle_SC_Read one_file (demo_user [7, 7, 7, 7] [7, 0, 4, 2] [1, 104, 0, 105] 1) = Ok k'
     \<and> registers k' ! 2 = 3 \<and> string_at k' 0 [104, 0] \<and> host (fileSystem k') = ([1, 104, 0, 105], 4)"
proof -
  let ?k = "demo_user [7, 7, 7, 7] [7, 0, 4, 2] [1, 104, 0, 105] 1"
  have wf: "wf_machine ?k" by (simp add: demo_user_wf)
  have m: "mapped ?k 0 [384, 385, 386, 387]"
    using demo_user_mapped [of 0 4 "[7, 7, 7, 7]"] by (simp add: upt_rec)
  have r: "registers ?k ! 4 = 0" "sint (registers ?k ! 5) = int (length [384::nat, 385, 386, 387])"
      "sint (registers ?k ! 6) = 2" "host (fileSystem ?k) = ([1, 104, 0, 105], 1)" "length (registers ?k) = 40"
    by (simp_all add: demo_user_def NumTotalRegs_def)
  have c: "copied 3 [104, 0, 105] = [104, 0]" by (simp add: copied_def c_string_def Let_def)
  have "\<exists>k'. handle_SC_Read one_file ?k = Ok k'
    \<and> registers k' = advanced ((registers ?k)[2 := word_of_int (int (length [104::8 word, 0, 105]))])
    \<and> string_at k' 0 (copied (length [104::8 word, 0, 105]) [104, 0, 105])
    \<and> host (fileSystem k') = ([1, 104, 0, 105], 1 + length [104::8 word, 0, 105])
    \<and> (\<forall>q. q \<notin> set [384, 385, 386, 387] \<longrightarrow> mainMemory k' ! q = mainMemory ?k ! q)"
    by (rule SC_Read_delivers [OF wf demo_user_file _ _ _ r(1-3) m, where v = "\<lambda>h. h"])
       (use r(4) in \<open>simp_all add: one_file_posix\<close>)
  then obtain k' where k': "handle_SC_Read one_file ?k = Ok k'"
      "registers k' = advanced ((registers ?k)[2 := 3])" "string_at k' 0 [104, 0]"
      "host (fileSystem k') = ([1, 104, 0, 105], 4)"
    using c by (auto simp: numeral_3_eq_3)
  have "registers k' ! 2 = 3" using k'(2) r(5) by (simp add: advanced_def)
  with k' show ?thesis by blast
qed

text \<open>\<open>Open\<close> of a file that the host does not have gives the program a descriptor all the same (the
  handler tests the result of \<open>new\<close>, which is never null), and the first \<open>Read\<close> or \<open>Write\<close> on that
  descriptor follows a null pointer.\<close>

theorem Open_of_missing_file:
  fixes k :: "('a, 'b) Kernel_scheme"
  assumes "wf_machine k" "wf_slots (fileSystem k)" "sint (registers k ! 5) \<in> {0, 1}"
    and "User2System (registers k ! 4) MaxFileLength k = Ok (name, k1)" "remapped (mainMemory k) k k1"
    and "FindFreeSlot (fileSystem k) = Ok slot" "slot \<noteq> -1"
    and "u_open U (c_string name) False (host (fileSystem k)) = (-1, h)"
  shows "\<exists>k2. handle_SC_Open U k = Ok k2 \<and> registers k2 = advanced ((registers k)[2 := word_of_int slot])
    \<and> slot_at slot k2 = Ok (Ptr (FileSlot_file Null))
    \<and> (\<forall>k3 :: ('a, 'b) Kernel_scheme. wf_machine k3 \<and> fileSystem k3 = fileSystem k2 \<and> sint (registers k3 ! 6) = slot
          \<longrightarrow> handle_SC_Read U k3 = Fault NullDereference \<and> handle_SC_Write U k3 = Fault NullDereference)"
proof -
  note r1 = remapped_simps [OF assms(5)]
  note i = FindFreeSlot_Some [OF assms(2,6,7)]
  let ?fs = "(fileSystem k)\<lparr>host := h, fileSlot := (fileSlot (fileSystem k))[nat slot := Ptr (FileSlot_file Null)]\<rparr>"
  have len: "nat slot < length (fileSlot (fileSystem k))" using i assms(2) by (simp add: wf_slots_def)
  have "handle_SC_Open U k = return_value slot (k1\<lparr>fileSystem := ?fs\<rparr>)"
    using assms(1,3,4,6-8) r1(3) i len
    by (auto simp: handle_SC_Open_def reg_Ok reg_int_Ok fs_call_def FS_Open_type_def OpenForReadWrite_def set_slot_def)
  then have "handle_SC_Open U k = Ok (answer slot (k1\<lparr>fileSystem := ?fs\<rparr>))"
    using r1(4) by (simp add: return_answer)
  moreover have "slot_at slot k3 = Ok (Ptr (FileSlot_file Null))" if "fileSystem k3 = ?fs" for k3 :: "('a, 'b) Kernel_scheme"
    using that i len by (simp add: slot_at_def)
  moreover have "handle_SC_Read U k3 = Fault NullDereference \<and> handle_SC_Write U k3 = Fault NullDereference"
    if "wf_machine k3" "fileSystem k3 = ?fs" "sint (registers k3 ! 6) = slot" for k3 :: "('a, 'b) Kernel_scheme"
    using that i len
    by (simp add: handle_SC_Read_def handle_SC_Write_def reg_Ok reg_int_Ok slot_at_def the_slot_def
        file_type_def the_file_def FileSlot_file_def)
  ultimately show ?thesis using r1(2) by (simp add: answer_def)
qed

theorem Open_of_missing_file_witness:
  "\<exists>k2. handle_SC_Open (one_file\<lparr>u_open := \<lambda>name trunc h. (-1, h)\<rparr>) (demo_user [102] [6, 0, 0, 0] [] 0) = Ok k2
     \<and> slot_at 3 k2 = Ok (Ptr (FileSlot_file Null))"
proof -
  let ?k = "demo_user [102] [6, 0, 0, 0] [] 0" and ?U = "one_file\<lparr>u_open := \<lambda>name trunc h. (-1, h)\<rparr>"
  have wf: "wf_machine ?k" by (simp add: demo_user_wf)
  have sl: "wf_slots (fileSystem ?k)" by (simp add: demo_user_def wf_slots_def MaxFileOpen_def)
  have m: "mapped ?k 0 [384..<416]" using demo_user_mapped [of 0 32 "[102]"] by simp
  have r: "registers ?k ! 4 = 0" "sint (registers ?k ! 5) \<in> {0, 1}" by (simp_all add: demo_user_def NumTotalRegs_def)
  obtain name k1 where u: "User2System (registers ?k ! 4) MaxFileLength ?k = Ok (name, k1)"
      "remapped (mainMemory ?k) ?k k1"
    using User2System_mapped [OF wf m] r(1) by (auto simp: MaxFileLength_def)
  have f: "FindFreeSlot (fileSystem ?k) = Ok 3"
    unfolding FindFreeSlot_def reverseFD_def
    by (subst FindFreeSlot_from.simps, simp add: demo_user_def MaxFileOpen_def,
        subst FindFreeSlot_from.simps, simp add: MaxFileOpen_def nth_list_update)
  have "u_open ?U (c_string name) False (host (fileSystem ?k)) = (-1, host (fileSystem ?k))" by simp
  from Open_of_missing_file [OF wf sl r(2) u f _ this] show ?thesis by auto
qed

end
