(* ===== verification/Interrupts.thy ===== *)
theory Interrupts
  imports Threads Linked_List
begin

text \<open>
  Simulated time: \<^verbatim>\<open>machine/interrupt.h\<close>, \<^verbatim>\<open>machine/interrupt.cc\<close>, the statistics of
  \<^verbatim>\<open>machine/stats.h\<close>, the timer device (\<^verbatim>\<open>machine/timer.cc\<close>) with its alarm
  (\<^verbatim>\<open>threads/alarm.cc\<close>), and the loop \<open>Machine::Run\<close> of \<^verbatim>\<open>machine/mipssim.cc\<close>.

  The state extends the kernel of the theory \<open>Threads\<close> by the statistics, the list of pending
  interrupts and the flags of \<open>Interrupt\<close>. What a device does when its interrupt fires is the argument
  \<open>cb\<close> of the operations here, the method \<open>CallBack\<close> of the object that was scheduled; what the clock
  relies on of it is the locale \<open>device_handlers\<close>, interpreted on the devices of the repository in
  the theory \<open>Devices\<close>.

  Times are mathematical integers: the model ends where \<open>totalTicks\<close> would leave 32 bits.
\<close>

section \<open>Data\<close>

record Statistics =
  totalTicks :: int
  idleTicks :: int
  systemTicks :: int
  userTicks :: int
  numDiskReads :: int
  numDiskWrites :: int
  numConsoleCharsRead :: int
  numConsoleCharsWritten :: int
  numPageFaults :: int
  numPacketsSent :: int
  numPacketsRecvd :: int

definition Statistics_new :: Statistics where
  "Statistics_new = \<lparr>totalTicks = 0, idleTicks = 0, systemTicks = 0, userTicks = 0, numDiskReads = 0,
     numDiskWrites = 0, numConsoleCharsRead = 0, numConsoleCharsWritten = 0, numPageFaults = 0,
     numPacketsSent = 0, numPacketsRecvd = 0\<rparr>"

definition UserTick :: int where "UserTick = 1"
definition SystemTick :: int where "SystemTick = 10"
definition RotationTime :: int where "RotationTime = 500"
definition SeekTime :: int where "SeekTime = 500"
definition ConsoleTime :: int where "ConsoleTime = 100"
definition NetworkTime :: int where "NetworkTime = 100"
definition TimerTicks :: int where "TimerTicks = 100"

lemmas tick_consts = UserTick_def SystemTick_def RotationTime_def SeekTime_def ConsoleTime_def
  NetworkTime_def TimerTicks_def

datatype IntType = TimerInt | DiskInt | ConsoleWriteInt | ConsoleReadInt | NetworkSendInt | NetworkRecvInt

text \<open>The objects of the machine emulation that are called back; the kernel has one of each.\<close>

datatype CallBackObj = TimerObj | DiskObj | ConsoleOutObj | ConsoleInObj | NetOutObj | NetInObj

record PendingInterrupt =
  callOnInterrupt :: CallBackObj
  due :: int
  itype :: IntType

definition PendingCompare :: "PendingInterrupt \<Rightarrow> PendingInterrupt \<Rightarrow> int" where
  "PendingCompare x y = (if due x < due y then -1 else if due x > due y then 1 else 0)"

record Timer =
  randomize :: bool
  disable :: bool

record 'h ClockKernel = "'h ThreadKernel" +
  stats :: Statistics
  pending :: "PendingInterrupt list"
  inHandler :: bool
  yieldOnReturn :: bool
  timer :: Timer

type_synonym ('h, 'k) callback =
  "CallBackObj \<Rightarrow> ('h, 'k) ClockKernel_scheme \<Rightarrow> ('h, 'k) ClockKernel_scheme result"

abbreviation "now k \<equiv> totalTicks (stats k)"

section \<open>Interrupts\<close>

definition Interrupt_new :: "('h, 'k) ClockKernel_scheme \<Rightarrow> ('h, 'k) ClockKernel_scheme" where
  "Interrupt_new k =
     k\<lparr>level := IntOff, pending := [], inHandler := False, yieldOnReturn := False, status := SystemMode\<rparr>"

definition Schedule ::
  "CallBackObj \<Rightarrow> int \<Rightarrow> IntType \<Rightarrow> ('h, 'k) ClockKernel_scheme \<Rightarrow> ('h, 'k) ClockKernel_scheme result" where
  "Schedule toCall fromNow ty k =
     (let w = now k + fromNow; toOccur = \<lparr>callOnInterrupt = toCall, due = w, itype = ty\<rparr> in
      ASSERT (fromNow > 0) (Ok (k\<lparr>pending := sl_insert PendingCompare toOccur (pending k)\<rparr>)))"

text \<open>
  The loop of \<open>CheckIfDue\<close>. Whether it ends depends on the handlers, so that it is a partial
  function: \<open>None\<close> is a loop that never ends.
\<close>

partial_function (option) fire_loop ::
  "('h, 'k) callback \<Rightarrow> ('h, 'k) ClockKernel_scheme \<Rightarrow> ('h, 'k) ClockKernel_scheme result option" where
  "fire_loop cb k =
     (case pending k of
        [] \<Rightarrow> Some (Fault AssertFailed)
      | nxt # rest \<Rightarrow>
          (case cb (callOnInterrupt nxt) (k\<lparr>pending := rest\<rparr>) of
             Fault f \<Rightarrow> Some (Fault f)
           | Ok k' \<Rightarrow>
               if pending k' \<noteq> [] \<and> due (hd (pending k')) \<le> now k' then fire_loop cb k'
               else Some (Ok k')))"

definition CheckIfDue ::
  "('h, 'k) callback \<Rightarrow> bool \<Rightarrow> ('h, 'k) ClockKernel_scheme \<Rightarrow> (bool \<times> ('h, 'k) ClockKernel_scheme) result"
where
  "CheckIfDue cb advanceClock k =
     ASSERT (level k = IntOff)
     (case pending k of
        [] \<Rightarrow> Ok (False, k)
      | nxt # _ \<Rightarrow>
          if due nxt > now k \<and> \<not> advanceClock then Ok (False, k)
          else
            let k = (if due nxt > now k
                     then k\<lparr>stats := (stats k)\<lparr>idleTicks := idleTicks (stats k) + (due nxt - now k),
                                               totalTicks := due nxt\<rparr>\<rparr>
                     else k) in
            rbind (DelayedLoad k 0 0) (\<lambda>k.
            case fire_loop cb (k\<lparr>inHandler := True\<rparr>) of
              None \<Rightarrow> Fault Diverges
            | Some r \<Rightarrow> rbind r (\<lambda>k. Ok (True, k\<lparr>inHandler := False\<rparr>))))"

definition YieldOnReturn :: "('h, 'k) ClockKernel_scheme \<Rightarrow> ('h, 'k) ClockKernel_scheme result" where
  "YieldOnReturn k = ASSERT (inHandler k) (Ok (k\<lparr>yieldOnReturn := True\<rparr>))"

definition advance_ticks :: "('h, 'k) ClockKernel_scheme \<Rightarrow> ('h, 'k) ClockKernel_scheme" where
  "advance_ticks k =
     (if status k = SystemMode
      then k\<lparr>stats := (stats k)\<lparr>totalTicks := now k + SystemTick,
                                systemTicks := systemTicks (stats k) + SystemTick\<rparr>\<rparr>
      else k\<lparr>stats := (stats k)\<lparr>totalTicks := now k + UserTick,
                                userTicks := userTicks (stats k) + UserTick\<rparr>\<rparr>)"

text \<open>
  \<open>OneTick\<close> up to its call of \<open>Yield\<close>: it returns the status to restore when the timer asked for a
  context switch.
\<close>

definition OneTick_enter ::
  "('h, 'k) callback \<Rightarrow> ('h, 'k) ClockKernel_scheme
   \<Rightarrow> (MachineStatus option \<times> ('h, 'k) ClockKernel_scheme) result" where
  "OneTick_enter cb k =
     (let oldStatus = status k; k = (advance_ticks k)\<lparr>level := IntOff\<rparr> in
      rbind (CheckIfDue cb False k) (\<lambda>(_, k).
      let k = k\<lparr>level := IntOn\<rparr> in
      if yieldOnReturn k then Ok (Some oldStatus, k\<lparr>yieldOnReturn := False, status := SystemMode\<rparr>)
      else Ok (None, k)))"

text \<open>
  The whole \<open>OneTick\<close>. \<open>Yield\<close> restores the interrupt level when there is no other thread to run, and
  that is a call of \<open>SetLevel\<close> with a tick of its own. When there is one, the processor goes to that
  thread: the result names what this thread has left to do when it runs again, to restore the level
  and the status.
\<close>

datatype ticked = Same | Switched MachineStatus IntStatus

partial_function (option) OneTick_rec ::
  "('h, 'k) callback \<Rightarrow> ('h, 'k) ClockKernel_scheme
   \<Rightarrow> (ticked \<times> ('h, 'k) ClockKernel_scheme) result option" where
  "OneTick_rec cb k =
     (case OneTick_enter cb k of
        Fault f \<Rightarrow> Some (Fault f)
      | Ok (y, k) \<Rightarrow>
          (case y of
             None \<Rightarrow> Some (Ok (Same, k))
           | Some oldStatus \<Rightarrow>
               (case Thread_Yield k of
                  Fault f \<Rightarrow> Some (Fault f)
                | Ok (switched, oldLevel, k) \<Rightarrow>
                    if switched then Some (Ok (Switched oldStatus oldLevel, k))
                    else if oldLevel = IntOn
                    then Option.bind (OneTick_rec cb k) (\<lambda>r. Some (rbind r (\<lambda>(y, k).
                           case y of Same \<Rightarrow> Ok (Same, k\<lparr>status := oldStatus\<rparr>)
                           | Switched s l \<Rightarrow> Ok (Switched oldStatus l, k))))
                    else Some (Ok (Same, k\<lparr>status := oldStatus\<rparr>)))))"

definition OneTick ::
  "('h, 'k) callback \<Rightarrow> ('h, 'k) ClockKernel_scheme \<Rightarrow> (ticked \<times> ('h, 'k) ClockKernel_scheme) result" where
  "OneTick cb k = (case OneTick_rec cb k of None \<Rightarrow> Fault Diverges | Some r \<Rightarrow> r)"

definition Interrupt_SetLevel ::
  "('h, 'k) callback \<Rightarrow> IntStatus \<Rightarrow> ('h, 'k) ClockKernel_scheme
   \<Rightarrow> (IntStatus \<times> ticked \<times> ('h, 'k) ClockKernel_scheme) result" where
  "Interrupt_SetLevel cb lv k =
     ASSERT (lv = IntOff \<or> \<not> inHandler k)
     (let (old, k) = SetLevel lv k in
      if lv = IntOn \<and> old = IntOff then rbind (OneTick cb k) (\<lambda>(y, k). Ok (old, y, k))
      else Ok (old, Same, k))"

definition Idle :: "('h, 'k) callback \<Rightarrow> ('h, 'k) ClockKernel_scheme \<Rightarrow> ('h, 'k) ClockKernel_scheme result" where
  "Idle cb k =
     rbind (CheckIfDue cb True (k\<lparr>status := IdleMode\<rparr>)) (\<lambda>(fired, k).
     if fired then Ok (k\<lparr>status := SystemMode\<rparr>) else Fault Halted)"

section \<open>The timer and the alarm\<close>

definition SetInterrupt ::
  "('h \<Rightarrow> nat \<times> 'h) \<Rightarrow> ('h, 'k) ClockKernel_scheme \<Rightarrow> ('h, 'k) ClockKernel_scheme result" where
  "SetInterrupt RandomNumber k =
     (if \<not> disable (timer k)
      then let (delay, k) =
             (if randomize (timer k)
              then let (r, h) = RandomNumber (host (fileSystem k)) in
                   (1 + int r mod (TimerTicks * 2), k\<lparr>fileSystem := (fileSystem k)\<lparr>host := h\<rparr>\<rparr>)
              else (TimerTicks, k)) in
           Schedule TimerObj delay TimerInt k
      else Ok k)"

definition Alarm_CallBack :: "('h, 'k) ClockKernel_scheme \<Rightarrow> ('h, 'k) ClockKernel_scheme result" where
  "Alarm_CallBack k = (if status k \<noteq> IdleMode then YieldOnReturn k else Ok k)"

definition Timer_CallBack ::
  "('h \<Rightarrow> nat \<times> 'h) \<Rightarrow> ('h, 'k) ClockKernel_scheme \<Rightarrow> ('h, 'k) ClockKernel_scheme result" where
  "Timer_CallBack RandomNumber k = rbind (Alarm_CallBack k) (SetInterrupt RandomNumber)"

definition Timer_Disable :: "('h, 'k) ClockKernel_scheme \<Rightarrow> ('h, 'k) ClockKernel_scheme" where
  "Timer_Disable k = k\<lparr>timer := (timer k)\<lparr>disable := True\<rparr>\<rparr>"

text \<open>\<open>Alarm(doRandom)\<close> creates the timer, whose constructor schedules the first interrupt.\<close>

definition Alarm_new ::
  "('h \<Rightarrow> nat \<times> 'h) \<Rightarrow> bool \<Rightarrow> ('h, 'k) ClockKernel_scheme \<Rightarrow> ('h, 'k) ClockKernel_scheme result" where
  "Alarm_new RandomNumber doRandom k =
     SetInterrupt RandomNumber (k\<lparr>timer := \<lparr>randomize = doRandom, disable = False\<rparr>\<rparr>)"

section \<open>Machine::Run\<close>

text \<open>
  One round of the loop: an instruction and a tick. (The debugger of single-step mode is left out.)
\<close>

definition Run_round ::
  "('h, 'k) callback \<Rightarrow> (ExceptionType \<Rightarrow> ('h, 'k) ClockKernel_scheme \<Rightarrow> ('h, 'k) ClockKernel_scheme result)
   \<Rightarrow> ('h, 'k) ClockKernel_scheme \<Rightarrow> (ticked \<times> ('h, 'k) ClockKernel_scheme) result" where
  "Run_round cb handler k = rbind (OneInstruction handler k) (OneTick cb)"

section \<open>The list of pending interrupts\<close>

interpretation pc: comparator PendingCompare
  by unfold_locales (auto simp: PendingCompare_def split: if_splits)

abbreviation "insert_all new ps \<equiv> fold (sl_insert PendingCompare) new ps"

lemma PendingCompare_less [simp]:
  "PendingCompare x y < 0 \<longleftrightarrow> due x < due y" "PendingCompare x y \<le> 0 \<longleftrightarrow> due x \<le> due y"
  by (auto simp: PendingCompare_def)

lemma in_order_due: "in_order PendingCompare ps \<longleftrightarrow> sorted (map due ps)"
  by (induction ps) (auto simp: pc.in_order_Cons simp del: in_order.simps(1))

lemma sorted_sl_insert [simp]:
  "sorted (map due ps) \<Longrightarrow> sorted (map due (sl_insert PendingCompare p ps))"
  using pc.in_order_insert by (auto simp: in_order_due)

lemma sorted_insert_all [simp]: "sorted (map due ps) \<Longrightarrow> sorted (map due (insert_all new ps))"
  by (induction new arbitrary: ps) auto

lemma set_insert_all [simp]: "set (insert_all new ps) = set new \<union> set ps"
  by (induction new arbitrary: ps) auto

lemma mset_sl_insert [simp]: "mset (sl_insert cmp p ps) = add_mset p (mset ps)"
  by (induction ps) auto

lemma sl_insert_later:
  "\<forall>q\<in>set ps. due q \<le> t \<Longrightarrow> t < due p
   \<Longrightarrow> sl_insert PendingCompare p (ps @ rest) = ps @ sl_insert PendingCompare p rest"
  by (induction ps) auto

lemma insert_all_later:
  "\<forall>q\<in>set ps. due q \<le> t \<Longrightarrow> \<forall>p\<in>set new. t < due p
   \<Longrightarrow> insert_all new (ps @ rest) = ps @ insert_all new rest"
  by (induction new arbitrary: rest) (auto simp: sl_insert_later)

text \<open>The interrupts that are due at time \<open>t\<close> are a prefix of the sorted list.\<close>

abbreviation "due_at t ps \<equiv> takeWhile (\<lambda>p. due p \<le> t) ps"

lemma due_at_sl_insert: "t < due p \<Longrightarrow> due_at t (sl_insert PendingCompare p ps) = due_at t ps"
  by (induction ps) auto

lemma due_at_insert_all: "\<forall>p\<in>set new. t < due p \<Longrightarrow> due_at t (insert_all new ps) = due_at t ps"
  by (induction new arbitrary: ps) (auto simp: due_at_sl_insert)

lemma sorted_rest_later:
  "sorted (map due ps) \<Longrightarrow> p \<in> set (dropWhile (\<lambda>p. due p \<le> t) ps) \<Longrightarrow> t < due p"
  by (induction ps) (auto split: if_splits)

lemma later_rest: "p \<in> set ps \<Longrightarrow> t < due p \<Longrightarrow> p \<in> set (dropWhile (\<lambda>p. due p \<le> t) ps)"
  by (induction ps) auto

section \<open>The contract of the handlers\<close>

text \<open>
  What a handler does to the clock: nothing to time and mode, and it schedules interrupts for later
  times only.
\<close>

definition schedules_later :: "('h, 'k) ClockKernel_scheme \<Rightarrow> ('h, 'k) ClockKernel_scheme \<Rightarrow> bool" where
  "schedules_later k k' \<longleftrightarrow>
     totalTicks (stats k') = totalTicks (stats k) \<and> idleTicks (stats k') = idleTicks (stats k)
     \<and> systemTicks (stats k') = systemTicks (stats k) \<and> userTicks (stats k') = userTicks (stats k)
     \<and> level k' = level k \<and> inHandler k' = inHandler k \<and> status k' = status k
     \<and> (\<exists>new. pending k' = insert_all new (pending k) \<and> (\<forall>p\<in>set new. now k < due p))"

lemma schedules_later_refl [simp]: "schedules_later k k"
  by (auto simp: schedules_later_def intro: exI [of _ "[]"])

lemma schedules_later_trans [trans]:
  assumes "schedules_later k k'" "schedules_later k' k''"
  shows "schedules_later k k''"
proof -
  obtain n1 n2 where "pending k' = insert_all n1 (pending k)" "\<forall>p\<in>set n1. now k < due p"
      "pending k'' = insert_all n2 (pending k')" "\<forall>p\<in>set n2. now k' < due p"
    using assms unfolding schedules_later_def by blast
  with assms show ?thesis
    unfolding schedules_later_def by (intro conjI exI [of _ "n1 @ n2"]) auto
qed

lemma Schedule_later: "Schedule c n ty k = Ok k' \<Longrightarrow> schedules_later k k'"
  by (auto simp: Schedule_def schedules_later_def Let_def intro!: exI [of _ "[_]"])

text \<open>The reference: the handlers of a given list of interrupts, one after the other.\<close>

primrec run_due ::
  "('h, 'k) callback \<Rightarrow> PendingInterrupt list \<Rightarrow> ('h, 'k) ClockKernel_scheme
   \<Rightarrow> ('h, 'k) ClockKernel_scheme result" where
  "run_due cb [] k = Ok k"
| "run_due cb (p # ps) k = rbind (cb (callOnInterrupt p) (k\<lparr>pending := tl (pending k)\<rparr>)) (run_due cb ps)"

text \<open>
  \<open>target adv k\<close> is the time \<open>CheckIfDue\<close> leaves the clock at; the time it skips counts as idle.
  \<open>clock_ok\<close> is the invariant of the clock, \<open>none_due\<close> what a check for due interrupts establishes.
\<close>

definition target :: "bool \<Rightarrow> ('h, 'k) ClockKernel_scheme \<Rightarrow> int" where
  "target adv k =
     (if adv \<and> pending k \<noteq> [] then max (now k) (due (hd (pending k))) else now k)"

definition idle_until :: "int \<Rightarrow> ('h, 'k) ClockKernel_scheme \<Rightarrow> ('h, 'k) ClockKernel_scheme" where
  "idle_until t k = k\<lparr>stats := (stats k)\<lparr>idleTicks := idleTicks (stats k) + (t - now k), totalTicks := t\<rparr>\<rparr>"

definition clock_ok :: "('h, 'k) ClockKernel_scheme \<Rightarrow> bool" where
  "clock_ok k \<longleftrightarrow> sorted (map due (pending k))
     \<and> now k = idleTicks (stats k) + systemTicks (stats k) + userTicks (stats k)"

definition none_due :: "('h, 'k) ClockKernel_scheme \<Rightarrow> bool" where
  "none_due k \<longleftrightarrow> (\<forall>p\<in>set (pending k). now k < due p)"

lemma idle_until_now [simp]: "idle_until (now k) k = k"
  by (simp add: idle_until_def)

lemma map_dropWhile_due:
  "map due (dropWhile (\<lambda>p. due p \<le> t) ps) = dropWhile (\<lambda>d. d \<le> t) (map due ps)"
  by (induction ps) auto

locale device_handlers =
  fixes cb :: "('h, 'k) callback"
  assumes handler: "inHandler k \<Longrightarrow> level k = IntOff \<Longrightarrow> cb c k = Ok k' \<Longrightarrow> schedules_later k k'"
begin

text \<open>The loop of \<open>CheckIfDue\<close> ends, and runs the handlers of the interrupts that were due.\<close>

lemma fire_loop_due:
  assumes "inHandler k" "level k = IntOff" "pending k = p # rest" "due p \<le> now k"
  shows "fire_loop cb k = Some (run_due cb (due_at (now k) (pending k)) k)"
  using assms
proof (induction "length (due_at (now k) (pending k))" arbitrary: k p rest)
  case 0
  then show ?case by simp
next
  case (Suc n)
  show ?case
  proof (cases "cb (callOnInterrupt p) (k\<lparr>pending := rest\<rparr>)")
    case (Fault f)
    with Suc.prems show ?thesis by (simp add: fire_loop.simps [of cb k])
  next
    case (Ok k')
    then have h: "schedules_later (k\<lparr>pending := rest\<rparr>) k'"
      by (rule handler [rotated 2]) (use Suc.prems in auto)
    then have d: "due_at (now k') (pending k') = due_at (now k) rest"
      by (auto simp: schedules_later_def due_at_insert_all)
    show ?thesis
    proof (cases "due_at (now k) rest")
      case Nil
      with d have "pending k' = [] \<or> now k' < due (hd (pending k'))"
        by (cases "pending k'") (auto split: if_splits)
      with Ok Suc.prems Nil show ?thesis by (auto simp: fire_loop.simps [of cb k])
    next
      case (Cons q qs)
      with d obtain rest' where r: "pending k' = q # rest'" "due q \<le> now k'"
        by (cases "pending k'") (auto split: if_splits)
      have "fire_loop cb k' = Some (run_due cb (due_at (now k') (pending k')) k')"
        by (rule Suc.hyps(1) [OF _ _ _ r])
           (use Suc.hyps(2) Suc.prems h d in \<open>auto simp: schedules_later_def\<close>)
      with Ok Suc.prems r d show ?thesis by (simp add: fire_loop.simps [of cb k])
    qed
  qed
qed

lemma run_due_later:
  assumes "run_due cb ps k = Ok k'" "pending k = ps @ rest" "\<forall>p\<in>set ps. due p \<le> now k"
    "inHandler k" "level k = IntOff"
  shows "schedules_later (k\<lparr>pending := rest\<rparr>) k'"
  using assms
proof (induction ps arbitrary: k rest)
  case Nil
  then show ?case by (auto simp: schedules_later_def intro: exI [of _ "[]"])
next
  case (Cons p ps)
  obtain k1 where k1: "cb (callOnInterrupt p) (k\<lparr>pending := ps @ rest\<rparr>) = Ok k1" "run_due cb ps k1 = Ok k'"
    using Cons.prems by auto
  from k1(1) have h: "schedules_later (k\<lparr>pending := ps @ rest\<rparr>) k1"
    by (rule handler [rotated 2]) (use Cons.prems in auto)
  then obtain new where new: "pending k1 = insert_all new (ps @ rest)" "\<forall>p\<in>set new. now k < due p"
    by (auto simp: schedules_later_def)
  then have "pending k1 = ps @ insert_all new rest"
    using Cons.prems insert_all_later [of ps "now k" new rest] by simp
  then have "schedules_later (k1\<lparr>pending := insert_all new rest\<rparr>) k'"
    by (intro Cons.IH [OF k1(2)]) (use h Cons.prems in \<open>auto simp: schedules_later_def\<close>)
  moreover have "schedules_later (k\<lparr>pending := rest\<rparr>) (k1\<lparr>pending := insert_all new rest\<rparr>)"
    using h new by (auto simp: schedules_later_def)
  ultimately show ?case by (rule schedules_later_trans [rotated])
qed

text \<open>\<open>CheckIfDue\<close> is the handlers of the interrupts due at the time it advances to.\<close>

lemma CheckIfDue_due:
  assumes "level k = IntOff"
  shows "CheckIfDue cb adv k =
    (let t = target adv k in
     if due_at t (pending k) = [] then Ok (False, k)
     else rbind (DelayedLoad (idle_until t k) 0 0) (\<lambda>k.
          rbind (run_due cb (due_at t (pending k)) (k\<lparr>inHandler := True\<rparr>)) (\<lambda>k.
          Ok (True, k\<lparr>inHandler := False\<rparr>))))"
proof (cases "due_at (target adv k) (pending k)")
  case Nil
  with assms show ?thesis
    by (auto simp: CheckIfDue_def target_def Let_def split: list.splits if_splits)
next
  case (Cons p ps)
  then obtain rest where r: "pending k = p # rest" "due p \<le> target adv k"
    by (cases "pending k") (auto split: if_splits)
  have k1: "(if due p > now k then k\<lparr>stats := (stats k)\<lparr>idleTicks := idleTicks (stats k) + (due p - now k),
      totalTicks := due p\<rparr>\<rparr> else k) = idle_until (target adv k) k"
  proof -
    have "target adv k = (if due p > now k then due p else now k)"
      using r by (auto simp: target_def split: if_splits)
    then show ?thesis by (simp add: idle_until_def)
  qed
  have c: "CheckIfDue cb adv k = rbind (DelayedLoad (idle_until (target adv k) k) 0 0) (\<lambda>k.
      case fire_loop cb (k\<lparr>inHandler := True\<rparr>) of
        None \<Rightarrow> Fault Diverges | Some r \<Rightarrow> rbind r (\<lambda>k. Ok (True, k\<lparr>inHandler := False\<rparr>)))"
    using r assms unfolding CheckIfDue_def Let_def k1 [symmetric] by (auto simp: target_def split: if_splits)
  have f: "fire_loop cb (k2\<lparr>inHandler := True\<rparr>) =
      Some (run_due cb (due_at (target adv k) (pending k2)) (k2\<lparr>inHandler := True\<rparr>))"
    if "DelayedLoad (idle_until (target adv k) k) 0 0 = Ok k2" for k2
  proof -
    obtain rs where k2: "k2 = (idle_until (target adv k) k)\<lparr>registers := rs\<rparr>"
      using \<open>_ = Ok k2\<close> by (auto simp: DelayedLoad_def)
    show ?thesis
      using fire_loop_due [of "k2\<lparr>inHandler := True\<rparr>" p rest] r assms k2 by (simp add: idle_until_def)
  qed
  from Cons show ?thesis
    unfolding c Let_def by (cases "DelayedLoad (idle_until (target adv k) k) 0 0") (simp_all add: f)
qed

lemma CheckIfDue_clock:
  assumes "CheckIfDue cb adv k = Ok (fired, k')" "clock_ok k" "\<not> inHandler k"
  shows "clock_ok k'" "none_due k'" "now k' = target adv k" "\<not> inHandler k'" "level k' = IntOff"
    "status k' = status k" "fired \<longleftrightarrow> due_at (target adv k) (pending k) \<noteq> []"
    "idleTicks (stats k') = idleTicks (stats k) + (target adv k - now k)"
    "\<exists>new. pending k' = insert_all new (dropWhile (\<lambda>p. due p \<le> target adv k) (pending k))
      \<and> (\<forall>p\<in>set new. now k' < due p)"
proof -
  let ?t = "target adv k"
  let ?ds = "due_at ?t (pending k)" and ?rest = "dropWhile (\<lambda>p. due p \<le> ?t) (pending k)"
  have lv: "level k = IntOff" using assms(1) by (auto simp: CheckIfDue_def)
  have s: "sorted (map due (pending k))" using assms(2) by (simp add: clock_ok_def)
  have later: "\<forall>p\<in>set ?rest. ?t < due p" using sorted_rest_later [OF s] by blast
  have "clock_ok k' \<and> none_due k' \<and> now k' = ?t \<and> \<not> inHandler k' \<and> level k' = IntOff
      \<and> status k' = status k \<and> (fired \<longleftrightarrow> ?ds \<noteq> [])
      \<and> idleTicks (stats k') = idleTicks (stats k) + (?t - now k)
      \<and> (\<exists>new. pending k' = insert_all new ?rest \<and> (\<forall>p\<in>set new. now k' < due p))"
  proof (cases "?ds = []")
    case True
    then have e: "?rest = pending k" by (cases "pending k") auto
    have t: "?t = now k"
      using True by (cases "pending k") (auto simp: target_def split: if_splits)
    from True have "k' = k" "\<not> fired"
      using assms(1) CheckIfDue_due [OF lv, of adv] by (auto simp: Let_def)
    with True e t later assms lv show ?thesis
      by (auto simp: none_due_def intro: exI [of _ "[]"])
  next
    case False
    then obtain k2 k3 where k: "DelayedLoad (idle_until ?t k) 0 0 = Ok k2"
        "run_due cb (due_at ?t (pending k2)) (k2\<lparr>inHandler := True\<rparr>) = Ok k3" "k' = k3\<lparr>inHandler := False\<rparr>" fired
      using assms(1) CheckIfDue_due [OF lv, of adv] by (auto simp: Let_def rbind_eq_Ok)
    obtain rs where k2: "k2 = (idle_until ?t k)\<lparr>registers := rs\<rparr>"
      using k(1) by (auto simp: DelayedLoad_def)
    have "schedules_later (k2\<lparr>inHandler := True, pending := ?rest\<rparr>) k3"
      using run_due_later [OF k(2), of ?rest] k2 lv
      by (auto simp: idle_until_def dest: set_takeWhileD)
    then show ?thesis
      using False k k2 lv assms later s
      by (auto simp: schedules_later_def idle_until_def clock_ok_def none_due_def sorted_dropWhile
          map_dropWhile_due)
  qed
  then show "clock_ok k'" "none_due k'" "now k' = target adv k" "\<not> inHandler k'" "level k' = IntOff"
    "status k' = status k" "fired \<longleftrightarrow> due_at (target adv k) (pending k) \<noteq> []"
    "idleTicks (stats k') = idleTicks (stats k) + (target adv k - now k)"
    "\<exists>new. pending k' = insert_all new (dropWhile (\<lambda>p. due p \<le> target adv k) (pending k))
      \<and> (\<forall>p\<in>set new. now k' < due p)" by blast+
qed

lemma Idle_clock:
  assumes "Idle cb k = Ok k'" "clock_ok k" "\<not> inHandler k"
  shows "clock_ok k'" "none_due k'" "now k' = target True k" "\<not> inHandler k'" "level k' = IntOff"
    "status k' = SystemMode" "pending k \<noteq> []"
    "idleTicks (stats k') = idleTicks (stats k) + (now k' - now k)"
    "\<exists>new. pending k' = insert_all new (dropWhile (\<lambda>p. due p \<le> now k') (pending k))
      \<and> (\<forall>p\<in>set new. now k' < due p)"
proof -
  obtain k1 where k1: "CheckIfDue cb True (k\<lparr>status := IdleMode\<rparr>) = Ok (True, k1)"
      "k' = k1\<lparr>status := SystemMode\<rparr>"
    using assms(1) by (auto simp: Idle_def rbind_eq_Ok split: if_splits)
  have c: "clock_ok (k\<lparr>status := IdleMode\<rparr>)" "\<not> inHandler (k\<lparr>status := IdleMode\<rparr>)"
    using assms(2,3) by (simp_all add: clock_ok_def)
  note k = CheckIfDue_clock [OF k1(1) c]
  have t: "target True (k\<lparr>status := IdleMode\<rparr>) = target True k" by (simp add: target_def)
  show "clock_ok k'" "none_due k'" "now k' = target True k" "\<not> inHandler k'" "level k' = IntOff"
    "status k' = SystemMode" "pending k \<noteq> []"
    "idleTicks (stats k') = idleTicks (stats k) + (now k' - now k)"
    "\<exists>new. pending k' = insert_all new (dropWhile (\<lambda>p. due p \<le> now k') (pending k))
      \<and> (\<forall>p\<in>set new. now k' < due p)"
    using k k1(2) t by (auto simp: clock_ok_def none_due_def)
qed

lemma OneTick_enter_clock:
  assumes "OneTick_enter cb k = Ok (y, k')" "clock_ok k" "\<not> inHandler k"
  shows "clock_ok k' \<and> none_due k' \<and> \<not> inHandler k' \<and> level k' = IntOn \<and> \<not> yieldOnReturn k'
    \<and> now k' = now k + (if status k = SystemMode then SystemTick else UserTick)
    \<and> idleTicks (stats k') = idleTicks (stats k)
    \<and> (y = None \<and> status k' = status k \<or> y = Some (status k) \<and> status k' = SystemMode)"
proof -
  let ?k = "(advance_ticks k)\<lparr>level := IntOff\<rparr>"
  obtain fired k1 where k1: "CheckIfDue cb False ?k = Ok (fired, k1)"
      "(if yieldOnReturn k1 then Ok (Some (status k), k1\<lparr>level := IntOn, yieldOnReturn := False, status := SystemMode\<rparr>)
        else Ok (None, k1\<lparr>level := IntOn\<rparr>)) = Ok (y, k')"
    using assms(1) by (auto simp: OneTick_enter_def Let_def rbind_eq_Ok split: if_splits)
  have c: "clock_ok ?k" "\<not> inHandler ?k"
    using assms(2,3) by (auto simp: clock_ok_def advance_ticks_def)
  have t: "target False ?k = now k + (if status k = SystemMode then SystemTick else UserTick)"
      "status ?k = status k" "idleTicks (stats ?k) = idleTicks (stats k)" "now ?k = target False ?k"
    by (simp_all add: target_def advance_ticks_def)
  note k = CheckIfDue_clock [OF k1(1) c]
  show ?thesis
    using k k1(2) t by (auto simp: clock_ok_def none_due_def split: if_splits)
qed

end

section \<open>Switching threads leaves the clock alone\<close>

lemma WriteRegister_more: "WriteRegister k i v = Ok k' \<Longrightarrow> ThreadKernel.more k' = ThreadKernel.more k"
  by (auto simp: WriteRegister_def rbind_eq_Ok)

lemma RestoreUserState_more:
  "RestoreUserState t k = Ok k' \<Longrightarrow> ThreadKernel.more k' = ThreadKernel.more k"
  unfolding RestoreUserState_def
  by (auto elim!: rbind_OkE split: option.splits dest!: WriteRegister_more
      intro: for_loop_invariant [where f = ThreadKernel.more])

lemma sync_table_more [simp]: "ThreadKernel.more (sync_table k) = ThreadKernel.more k"
  by (auto simp: sync_table_def split: option.splits)

lemma SaveUserState_more: "SaveUserState t k = Ok k' \<Longrightarrow> ThreadKernel.more k' = ThreadKernel.more k"
  by (auto simp: SaveUserState_def elim!: rbind_OkE)

lemma CheckToBeDestroyed_more:
  "CheckToBeDestroyed k = Ok k' \<Longrightarrow> ThreadKernel.more k' = ThreadKernel.more k"
  by (auto simp: CheckToBeDestroyed_def Thread_delete_def AddrSpace_delete_def elim!: rbind_OkE
      split: option.splits)

lemma Run_out_more: "Run_out n fin k = Ok k' \<Longrightarrow> ThreadKernel.more k' = ThreadKernel.more k"
  by (erule Run_out_parts) (auto split: if_splits dest: SaveUserState_more)

lemma Switch_in_more: "Switch_in k = Ok k' \<Longrightarrow> ThreadKernel.more k' = ThreadKernel.more k"
  by (auto simp: Switch_in_def Thread_Begin_def Space_RestoreState_def RestoreState_def SetLevel_def Let_def
      elim!: rbind_OkE split: if_splits option.splits dest!: CheckToBeDestroyed_more RestoreUserState_more)

lemma Thread_Yield_more:
  assumes "Thread_Yield k = Ok (switched, lv, k')"
  shows "ThreadKernel.more k' = ThreadKernel.more k"
proof -
  have f: "ThreadKernel.more k2 = ThreadKernel.more k" if "FindNextToRun (k\<lparr>level := IntOff\<rparr>) = Ok (n, k2)" for n k2
    using that by (auto simp: FindNextToRun_def split: list.splits)
  show ?thesis
    using assms
    by (auto simp: Thread_Yield_def SetLevel_def Scheduler_Run_def ReadyToRun_eq elim!: rbind_OkE
        split: option.splits dest!: f Run_out_more Switch_in_more)
qed

lemma clock_of_more:
  fixes k k' :: "('h, 'k) ClockKernel_scheme"
  assumes "ThreadKernel.more k' = ThreadKernel.more k"
  shows "stats k' = stats k" "pending k' = pending k" "inHandler k' = inHandler k"
    "yieldOnReturn k' = yieldOnReturn k" "timer k' = timer k"
  using assms by (cases k; cases k'; simp)+

section \<open>Whole ticks\<close>

lemma Thread_Yield_clock:
  fixes k k' :: "('h, 'k) ClockKernel_scheme"
  assumes "Thread_Yield k = Ok (switched, lv, k')"
  shows "clock_ok k' = clock_ok k" "none_due k' = none_due k" "inHandler k' = inHandler k" "now k' = now k"
  using clock_of_more [OF Thread_Yield_more [OF assms]] by (simp_all add: clock_ok_def none_due_def)

text \<open>
  The runs of \<open>OneTick\<close> that return, as a relation: this is what proofs about a tick do induction on.
\<close>

inductive tick_run ::
  "('h, 'k) callback \<Rightarrow> ('h, 'k) ClockKernel_scheme \<Rightarrow> ticked \<Rightarrow> ('h, 'k) ClockKernel_scheme \<Rightarrow> bool"
  for cb where
  stay: "OneTick_enter cb k = Ok (None, k') \<Longrightarrow> tick_run cb k Same k'"
| switch: "OneTick_enter cb k = Ok (Some s, k1) \<Longrightarrow> Thread_Yield k1 = Ok (True, lv, k')
    \<Longrightarrow> tick_run cb k (Switched s lv) k'"
| alone: "OneTick_enter cb k = Ok (Some s, k1) \<Longrightarrow> Thread_Yield k1 = Ok (False, lv, k2) \<Longrightarrow> lv \<noteq> IntOn
    \<Longrightarrow> tick_run cb k Same (k2\<lparr>status := s\<rparr>)"
| again: "OneTick_enter cb k = Ok (Some s, k1) \<Longrightarrow> Thread_Yield k1 = Ok (False, IntOn, k2)
    \<Longrightarrow> tick_run cb k2 Same k' \<Longrightarrow> tick_run cb k Same (k'\<lparr>status := s\<rparr>)"
| again_switch: "OneTick_enter cb k = Ok (Some s, k1) \<Longrightarrow> Thread_Yield k1 = Ok (False, IntOn, k2)
    \<Longrightarrow> tick_run cb k2 (Switched s' lv) k' \<Longrightarrow> tick_run cb k (Switched s lv) k'"

lemma OneTick_rec_run:
  assumes "OneTick_rec cb k = Some r"
  shows "\<forall>y k'. r = Ok (y, k') \<longrightarrow> tick_run cb k y k'"
proof (rule OneTick_rec.raw_induct [where P = "\<lambda>c k r. \<forall>y k'. r = Ok (y, k') \<longrightarrow> tick_run c k y k'", OF _ assms])
  fix f cb k r
  assume IH: "\<And>c (k :: ('h, 'k) ClockKernel_scheme) r. f c k = Some r
      \<Longrightarrow> \<forall>y k'. r = Ok (y, k') \<longrightarrow> tick_run c k y k'"
    and step: "(case OneTick_enter cb k of
      Ok (None, k) \<Rightarrow> Some (Ok (Same, k))
    | Ok (Some oldStatus, k) \<Rightarrow>
        (case Thread_Yield k of
           Ok (switched, oldLevel, k) \<Rightarrow>
             if switched then Some (Ok (Switched oldStatus oldLevel, k))
             else if oldLevel = IntOn
             then Option.bind (f cb k) (\<lambda>r. Some (rbind r (\<lambda>(y, k).
                    case y of Same \<Rightarrow> Ok (Same, k\<lparr>status := oldStatus\<rparr>)
                    | Switched s l \<Rightarrow> Ok (Switched oldStatus l, k))))
             else Some (Ok (Same, k\<lparr>status := oldStatus\<rparr>))
         | Fault f \<Rightarrow> Some (Fault f))
    | Fault f \<Rightarrow> Some (Fault f)) = Some r"
  show "\<forall>y k'. r = Ok (y, k') \<longrightarrow> tick_run cb k y k'"
  proof (intro impI allI)
    fix y k' assume r: "r = Ok (y, k')"
    obtain y1 k1 where e: "OneTick_enter cb k = Ok (y1, k1)"
      using step r by (auto split: result.splits)
    show "tick_run cb k y k'"
    proof (cases y1)
      case None
      with step r e show ?thesis by (auto intro: tick_run.stay)
    next
      case (Some s)
      then obtain sw lv k2 where y: "Thread_Yield k1 = Ok (sw, lv, k2)"
        using step r e by (auto split: result.splits)
      show ?thesis
      proof (cases "\<not> sw \<and> lv = IntOn")
        case True
        then obtain r2 where r2: "f cb k2 = Some r2"
            "r = rbind r2 (\<lambda>(y, k). case y of Same \<Rightarrow> Ok (Same, k\<lparr>status := s\<rparr>)
               | Switched s' l \<Rightarrow> Ok (Switched s l, k))"
          using step e Some y by (auto simp: bind_eq_Some_conv)
        then obtain y3 k3 where k3: "r2 = Ok (y3, k3)" using r by (cases r2) auto
        with IH [OF r2(1)] have "tick_run cb k2 y3 k3" by simp
        with r2(2) k3 r e Some y True show ?thesis
          by (cases y3) (auto intro: tick_run.again tick_run.again_switch)
      next
        case False
        with step r e Some y show ?thesis
          by (auto split: if_splits intro: tick_run.switch tick_run.alone)
      qed
    qed
  qed
qed

lemma OneTick_run: "OneTick cb k = Ok (y, k') \<Longrightarrow> tick_run cb k y k'"
  using OneTick_rec_run [of cb k] by (auto simp: OneTick_def split: option.splits)

text \<open>What a tick, and every tick inside it, establishes.\<close>

definition ticked_ok :: "('h, 'k) ClockKernel_scheme \<Rightarrow> ('h, 'k) ClockKernel_scheme \<Rightarrow> bool" where
  "ticked_ok k k' \<longleftrightarrow> clock_ok k' \<and> none_due k' \<and> \<not> inHandler k' \<and> now k < now k'"

lemma ticked_ok_status [simp]: "ticked_ok k (k'\<lparr>status := s\<rparr>) = ticked_ok k k'"
  by (simp add: ticked_ok_def clock_ok_def none_due_def)

lemma ticked_ok_trans: "ticked_ok k k1 \<Longrightarrow> ticked_ok k1 k2 \<Longrightarrow> ticked_ok k k2"
  by (auto simp: ticked_ok_def)

lemma ticked_ok_Yield:
  "ticked_ok k k1 \<Longrightarrow> Thread_Yield k1 = Ok (sw, lv, k2) \<Longrightarrow> ticked_ok k k2"
  using Thread_Yield_clock [of k1 sw lv k2] by (simp add: ticked_ok_def)

context device_handlers
begin

lemma OneTick_enter_ticked:
  "OneTick_enter cb k = Ok (y, k') \<Longrightarrow> clock_ok k \<Longrightarrow> \<not> inHandler k \<Longrightarrow> ticked_ok k k'"
  using OneTick_enter_clock by (fastforce simp: ticked_ok_def tick_consts split: if_splits)

lemma tick_run_ticked: "tick_run cb k y k' \<Longrightarrow> clock_ok k \<Longrightarrow> \<not> inHandler k \<Longrightarrow> ticked_ok k k'"
proof (induction rule: tick_run.induct)
  case (again k s k1 k2 k')
  then have "ticked_ok k k2" by (blast intro: OneTick_enter_ticked ticked_ok_Yield)
  moreover from this again have "ticked_ok k2 k'" by (simp add: ticked_ok_def)
  ultimately show ?case by (auto dest: ticked_ok_trans)
next
  case (again_switch k s k1 k2 s' lv k')
  then have "ticked_ok k k2" by (blast intro: OneTick_enter_ticked ticked_ok_Yield)
  moreover from this again_switch have "ticked_ok k2 k'" by (simp add: ticked_ok_def)
  ultimately show ?case by (auto dest: ticked_ok_trans)
qed (auto intro: OneTick_enter_ticked ticked_ok_Yield)

end

section \<open>Invariants of the devices, and progress\<close>

text \<open>
  A client's invariant \<open>Inv\<close> that a handler keeps when its interrupt was just taken off the list, and
  that says nothing about the fields the clock itself changes.
\<close>

locale device_invariant = device_handlers cb
  for cb :: "('h, 'k) callback" +
  fixes Inv :: "('h, 'k) ClockKernel_scheme \<Rightarrow> bool"
  assumes handler_Inv: "Inv k \<Longrightarrow> pending k = p # rest \<Longrightarrow> level k = IntOff \<Longrightarrow> inHandler k
      \<Longrightarrow> cb (callOnInterrupt p) (k\<lparr>pending := rest\<rparr>) = Ok k' \<Longrightarrow> Inv k'"
    and Inv_flags: "Inv k \<Longrightarrow> Inv (k\<lparr>inHandler := b\<rparr>)" "Inv k \<Longrightarrow> Inv (k\<lparr>level := l\<rparr>)"
      "Inv k \<Longrightarrow> Inv (k\<lparr>status := s\<rparr>)" "Inv k \<Longrightarrow> Inv (k\<lparr>yieldOnReturn := b\<rparr>)"
    and Inv_ticks: "Inv k \<Longrightarrow> Inv (idle_until t k)" "Inv k \<Longrightarrow> Inv (advance_ticks k)"
    and Inv_load: "Inv k \<Longrightarrow> DelayedLoad k 0 0 = Ok k' \<Longrightarrow> Inv k'"
begin

lemma run_due_Inv:
  assumes "run_due cb ps k = Ok k'" "pending k = ps @ rest" "\<forall>p\<in>set ps. due p \<le> now k"
    "inHandler k" "level k = IntOff" "Inv k"
  shows "Inv k'"
  using assms
proof (induction ps arbitrary: k rest)
  case Nil
  then show ?case by simp
next
  case (Cons p ps)
  obtain k1 where k1: "cb (callOnInterrupt p) (k\<lparr>pending := ps @ rest\<rparr>) = Ok k1" "run_due cb ps k1 = Ok k'"
    using Cons.prems by auto
  from k1(1) have h: "schedules_later (k\<lparr>pending := ps @ rest\<rparr>) k1"
    by (rule handler [rotated 2]) (use Cons.prems in auto)
  then obtain new where new: "pending k1 = insert_all new (ps @ rest)" "\<forall>p\<in>set new. now k < due p"
    by (auto simp: schedules_later_def)
  then have p1: "pending k1 = ps @ insert_all new rest"
    using Cons.prems insert_all_later [of ps "now k" new rest] by simp
  have "Inv k1" by (rule handler_Inv [OF _ _ _ _ k1(1)]) (use Cons.prems in auto)
  with h show ?case
    by (intro Cons.IH [OF k1(2) p1]) (use Cons.prems in \<open>auto simp: schedules_later_def\<close>)
qed

lemma CheckIfDue_Inv:
  assumes "CheckIfDue cb adv k = Ok (fired, k')" "Inv k"
  shows "Inv k'"
proof -
  have lv: "level k = IntOff" using assms(1) by (auto simp: CheckIfDue_def)
  let ?t = "target adv k"
  show ?thesis
  proof (cases "due_at ?t (pending k) = []")
    case True
    with assms CheckIfDue_due [OF lv, of adv] show ?thesis by (auto simp: Let_def)
  next
    case False
    then obtain k2 k3 where k: "DelayedLoad (idle_until ?t k) 0 0 = Ok k2"
        "run_due cb (due_at ?t (pending k2)) (k2\<lparr>inHandler := True\<rparr>) = Ok k3" "k' = k3\<lparr>inHandler := False\<rparr>"
      using assms(1) CheckIfDue_due [OF lv, of adv] by (auto simp: Let_def rbind_eq_Ok)
    obtain rs where k2: "k2 = (idle_until ?t k)\<lparr>registers := rs\<rparr>"
      using k(1) by (auto simp: DelayedLoad_def)
    have "Inv (k2\<lparr>inHandler := True\<rparr>)" using Inv_load [OF _ k(1)] Inv_ticks Inv_flags assms(2) by blast
    then have "Inv k3"
      by (rule run_due_Inv [OF k(2), of "dropWhile (\<lambda>p. due p \<le> ?t) (pending k)", rotated 4])
         (use k2 lv in \<open>auto simp: idle_until_def dest: set_takeWhileD\<close>)
    with k(3) Inv_flags show ?thesis by simp
  qed
qed

lemma Idle_Inv: "Idle cb k = Ok k' \<Longrightarrow> Inv k \<Longrightarrow> Inv k'"
  by (auto simp: Idle_def elim!: rbind_OkE split: if_splits intro!: Inv_flags dest!: CheckIfDue_Inv)

lemma OneTick_enter_Inv: "OneTick_enter cb k = Ok (y, k') \<Longrightarrow> Inv k \<Longrightarrow> Inv k'"
  by (auto simp: OneTick_enter_def Let_def elim!: rbind_OkE split: if_splits
      intro!: Inv_flags Inv_ticks dest!: CheckIfDue_Inv)

lemma tick_run_Inv:
  assumes "\<And>k sw lv k'. Inv k \<Longrightarrow> Thread_Yield k = Ok (sw, lv, k') \<Longrightarrow> Inv k'"
  shows "tick_run cb k y k' \<Longrightarrow> Inv k \<Longrightarrow> Inv k'"
  by (induction rule: tick_run.induct) (blast intro: Inv_flags(3) OneTick_enter_Inv assms)+

end

text \<open>The states of a machine that has nothing to do: \<open>Idle\<close>, again and again.\<close>

primrec idles :: "('h, 'k) callback \<Rightarrow> nat \<Rightarrow> ('h, 'k) ClockKernel_scheme \<Rightarrow> ('h, 'k) ClockKernel_scheme result" where
  "idles cb 0 k = Ok k"
| "idles cb (Suc n) k = rbind (Idle cb k) (idles cb n)"

text \<open>When the handlers do return under \<open>Inv\<close>, time moves on.\<close>

locale live_devices = device_invariant cb Inv
  for cb :: "('h, 'k) callback" and Inv :: "('h, 'k) ClockKernel_scheme \<Rightarrow> bool" +
  assumes handler_ok: "Inv k \<Longrightarrow> pending k = p # rest \<Longrightarrow> level k = IntOff \<Longrightarrow> inHandler k
      \<Longrightarrow> is_ok (cb (callOnInterrupt p) (k\<lparr>pending := rest\<rparr>))"
    and load_ok: "Inv k \<Longrightarrow> is_ok (DelayedLoad k 0 0)"
begin

lemma run_due_ok:
  assumes "pending k = ps @ rest" "\<forall>p\<in>set ps. due p \<le> now k" "inHandler k" "level k = IntOff" "Inv k"
  shows "is_ok (run_due cb ps k)"
  using assms
proof (induction ps arbitrary: k rest)
  case Nil
  then show ?case by simp
next
  case (Cons p ps)
  have "is_ok (cb (callOnInterrupt p) (k\<lparr>pending := ps @ rest\<rparr>))"
    by (rule handler_ok) (use Cons.prems in auto)
  then obtain k1 where k1: "cb (callOnInterrupt p) (k\<lparr>pending := ps @ rest\<rparr>) = Ok k1"
    by (auto simp: is_ok_iff)
  then have h: "schedules_later (k\<lparr>pending := ps @ rest\<rparr>) k1"
    by (rule handler [rotated 2]) (use Cons.prems in auto)
  then obtain new where new: "pending k1 = insert_all new (ps @ rest)" "\<forall>p\<in>set new. now k < due p"
    by (auto simp: schedules_later_def)
  then have p1: "pending k1 = ps @ insert_all new rest"
    using Cons.prems insert_all_later [of ps "now k" new rest] by simp
  have "Inv k1" by (rule handler_Inv [OF _ _ _ _ k1]) (use Cons.prems in auto)
  with h have "is_ok (run_due cb ps k1)"
    by (intro Cons.IH [OF p1]) (use Cons.prems in \<open>auto simp: schedules_later_def\<close>)
  with k1 Cons.prems(1) show ?case by simp
qed

lemma Idle_ok:
  assumes "Inv k" "level k = IntOff" "pending k \<noteq> []"
  shows "is_ok (Idle cb k)"
proof -
  let ?k = "k\<lparr>status := IdleMode\<rparr>" and ?t = "target True (k\<lparr>status := IdleMode\<rparr>)"
  have d: "due_at ?t (pending ?k) \<noteq> []"
    using assms(3) by (cases "pending k") (auto simp: target_def)
  have i: "Inv (idle_until ?t ?k)" using assms(1) Inv_flags Inv_ticks by blast
  then obtain k2 where k2: "DelayedLoad (idle_until ?t ?k) 0 0 = Ok k2"
    using load_ok by (auto simp: is_ok_iff)
  then obtain rs where rs: "k2 = (idle_until ?t ?k)\<lparr>registers := rs\<rparr>"
    by (auto simp: DelayedLoad_def)
  have i2: "Inv (k2\<lparr>inHandler := True\<rparr>)" using Inv_load [OF i k2] Inv_flags by blast
  have "is_ok (run_due cb (due_at ?t (pending k2)) (k2\<lparr>inHandler := True\<rparr>))"
    by (rule run_due_ok [where rest = "dropWhile (\<lambda>p. due p \<le> ?t) (pending k)"])
       (use i2 rs assms(2) in \<open>auto simp: idle_until_def dest: set_takeWhileD\<close>)
  then obtain k3 where k3: "run_due cb (due_at ?t (pending k2)) (k2\<lparr>inHandler := True\<rparr>) = Ok k3"
    by (auto simp: is_ok_iff)
  have "CheckIfDue cb True ?k = Ok (True, k3\<lparr>inHandler := False\<rparr>)"
    using CheckIfDue_due [of ?k True] d k2 k3 assms(2) by (simp add: Let_def)
  then show ?thesis by (simp add: Idle_def)
qed

text \<open>
  A scheduled interrupt fires at its time: an idle machine reaches that time, exactly, after at most as
  many rounds as there are ticks until then.
\<close>

lemma idles_reach:
  assumes "Inv k" "clock_ok k" "none_due k" "\<not> inHandler k" "level k = IntOff" "p \<in> set (pending k)"
  shows "\<exists>n k'. n \<le> nat (due p - now k) \<and> idles cb n k = Ok k' \<and> now k' = due p \<and> none_due k'
    \<and> Inv k' \<and> clock_ok k' \<and> \<not> inHandler k' \<and> level k' = IntOff"
  using assms
proof (induction "nat (due p - now k)" arbitrary: k rule: less_induct)
  case less
  have ne: "pending k \<noteq> []" using less.prems(6) by auto
  with Idle_ok less.prems obtain k1 where k1: "Idle cb k = Ok k1" by (auto simp: is_ok_iff)
  note c = Idle_clock [OF k1 less.prems(2,4)]
  have s: "sorted (map due (pending k))" using less.prems(2) by (simp add: clock_ok_def)
  obtain q qs where q: "pending k = q # qs" using ne by (cases "pending k") auto
  have gt: "now k < now k1" and le: "now k1 \<le> due p"
    using c(3) less.prems(3,6) s q by (auto simp: target_def none_due_def)
  have i1: "Inv k1" by (rule Idle_Inv [OF k1 less.prems(1)])
  show ?case
  proof (cases "now k1 = due p")
    case True
    with k1 c i1 gt show ?thesis by (intro exI [of _ 1] exI [of _ k1]) auto
  next
    case False
    then have "p \<in> set (dropWhile (\<lambda>p. due p \<le> now k1) (pending k))"
      using le less.prems(6) by (intro later_rest) auto
    then have "p \<in> set (pending k1)" using c(9) by auto
    with less.hyps [of k1] obtain n k' where n: "n \<le> nat (due p - now k1)" "idles cb n k1 = Ok k'"
        "now k' = due p" "none_due k'" "Inv k'" "clock_ok k'" "\<not> inHandler k'" "level k' = IntOff"
      using gt le False c i1 by (auto simp: nat_less_iff)
    with k1 gt le show ?thesis by (intro exI [of _ "Suc n"] exI [of _ k']) auto
  qed
qed

end

end
