(* ===== verification/Device_State.thy ===== *)
theory Device_State
  imports Interrupts
begin

text \<open>
  The state of the simulated devices and the host calls they are built on: polling, random numbers and
  datagram sockets of \<^verbatim>\<open>lib/sysdep.cc\<close>, the fields of \<open>ConsoleInput\<close>, \<open>ConsoleOutput\<close>
  (\<^verbatim>\<open>machine/console.h\<close>), \<open>Disk\<close> (\<^verbatim>\<open>machine/disk.h\<close>), \<open>NetworkInput\<close>,
  \<open>NetworkOutput\<close> (\<^verbatim>\<open>machine/network.h\<close>), and of the classes that wait for them:
  \<open>SynchConsoleInput\<close>, \<open>SynchConsoleOutput\<close>, \<open>SynchDisk\<close>, \<open>PostOfficeInput\<close>, \<open>PostOfficeOutput\<close>.

  The host is a parameter: the record \<open>io\<close> extends the system calls \<open>unix\<close> of the theory \<open>Stub_FS\<close>.
\<close>

section \<open>Host calls\<close>

record 'h io =
  files :: "'h unix"
  u_select :: "int \<Rightarrow> 'h \<Rightarrow> int \<times> 'h"
  u_rand :: "'h \<Rightarrow> nat \<times> 'h"
  u_dgram :: "'h \<Rightarrow> int \<times> 'h"
  u_bind :: "int \<Rightarrow> bytes \<Rightarrow> 'h \<Rightarrow> int \<times> 'h"
  u_recvfrom :: "int \<Rightarrow> int \<Rightarrow> 'h \<Rightarrow> (int \<times> bytes) \<times> 'h"
  u_sendto :: "int \<Rightarrow> bytes \<Rightarrow> bytes \<Rightarrow> 'h \<Rightarrow> int \<times> 'h"

definition PollFile :: "'h io \<Rightarrow> int \<Rightarrow> 'h \<Rightarrow> (bool \<times> 'h) result" where
  "PollFile U fd h =
     (let (retVal, h) = u_select U fd h in ASSERT (retVal = 0 \<or> retVal = 1) (Ok (retVal \<noteq> 0, h)))"

definition OpenSocket :: "'h io \<Rightarrow> 'h \<Rightarrow> (int \<times> 'h) result" where
  "OpenSocket U h = (let (sockID, h) = u_dgram U h in ASSERT (sockID \<ge> 0) (Ok (sockID, h)))"

definition AssignNameToSocket :: "'h io \<Rightarrow> bytes \<Rightarrow> int \<Rightarrow> 'h \<Rightarrow> 'h result" where
  "AssignNameToSocket U socketName sockID h =
     (let (_, h) = u_unlink (files U) socketName h; (retVal, h) = u_bind U sockID socketName h in
      ASSERT (retVal \<ge> 0) (Ok h))"

definition DeAssignNameToSocket :: "'h io \<Rightarrow> bytes \<Rightarrow> 'h \<Rightarrow> 'h" where
  "DeAssignNameToSocket U socketName h = snd (u_unlink (files U) socketName h)"

definition PollSocket :: "'h io \<Rightarrow> int \<Rightarrow> 'h \<Rightarrow> (bool \<times> 'h) result" where
  "PollSocket U sockID h = PollFile U sockID h"

definition ReadFromSocket :: "'h io \<Rightarrow> int \<Rightarrow> int \<Rightarrow> 'h \<Rightarrow> (bytes \<times> 'h) result" where
  "ReadFromSocket U sockID packetSize h =
     (let ((retVal, data), h) = u_recvfrom U sockID packetSize h in
      ASSERT (retVal = packetSize) (Ok (data, h)))"

text \<open>Up to ten attempts; the packet is dropped when they all fail. (The pause between two is left out.)\<close>

function Send_attempts :: "'h io \<Rightarrow> int \<Rightarrow> bytes \<Rightarrow> bytes \<Rightarrow> int \<Rightarrow> 'h \<Rightarrow> 'h result" where
  "Send_attempts U sockID buffer toName retryCount h =
     (if retryCount < 10
      then let (retVal, h) = u_sendto U sockID buffer toName h in
           if retVal = int (length buffer) then Ok h
           else ASSERT (retVal < 0) (Send_attempts U sockID buffer toName (retryCount + 1) h)
      else Ok h)"
  by pat_completeness auto
termination by (relation "measure (\<lambda>(U, sockID, buffer, toName, retryCount, h). nat (10 - retryCount))") auto

declare Send_attempts.simps [simp del]

definition SendToSocket :: "'h io \<Rightarrow> int \<Rightarrow> bytes \<Rightarrow> bytes \<Rightarrow> 'h \<Rightarrow> 'h result" where
  "SendToSocket U sockID buffer toName h = Send_attempts U sockID buffer toName 0 h"

section \<open>Numbers in memory\<close>

text \<open>An \<open>int\<close> is four bytes, the least significant first, as the host stores it.\<close>

definition int_bytes :: "32 word \<Rightarrow> bytes" where
  "int_bytes w = [ucast w, ucast (drop_bit 8 w), ucast (drop_bit 16 w), ucast (drop_bit 24 w)]"

definition bytes_int :: "bytes \<Rightarrow> 32 word" where
  "bytes_int b = ucast (b ! 0) OR push_bit 8 (ucast (b ! 1)) OR push_bit 16 (ucast (b ! 2))
     OR push_bit 24 (ucast (b ! 3))"

text \<open>The decimal digits \<open>sprintf\<close> writes for \<^verbatim>\<open>%d\<close>.\<close>

function digits :: "nat \<Rightarrow> bytes" where
  "digits n = (if n < 10 then [of_nat (48 + n)] else digits (n div 10) @ [of_nat (48 + n mod 10)])"
  by pat_completeness auto
termination by (relation "measure (\<lambda>n. n)") auto

declare digits.simps [simp del]

definition decimal :: "int \<Rightarrow> bytes" where
  "decimal i = (if i < 0 then 45 # digits (nat (- i)) else digits (nat i))"

text \<open>\<open>bcopy\<close>: the bytes of a buffer that are read, and a buffer with some of its bytes replaced.\<close>

definition copy_out :: "bytes \<Rightarrow> int \<Rightarrow> int \<Rightarrow> bytes result" where
  "copy_out b off n =
     (if 0 \<le> off \<and> 0 \<le> n \<and> off + n \<le> int (length b) then Ok (take (nat n) (drop (nat off) b))
      else Fault OutOfRange)"

definition copy_in :: "bytes \<Rightarrow> int \<Rightarrow> bytes \<Rightarrow> bytes result" where
  "copy_in b off src =
     (if 0 \<le> off \<and> off + int (length src) \<le> int (length b)
      then Ok (take (nat off) b @ src @ drop (nat off + length src) b)
      else Fault OutOfRange)"

section \<open>Devices\<close>

text \<open>The value \<^verbatim>\<open>EOF\<close> in a variable of type \<open>char\<close>.\<close>

definition EOF :: "8 word" where "EOF = -1"

record ConsoleInput =
  readFileNo :: int
  incoming :: "8 word"

record ConsoleOutput =
  writeFileNo :: int
  putBusy :: bool

record Disk =
  fileno :: int
  active :: bool
  lastSector :: int
  bufferInit :: int

type_synonym NetworkAddress = "32 word"

record PacketHeader =
  pkt_to :: NetworkAddress
  pkt_from :: NetworkAddress
  pkt_length :: "32 word"

record NetworkInput =
  in_sock :: int
  sockName :: bytes
  inHdr :: PacketHeader
  inbox :: bytes

text \<open>\<open>chanceToWork\<close> is the fraction \<open>num / den\<close> of the packets that are sent.\<close>

record NetworkOutput =
  out_sock :: int
  chanceToWork :: "int \<times> int"
  sendBusy :: bool

text \<open>The lock and the semaphore of a class that waits for its device.\<close>

record Synch =
  s_lock :: nat
  s_wait :: sref

record 'h IOKernel = "'h ClockKernel" +
  hostName :: int
  consoleInput :: ConsoleInput
  consoleOutput :: ConsoleOutput
  disk :: Disk
  networkInput :: NetworkInput
  networkOutput :: NetworkOutput
  synchConsoleIn :: Synch
  synchConsoleOut :: Synch
  synchDisk :: Synch
  messageAvailable :: sref
  postOut :: Synch

abbreviation "unix_state k \<equiv> host (fileSystem k)"
abbreviation "set_unix h k \<equiv> k\<lparr>fileSystem := (fileSystem k)\<lparr>host := h\<rparr>\<rparr>"

definition count_stat :: "(Statistics \<Rightarrow> Statistics) \<Rightarrow> ('h, 'k) ClockKernel_scheme \<Rightarrow> ('h, 'k) ClockKernel_scheme" where
  "count_stat f k = k\<lparr>stats := f (stats k)\<rparr>"

section \<open>Lemmas\<close>

lemma bytes_int_int_bytes [simp]: "bytes_int (int_bytes w @ rest) = w"
proof (rule bit_word_eqI)
  fix n assume "n < LENGTH(32)"
  then show "bit (bytes_int (int_bytes w @ rest)) n \<longleftrightarrow> bit w n"
    by (cases "n < 24"; cases "n < 16"; cases "n < 8")
       (auto simp: bytes_int_def int_bytes_def bit_simps nth_append)
qed

lemma length_int_bytes [simp]: "length (int_bytes w) = 4"
  by (simp add: int_bytes_def)

section \<open>A machine\<close>

text \<open>
  A machine with one thread, whose devices were just created, on a host that has one file and nothing
  to read.
\<close>

definition quiet_host :: "(bytes \<times> nat) io" where
  "quiet_host = \<lparr>files = one_file, u_select = (\<lambda>fd h. (0, h)), u_rand = (\<lambda>h. (0, h)), u_dgram = (\<lambda>h. (5, h)),
     u_bind = (\<lambda>fd n h. (0, h)), u_recvfrom = (\<lambda>fd n h. ((n, replicate (nat n) 0), h)),
     u_sendto = (\<lambda>fd b n h. (int (length b), h))\<rparr>"

definition demo_machine :: "'h \<Rightarrow> 'h IOKernel" where
  "demo_machine h = \<lparr>registers = replicate 40 0, mainMemory = [],
     pageTableMap = \<lparr>numBits = 128, numWords = 4, bwords = [0, 0, 0, 0]\<rparr>, tlb = None,
     pageTable = None, pageTableSize = 0, singleStep = False, status = SystemMode,
     fileSystem = \<lparr>fileSlot = [], host = h\<rparr>,
     currentThread = 0, threads = threads demo_kernel,
     threadCount = 1, readyList = [], toBeDestroyed = None, level = IntOff,
     sems = (\<lambda>s. if s < 4 then Some \<lparr>semval = 1, queue = []\<rparr> else if s < 9 then Some \<lparr>semval = 0, queue = []\<rparr> else None),
     semCount = 9, locks = (\<lambda>l. if l < 4 then Some \<lparr>semaphore = l, lockHolder = None\<rparr> else None),
     conds = Map.empty, tableOwner = None,
     stats = Statistics_new,
     pending = [\<lparr>callOnInterrupt = TimerObj, due = 100, itype = TimerInt\<rparr>,
                \<lparr>callOnInterrupt = ConsoleInObj, due = 100, itype = ConsoleReadInt\<rparr>,
                \<lparr>callOnInterrupt = NetInObj, due = 100, itype = NetworkRecvInt\<rparr>],
     inHandler = False, yieldOnReturn = False, timer = \<lparr>randomize = False, disable = False\<rparr>,
     hostName = 0, consoleInput = \<lparr>readFileNo = 0, incoming = EOF\<rparr>,
     consoleOutput = \<lparr>writeFileNo = 1, putBusy = False\<rparr>,
     disk = \<lparr>fileno = 3, active = False, lastSector = 0, bufferInit = 0\<rparr>,
     networkInput = \<lparr>in_sock = 5, sockName = [], inHdr = \<lparr>pkt_to = 0, pkt_from = 0, pkt_length = 0\<rparr>,
        inbox = replicate 52 0\<rparr>,
     networkOutput = \<lparr>out_sock = 6, chanceToWork = (1, 1), sendBusy = False\<rparr>,
     synchConsoleIn = \<lparr>s_lock = 0, s_wait = 4\<rparr>, synchConsoleOut = \<lparr>s_lock = 1, s_wait = 5\<rparr>,
     synchDisk = \<lparr>s_lock = 2, s_wait = 6\<rparr>, messageAvailable = 7, postOut = \<lparr>s_lock = 3, s_wait = 8\<rparr>\<rparr>"

definition demo_io :: "(bytes \<times> nat) IOKernel" where
  "demo_io = demo_machine ([], 0)"

end
