(* ===== verification/Waiting.thy ===== *)
theory Waiting
  imports Device_State
begin

text \<open>
  What a thread does when it waits for a device: \<open>P\<close>, \<open>V\<close>, \<open>Acquire\<close> and \<open>Release\<close> of
  \<^verbatim>\<open>threads/synch.cc\<close> and \<open>Sleep\<close> of \<^verbatim>\<open>threads/thread.cc\<close> with the calls of
  \<open>SetLevel\<close> and \<open>Idle\<close> that make the time pass, followed for as long as this thread has the processor.
  When another thread is ready to run in its place the execution stops as \<open>Asleep\<close>: what all threads do
  together is the theory \<open>Threads\<close>.
\<close>

definition SetLevel_alone ::
  "('h, 'k) callback \<Rightarrow> IntStatus \<Rightarrow> ('h, 'k) ClockKernel_scheme
   \<Rightarrow> (IntStatus \<times> ('h, 'k) ClockKernel_scheme) result" where
  "SetLevel_alone cb lv k =
     rbind (Interrupt_SetLevel cb lv k) (\<lambda>(old, y, k).
     case y of Same \<Rightarrow> Ok (old, k) | Switched _ _ \<Rightarrow> Fault Asleep)"

text \<open>The loop of \<open>Sleep\<close>, up to the point where this thread runs again.\<close>

partial_function (option) Sleep_loop ::
  "('h, 'k) callback \<Rightarrow> ('h, 'k) ClockKernel_scheme \<Rightarrow> ('h, 'k) ClockKernel_scheme result option" where
  "Sleep_loop cb k =
     (case FindNextToRun k of
        Fault f \<Rightarrow> Some (Fault f)
      | Ok (nextThread, k) \<Rightarrow>
          (case nextThread of
             None \<Rightarrow> (case Idle cb k of Fault f \<Rightarrow> Some (Fault f) | Ok k \<Rightarrow> Sleep_loop cb k)
           | Some n \<Rightarrow> Some (if n = currentThread k then Scheduler_Run n False k else Fault Asleep)))"

partial_function (option) P_loop ::
  "('h, 'k) callback \<Rightarrow> sref \<Rightarrow> ('h, 'k) ClockKernel_scheme \<Rightarrow> ('h, 'k) ClockKernel_scheme result option" where
  "P_loop cb s k =
     (case Semaphore_P IntOff s k of
        Fault f \<Rightarrow> Some (Fault f)
      | Ok (got, k) \<Rightarrow>
          if got then Some (Ok k)
          else Option.bind (Sleep_loop cb k) (\<lambda>r. case r of Fault f \<Rightarrow> Some (Fault f) | Ok k \<Rightarrow> P_loop cb s k))"

definition P_alone ::
  "('h, 'k) callback \<Rightarrow> sref \<Rightarrow> ('h, 'k) ClockKernel_scheme \<Rightarrow> ('h, 'k) ClockKernel_scheme result" where
  "P_alone cb s k =
     rbind (SetLevel_alone cb IntOff k) (\<lambda>(oldLevel, k).
     case P_loop cb s k of
       None \<Rightarrow> Fault Diverges
     | Some r \<Rightarrow> rbind r (\<lambda>k. rbind (SetLevel_alone cb oldLevel k) (\<lambda>(_, k). Ok k)))"

definition V_alone ::
  "('h, 'k) callback \<Rightarrow> sref \<Rightarrow> ('h, 'k) ClockKernel_scheme \<Rightarrow> ('h, 'k) ClockKernel_scheme result" where
  "V_alone cb s k =
     rbind (SetLevel_alone cb IntOff k) (\<lambda>(oldLevel, k).
     rbind (Semaphore_V s k) (\<lambda>k.
     rbind (SetLevel_alone cb oldLevel k) (\<lambda>(_, k). Ok k)))"

definition Acquire_alone ::
  "('h, 'k) callback \<Rightarrow> nat \<Rightarrow> ('h, 'k) ClockKernel_scheme \<Rightarrow> ('h, 'k) ClockKernel_scheme result" where
  "Acquire_alone cb l k =
     rbind (live (locks k l)) (\<lambda>L. rbind (P_alone cb (semaphore L) k) (Lock_SetHolder l))"

definition Release_alone ::
  "('h, 'k) callback \<Rightarrow> nat \<Rightarrow> ('h, 'k) ClockKernel_scheme \<Rightarrow> ('h, 'k) ClockKernel_scheme result" where
  "Release_alone cb l k = rbind (Lock_ClearHolder l k) (\<lambda>(s, k). V_alone cb s k)"

text \<open>The constructor of a lock; \<open>l\<close> is the place the caller keeps it at.\<close>

definition Lock_new :: "nat \<Rightarrow> ('h, 'k) ThreadKernel_scheme \<Rightarrow> ('h, 'k) ThreadKernel_scheme" where
  "Lock_new l k =
     (let (s, k) = Semaphore_new 1 k in k\<lparr>locks := (locks k)(l \<mapsto> \<lparr>semaphore = s, lockHolder = None\<rparr>)\<rparr>)"

end
