(* ===== verification/Consoles.thy ===== *)
theory Consoles
  imports Waiting
begin

text \<open>
  The keyboard and the display: \<open>ConsoleInput\<close> and \<open>ConsoleOutput\<close> of \<^verbatim>\<open>machine/console.cc\<close>, and
  \<open>SynchConsoleInput\<close> and \<open>SynchConsoleOutput\<close> of \<^verbatim>\<open>userprog/synchconsole.cc\<close>, which make threads
  wait for them.
\<close>

section \<open>Input\<close>

definition SynchConsoleInput_CallBack :: "('h, 'k) IOKernel_scheme \<Rightarrow> ('h, 'k) IOKernel_scheme result" where
  "SynchConsoleInput_CallBack k = Semaphore_V (s_wait (synchConsoleIn k)) k"

definition ConsoleInput_new ::
  "'h io \<Rightarrow> bytes option \<Rightarrow> ('h, 'k) IOKernel_scheme \<Rightarrow> ('h, 'k) IOKernel_scheme result" where
  "ConsoleInput_new U readFile k =
     rbind (case readFile of
              None \<Rightarrow> Ok (0, unix_state k)
            | Some name \<Rightarrow> OpenForReadWrite (files U) name True (unix_state k)) (\<lambda>(fd, h).
     Schedule ConsoleInObj ConsoleTime ConsoleReadInt
       ((set_unix h k)\<lparr>consoleInput := \<lparr>readFileNo = fd, incoming = EOF\<rparr>\<rparr>))"

definition ConsoleInput_delete ::
  "'h io \<Rightarrow> ('h, 'k) IOKernel_scheme \<Rightarrow> ('h, 'k) IOKernel_scheme result" where
  "ConsoleInput_delete U k =
     (if readFileNo (consoleInput k) \<noteq> 0
      then rbind (Close (files U) (readFileNo (consoleInput k)) (unix_state k)) (\<lambda>h. Ok (set_unix h k))
      else Ok k)"

definition ConsoleInput_CallBack ::
  "'h io \<Rightarrow> ('h, 'k) IOKernel_scheme \<Rightarrow> ('h, 'k) IOKernel_scheme result" where
  "ConsoleInput_CallBack U k =
     (let fd = readFileNo (consoleInput k) in
      ASSERT (incoming (consoleInput k) = EOF)
      (rbind (PollFile U fd (unix_state k)) (\<lambda>(ready, h).
       let k = set_unix h k in
       if \<not> ready then Schedule ConsoleInObj ConsoleTime ConsoleReadInt k
       else
         let ((readCount, data), h) = ReadPartial (files U) fd 1 (unix_state k); k = set_unix h k in
         rbind (if readCount = 0 then Ok k
                else ASSERT (readCount = 1)
                  (rbind (arr_get data 0) (\<lambda>c.
                   Ok (count_stat (\<lambda>st. st\<lparr>numConsoleCharsRead := numConsoleCharsRead st + 1\<rparr>)
                         (k\<lparr>consoleInput := (consoleInput k)\<lparr>incoming := c\<rparr>\<rparr>)))))
           SynchConsoleInput_CallBack)))"

definition ConsoleInput_GetChar ::
  "('h, 'k) IOKernel_scheme \<Rightarrow> (8 word \<times> ('h, 'k) IOKernel_scheme) result" where
  "ConsoleInput_GetChar k =
     (let ch = incoming (consoleInput k) in
      rbind (if ch \<noteq> EOF then Schedule ConsoleInObj ConsoleTime ConsoleReadInt k else Ok k) (\<lambda>k.
      Ok (ch, k\<lparr>consoleInput := (consoleInput k)\<lparr>incoming := EOF\<rparr>\<rparr>)))"

definition SynchConsoleInput_new ::
  "'h io \<Rightarrow> bytes option \<Rightarrow> nat \<Rightarrow> ('h, 'k) IOKernel_scheme \<Rightarrow> ('h, 'k) IOKernel_scheme result" where
  "SynchConsoleInput_new U inputFile l k =
     rbind (ConsoleInput_new U inputFile k) (\<lambda>k.
     let (s, k) = Semaphore_new 0 (Lock_new l k) in
     Ok (k\<lparr>synchConsoleIn := \<lparr>s_lock = l, s_wait = s\<rparr>\<rparr>))"

definition SynchConsoleInput_GetChar ::
  "('h, 'k IOKernel_ext) callback \<Rightarrow> ('h, 'k) IOKernel_scheme
   \<Rightarrow> (8 word \<times> ('h, 'k) IOKernel_scheme) result" where
  "SynchConsoleInput_GetChar cb k =
     rbind (Acquire_alone cb (s_lock (synchConsoleIn k)) k) (\<lambda>k.
     rbind (P_alone cb (s_wait (synchConsoleIn k)) k) (\<lambda>k.
     rbind (ConsoleInput_GetChar k) (\<lambda>(ch, k).
     rbind (Release_alone cb (s_lock (synchConsoleIn k)) k) (\<lambda>k. Ok (ch, k)))))"

section \<open>Output\<close>

definition SynchConsoleOutput_CallBack :: "('h, 'k) IOKernel_scheme \<Rightarrow> ('h, 'k) IOKernel_scheme result" where
  "SynchConsoleOutput_CallBack k = Semaphore_V (s_wait (synchConsoleOut k)) k"

definition ConsoleOutput_new ::
  "'h io \<Rightarrow> bytes option \<Rightarrow> ('h, 'k) IOKernel_scheme \<Rightarrow> ('h, 'k) IOKernel_scheme result" where
  "ConsoleOutput_new U writeFile k =
     rbind (case writeFile of
              None \<Rightarrow> Ok (1, unix_state k)
            | Some name \<Rightarrow> OpenForWrite (files U) name (unix_state k)) (\<lambda>(fd, h).
     Ok ((set_unix h k)\<lparr>consoleOutput := \<lparr>writeFileNo = fd, putBusy = False\<rparr>\<rparr>))"

definition ConsoleOutput_delete ::
  "'h io \<Rightarrow> ('h, 'k) IOKernel_scheme \<Rightarrow> ('h, 'k) IOKernel_scheme result" where
  "ConsoleOutput_delete U k =
     (if writeFileNo (consoleOutput k) \<noteq> 1
      then rbind (Close (files U) (writeFileNo (consoleOutput k)) (unix_state k)) (\<lambda>h. Ok (set_unix h k))
      else Ok k)"

definition ConsoleOutput_CallBack :: "('h, 'k) IOKernel_scheme \<Rightarrow> ('h, 'k) IOKernel_scheme result" where
  "ConsoleOutput_CallBack k =
     SynchConsoleOutput_CallBack
       (count_stat (\<lambda>st. st\<lparr>numConsoleCharsWritten := numConsoleCharsWritten st + 1\<rparr>)
         (k\<lparr>consoleOutput := (consoleOutput k)\<lparr>putBusy := False\<rparr>\<rparr>))"

definition ConsoleOutput_PutChar ::
  "'h io \<Rightarrow> 8 word \<Rightarrow> ('h, 'k) IOKernel_scheme \<Rightarrow> ('h, 'k) IOKernel_scheme result" where
  "ConsoleOutput_PutChar U ch k =
     ASSERT (\<not> putBusy (consoleOutput k))
     (rbind (WriteFile (files U) (writeFileNo (consoleOutput k)) [ch] (unix_state k)) (\<lambda>h.
      Schedule ConsoleOutObj ConsoleTime ConsoleWriteInt
        ((set_unix h k)\<lparr>consoleOutput := (consoleOutput k)\<lparr>putBusy := True\<rparr>\<rparr>)))"

definition SynchConsoleOutput_new ::
  "'h io \<Rightarrow> bytes option \<Rightarrow> nat \<Rightarrow> ('h, 'k) IOKernel_scheme \<Rightarrow> ('h, 'k) IOKernel_scheme result" where
  "SynchConsoleOutput_new U outputFile l k =
     rbind (ConsoleOutput_new U outputFile k) (\<lambda>k.
     let (s, k) = Semaphore_new 0 (Lock_new l k) in
     Ok (k\<lparr>synchConsoleOut := \<lparr>s_lock = l, s_wait = s\<rparr>\<rparr>))"

definition SynchConsoleOutput_PutChar ::
  "('h, 'k IOKernel_ext) callback \<Rightarrow> 'h io \<Rightarrow> 8 word \<Rightarrow> ('h, 'k) IOKernel_scheme
   \<Rightarrow> ('h, 'k) IOKernel_scheme result" where
  "SynchConsoleOutput_PutChar cb U ch k =
     rbind (Acquire_alone cb (s_lock (synchConsoleOut k)) k) (\<lambda>k.
     rbind (ConsoleOutput_PutChar U ch k) (\<lambda>k.
     rbind (P_alone cb (s_wait (synchConsoleOut k)) k) (\<lambda>k.
     Release_alone cb (s_lock (synchConsoleOut k)) k)))"

text \<open>The loop of \<open>Kernel::ConsoleTest\<close>: every character that is read is written, until \<open>EOF\<close>.\<close>

partial_function (option) ConsoleTest ::
  "('h, 'k IOKernel_ext) callback \<Rightarrow> 'h io \<Rightarrow> ('h, 'k) IOKernel_scheme
   \<Rightarrow> ('h, 'k) IOKernel_scheme result option" where
  "ConsoleTest cb U k =
     (case SynchConsoleInput_GetChar cb k of
        Fault f \<Rightarrow> Some (Fault f)
      | Ok (ch, k) \<Rightarrow>
          if ch \<noteq> EOF
          then (case SynchConsoleOutput_PutChar cb U ch k of
                  Fault f \<Rightarrow> Some (Fault f)
                | Ok k \<Rightarrow> ConsoleTest cb U k)
          else Some (Ok k))"

end
