(* ===== verification/Disk_Device.thy ===== *)
theory Disk_Device
  imports Waiting
begin

text \<open>
  The simulated disk, \<^verbatim>\<open>machine/disk.cc\<close>, kept in a file of the host, and \<open>SynchDisk\<close> of
  \<^verbatim>\<open>filesys/synchdisk.cc\<close>, which makes a thread wait until its request is done. A buffer of one
  sector is the list of its bytes.
\<close>

section \<open>Geometry\<close>

definition SectorSize :: int where "SectorSize = 128"
definition SectorsPerTrack :: int where "SectorsPerTrack = 32"
definition NumTracks :: int where "NumTracks = 32"
definition NumSectors :: int where "NumSectors = SectorsPerTrack * NumTracks"
definition MagicNumber :: "32 word" where "MagicNumber = 0x456789ab"
definition MagicSize :: int where "MagicSize = 4"
definition DiskSize :: int where "DiskSize = MagicSize + NumSectors * SectorSize"

lemmas disk_consts = SectorSize_def SectorsPerTrack_def NumTracks_def NumSectors_def MagicSize_def

section \<open>The time a request takes\<close>

definition TimeToSeek :: "int \<Rightarrow> ('h, 'k) IOKernel_scheme \<Rightarrow> int \<times> int" where
  "TimeToSeek newSector k =
     (let newTrack = newSector sdiv SectorsPerTrack;
          oldTrack = lastSector (disk k) sdiv SectorsPerTrack;
          seek = \<bar>newTrack - oldTrack\<bar> * SeekTime;
          over = (now k + seek) smod RotationTime
      in (seek, if over > 0 then RotationTime - over else 0))"

definition ModuloDiff :: "int \<Rightarrow> int \<Rightarrow> int" where
  "ModuloDiff to from =
     (let toOffset = to smod SectorsPerTrack; fromOffset = from smod SectorsPerTrack
      in ((toOffset - fromOffset) + SectorsPerTrack) smod SectorsPerTrack)"

definition ComputeLatency :: "int \<Rightarrow> bool \<Rightarrow> ('h, 'k) IOKernel_scheme \<Rightarrow> int" where
  "ComputeLatency newSector writing k =
     (let (seek, rotation) = TimeToSeek newSector k; timeAfter = now k + seek + rotation in
      if \<not> writing \<and> seek = 0
         \<and> (timeAfter - bufferInit (disk k)) sdiv RotationTime
             > ModuloDiff newSector (bufferInit (disk k) sdiv RotationTime)
      then RotationTime
      else let rotation = rotation + ModuloDiff newSector (timeAfter sdiv RotationTime) * RotationTime
           in seek + rotation + RotationTime)"

definition UpdateLast :: "int \<Rightarrow> ('h, 'k) IOKernel_scheme \<Rightarrow> ('h, 'k) IOKernel_scheme" where
  "UpdateLast newSector k =
     (let (seek, rotate) = TimeToSeek newSector k;
          k = (if seek \<noteq> 0 then k\<lparr>disk := (disk k)\<lparr>bufferInit := now k + seek + rotate\<rparr>\<rparr> else k)
      in k\<lparr>disk := (disk k)\<lparr>lastSector := newSector\<rparr>\<rparr>)"

section \<open>Requests\<close>

definition ReadRequest ::
  "'h io \<Rightarrow> int \<Rightarrow> ('h, 'k) IOKernel_scheme \<Rightarrow> (bytes \<times> ('h, 'k) IOKernel_scheme) result" where
  "ReadRequest U sectorNumber k =
     (let ticks = ComputeLatency sectorNumber False k in
      ASSERT (\<not> active (disk k))
      (ASSERT (sectorNumber \<ge> 0 \<and> sectorNumber < NumSectors)
      (rbind (Lseek (files U) (fileno (disk k)) (SectorSize * sectorNumber + MagicSize) 0 (unix_state k)) (\<lambda>h.
       rbind (Read_all (files U) (fileno (disk k)) SectorSize h) (\<lambda>(data, h).
       let k = set_unix h k;
           k = UpdateLast sectorNumber (k\<lparr>disk := (disk k)\<lparr>active := True\<rparr>\<rparr>);
           k = count_stat (\<lambda>st. st\<lparr>numDiskReads := numDiskReads st + 1\<rparr>) k in
       rbind (Schedule DiskObj ticks DiskInt k) (\<lambda>k. Ok (data, k)))))))"

definition WriteRequest ::
  "'h io \<Rightarrow> int \<Rightarrow> bytes \<Rightarrow> ('h, 'k) IOKernel_scheme \<Rightarrow> ('h, 'k) IOKernel_scheme result" where
  "WriteRequest U sectorNumber data k =
     (let ticks = ComputeLatency sectorNumber True k in
      ASSERT (\<not> active (disk k))
      (ASSERT (sectorNumber \<ge> 0 \<and> sectorNumber < NumSectors)
      (rbind (Lseek (files U) (fileno (disk k)) (SectorSize * sectorNumber + MagicSize) 0 (unix_state k)) (\<lambda>h.
       rbind (rbind (copy_out data 0 SectorSize) (\<lambda>b. WriteFile (files U) (fileno (disk k)) b h)) (\<lambda>h.
       let k = set_unix h k;
           k = UpdateLast sectorNumber (k\<lparr>disk := (disk k)\<lparr>active := True\<rparr>\<rparr>);
           k = count_stat (\<lambda>st. st\<lparr>numDiskWrites := numDiskWrites st + 1\<rparr>) k in
       Schedule DiskObj ticks DiskInt k)))))"

text \<open>The host name makes the name of the file, \<^verbatim>\<open>DISK_0\<close> for machine 0.\<close>

definition diskname :: "int \<Rightarrow> bytes" where
  "diskname n = [68, 73, 83, 75, 95] @ decimal n"

definition Disk_new :: "'h io \<Rightarrow> ('h, 'k) IOKernel_scheme \<Rightarrow> ('h, 'k) IOKernel_scheme result" where
  "Disk_new U k =
     rbind (OpenForReadWrite (files U) (diskname (hostName k)) False (unix_state k)) (\<lambda>(fd, h).
     rbind (if fd \<ge> 0
            then rbind (Read_all (files U) fd MagicSize h) (\<lambda>(magic, h).
                 ASSERT (bytes_int magic = MagicNumber) (Ok (fd, h)))
            else rbind (OpenForWrite (files U) (diskname (hostName k)) h) (\<lambda>(fd, h).
                 rbind (WriteFile (files U) fd (int_bytes MagicNumber) h) (\<lambda>h.
                 rbind (Lseek (files U) fd (DiskSize - 4) 0 h) (\<lambda>h.
                 rbind (WriteFile (files U) fd (int_bytes 0) h) (\<lambda>h. Ok (fd, h)))))) (\<lambda>(fd, h).
     Ok ((set_unix h k)\<lparr>disk := \<lparr>fileno = fd, active = False, lastSector = 0, bufferInit = 0\<rparr>\<rparr>)))"

definition Disk_delete :: "'h io \<Rightarrow> ('h, 'k) IOKernel_scheme \<Rightarrow> ('h, 'k) IOKernel_scheme result" where
  "Disk_delete U k = rbind (Close (files U) (fileno (disk k)) (unix_state k)) (\<lambda>h. Ok (set_unix h k))"

section \<open>SynchDisk\<close>

definition SynchDisk_CallBack :: "('h, 'k) IOKernel_scheme \<Rightarrow> ('h, 'k) IOKernel_scheme result" where
  "SynchDisk_CallBack k = Semaphore_V (s_wait (synchDisk k)) k"

definition Disk_CallBack :: "('h, 'k) IOKernel_scheme \<Rightarrow> ('h, 'k) IOKernel_scheme result" where
  "Disk_CallBack k = SynchDisk_CallBack (k\<lparr>disk := (disk k)\<lparr>active := False\<rparr>\<rparr>)"

definition SynchDisk_new ::
  "'h io \<Rightarrow> nat \<Rightarrow> ('h, 'k) IOKernel_scheme \<Rightarrow> ('h, 'k) IOKernel_scheme result" where
  "SynchDisk_new U l k =
     (let (s, k) = Semaphore_new 0 k; k = Lock_new l k in
      Disk_new U (k\<lparr>synchDisk := \<lparr>s_lock = l, s_wait = s\<rparr>\<rparr>))"

definition ReadSector ::
  "('h, 'k IOKernel_ext) callback \<Rightarrow> 'h io \<Rightarrow> int \<Rightarrow> ('h, 'k) IOKernel_scheme
   \<Rightarrow> (bytes \<times> ('h, 'k) IOKernel_scheme) result" where
  "ReadSector cb U sectorNumber k =
     rbind (Acquire_alone cb (s_lock (synchDisk k)) k) (\<lambda>k.
     rbind (ReadRequest U sectorNumber k) (\<lambda>(data, k).
     rbind (P_alone cb (s_wait (synchDisk k)) k) (\<lambda>k.
     rbind (Release_alone cb (s_lock (synchDisk k)) k) (\<lambda>k. Ok (data, k)))))"

definition WriteSector ::
  "('h, 'k IOKernel_ext) callback \<Rightarrow> 'h io \<Rightarrow> int \<Rightarrow> bytes \<Rightarrow> ('h, 'k) IOKernel_scheme
   \<Rightarrow> ('h, 'k) IOKernel_scheme result" where
  "WriteSector cb U sectorNumber data k =
     rbind (Acquire_alone cb (s_lock (synchDisk k)) k) (\<lambda>k.
     rbind (WriteRequest U sectorNumber data k) (\<lambda>k.
     rbind (P_alone cb (s_wait (synchDisk k)) k) (\<lambda>k.
     Release_alone cb (s_lock (synchDisk k)) k)))"

section \<open>Where the head is\<close>

text \<open>The next time from \<open>t\<close> on at which a sector begins to pass under the head.\<close>

lemma round_up:
  fixes t :: int
  defines "r \<equiv> t + (if t mod 500 > 0 then 500 - t mod 500 else 0)"
  shows "500 dvd r" "t \<le> r" "r < t + 500"
proof -
  have "t mod 500 < 500" "0 \<le> t mod 500" by simp_all
  moreover have "500 dvd t" if "t mod 500 = 0" using that by (simp add: dvd_eq_mod_eq_0)
  moreover have "500 dvd (t - t mod 500)" by (simp add: minus_mod_eq_mult_div)
  then have "500 dvd (t + (500 - t mod 500))" by (metis add_diff_eq diff_add_eq dvd_add_left_iff dvd_refl)
  ultimately show "500 dvd r" "t \<le> r" "r < t + 500"
    unfolding r_def by (auto simp: le_less)
qed

lemma ModuloDiff_eq:
  assumes "0 \<le> to" "0 \<le> from"
  shows "ModuloDiff to from = (to - from) mod 32"
proof -
  have "0 \<le> to mod 32 - from mod 32 + 32" by (smt (verit) pos_mod_bound pos_mod_sign)
  then have "ModuloDiff to from = (to mod 32 - from mod 32 + 32) mod 32"
    using assms by (simp add: ModuloDiff_def SectorsPerTrack_def Let_def smod_nonneg)
  then show ?thesis by (simp add: mod_diff_eq)
qed

definition seek_time :: "int \<Rightarrow> ('h, 'k) IOKernel_scheme \<Rightarrow> int" where
  "seek_time s k = \<bar>s div 32 - lastSector (disk k) div 32\<bar> * 500"

lemma TimeToSeek_eq:
  assumes "0 \<le> s" "0 \<le> lastSector (disk k)" "0 \<le> now k"
  shows "TimeToSeek s k = (seek_time s k,
    let over = (now k + seek_time s k) mod 500 in if over > 0 then 500 - over else 0)"
proof -
  have "0 \<le> seek_time s k" by (simp add: seek_time_def)
  with assms show ?thesis
    by (simp add: TimeToSeek_def seek_time_def SectorsPerTrack_def SeekTime_def RotationTime_def Let_def
        sdiv_nonneg smod_nonneg)
qed

lemma Latency_write:
  assumes "0 \<le> s" "0 \<le> lastSector (disk k)" "0 \<le> now k"
  defines "b \<equiv> now k + seek_time s k"
  defines "r \<equiv> b + (if b mod 500 > 0 then 500 - b mod 500 else 0)"
  shows "now k + ComputeLatency s True k = r + ((s - r div 500) mod 32) * 500 + 500"
proof -
  have "0 \<le> b" using assms(3) by (simp add: b_def seek_time_def)
  with round_up(2) [of b] have "0 \<le> r" unfolding r_def by linarith
  then have m: "ModuloDiff s (r sdiv RotationTime) = (s - r div 500) mod 32"
    using assms(1) by (simp add: RotationTime_def sdiv_nonneg ModuloDiff_eq pos_imp_zdiv_nonneg_iff)
  have T: "TimeToSeek s k = (seek_time s k, r - b)"
    by (simp add: TimeToSeek_eq [OF assms(1-3)] r_def b_def Let_def)
  have e: "now k + seek_time s k + (r - b) = r" by (simp add: b_def)
  have "ComputeLatency s True k = seek_time s k + (r - b + (s - r div 500) mod 32 * 500) + 500"
    unfolding ComputeLatency_def T Let_def prod.case e m by (simp add: RotationTime_def)
  with e show ?thesis by simp
qed

lemma Latency_read: "ComputeLatency s False k = ComputeLatency s True k \<or> ComputeLatency s False k = 500"
proof -
  obtain a b where T: "TimeToSeek s k = (a, b)" by force
  show ?thesis unfolding ComputeLatency_def T Let_def prod.case by (simp add: RotationTime_def)
qed

text \<open>
  Of the times from \<open>b\<close> on at which a sector begins, the first one for sector \<open>s\<close>.
\<close>

definition sector_starts :: "int \<Rightarrow> int \<Rightarrow> bool" where
  "sector_starts s t \<longleftrightarrow> t mod 500 = 0 \<and> (t div 500) mod 32 = s mod 32"

lemma first_start:
  fixes b s :: int
  defines "r \<equiv> b + (if b mod 500 > 0 then 500 - b mod 500 else 0)"
  defines "t \<equiv> r + ((s - r div 500) mod 32) * 500"
  shows "sector_starts s t" "b \<le> t" "t < b + 500 + 31 * 500"
    "\<And>u. b \<le> u \<Longrightarrow> u < t \<Longrightarrow> \<not> sector_starts s u"
proof -
  have r: "500 dvd r" "b \<le> r" "r < b + 500" unfolding r_def by (rule round_up)+
  define q where "q = r div 500"
  define n where "n = (s - q) mod 32"
  have rq: "r = q * 500" using r(1) by (auto simp: q_def)
  have n: "0 \<le> n" "n \<le> 31" using pos_mod_bound [of 32 "s - q"] by (auto simp: n_def)
  have t: "t = (q + n) * 500" unfolding t_def n_def q_def [symmetric] rq by (simp add: distrib_right)
  have "(q + n) mod 32 = (q + (s - q)) mod 32" unfolding n_def by (rule mod_add_right_eq)
  then show "sector_starts s t" by (simp add: sector_starts_def t)
  have tr: "t = r + n * 500" unfolding t_def n_def q_def ..
  show "b \<le> t" unfolding tr using r(2) n(1) by linarith
  show "t < b + 500 + 31 * 500" unfolding tr using r(3) n(2) by linarith
  fix u assume u: "b \<le> u" "u < t"
  show "\<not> sector_starts s u"
  proof
    assume a: "sector_starts s u"
    then have us: "u = (u div 500) * 500" "(u div 500) mod 32 = s mod 32"
      by (auto simp: sector_starts_def)
    define m where "m = u div 500 - q"
    have "u div 500 * 500 < (q + n) * 500" using us(1) u(2) unfolding t by simp
    then have "u div 500 < q + n" by simp
    moreover have "q * 500 < (u div 500 + 1) * 500"
      using us(1) u(1) r(3) unfolding rq by (simp add: distrib_right)
    then have "q \<le> u div 500" by simp
    ultimately have m: "0 \<le> m" "m < n" by (simp_all add: m_def)
    have "m mod 32 = (s - q) mod 32" unfolding m_def using us(2) by (metis mod_diff_left_eq)
    then have "m = n" using m n by (simp add: n_def)
    with m show False by simp
  qed
qed

section \<open>What the disk holds\<close>

text \<open>The sectors in the file of the disk, of which the first four bytes are the magic number.\<close>

definition disk_sectors :: "bytes \<Rightarrow> bytes list" where
  "disk_sectors c = map (\<lambda>i. take 128 (drop (128 * i + 4) c)) [0..<1024]"

definition disk_image :: "bytes \<Rightarrow> bool" where
  "disk_image c \<longleftrightarrow> length c = 131076"

lemma disk_sectors_nth: "i < 1024 \<Longrightarrow> disk_sectors c ! i = take 128 (drop (128 * i + 4) c)"
  by (simp add: disk_sectors_def)

lemma length_disk_sectors [simp]: "length (disk_sectors c) = 1024"
  by (simp add: disk_sectors_def)

lemma write_at_inside:
  "off + length b \<le> length c \<Longrightarrow> write_at c off b = take off c @ b @ drop (off + length b) c"
  by (simp add: write_at_def)

lemma write_sector:
  assumes "disk_image c" "i < 1024" "length d = 128"
  shows "disk_sectors (write_at c (128 * i + 4) d) = (disk_sectors c)[i := d]"
    and "disk_image (write_at c (128 * i + 4) d)"
proof -
  have fits: "128 * i + 4 + 128 \<le> length c" using assms by (simp add: disk_image_def)
  then show "disk_image (write_at c (128 * i + 4) d)" using assms by (simp add: disk_image_def write_at_def)
  show "disk_sectors (write_at c (128 * i + 4) d) = (disk_sectors c)[i := d]"
  proof (rule nth_equalityI)
    fix j assume "j < length (disk_sectors (write_at c (128 * i + 4) d))"
    then have j: "j < 1024" by simp
    consider "j < i" | "j = i" | "i < j" by linarith
    then have "take 128 (drop (128 * j + 4) (take (128 * i + 4) c @ d @ drop (128 * i + 4 + 128) c))
      = (disk_sectors c)[i := d] ! j"
    proof cases
      case 1
      then have "128 * j + 4 + 128 \<le> 128 * i + 4" by simp
      with 1 j fits show ?thesis
        by (auto simp: disk_sectors_nth nth_list_update take_drop min_def)
    next
      case 2
      then show ?thesis using j fits assms(3) by simp
    next
      case 3
      then have "128 * i + 4 + 128 \<le> 128 * j + 4" by simp
      with 3 j fits assms(3) show ?thesis
        by (simp add: disk_sectors_nth nth_list_update add.commute)
    qed
    then show "disk_sectors (write_at c (128 * i + 4) d) ! j = (disk_sectors c)[i := d] ! j"
      using write_at_inside [of "128 * i + 4" d c] j fits assms(3) by (simp add: disk_sectors_nth add.commute)
  qed simp
qed

lemma Latency_bounds:
  assumes "0 \<le> s" "s < 1024" "0 \<le> lastSector (disk k)" "lastSector (disk k) < 1024" "0 \<le> now k"
  shows "500 \<le> ComputeLatency s w k" "ComputeLatency s w k < 64 * 500"
    "ComputeLatency s False k \<le> ComputeLatency s True k"
    "\<exists>t. now k + ComputeLatency s True k = t + 500 \<and> sector_starts s t \<and> now k + seek_time s k \<le> t
       \<and> (\<forall>u. now k + seek_time s k \<le> u \<and> u < t \<longrightarrow> \<not> sector_starts s u)"
proof -
  define b where "b = now k + seek_time s k"
  define r where "r = b + (if b mod 500 > 0 then 500 - b mod 500 else 0)"
  define t where "t = r + ((s - r div 500) mod 32) * 500"
  have "0 \<le> s div 32" "s div 32 < 32" "0 \<le> lastSector (disk k) div 32" "lastSector (disk k) div 32 < 32"
    using assms by simp_all
  then have "\<bar>s div 32 - lastSector (disk k) div 32\<bar> \<le> 31" by linarith
  then have sk: "0 \<le> seek_time s k" "seek_time s k \<le> 31 * 500" by (simp_all add: seek_time_def)
  have L: "now k + ComputeLatency s True k = t + 500"
    using Latency_write [OF assms(1,3,5)] unfolding b_def [symmetric] r_def [symmetric] t_def [symmetric] .
  have t: "sector_starts s t" "b \<le> t" "t < b + 500 + 31 * 500"
    "\<And>u. b \<le> u \<Longrightarrow> u < t \<Longrightarrow> \<not> sector_starts s u"
    unfolding t_def r_def by (rule first_start; assumption)+
  have W: "500 \<le> ComputeLatency s True k" "ComputeLatency s True k < 64 * 500"
    using L t(2,3) sk unfolding b_def by linarith+
  moreover note Latency_read [of s k]
  moreover have "ComputeLatency s w k = ComputeLatency s True k \<or> ComputeLatency s w k = ComputeLatency s False k"
    by (cases w) simp_all
  ultimately show "500 \<le> ComputeLatency s w k" "ComputeLatency s w k < 64 * 500"
    "ComputeLatency s False k \<le> ComputeLatency s True k"
    by linarith+
  show "\<exists>t. now k + ComputeLatency s True k = t + 500 \<and> sector_starts s t \<and> now k + seek_time s k \<le> t
       \<and> (\<forall>u. now k + seek_time s k \<le> u \<and> u < t \<longrightarrow> \<not> sector_starts s u)"
    using L t unfolding b_def by blast
qed

lemma UpdateLast_more:
  "UpdateLast s k = k\<lparr>disk := disk (UpdateLast s k)\<rparr>"
  "fileno (disk (UpdateLast s k)) = fileno (disk k)" "active (disk (UpdateLast s k)) = active (disk k)"
  "lastSector (disk (UpdateLast s k)) = s"
  by (auto simp: UpdateLast_def Let_def split: prod.split)

lemma disk_head:
  assumes "posix_file (files U) (fileno (disk k)) v" "0 \<le> s" "s < NumSectors"
  obtains h where "Lseek (files U) (fileno (disk k)) (SectorSize * s + MagicSize) 0 (unix_state k) = Ok h"
    "v h = (fst (v (unix_state k)), 128 * nat s + 4)"
proof -
  have "0 \<le> SectorSize * s + MagicSize" using assms(2) by (simp add: disk_consts)
  from posix_fileD(1) [OF assms(1) this, of "unix_state k"] obtain h where
    h: "u_lseek (files U) (fileno (disk k)) (SectorSize * s + MagicSize) 0 (unix_state k)
        = (SectorSize * s + MagicSize, h)"
      "v h = (fst (v (unix_state k)), nat (SectorSize * s + MagicSize))" by blast
  moreover have "nat (SectorSize * s + MagicSize) = 128 * nat s + 4"
    using assms(2) by (simp add: disk_consts nat_add_distrib nat_mult_distrib)
  ultimately show thesis using \<open>0 \<le> SectorSize * s + MagicSize\<close> by (intro that) (auto simp: Lseek_def)
qed

text \<open>The kernel after a request, but for its fields that only count.\<close>

definition started :: "int \<Rightarrow> bool \<Rightarrow> ('h, 'k) IOKernel_scheme \<Rightarrow> ('h, 'k) IOKernel_scheme \<Rightarrow> bool" where
  "started s w k k' \<longleftrightarrow>
     active (disk k') \<and> fileno (disk k') = fileno (disk k) \<and> lastSector (disk k') = s \<and> now k' = now k
     \<and> pending k' = sl_insert PendingCompare
          \<lparr>callOnInterrupt = DiskObj, due = now k + ComputeLatency s w k, itype = DiskInt\<rparr> (pending k)"

lemma started_Schedule:
  assumes "0 < ComputeLatency s w k" "\<And>st. totalTicks (g st) = totalTicks st"
  shows "\<exists>k'. Schedule DiskObj (ComputeLatency s w k) DiskInt
      (count_stat g (UpdateLast s (set_unix h k\<lparr>disk := (disk k)\<lparr>active := True\<rparr>\<rparr>))) = Ok k'
    \<and> started s w k k' \<and> unix_state k' = h"
proof -
  let ?k = "set_unix h k\<lparr>disk := (disk k)\<lparr>active := True\<rparr>\<rparr>"
  show ?thesis
    using assms UpdateLast_more(2-) [of s ?k]
    by (subst UpdateLast_more(1)) (simp add: Schedule_def Let_def count_stat_def started_def)
qed

lemma ReadRequest_spec:
  fixes k :: "('h, 'k) IOKernel_scheme"
  assumes c_def: "c = fst (v (unix_state k))"
    and "posix_file (files U) (fileno (disk k)) v" "disk_image c"
    and "0 \<le> lastSector (disk k)" "lastSector (disk k) < NumSectors" "0 \<le> now k"
    and "\<not> active (disk k)" "0 \<le> s" "s < NumSectors"
  shows "\<exists>k'. ReadRequest U s k = Ok (disk_sectors c ! nat s, k') \<and> started s False k k' \<and> fst (v (unix_state k')) = c"
proof -
  obtain h where h: "Lseek (files U) (fileno (disk k)) (SectorSize * s + MagicSize) 0 (unix_state k) = Ok h"
    "v h = (c, 128 * nat s + 4)" unfolding c_def by (rule disk_head [OF assms(2,8,9)])
  have n: "nat s < 1024" using assms(8,9) by (simp add: disk_consts)
  obtain h' where h': "Read_all (files U) (fileno (disk k)) SectorSize h = Ok (disk_sectors c ! nat s, h')"
    "fst (v h') = c"
    using posix_fileD(4) [OF assms(2), of SectorSize h] h(2) n assms(3)
    by (fastforce simp: Read_all_def disk_consts disk_image_def disk_sectors_nth Let_def)
  have "0 < ComputeLatency s False k"
    using Latency_bounds(1) [of s k False] assms(4-) by (simp add: disk_consts)
  from started_Schedule [OF this, of "\<lambda>st. st\<lparr>numDiskReads := numDiskReads st + 1\<rparr>" h']
  show ?thesis using assms(7-9) h h' by (auto simp: ReadRequest_def Let_def)
qed

lemma WriteRequest_spec:
  fixes k :: "('h, 'k) IOKernel_scheme"
  assumes c_def: "c = fst (v (unix_state k))"
    and "posix_file (files U) (fileno (disk k)) v" "disk_image c"
    and "0 \<le> lastSector (disk k)" "lastSector (disk k) < NumSectors" "0 \<le> now k"
    and "\<not> active (disk k)" "0 \<le> s" "s < NumSectors" "length data = nat SectorSize"
  shows "\<exists>k'. WriteRequest U s data k = Ok k' \<and> started s True k k' \<and> disk_image (fst (v (unix_state k')))
        \<and> disk_sectors (fst (v (unix_state k'))) = (disk_sectors c)[nat s := data]"
proof -
  obtain h where h: "Lseek (files U) (fileno (disk k)) (SectorSize * s + MagicSize) 0 (unix_state k) = Ok h"
    "v h = (c, 128 * nat s + 4)" unfolding c_def by (rule disk_head [OF assms(2,8,9)])
  have n: "nat s < 1024" "length data = 128" using assms(8-) by (simp_all add: disk_consts)
  have o: "copy_out data 0 SectorSize = Ok data" using n by (simp add: copy_out_def disk_consts)
  obtain h' where h': "WriteFile (files U) (fileno (disk k)) data h = Ok h'"
    "fst (v h') = write_at c (128 * nat s + 4) data"
    using posix_fileD(5) [OF assms(2), of data h] h(2) by (fastforce simp: WriteFile_def Let_def)
  have "0 < ComputeLatency s True k"
    using Latency_bounds(1) [of s k True] assms(4-) by (simp add: disk_consts)
  from started_Schedule [OF this, of "\<lambda>st. st\<lparr>numDiskWrites := numDiskWrites st + 1\<rparr>" h']
  show ?thesis using assms(7-9) h h' o write_sector [OF assms(3) n(1,2)]
    by (auto simp: WriteRequest_def Let_def)
qed

section \<open>Properties\<close>

text \<open>How long a request of the disk takes. A write lasts until one sector time (500 ticks) after the
  first moment, no earlier than the end of the seek, at which the requested sector begins to pass under
  the head; so every request takes at least one sector time and less than 64 of them (31 for the seek and
  33 for the rotation); a read takes the same time, or one sector time when the sector is in the track
  buffer, for which the head must be on its track.\<close>

theorem Disk_latency:
  fixes k :: "('h, 'k) IOKernel_scheme"
  assumes "0 \<le> s" "s < NumSectors" "0 \<le> lastSector (disk k)" "lastSector (disk k) < NumSectors" "0 \<le> now k"
  shows "RotationTime \<le> ComputeLatency s w k \<and> ComputeLatency s w k < 64 * RotationTime
    \<and> (\<exists>t. now k + ComputeLatency s True k = t + RotationTime \<and> sector_starts s t
        \<and> now k + fst (TimeToSeek s k) \<le> t
        \<and> (\<forall>u. now k + fst (TimeToSeek s k) \<le> u \<and> u < t \<longrightarrow> \<not> sector_starts s u))
    \<and> (ComputeLatency s False k = ComputeLatency s True k
       \<or> ComputeLatency s False k = RotationTime \<and> s div 32 = lastSector (disk k) div 32)"
proof -
  have a: "0 \<le> s" "s < 1024" "0 \<le> lastSector (disk k)" "lastSector (disk k) < 1024" "0 \<le> now k"
    using assms by (simp_all add: disk_consts)
  have T: "fst (TimeToSeek s k) = seek_time s k" by (simp add: TimeToSeek_eq a)
  have "ComputeLatency s False k = ComputeLatency s True k
       \<or> ComputeLatency s False k = 500 \<and> s div 32 = lastSector (disk k) div 32"
  proof (cases "seek_time s k = 0")
    case True
    with Latency_read [of s k] show ?thesis by (auto simp: seek_time_def)
  next
    case False
    then show ?thesis by (simp add: ComputeLatency_def TimeToSeek_eq a Let_def)
  qed
  then show ?thesis using Latency_bounds [OF a] unfolding T by (simp add: RotationTime_def)
qed

theorem Disk_latency_witness:
  "ComputeLatency 40 True demo_io < 32000
   \<and> (\<exists>t. ComputeLatency 40 True demo_io = t + 500 \<and> sector_starts 40 t \<and> 500 \<le> t)"
proof -
  have d: "0 \<le> lastSector (disk demo_io)" "lastSector (disk demo_io) < NumSectors" "0 \<le> now demo_io"
    "TimeToSeek 40 demo_io = (500, 0)" "now demo_io = 0"
    by (simp_all add: demo_io_def demo_machine_def Statistics_new_def disk_consts TimeToSeek_def Let_def SeekTime_def
        RotationTime_def sdiv_nonneg smod_nonneg)
  have "(0::int) \<le> 40" "40 < NumSectors" by (simp_all add: disk_consts)
  from Disk_latency [OF this d(1-3), of True] show ?thesis
    unfolding d(4,5) by (auto simp: RotationTime_def)
qed

lemma disk_refines_sectors_parts:
  fixes k :: "('h, 'k) IOKernel_scheme"
  defines "content \<equiv> (\<lambda>v (k :: ('h, 'k) IOKernel_scheme). fst (v (unix_state k)) :: bytes)"
  assumes "posix_file (files U) (fileno (disk k)) v" "disk_image (content v k)"
    and "0 \<le> lastSector (disk k)" "lastSector (disk k) < NumSectors" "0 \<le> now k"
  shows "\<not> active (disk k) \<Longrightarrow> 0 \<le> s \<Longrightarrow> s < NumSectors \<Longrightarrow>
      \<exists>k'. ReadRequest U s k = Ok (disk_sectors (content v k) ! nat s, k') \<and> started s False k k'
        \<and> content v k' = content v k"
    and "\<not> active (disk k) \<Longrightarrow> 0 \<le> s \<Longrightarrow> s < NumSectors \<Longrightarrow> length data = nat SectorSize \<Longrightarrow>
      \<exists>k'. WriteRequest U s data k = Ok k' \<and> started s True k k' \<and> disk_image (content v k')
        \<and> disk_sectors (content v k') = (disk_sectors (content v k))[nat s := data]"
    and "active (disk k) \<or> s < 0 \<or> NumSectors \<le> s \<Longrightarrow>
      ReadRequest U s k = Fault AssertFailed \<and> WriteRequest U s data k = Fault AssertFailed"
proof -
  show "\<exists>k'. ReadRequest U s k = Ok (disk_sectors (content v k) ! nat s, k') \<and> started s False k k'
        \<and> content v k' = content v k"
    if "\<not> active (disk k)" "0 \<le> s" "s < NumSectors"
    using ReadRequest_spec [OF refl assms(2) _ assms(4-6) that] assms(3) by (simp add: content_def)
  show "\<exists>k'. WriteRequest U s data k = Ok k' \<and> started s True k k' \<and> disk_image (content v k')
        \<and> disk_sectors (content v k') = (disk_sectors (content v k))[nat s := data]"
    if "\<not> active (disk k)" "0 \<le> s" "s < NumSectors" "length data = nat SectorSize"
    using WriteRequest_spec [OF refl assms(2) _ assms(4-6) that] assms(3) by (simp add: content_def)
  show "ReadRequest U s k = Fault AssertFailed \<and> WriteRequest U s data k = Fault AssertFailed"
    if "active (disk k) \<or> s < 0 \<or> NumSectors \<le> s"
    using that by (auto simp: ReadRequest_def WriteRequest_def Let_def ASSERT_def)
qed

text \<open>C25: The disk implements an array of 1024 sectors in the file of the host, behind the four bytes of
  the magic number. A read of a sector gives its bytes and changes none, a write replaces that sector and
  no other; both make the disk busy and schedule its interrupt after the latency, and both are refused
  by an assertion when the disk is busy or the sector is not one of the disk.\<close>

theorem Disk_refines_sectors:
  fixes k :: "('h, 'k) IOKernel_scheme"
  defines "content \<equiv> (\<lambda>v (k :: ('h, 'k) IOKernel_scheme). fst (v (unix_state k)) :: bytes)"
  assumes "posix_file (files U) (fileno (disk k)) v" "disk_image (content v k)"
    and "0 \<le> lastSector (disk k)" "lastSector (disk k) < NumSectors" "0 \<le> now k"
  shows "(\<not> active (disk k) \<and> 0 \<le> s \<and> s < NumSectors \<longrightarrow>
        (\<exists>k'. ReadRequest U s k = Ok (disk_sectors (content v k) ! nat s, k') \<and> started s False k k'
          \<and> content v k' = content v k))
    \<and> (\<not> active (disk k) \<and> 0 \<le> s \<and> s < NumSectors \<and> length data = nat SectorSize \<longrightarrow>
        (\<exists>k'. WriteRequest U s data k = Ok k' \<and> started s True k k' \<and> disk_image (content v k')
          \<and> disk_sectors (content v k') = (disk_sectors (content v k))[nat s := data]))
    \<and> (active (disk k) \<or> s < 0 \<or> NumSectors \<le> s \<longrightarrow>
        ReadRequest U s k = Fault AssertFailed \<and> WriteRequest U s data k = Fault AssertFailed)"
  unfolding content_def
  using disk_refines_sectors_parts [OF assms(2) _ assms(4-6), of s] assms(3) unfolding content_def
  by (intro conjI impI) simp_all

theorem Disk_refines_sectors_witness:
  "\<exists>k1. WriteRequest quiet_host 7 (replicate 128 1) (set_unix (replicate 131076 0, 0) demo_io) = Ok k1
     \<and> disk_sectors (fst (unix_state k1)) ! 7 = replicate 128 1
     \<and> disk_sectors (fst (unix_state k1)) ! 8 = replicate 128 0"
proof -
  let ?k = "set_unix (replicate 131076 0, 0) demo_io"
  have p: "posix_file (files quiet_host) (fileno (disk ?k)) (\<lambda>h. h)"
    using one_file_posix [of 3] by (simp add: quiet_host_def demo_io_def demo_machine_def)
  have d: "disk_image (fst (unix_state ?k))" "0 \<le> lastSector (disk ?k)" "lastSector (disk ?k) < NumSectors"
    "0 \<le> now ?k" "\<not> active (disk ?k)" "(0::int) \<le> 7" "7 < NumSectors"
    "length (replicate 128 (1 :: 8 word)) = nat SectorSize"
    by (simp_all add: demo_io_def demo_machine_def Statistics_new_def disk_consts disk_image_def)
  from Disk_refines_sectors [OF p d(1-4), THEN conjunct2, THEN conjunct1, rule_format,
      OF conjI [OF d(5) conjI [OF d(6) conjI [OF d(7,8)]]]] obtain k1 where
    k1: "WriteRequest quiet_host 7 (replicate 128 1) ?k = Ok k1"
      "disk_sectors (fst (unix_state k1)) = (disk_sectors (replicate 131076 0))[7 := replicate 128 1]"
    by auto
  have "disk_sectors (replicate 131076 0) ! 8 = replicate 128 0" by (simp add: disk_sectors_nth)
  with k1 show ?thesis by simp
qed

end
