(* ===== verification/Synch_List.thy ===== *)
theory Synch_List
  imports Waiting
begin

text \<open>
  \<open>SynchList<T>\<close> of \<^verbatim>\<open>threads/synchlist.cc\<close>: a list with a lock and a condition variable, so that
  a thread that takes from an empty list waits until another has appended to it. \<open>get\<close> and \<open>put\<close> are
  the place of the object in the state of the kernel. The items are pointers to objects that were made for
  the list, so that the assertion of \<open>List::Append\<close>, that the item is not in it yet, holds; they are
  represented by what they point to.
\<close>

record 'a SynchList =
  contents :: "'a list"
  list_lock :: nat
  listEmpty :: nat

type_synonym ('a, 'k) getter = "'k \<Rightarrow> 'a SynchList"
type_synonym ('a, 'k) putter = "'a SynchList \<Rightarrow> 'k \<Rightarrow> 'k"

text \<open>Condition variables, followed while this thread has the processor.\<close>

definition Wait_alone ::
  "('h, 'k) callback \<Rightarrow> nat \<Rightarrow> nat \<Rightarrow> ('h, 'k) ClockKernel_scheme \<Rightarrow> ('h, 'k) ClockKernel_scheme result" where
  "Wait_alone cb cv l k =
     rbind (Condition_enqueue cv l k) (\<lambda>(w, k).
     rbind (Release_alone cb l k) (\<lambda>k.
     rbind (P_alone cb w k) (\<lambda>k.
     rbind (Acquire_alone cb l k) (\<lambda>k. Semaphore_delete w k))))"

definition Signal_alone ::
  "('h, 'k) callback \<Rightarrow> nat \<Rightarrow> nat \<Rightarrow> ('h, 'k) ClockKernel_scheme \<Rightarrow> ('h, 'k) ClockKernel_scheme result" where
  "Signal_alone cb cv l k =
     rbind (Condition_dequeue cv l k) (\<lambda>(w, k). case w of None \<Rightarrow> Ok k | Some w \<Rightarrow> V_alone cb w k)"

text \<open>The constructor; \<open>l\<close> and \<open>cv\<close> are the places of the lock and the condition variable.\<close>

definition SynchList_new ::
  "nat \<Rightarrow> nat \<Rightarrow> ('h, 'k) ThreadKernel_scheme \<Rightarrow> 'a SynchList \<times> ('h, 'k) ThreadKernel_scheme" where
  "SynchList_new l cv k =
     (\<lparr>contents = [], list_lock = l, listEmpty = cv\<rparr>,
      (Lock_new l k)\<lparr>conds := (conds (Lock_new l k))(cv \<mapsto> \<lparr>waitQueue = []\<rparr>)\<rparr>)"

definition SynchList_Append ::
  "('h, 'k) callback \<Rightarrow> ('a, ('h, 'k) ClockKernel_scheme) getter \<Rightarrow> ('a, ('h, 'k) ClockKernel_scheme) putter
   \<Rightarrow> 'a \<Rightarrow> ('h, 'k) ClockKernel_scheme \<Rightarrow> ('h, 'k) ClockKernel_scheme result" where
  "SynchList_Append cb get put x k =
     rbind (Acquire_alone cb (list_lock (get k)) k) (\<lambda>k.
     let k = put ((get k)\<lparr>contents := contents (get k) @ [x]\<rparr>) k in
     rbind (Signal_alone cb (listEmpty (get k)) (list_lock (get k)) k) (\<lambda>k.
     Release_alone cb (list_lock (get k)) k))"

text \<open>The loop that waits until the list is not empty, and the removal behind it.\<close>

partial_function (option) RemoveFront_wait ::
  "('h, 'k) callback \<Rightarrow> ('a, ('h, 'k) ClockKernel_scheme) getter
   \<Rightarrow> ('h, 'k) ClockKernel_scheme \<Rightarrow> ('h, 'k) ClockKernel_scheme result option" where
  "RemoveFront_wait cb get k =
     (if contents (get k) = []
      then (case Wait_alone cb (listEmpty (get k)) (list_lock (get k)) k of
              Fault f \<Rightarrow> Some (Fault f)
            | Ok k \<Rightarrow> RemoveFront_wait cb get k)
      else Some (Ok k))"

definition SynchList_RemoveFront ::
  "('h, 'k) callback \<Rightarrow> ('a, ('h, 'k) ClockKernel_scheme) getter \<Rightarrow> ('a, ('h, 'k) ClockKernel_scheme) putter
   \<Rightarrow> ('h, 'k) ClockKernel_scheme \<Rightarrow> ('a \<times> ('h, 'k) ClockKernel_scheme) result" where
  "SynchList_RemoveFront cb get put k =
     rbind (Acquire_alone cb (list_lock (get k)) k) (\<lambda>k.
     case RemoveFront_wait cb get k of
       None \<Rightarrow> Fault Diverges
     | Some r \<Rightarrow> rbind r (\<lambda>k.
         rbind (L_RemoveFront (contents (get k))) (\<lambda>(x, xs).
         let k = put ((get k)\<lparr>contents := xs\<rparr>) k in
         rbind (Release_alone cb (list_lock (get k)) k) (\<lambda>k. Ok (x, k)))))"

end
