(* ===== verification/Network.thy ===== *)
theory Network
  imports Synch_List
begin

text \<open>
  The network device, \<^verbatim>\<open>machine/network.cc\<close>, a pair of datagram sockets of the host, and the post
  office of \<^verbatim>\<open>network/post.cc\<close> above it: mailboxes, and the thread that delivers to them. On the
  wire a packet is the packet header (12 bytes), the mail header (12 bytes) and the data.

  A buffer from \<open>new char[n]\<close> holds whatever was in that memory: these bytes are the argument \<open>junk\<close>.
\<close>

section \<open>Packets\<close>

definition MaxWireSize :: int where "MaxWireSize = 64"
definition MaxPacketSize :: int where "MaxPacketSize = MaxWireSize - 12"
definition MaxMailSize :: int where "MaxMailSize = MaxPacketSize - 12"

lemmas wire_consts = MaxWireSize_def MaxPacketSize_def MaxMailSize_def

definition header_bytes :: "PacketHeader \<Rightarrow> bytes" where
  "header_bytes h = int_bytes (pkt_to h) @ int_bytes (pkt_from h) @ int_bytes (pkt_length h)"

definition parse_header :: "bytes \<Rightarrow> PacketHeader" where
  "parse_header b =
     \<lparr>pkt_to = bytes_int b, pkt_from = bytes_int (drop 4 b), pkt_length = bytes_int (drop 8 b)\<rparr>"

record MailHeader =
  mail_to :: "32 word"
  mail_from :: "32 word"
  mail_length :: "32 word"

definition mail_bytes :: "MailHeader \<Rightarrow> bytes" where
  "mail_bytes h = int_bytes (mail_to h) @ int_bytes (mail_from h) @ int_bytes (mail_length h)"

definition parse_mail :: "bytes \<Rightarrow> MailHeader" where
  "parse_mail b =
     \<lparr>mail_to = bytes_int b, mail_from = bytes_int (drop 4 b), mail_length = bytes_int (drop 8 b)\<rparr>"

record Mail =
  m_pktHdr :: PacketHeader
  m_mailHdr :: MailHeader
  m_data :: bytes

record 'h PostKernel = "'h IOKernel" +
  boxes :: "Mail SynchList list"
  numBoxes :: int

definition sockname :: "int \<Rightarrow> bytes" where
  "sockname n = [83, 79, 67, 75, 69, 84, 95] @ decimal n"

section \<open>The network device\<close>

definition PostOfficeInput_CallBack :: "('h, 'k) IOKernel_scheme \<Rightarrow> ('h, 'k) IOKernel_scheme result" where
  "PostOfficeInput_CallBack k = Semaphore_V (messageAvailable k) k"

definition PostOfficeOutput_CallBack :: "('h, 'k) IOKernel_scheme \<Rightarrow> ('h, 'k) IOKernel_scheme result" where
  "PostOfficeOutput_CallBack k = Semaphore_V (s_wait (postOut k)) k"

definition NetworkInput_new ::
  "'h io \<Rightarrow> bytes \<Rightarrow> ('h, 'k) IOKernel_scheme \<Rightarrow> ('h, 'k) IOKernel_scheme result" where
  "NetworkInput_new U junk k =
     rbind (OpenSocket U (unix_state k)) (\<lambda>(sock, h).
     rbind (AssignNameToSocket U (sockname (hostName k)) sock h) (\<lambda>h.
     Schedule NetInObj NetworkTime NetworkRecvInt
       ((set_unix h k)\<lparr>networkInput := \<lparr>in_sock = sock, sockName = sockname (hostName k),
          inHdr = (parse_header junk)\<lparr>pkt_length := 0\<rparr>, inbox = take (nat MaxPacketSize) (drop 12 junk)\<rparr>\<rparr>)))"

definition NetworkInput_delete ::
  "'h io \<Rightarrow> ('h, 'k) IOKernel_scheme \<Rightarrow> ('h, 'k) IOKernel_scheme" where
  "NetworkInput_delete U k =
     set_unix (DeAssignNameToSocket U (sockName (networkInput k))
       (CloseSocket (files U) (in_sock (networkInput k)) (unix_state k))) k"

definition NetworkInput_CallBack ::
  "'h io \<Rightarrow> ('h, 'k) IOKernel_scheme \<Rightarrow> ('h, 'k) IOKernel_scheme result" where
  "NetworkInput_CallBack U k =
     rbind (Schedule NetInObj NetworkTime NetworkRecvInt k) (\<lambda>k.
     if pkt_length (inHdr (networkInput k)) \<noteq> 0 then Ok k
     else rbind (PollSocket U (in_sock (networkInput k)) (unix_state k)) (\<lambda>(ready, h).
       let k = set_unix h k in
       if \<not> ready then Ok k
       else rbind (ReadFromSocket U (in_sock (networkInput k)) MaxWireSize h) (\<lambda>(buffer, h).
         let k = set_unix h k; hdr = parse_header buffer in
         ASSERT (sint (pkt_to hdr) = hostName k \<and> uint (pkt_length hdr) \<le> MaxPacketSize)
         (rbind (copy_out buffer 12 (uint (pkt_length hdr))) (\<lambda>data.
          rbind (copy_in (inbox (networkInput k)) 0 data) (\<lambda>b.
          PostOfficeInput_CallBack
            (count_stat (\<lambda>st. st\<lparr>numPacketsRecvd := numPacketsRecvd st + 1\<rparr>)
              (k\<lparr>networkInput := (networkInput k)\<lparr>inHdr := hdr, inbox := b\<rparr>\<rparr>))))))))"

text \<open>\<open>Receive(data)\<close>: the header, and the caller's buffer.\<close>

definition NetworkInput_Receive ::
  "bytes \<Rightarrow> ('h, 'k) IOKernel_scheme \<Rightarrow> ((PacketHeader \<times> bytes) \<times> ('h, 'k) IOKernel_scheme) result" where
  "NetworkInput_Receive data k =
     (let hdr = inHdr (networkInput k);
          k = k\<lparr>networkInput := (networkInput k)\<lparr>inHdr := hdr\<lparr>pkt_length := 0\<rparr>\<rparr>\<rparr> in
      rbind (if pkt_length hdr \<noteq> 0
             then rbind (copy_out (inbox (networkInput k)) 0 (uint (pkt_length hdr))) (copy_in data 0)
             else Ok data) (\<lambda>data. Ok ((hdr, data), k)))"

definition NetworkOutput_new ::
  "'h io \<Rightarrow> int \<times> int \<Rightarrow> ('h, 'k) IOKernel_scheme \<Rightarrow> ('h, 'k) IOKernel_scheme result" where
  "NetworkOutput_new U reliability k =
     (let (n, d) = reliability; chance = (if n < 0 then (0, 1) else if n > d then (1, 1) else (n, d)) in
      rbind (OpenSocket U (unix_state k)) (\<lambda>(sock, h).
      Ok ((set_unix h k)\<lparr>networkOutput := \<lparr>out_sock = sock, chanceToWork = chance, sendBusy = False\<rparr>\<rparr>)))"

definition NetworkOutput_delete ::
  "'h io \<Rightarrow> ('h, 'k) IOKernel_scheme \<Rightarrow> ('h, 'k) IOKernel_scheme" where
  "NetworkOutput_delete U k =
     set_unix (CloseSocket (files U) (out_sock (networkOutput k)) (unix_state k)) k"

definition NetworkOutput_CallBack :: "('h, 'k) IOKernel_scheme \<Rightarrow> ('h, 'k) IOKernel_scheme result" where
  "NetworkOutput_CallBack k =
     PostOfficeOutput_CallBack
       (count_stat (\<lambda>st. st\<lparr>numPacketsSent := numPacketsSent st + 1\<rparr>)
         (k\<lparr>networkOutput := (networkOutput k)\<lparr>sendBusy := False\<rparr>\<rparr>))"

definition NetworkOutput_Send ::
  "'h io \<Rightarrow> bytes \<Rightarrow> PacketHeader \<Rightarrow> bytes \<Rightarrow> ('h, 'k) IOKernel_scheme \<Rightarrow> ('h, 'k) IOKernel_scheme result" where
  "NetworkOutput_Send U junk hdr data k =
     ASSERT (\<not> sendBusy (networkOutput k) \<and> pkt_length hdr > 0 \<and> uint (pkt_length hdr) \<le> MaxPacketSize
             \<and> sint (pkt_from hdr) = hostName k)
     (rbind (Schedule NetOutObj NetworkTime NetworkSendInt k) (\<lambda>k.
      let (r, h) = u_rand U (unix_state k); k = set_unix h k; (n, d) = chanceToWork (networkOutput k) in
      if int (r mod 100) * d \<ge> n * 100 then Ok k
      else rbind (copy_in junk 0 (header_bytes hdr)) (\<lambda>buffer.
           rbind (rbind (copy_out data 0 (uint (pkt_length hdr))) (copy_in buffer 12)) (\<lambda>buffer.
           rbind (SendToSocket U (out_sock (networkOutput k)) buffer (sockname (sint (pkt_to hdr)))
                    (unix_state k)) (\<lambda>h. Ok (set_unix h k))))))"

section \<open>Mailboxes\<close>

definition Mail_new :: "PacketHeader \<Rightarrow> MailHeader \<Rightarrow> bytes \<Rightarrow> Mail result" where
  "Mail_new pktH mailH msgData =
     ASSERT (uint (mail_length mailH) \<le> MaxMailSize)
     (rbind (copy_out msgData 0 (uint (mail_length mailH))) (\<lambda>d.
      Ok \<lparr>m_pktHdr = pktH, m_mailHdr = mailH, m_data = d\<rparr>))"

abbreviation "get_box i k \<equiv> boxes k ! i"
abbreviation "put_box i x k \<equiv> k\<lparr>boxes := (boxes k)[i := x]\<rparr>"

definition MailBox_Put ::
  "('h, 'k PostKernel_ext IOKernel_ext) callback \<Rightarrow> nat \<Rightarrow> PacketHeader \<Rightarrow> MailHeader \<Rightarrow> bytes
   \<Rightarrow> ('h, 'k) PostKernel_scheme \<Rightarrow> ('h, 'k) PostKernel_scheme result" where
  "MailBox_Put cb i pktHdr mailHdr data k =
     rbind (Mail_new pktHdr mailHdr data) (\<lambda>mail. SynchList_Append cb (get_box i) (put_box i) mail k)"

definition MailBox_Get ::
  "('h, 'k PostKernel_ext IOKernel_ext) callback \<Rightarrow> nat \<Rightarrow> bytes \<Rightarrow> ('h, 'k) PostKernel_scheme
   \<Rightarrow> ((PacketHeader \<times> MailHeader \<times> bytes) \<times> ('h, 'k) PostKernel_scheme) result" where
  "MailBox_Get cb i data k =
     rbind (SynchList_RemoveFront cb (get_box i) (put_box i) k) (\<lambda>(mail, k).
     rbind (rbind (copy_out (m_data mail) 0 (uint (mail_length (m_mailHdr mail)))) (copy_in data 0)) (\<lambda>data.
     Ok ((m_pktHdr mail, m_mailHdr mail, data), k)))"

section \<open>The post office\<close>

text \<open>The lock and the condition variable of box \<open>i\<close> are kept at \<open>l + i\<close> and \<open>cv + i\<close>.\<close>

primrec new_boxes ::
  "nat \<Rightarrow> nat \<Rightarrow> nat \<Rightarrow> ('h, 'k) ThreadKernel_scheme \<Rightarrow> Mail SynchList list \<times> ('h, 'k) ThreadKernel_scheme" where
  "new_boxes 0 l cv k = ([], k)"
| "new_boxes (Suc n) l cv k =
     (let (x, k) = SynchList_new l cv k; (xs, k) = new_boxes n (Suc l) (Suc cv) k in (x # xs, k))"

definition PostOfficeInput_new ::
  "'h io \<Rightarrow> bytes \<Rightarrow> int \<Rightarrow> nat \<Rightarrow> nat \<Rightarrow> ('h, 'k) PostKernel_scheme
   \<Rightarrow> (tid \<times> ('h, 'k) PostKernel_scheme) result" where
  "PostOfficeInput_new U junk nBoxes l cv k =
     (let (s, k) = Semaphore_new 0 k;
          k = k\<lparr>messageAvailable := s, numBoxes := nBoxes\<rparr>;
          (bs, k) = new_boxes (nat nBoxes) l cv k in
      rbind (NetworkInput_new U junk (k\<lparr>boxes := bs\<rparr>)) (Thread_Fork 0))"

text \<open>One round of the postal worker's loop; \<open>buffer\<close> is its buffer, kept from round to round.\<close>

definition PostalDelivery ::
  "('h, 'k PostKernel_ext IOKernel_ext) callback \<Rightarrow> bytes \<Rightarrow> ('h, 'k) PostKernel_scheme
   \<Rightarrow> (bytes \<times> ('h, 'k) PostKernel_scheme) result" where
  "PostalDelivery cb buffer k =
     rbind (P_alone cb (messageAvailable k) k) (\<lambda>k.
     rbind (NetworkInput_Receive buffer k) (\<lambda>((pktHdr, buffer), k).
     let mailHdr = parse_mail buffer in
     ASSERT (0 \<le> sint (mail_to mailHdr) \<and> sint (mail_to mailHdr) < numBoxes k)
     (ASSERT (uint (mail_length mailHdr) \<le> MaxMailSize)
     (rbind (copy_out buffer 12 (int (length buffer) - 12)) (\<lambda>payload.
      rbind (MailBox_Put cb (nat (sint (mail_to mailHdr))) pktHdr mailHdr payload k) (\<lambda>k.
      Ok (buffer, k)))))))"

definition PostOfficeInput_Receive ::
  "('h, 'k PostKernel_ext IOKernel_ext) callback \<Rightarrow> int \<Rightarrow> bytes \<Rightarrow> ('h, 'k) PostKernel_scheme
   \<Rightarrow> ((PacketHeader \<times> MailHeader \<times> bytes) \<times> ('h, 'k) PostKernel_scheme) result" where
  "PostOfficeInput_Receive cb box data k =
     ASSERT (box \<ge> 0 \<and> box < numBoxes k)
     (rbind (MailBox_Get cb (nat box) data k) (\<lambda>((pktHdr, mailHdr, data), k).
      ASSERT (uint (mail_length mailHdr) \<le> MaxMailSize) (Ok ((pktHdr, mailHdr, data), k))))"

definition PostOfficeOutput_new ::
  "'h io \<Rightarrow> int \<times> int \<Rightarrow> nat \<Rightarrow> ('h, 'k) IOKernel_scheme \<Rightarrow> ('h, 'k) IOKernel_scheme result" where
  "PostOfficeOutput_new U reliability l k =
     (let (s, k) = Semaphore_new 0 k; k = Lock_new l k in
      NetworkOutput_new U reliability (k\<lparr>postOut := \<lparr>s_lock = l, s_wait = s\<rparr>\<rparr>))"

text \<open>The packet \<open>Send\<close> hands to the network: the header it fills in, and the mail header with the data.\<close>

definition post_packet ::
  "int \<Rightarrow> bytes \<Rightarrow> PacketHeader \<Rightarrow> MailHeader \<Rightarrow> bytes \<Rightarrow> (PacketHeader \<times> bytes) result" where
  "post_packet hn junk pktHdr mailHdr data =
     ASSERT (uint (mail_length mailHdr) \<le> MaxMailSize)
     (ASSERT (0 \<le> sint (mail_to mailHdr))
     (rbind (copy_in junk 0 (mail_bytes mailHdr)) (\<lambda>buffer.
      rbind (rbind (copy_out data 0 (uint (mail_length mailHdr))) (copy_in buffer 12)) (\<lambda>buffer.
      Ok (pktHdr\<lparr>pkt_from := word_of_int hn, pkt_length := mail_length mailHdr + 12\<rparr>, buffer)))))"

definition PostOfficeOutput_Send ::
  "('h, 'k IOKernel_ext) callback \<Rightarrow> 'h io \<Rightarrow> bytes \<Rightarrow> bytes \<Rightarrow> PacketHeader \<Rightarrow> MailHeader \<Rightarrow> bytes
   \<Rightarrow> ('h, 'k) IOKernel_scheme \<Rightarrow> ('h, 'k) IOKernel_scheme result" where
  "PostOfficeOutput_Send cb U junk wire_junk pktHdr mailHdr data k =
     rbind (post_packet (hostName k) junk pktHdr mailHdr data) (\<lambda>(pktHdr, buffer).
     rbind (Acquire_alone cb (s_lock (postOut k)) k) (\<lambda>k.
     rbind (NetworkOutput_Send U wire_junk pktHdr buffer k) (\<lambda>k.
     rbind (P_alone cb (s_wait (postOut k)) k) (\<lambda>k.
     Release_alone cb (s_lock (postOut k)) k))))"

section \<open>What the wire keeps\<close>

lemma parse_header_bytes [simp]: "parse_header (header_bytes h @ rest) = h"
  by (simp add: parse_header_def header_bytes_def)

lemma parse_mail_bytes [simp]: "parse_mail (mail_bytes h @ rest) = h"
  by (simp add: parse_mail_def mail_bytes_def)

lemma length_headers [simp]: "length (header_bytes h) = 12" "length (mail_bytes m) = 12"
  by (simp_all add: header_bytes_def mail_bytes_def)

lemma copy_in_front: "length src \<le> length b \<Longrightarrow> copy_in b 0 src = Ok (src @ drop (length src) b)"
  by (simp add: copy_in_def)

lemma copy_in_after:
  "length src \<le> length b \<Longrightarrow> n = int (length a) \<Longrightarrow> copy_in (a @ b) n src = Ok (a @ src @ drop (length src) b)"
  by (simp add: copy_in_def)

lemma copy_out_after:
  "length a + n \<le> length b + length a \<Longrightarrow> i = int (length a) \<Longrightarrow> m = int n \<Longrightarrow>
    copy_out (a @ b) i m = Ok (take n b)"
  by (simp add: copy_out_def)

lemma copy_out_front: "n \<le> length b \<Longrightarrow> m = int n \<Longrightarrow> copy_out b 0 m = Ok (take n b)"
  by (simp add: copy_out_def)

lemma copy_out_Ok: "copy_out b off n = Ok d \<Longrightarrow> d = take (nat n) (drop (nat off) b) \<and> length d = nat n"
  by (auto simp: copy_out_def split: if_splits)

lemma post_packet_bytes:
  assumes "post_packet hn junk pktHdr mh data = Ok (hdr, buf)" "length junk = nat MaxPacketSize"
  defines "n \<equiv> unat (mail_length mh)"
  shows "buf = mail_bytes mh @ take n data @ drop (12 + n) junk" "n \<le> length data" "n \<le> 40"
    "0 \<le> sint (mail_to mh)" "hdr = pktHdr\<lparr>pkt_from := word_of_int hn, pkt_length := mail_length mh + 12\<rparr>"
    "unat (mail_length mh + 12) = n + 12"
proof -
  have u: "uint (mail_length mh) = int n" by (simp add: n_def)
  from assms(1) obtain b0 d where
    *: "uint (mail_length mh) \<le> MaxMailSize" "0 \<le> sint (mail_to mh)" "copy_in junk 0 (mail_bytes mh) = Ok b0"
      "copy_out data 0 (uint (mail_length mh)) = Ok d" "copy_in b0 12 d = Ok buf"
      "hdr = pktHdr\<lparr>pkt_from := word_of_int hn, pkt_length := mail_length mh + 12\<rparr>"
    unfolding post_packet_def ASSERT_eq_Ok rbind_eq_Ok by (elim conjE exE) auto
  then show "0 \<le> sint (mail_to mh)" "hdr = pktHdr\<lparr>pkt_from := word_of_int hn, pkt_length := mail_length mh + 12\<rparr>"
    by simp_all
  show le: "n \<le> length data" "n \<le> 40"
    using *(1,4) unfolding u by (simp_all add: copy_out_def wire_consts split: if_splits)
  have d: "d = take n data" using *(4) unfolding u by (simp add: copy_out_def split: if_splits)
  have "b0 = mail_bytes mh @ drop 12 junk"
    using copy_in_front [of "mail_bytes mh" junk] *(3) assms(2) by (simp add: wire_consts)
  moreover have d': "length d = n" "length junk = 52" using le assms(2) by (simp_all add: d wire_consts)
  have "copy_in (mail_bytes mh @ drop 12 junk) 12 d = Ok (mail_bytes mh @ d @ drop (length d) (drop 12 junk))"
    by (rule copy_in_after) (use le d' in simp_all)
  then have "copy_in (mail_bytes mh @ drop 12 junk) 12 d = Ok (mail_bytes mh @ d @ drop (n + 12) junk)"
    unfolding d' drop_drop .
  ultimately show "buf = mail_bytes mh @ take n data @ drop (12 + n) junk"
    using *(5) unfolding d add.commute [of 12 n] by simp
  have "unat (mail_length mh + 12) = unat (mail_length mh) + unat (12 :: 32 word)"
    by (rule unat_add_lem [THEN iffD1]) (use le(2) in \<open>simp add: n_def\<close>)
  then show "unat (mail_length mh + 12) = n + 12" by (simp add: n_def)
qed

text \<open>
  A host whose local datagram sockets work as documented: \<open>q h n\<close> are the datagrams that wait at the
  socket with the name \<open>n\<close>, and \<open>nm s\<close> is the name the socket \<open>s\<close> is bound to.
\<close>

definition datagrams :: "'h io \<Rightarrow> ('h \<Rightarrow> bytes \<Rightarrow> bytes list) \<Rightarrow> (int \<Rightarrow> bytes) \<Rightarrow> bool" where
  "datagrams U q nm \<longleftrightarrow>
     (\<forall>s b n h. fst (u_sendto U s b n h) = int (length b)
        \<and> q (snd (u_sendto U s b n h)) = (q h)(n := q h n @ [b]))
   \<and> (\<forall>s h. fst (u_select U s h) = (if q h (nm s) = [] then 0 else 1) \<and> q (snd (u_select U s h)) = q h)
   \<and> (\<forall>s m h b rest. q h (nm s) = b # rest \<longrightarrow>
        fst (u_recvfrom U s m h) = (int (length (take (nat m) b)), take (nat m) b)
        \<and> q (snd (u_recvfrom U s m h)) = (q h)(nm s := rest))
   \<and> (\<forall>h. q (snd (u_rand U h)) = q h)"

lemma datagramsD:
  assumes "datagrams U q nm"
  shows "\<exists>h'. u_sendto U s b n h = (int (length b), h') \<and> q h' = (q h)(n := q h n @ [b])"
    and "\<exists>h'. u_select U s h = (if q h (nm s) = [] then 0 else 1, h') \<and> q h' = q h"
    and "q h (nm s) = b # rest \<Longrightarrow> \<exists>h'. u_recvfrom U s m h = ((int (length (take (nat m) b)), take (nat m) b), h')
      \<and> q h' = (q h)(nm s := rest)"
    and "\<exists>r h'. u_rand U h = (r, h') \<and> q h' = q h"
proof -
  have pair: "\<exists>h'. f = (x, h') \<and> P h'" if "fst f = x \<and> P (snd f)" for f :: "'x \<times> 'h" and x P
    using that by (cases f) auto
  show "\<exists>h'. u_sendto U s b n h = (int (length b), h') \<and> q h' = (q h)(n := q h n @ [b])"
    by (rule pair) (use assms in \<open>simp add: datagrams_def\<close>)
  show "\<exists>h'. u_select U s h = (if q h (nm s) = [] then 0 else 1, h') \<and> q h' = q h"
    by (rule pair) (use assms in \<open>simp add: datagrams_def\<close>)
  show "\<exists>h'. u_recvfrom U s m h = ((int (length (take (nat m) b)), take (nat m) b), h')
      \<and> q h' = (q h)(nm s := rest)" if "q h (nm s) = b # rest"
    by (rule pair) (use assms that in \<open>simp add: datagrams_def\<close>)
  have "\<exists>h'. u_rand U h = (fst (u_rand U h), h') \<and> q h' = q h"
    by (rule pair) (use assms in \<open>simp add: datagrams_def\<close>)
  then show "\<exists>r h'. u_rand U h = (r, h') \<and> q h' = q h" by blast
qed

lemma Send_delivers:
  assumes "datagrams U q nm" "\<not> sendBusy (networkOutput k)" "0 < pkt_length hdr" "uint (pkt_length hdr) \<le> MaxPacketSize"
      "sint (pkt_from hdr) = hostName k"
    and "length wj = nat MaxWireSize" "length buf = nat MaxPacketSize" "chanceToWork (networkOutput k) = (1, 1)"
  defines "n \<equiv> unat (pkt_length hdr)"
  shows "\<exists>k' rest. NetworkOutput_Send U wj hdr buf k = Ok k' \<and> length rest = 52 - n \<and> n \<le> 52 \<and> q (unix_state k') =
    (q (unix_state k))(sockname (sint (pkt_to hdr)) := q (unix_state k) (sockname (sint (pkt_to hdr)))
      @ [header_bytes hdr @ take n buf @ rest])"
proof -
  have u: "uint (pkt_length hdr) = int n" by (simp add: n_def)
  obtain r h1 where r: "u_rand U (unix_state k) = (r, h1)" "q h1 = q (unix_state k)"
    using datagramsD(4) [OF assms(1)] by blast
  have n: "n \<le> 52" using assms(4) unfolding u by (simp add: wire_consts)
  obtain k1 where k1: "Schedule NetOutObj NetworkTime NetworkSendInt k = Ok k1" "unix_state k1 = unix_state k"
    "networkOutput k1 = networkOutput k"
    by (simp add: Schedule_def NetworkTime_def)
  have r100: "\<not> int (r mod 100) \<ge> 100" by simp
  have l: "length wj = 64" "length buf = 52" using assms(6,7) by (simp_all add: wire_consts)
  have b1: "copy_in wj 0 (header_bytes hdr) = Ok (header_bytes hdr @ drop 12 wj)"
    using copy_in_front [of "header_bytes hdr" wj] l by simp
  have b2: "copy_out buf 0 (int n) = Ok (take n buf)" by (rule copy_out_front) (use n l in simp_all)
  have b3: "copy_in (header_bytes hdr @ drop 12 wj) 12 (take n buf)
      = Ok (header_bytes hdr @ take n buf @ drop (length (take n buf)) (drop 12 wj))"
    by (rule copy_in_after) (use n l in simp_all)
  let ?w = "header_bytes hdr @ take n buf @ drop (length (take n buf)) (drop 12 wj)"
  obtain h2 where h2: "u_sendto U (out_sock (networkOutput k)) ?w (sockname (sint (pkt_to hdr))) h1
      = (int (length ?w), h2)" "q h2 = (q h1)(sockname (sint (pkt_to hdr)) := q h1 (sockname (sint (pkt_to hdr))) @ [?w])"
    using datagramsD(1) [OF assms(1)] by blast
  have "SendToSocket U (out_sock (networkOutput k)) ?w (sockname (sint (pkt_to hdr))) h1 = Ok h2"
    unfolding SendToSocket_def by (subst Send_attempts.simps) (simp only: h2, simp)
  then have "NetworkOutput_Send U wj hdr buf k = Ok (set_unix h2 k1)"
    using assms(2-5,8) k1 r r100 b1 b2 b3 unfolding NetworkOutput_Send_def u by simp
  with h2 r n l show ?thesis
    by (intro exI [of _ "set_unix h2 k1"] exI [of _ "drop (length (take n buf)) (drop 12 wj)"]) simp
qed

lemma CallBack_takes:
  fixes k :: "('h, 'k) IOKernel_scheme"
  assumes "datagrams U q nm"
    and "q (unix_state k) (nm (in_sock (networkInput k))) = (header_bytes hdr @ body) # after"
    and "length body = 52" "pkt_length (inHdr (networkInput k)) = 0" "sint (pkt_to hdr) = hostName k"
    and "length (inbox (networkInput k)) = nat MaxPacketSize"
  defines "n \<equiv> unat (pkt_length hdr)"
  assumes "n \<le> 52"
  shows "\<exists>k'. NetworkInput_CallBack U k = PostOfficeInput_CallBack k'
    \<and> inHdr (networkInput k') = hdr \<and> (\<exists>b. inbox (networkInput k') = take n body @ b \<and> length b = 52 - n)
    \<and> numPacketsRecvd (stats k') = numPacketsRecvd (stats k) + 1
    \<and> q (unix_state k') = (q (unix_state k))(nm (in_sock (networkInput k)) := after)"
proof -
  have u: "uint (pkt_length hdr) = int n" by (simp add: n_def)
  let ?s = "in_sock (networkInput k)"
  let ?w = "header_bytes hdr @ body"
  obtain k1 where k1: "Schedule NetInObj NetworkTime NetworkRecvInt k = Ok k1" "unix_state k1 = unix_state k"
    "networkInput k1 = networkInput k" "hostName k1 = hostName k"
    "numPacketsRecvd (stats k1) = numPacketsRecvd (stats k)"
    by (simp add: Schedule_def NetworkTime_def)
  obtain h1 where h1: "u_select U ?s (unix_state k) = (1, h1)" "q h1 = q (unix_state k)"
    using datagramsD(2) [OF assms(1), of ?s "unix_state k"] assms(2) by auto
  obtain h2 where "u_recvfrom U ?s MaxWireSize h1 = ((int (length (take (nat MaxWireSize) ?w)), take (nat MaxWireSize) ?w), h2)"
      "q h2 = (q h1)(nm ?s := after)"
    using datagramsD(3) [OF assms(1), of h1 ?s ?w after MaxWireSize] assms(2) h1(2) by auto
  then have h2: "u_recvfrom U ?s MaxWireSize h1 = ((MaxWireSize, ?w), h2)" "q h2 = (q (unix_state k))(nm ?s := after)"
    using assms(3) h1(2) by (simp_all add: wire_consts)
  have o: "copy_out ?w 12 (int n) = Ok (take n body)"
    by (rule copy_out_after) (use assms(3) \<open>n \<le> 52\<close> in simp_all)
  have l: "length (take n body) = n" "length (inbox (networkInput k)) = 52"
    using assms(3,6) \<open>n \<le> 52\<close> by (simp_all add: wire_consts)
  have i: "copy_in (inbox (networkInput k)) 0 (take n body) = Ok (take n body @ drop n (inbox (networkInput k)))"
    using copy_in_front [of "take n body" "inbox (networkInput k)"] unfolding l using \<open>n \<le> 52\<close> by simp
  have "uint (pkt_length hdr) \<le> MaxPacketSize" using \<open>n \<le> 52\<close> by (simp add: u wire_consts)
  with k1 h1(1) h2(1) assms(4,5) have
    "NetworkInput_CallBack U k = PostOfficeInput_CallBack
       (count_stat (\<lambda>st. st\<lparr>numPacketsRecvd := numPacketsRecvd st + 1\<rparr>)
         ((set_unix h2 k1)\<lparr>networkInput := (networkInput k)\<lparr>inHdr := hdr,
            inbox := take n body @ drop n (inbox (networkInput k))\<rparr>\<rparr>))"
    unfolding NetworkInput_CallBack_def
    by (simp add: PollSocket_def PollFile_def ReadFromSocket_def o [folded u] i)
  with k1 h2(2) l show ?thesis
    by (intro exI conjI) (assumption, simp_all add: count_stat_def, simp only: length_drop)
qed

lemma Receive_gives:
  fixes k :: "('h, 'k) IOKernel_scheme"
  assumes "inbox (networkInput k) = body @ b" "length body = unat (pkt_length (inHdr (networkInput k)))"
    and "pkt_length (inHdr (networkInput k)) \<noteq> 0" "length body \<le> length buffer"
  shows "NetworkInput_Receive buffer k = Ok ((inHdr (networkInput k), body @ drop (length body) buffer),
    k\<lparr>networkInput := (networkInput k)\<lparr>inHdr := (inHdr (networkInput k))\<lparr>pkt_length := 0\<rparr>\<rparr>\<rparr>)"
proof -
  have u: "uint (pkt_length (inHdr (networkInput k))) = int (length body)" using assms(2) by simp
  have "copy_out (body @ b) 0 (int (length body)) = Ok body" by (simp add: copy_out_def)
  with copy_in_front [OF assms(4)] assms(1,3) u show ?thesis
    by (simp add: NetworkInput_Receive_def Let_def)
qed

section \<open>Properties\<close>


text \<open>A host that has nothing but sockets, the socket \<open>s\<close> bound to the name of machine \<open>s\<close>.\<close>

definition wire_host :: "(bytes \<Rightarrow> bytes list) io" where
  "wire_host = \<lparr>
     files = \<lparr>u_open = (\<lambda>n c h. (-1, h)), u_read = (\<lambda>fd n h. ((0, []), h)), u_write = (\<lambda>fd b h. (0, h)),
       u_lseek = (\<lambda>fd i w h. (i, h)), u_close = (\<lambda>fd h. (0, h)), u_unlink = (\<lambda>n h. (0, h)),
       u_socket = (\<lambda>h. (3, h)), u_connect = (\<lambda>s i p h. (-1, h)), u_send = (\<lambda>s b h. (-1, h)),
       u_recv = (\<lambda>s n h. ((-1, []), h))\<rparr>,
     u_select = (\<lambda>s h. (if h (sockname s) = [] then 0 else 1, h)), u_rand = (\<lambda>h. (7, h)),
     u_dgram = (\<lambda>h. (5, h)), u_bind = (\<lambda>s n h. (0, h)),
     u_recvfrom = (\<lambda>s m h. case h (sockname s) of [] \<Rightarrow> ((-1, []), h)
        | b # rest \<Rightarrow> ((int (length (take (nat m) b)), take (nat m) b), h(sockname s := rest))),
     u_sendto = (\<lambda>s b n h. (int (length b), h(n := h n @ [b])))\<rparr>"

lemma wire_host_datagrams: "datagrams wire_host (\<lambda>h. h) sockname"
  by (simp add: datagrams_def wire_host_def)

definition post_demo :: "(bytes \<Rightarrow> bytes list) \<Rightarrow> (bytes \<Rightarrow> bytes list) PostKernel" where
  "post_demo h = IOKernel.extend ((demo_machine h)\<lparr>hostName := 5\<rparr>) (PostKernel.fields [] 1)"


end
