(* ===== verification/Devices.thy ===== *)
theory Devices
  imports Consoles Disk_Device Network
begin

text \<open>
  All devices together: the dispatch of an interrupt to the object that scheduled it, the contract of
  the clock discharged for these handlers, and what holds of the devices while time passes.
\<close>

definition CallBack :: "'h io \<Rightarrow> ('h, 'k IOKernel_ext) callback" where
  "CallBack U c k =
     (case c of
        TimerObj \<Rightarrow> Timer_CallBack (u_rand U) k
      | DiskObj \<Rightarrow> Disk_CallBack k
      | ConsoleOutObj \<Rightarrow> ConsoleOutput_CallBack k
      | ConsoleInObj \<Rightarrow> ConsoleInput_CallBack U k
      | NetOutObj \<Rightarrow> NetworkOutput_CallBack k
      | NetInObj \<Rightarrow> NetworkInput_CallBack U k)"

lemmas callback_defs = Timer_CallBack_def Alarm_CallBack_def YieldOnReturn_def SetInterrupt_def
  Disk_CallBack_def SynchDisk_CallBack_def ConsoleOutput_CallBack_def SynchConsoleOutput_CallBack_def
  ConsoleInput_CallBack_def SynchConsoleInput_CallBack_def NetworkOutput_CallBack_def
  PostOfficeOutput_CallBack_def NetworkInput_CallBack_def PostOfficeInput_CallBack_def count_stat_def

section \<open>The handlers keep the contract of the clock\<close>

text \<open>Waking a thread inside a handler touches the semaphores and the ready list only.\<close>

lemma Semaphore_V_handler:
  assumes "Semaphore_V s k = Ok k'" "level k = IntOff"
  shows "level k' = IntOff" "status k' = status k" "ThreadKernel.more k' = ThreadKernel.more k"
    "registers k' = registers k" "fileSystem k' = fileSystem k"
  using assms
  by (auto simp: Semaphore_V_def SetLevel_def ReadyToRun_eq Let_def elim!: rbind_OkE split: list.splits)

lemma Semaphore_V_later:
  fixes k k' :: "('h, 'k) ClockKernel_scheme"
  assumes "Semaphore_V s k = Ok k'" "level k = IntOff"
  shows "schedules_later k k'"
  using Semaphore_V_handler [OF assms] clock_of_more [of k' k] assms(2)
  by (auto simp: schedules_later_def intro: exI [of _ "[]"])

lemma schedules_later_eq:
  "schedules_later k k' \<Longrightarrow> now k1 = now k \<Longrightarrow> idleTicks (stats k1) = idleTicks (stats k)
   \<Longrightarrow> systemTicks (stats k1) = systemTicks (stats k) \<Longrightarrow> userTicks (stats k1) = userTicks (stats k)
   \<Longrightarrow> level k1 = level k \<Longrightarrow> inHandler k1 = inHandler k \<Longrightarrow> status k1 = status k
   \<Longrightarrow> pending k1 = pending k \<Longrightarrow> schedules_later k1 k'"
  by (simp add: schedules_later_def)

lemma schedules_later_same [simp]:
  "schedules_later k (k\<lparr>fileSystem := fs\<rparr>)" "schedules_later k (k\<lparr>yieldOnReturn := b\<rparr>)"
  by (auto simp: schedules_later_def intro: exI [of _ "[]"])

lemma NetworkInput_later:
  fixes k :: "('h, 'k) IOKernel_scheme"
  assumes "NetworkInput_CallBack U k = Ok k'" "level k = IntOff"
  shows "schedules_later k k'"
proof -
  obtain x where x: "Schedule NetInObj NetworkTime NetworkRecvInt k = Ok x"
    using assms(1) by (auto simp: NetworkInput_CallBack_def elim!: rbind_OkE)
  then have kx: "schedules_later k x" "level x = IntOff"
    using assms(2) by (auto dest: Schedule_later simp: schedules_later_def)
  have "schedules_later x k'"
    using assms(1) x kx(2)
    by (auto simp: NetworkInput_CallBack_def PostOfficeInput_CallBack_def count_stat_def Let_def
        elim!: rbind_OkE split: if_splits dest!: Semaphore_V_later elim!: schedules_later_eq)
  with kx(1) show ?thesis by (rule schedules_later_trans)
qed

lemma CallBack_later:
  assumes "CallBack U c k = Ok k'" "level k = IntOff"
  shows "schedules_later k k'"
proof (cases "c = NetInObj")
  case True
  with assms show ?thesis by (simp add: CallBack_def NetworkInput_later)
next
  case False
  with assms show ?thesis
    by (cases c)
       (auto simp: CallBack_def callback_defs Let_def elim!: rbind_OkE split: if_splits prod.splits
          dest!: Semaphore_V_later Schedule_later elim!: schedules_later_eq)
qed

interpretation dev: device_handlers "CallBack U" for U
  by unfold_locales (simp add: CallBack_later)

section \<open>One interrupt per operation in progress\<close>

text \<open>
  A device that is busy has exactly one interrupt pending, and an idle one has none; the keyboard and the
  network poll with one interrupt, the keyboard only while no character waits to be fetched.
\<close>

definition queued :: "('h, 'k) ClockKernel_scheme \<Rightarrow> CallBackObj multiset" where
  "queued k = image_mset callOnInterrupt (mset (pending k))"

text \<open>\<open>one_each a b e n t M\<close>: the devices whose interrupts may be in \<open>M\<close>, each at most once.\<close>

definition one_each :: "bool \<Rightarrow> bool \<Rightarrow> bool \<Rightarrow> bool \<Rightarrow> bool \<Rightarrow> CallBackObj multiset \<Rightarrow> bool" where
  "one_each a b e n t M \<longleftrightarrow>
     count M DiskObj = of_bool a \<and> count M ConsoleOutObj = of_bool b
     \<and> count M ConsoleInObj \<le> of_bool e \<and> count M NetInObj = of_bool n \<and> count M TimerObj = of_bool t"

definition dev_inv :: "('h, 'k) IOKernel_scheme \<Rightarrow> bool" where
  "dev_inv k \<longleftrightarrow>
     (\<exists>t. (disable (timer k) \<or> t)
        \<and> one_each (active (disk k)) (putBusy (consoleOutput k)) (incoming (consoleInput k) = EOF) True t (queued k))"

lemma one_each_add [simp]:
  "one_each a b e n t (add_mset DiskObj M) \<longleftrightarrow> a \<and> one_each False b e n t M"
  "one_each a b e n t (add_mset ConsoleOutObj M) \<longleftrightarrow> b \<and> one_each a False e n t M"
  "one_each a b e n t (add_mset ConsoleInObj M) \<longleftrightarrow> e \<and> one_each a b False n t M"
  "one_each a b e n t (add_mset NetInObj M) \<longleftrightarrow> n \<and> one_each a b e False t M"
  "one_each a b e n t (add_mset TimerObj M) \<longleftrightarrow> t \<and> one_each a b e n False M"
  "one_each a b e n t (add_mset NetOutObj M) \<longleftrightarrow> one_each a b e n t M"
  by (auto simp: one_each_def)

lemma one_each_weaken: "one_each a b False n t M \<Longrightarrow> one_each a b e n t M"
  by (auto simp: one_each_def)

lemma queued_Schedule:
  assumes "Schedule c n ty k = Ok k'"
  shows "queued k' = add_mset c (queued k)" "\<exists>ps. k' = k\<lparr>pending := ps\<rparr>"
  using assms by (auto simp: Schedule_def queued_def Let_def)

lemma queued_update [simp]:
  "queued (k\<lparr>pending := ps\<rparr>) = image_mset callOnInterrupt (mset ps)"
  "queued (k\<lparr>stats := st\<rparr>) = queued k" "queued (k\<lparr>yieldOnReturn := y\<rparr>) = queued k"
  "queued (k\<lparr>timer := tm\<rparr>) = queued k" "queued (k\<lparr>fileSystem := fs\<rparr>) = queued k"
  "queued (k\<lparr>inHandler := i\<rparr>) = queued k" "queued (k\<lparr>level := l\<rparr>) = queued k"
  "queued (k\<lparr>status := s\<rparr>) = queued k" "queued (k\<lparr>registers := r\<rparr>) = queued k"
  by (simp_all add: queued_def)

lemma queued_io [simp]:
  "queued (k\<lparr>disk := d\<rparr>) = queued k" "queued (k\<lparr>consoleInput := ci\<rparr>) = queued k"
  "queued (k\<lparr>consoleOutput := co\<rparr>) = queued k" "queued (k\<lparr>networkInput := ni\<rparr>) = queued k"
  "queued (k\<lparr>networkOutput := no\<rparr>) = queued k"
  by (simp_all add: queued_def)

lemma dev_inv_more:
  fixes k k' :: "('h, 'k) IOKernel_scheme"
  assumes "ThreadKernel.more k' = ThreadKernel.more k"
  shows "dev_inv k' = dev_inv k"
proof -
  have "disk k' = disk k" "consoleOutput k' = consoleOutput k" "consoleInput k' = consoleInput k"
    using assms by (cases k; cases k'; simp)+
  with clock_of_more [OF assms] show ?thesis by (simp add: dev_inv_def queued_def)
qed

lemma V_dev_inv:
  fixes k k' :: "('h, 'k) IOKernel_scheme"
  assumes "Semaphore_V s k = Ok k'" "level k = IntOff"
  shows "dev_inv k' = dev_inv k"
  by (rule dev_inv_more [OF Semaphore_V_handler(3) [OF assms]])

text \<open>\<open>taken p k\<close> is the state in which the interrupt \<open>p\<close> was just taken off the list.\<close>

definition taken :: "PendingInterrupt \<Rightarrow> ('h, 'k) IOKernel_scheme \<Rightarrow> bool" where
  "taken p k \<longleftrightarrow> level k = IntOff
     \<and> (\<exists>t. (disable (timer k) \<or> t)
        \<and> one_each (active (disk k)) (putBusy (consoleOutput k)) (incoming (consoleInput k) = EOF) True t
            (add_mset (callOnInterrupt p) (queued k)))"

lemma Disk_dev_inv:
  fixes k k' :: "('h, 'k) IOKernel_scheme"
  assumes "Disk_CallBack k = Ok k'" "taken p k" "callOnInterrupt p = DiskObj"
  shows "dev_inv k'"
proof -
  let ?k = "k\<lparr>disk := (disk k)\<lparr>active := False\<rparr>\<rparr>"
  have v: "Semaphore_V (s_wait (synchDisk ?k)) ?k = Ok k'"
    using assms(1) by (simp add: Disk_CallBack_def SynchDisk_CallBack_def)
  have "level ?k = IntOff" "dev_inv ?k" using assms(2,3) by (auto simp: taken_def dev_inv_def)
  with V_dev_inv [OF v] show ?thesis by simp
qed

lemma ConsoleOutput_dev_inv:
  fixes k k' :: "('h, 'k) IOKernel_scheme"
  assumes "ConsoleOutput_CallBack k = Ok k'" "taken p k" "callOnInterrupt p = ConsoleOutObj"
  shows "dev_inv k'"
proof -
  let ?k = "count_stat (\<lambda>st. st\<lparr>numConsoleCharsWritten := numConsoleCharsWritten st + 1\<rparr>)
         (k\<lparr>consoleOutput := (consoleOutput k)\<lparr>putBusy := False\<rparr>\<rparr>)"
  have v: "Semaphore_V (s_wait (synchConsoleOut ?k)) ?k = Ok k'"
    using assms(1) by (simp add: ConsoleOutput_CallBack_def SynchConsoleOutput_CallBack_def)
  have "level ?k = IntOff" "dev_inv ?k"
    using assms(2,3) by (auto simp: taken_def dev_inv_def count_stat_def)
  with V_dev_inv [OF v] show ?thesis by simp
qed

lemma NetworkOutput_dev_inv:
  fixes k k' :: "('h, 'k) IOKernel_scheme"
  assumes "NetworkOutput_CallBack k = Ok k'" "taken p k" "callOnInterrupt p = NetOutObj"
  shows "dev_inv k'"
proof -
  let ?k = "count_stat (\<lambda>st. st\<lparr>numPacketsSent := numPacketsSent st + 1\<rparr>)
         (k\<lparr>networkOutput := (networkOutput k)\<lparr>sendBusy := False\<rparr>\<rparr>)"
  have v: "Semaphore_V (s_wait (postOut ?k)) ?k = Ok k'"
    using assms(1) by (simp add: NetworkOutput_CallBack_def PostOfficeOutput_CallBack_def)
  have "level ?k = IntOff" "dev_inv ?k"
    using assms(2,3) by (auto simp: taken_def dev_inv_def count_stat_def)
  with V_dev_inv [OF v] show ?thesis by simp
qed

lemma Timer_dev_inv:
  fixes k k' :: "('h, 'k) IOKernel_scheme"
  assumes "Timer_CallBack rnd k = Ok k'" "taken p k" "callOnInterrupt p = TimerObj"
  shows "dev_inv k'"
proof -
  obtain k1 where k1: "Alarm_CallBack k = Ok k1" "SetInterrupt rnd k1 = Ok k'"
    using assms(1) by (auto simp: Timer_CallBack_def)
  have "k1 = k \<or> k1 = k\<lparr>yieldOnReturn := True\<rparr>"
    using k1(1) by (auto simp: Alarm_CallBack_def YieldOnReturn_def split: if_splits)
  then have t: "taken p k1" using assms(2) by (auto simp: taken_def)
  show ?thesis
  proof (cases "disable (timer k1)")
    case True
    with k1(2) t assms(3) show ?thesis by (auto simp: SetInterrupt_def taken_def dev_inv_def)
  next
    case False
    then obtain fs n where s: "Schedule TimerObj n TimerInt (k1\<lparr>fileSystem := fs\<rparr>) = Ok k'"
      using k1(2) that [of TimerTicks "fileSystem k1"]
      by (auto simp: SetInterrupt_def Let_def split: if_splits prod.splits)
    from queued_Schedule [OF s] t assms(3) False show ?thesis
      by (auto simp: taken_def dev_inv_def)
  qed
qed

lemma ConsoleInput_dev_inv:
  fixes k k' :: "('h, 'k) IOKernel_scheme"
  assumes "ConsoleInput_CallBack U k = Ok k'" "taken p k" "callOnInterrupt p = ConsoleInObj"
  shows "dev_inv k'"
proof -
  have e: "incoming (consoleInput k) = EOF" using assms(1) by (simp add: ConsoleInput_CallBack_def Let_def)
  obtain t where t: "disable (timer k) \<or> t"
      "one_each (active (disk k)) (putBusy (consoleOutput k)) False True t (queued k)"
    using assms(2,3) by (auto simp: taken_def)
  have w: "one_each (active (disk k)) (putBusy (consoleOutput k)) e True t (queued k)" for e
    by (rule one_each_weaken [OF t(2)])
  have lv: "level k = IntOff" using assms(2) by (simp add: taken_def)
  consider (poll) h where "Schedule ConsoleInObj ConsoleTime ConsoleReadInt (set_unix h k) = Ok k'"
    | (eof) h where "SynchConsoleInput_CallBack (set_unix h k) = Ok k'"
    | (char) c h where "SynchConsoleInput_CallBack
        (count_stat (\<lambda>st. st\<lparr>numConsoleCharsRead := numConsoleCharsRead st + 1\<rparr>)
           ((set_unix h k)\<lparr>consoleInput := (consoleInput k)\<lparr>incoming := c\<rparr>\<rparr>)) = Ok k'"
    using assms(1)
    by (fastforce simp: ConsoleInput_CallBack_def Let_def elim!: rbind_OkE split: if_splits prod.splits)
  then show ?thesis
  proof cases
    case poll
    from queued_Schedule [OF poll] t e show ?thesis by (auto simp: dev_inv_def)
  next
    case eof
    then have v: "Semaphore_V (s_wait (synchConsoleIn (set_unix h k))) (set_unix h k) = Ok k'"
      by (simp add: SynchConsoleInput_CallBack_def)
    have "level (set_unix h k) = IntOff" "dev_inv (set_unix h k)"
      using lv t(1) w by (auto simp: dev_inv_def)
    with V_dev_inv [OF v] show ?thesis by simp
  next
    case char
    let ?k = "count_stat (\<lambda>st. st\<lparr>numConsoleCharsRead := numConsoleCharsRead st + 1\<rparr>)
           ((set_unix h k)\<lparr>consoleInput := (consoleInput k)\<lparr>incoming := c\<rparr>\<rparr>)"
    from char have v: "Semaphore_V (s_wait (synchConsoleIn ?k)) ?k = Ok k'"
      by (simp add: SynchConsoleInput_CallBack_def)
    have "level ?k = IntOff" "dev_inv ?k"
      using lv t(1) w by (auto simp: dev_inv_def count_stat_def)
    with V_dev_inv [OF v] show ?thesis by simp
  qed
qed

lemma NetworkInput_dev_inv:
  fixes k k' :: "('h, 'k) IOKernel_scheme"
  assumes "NetworkInput_CallBack U k = Ok k'" "taken p k" "callOnInterrupt p = NetInObj"
  shows "dev_inv k'"
proof -
  obtain x where x: "Schedule NetInObj NetworkTime NetworkRecvInt k = Ok x"
    using assms(1) by (auto simp: NetworkInput_CallBack_def elim!: rbind_OkE)
  then have kx: "dev_inv x" "level x = IntOff"
    using queued_Schedule [OF x] assms(2,3) by (auto simp: dev_inv_def taken_def)
  have i: "dev_inv (x\<lparr>fileSystem := fs\<rparr>)" "dev_inv (x\<lparr>fileSystem := fs, networkInput := n, stats := st\<rparr>)" for fs st n
    using kx(1) by (auto simp: dev_inv_def)
  have P: "dev_inv k'" if "PostOfficeInput_CallBack y = Ok k'" "level y = IntOff" "dev_inv y" for y
    using that V_dev_inv by (auto simp: PostOfficeInput_CallBack_def)
  note r = assms(1) [unfolded NetworkInput_CallBack_def x rbind.simps]
  show ?thesis
  proof (cases "pkt_length (inHdr (networkInput x)) \<noteq> 0")
    case True
    with r kx show ?thesis by simp
  next
    case False
    then obtain ready h where s: "PollSocket U (in_sock (networkInput x)) (unix_state x) = Ok (ready, h)"
      using r by (auto elim!: rbind_OkE)
    show ?thesis
    proof (cases ready)
      case True
      then obtain buffer h2 where "ReadFromSocket U (in_sock (networkInput x)) MaxWireSize h = Ok (buffer, h2)"
        using r s False by (auto simp: Let_def elim!: rbind_OkE)
      with r s False True show ?thesis
        using kx(2) by (auto simp: Let_def count_stat_def i elim!: rbind_OkE dest!: P)
    next
      case False
      with r s \<open>\<not> _ \<noteq> 0\<close> i show ?thesis by (auto simp: Let_def)
    qed
  qed
qed

lemma handler_dev_inv:
  fixes k k' :: "('h, 'k) IOKernel_scheme"
  assumes "CallBack U (callOnInterrupt p) k = Ok k'" "taken p k"
  shows "dev_inv k'"
  using assms
  by (cases "callOnInterrupt p")
     (auto simp: CallBack_def intro: Disk_dev_inv ConsoleOutput_dev_inv NetworkOutput_dev_inv Timer_dev_inv
        ConsoleInput_dev_inv NetworkInput_dev_inv)

lemma dev_inv_flags:
  fixes k :: "('h, 'k) IOKernel_scheme"
  assumes "dev_inv k"
  shows "dev_inv (k\<lparr>inHandler := b\<rparr>)" "dev_inv (k\<lparr>level := l\<rparr>)" "dev_inv (k\<lparr>status := s\<rparr>)"
    "dev_inv (k\<lparr>yieldOnReturn := b\<rparr>)" "dev_inv (idle_until t k)" "dev_inv (advance_ticks k)"
    "dev_inv (k\<lparr>registers := r\<rparr>)"
  using assms by (auto simp: dev_inv_def idle_until_def advance_ticks_def)

interpretation di: device_invariant "CallBack U" dev_inv for U
proof unfold_locales
  fix k k' :: "('a, 'b) IOKernel_scheme" and p rest
  assume "dev_inv k" "pending k = p # rest" "level k = IntOff"
    "CallBack U (callOnInterrupt p) (k\<lparr>pending := rest\<rparr>) = Ok k'"
  then show "dev_inv k'"
    by (intro handler_dev_inv [of U p "k\<lparr>pending := rest\<rparr>"]) (auto simp: taken_def dev_inv_def queued_def)
next
  fix k k' :: "('a, 'b) IOKernel_scheme"
  assume "dev_inv k" "DelayedLoad k 0 0 = Ok k'"
  then show "dev_inv k'" using dev_inv_flags(7) by (auto simp: DelayedLoad_def rbind_eq_Ok)
qed (simp_all add: dev_inv_flags)

section \<open>The handlers return\<close>

text \<open>
  What the machine needs of its surroundings for that: a host whose calls succeed and whose network
  delivers packets for this machine only, semaphores that exist with queues of threads that do, and
  registers that are there.
\<close>

definition polite :: "'h io \<Rightarrow> int \<Rightarrow> bool" where
  "polite U hn \<longleftrightarrow>
     (\<forall>fd h. fst (u_select U fd h) = 0 \<or> fst (u_select U fd h) = 1)
     \<and> (\<forall>fd h. (let (n, data) = fst (u_read (files U) fd 1 h) in n = 0 \<or> n = 1 \<and> length data = 1))
     \<and> (\<forall>fd h. (let (n, data) = fst (u_recvfrom U fd MaxWireSize h) in
          n = MaxWireSize \<and> length data = nat MaxWireSize \<and> sint (pkt_to (parse_header data)) = hn
          \<and> uint (pkt_length (parse_header data)) \<le> MaxPacketSize))"

lemma politeD:
  assumes "polite U hn"
  shows "u_select U fd h = (r, h') \<Longrightarrow> r = 0 \<or> r = 1"
    "u_read (files U) fd 1 h = ((n, d), h') \<Longrightarrow> n = 0 \<or> n = 1 \<and> length d = 1"
    "u_recvfrom U fd MaxWireSize h = ((n, d), h') \<Longrightarrow> n = MaxWireSize \<and> length d = nat MaxWireSize
       \<and> sint (pkt_to (parse_header d)) = hn \<and> uint (pkt_length (parse_header d)) \<le> MaxPacketSize"
proof -
  show "r = 0 \<or> r = 1" if "u_select U fd h = (r, h')"
    using assms that unfolding polite_def by (metis fst_conv)
  show "n = 0 \<or> n = 1 \<and> length d = 1" if "u_read (files U) fd 1 h = ((n, d), h')"
  proof -
    have "let (n, data) = fst (u_read (files U) fd 1 h) in n = 0 \<or> n = 1 \<and> length data = 1"
      using assms unfolding polite_def by blast
    with that show ?thesis by (simp add: Let_def)
  qed
  show "n = MaxWireSize \<and> length d = nat MaxWireSize
       \<and> sint (pkt_to (parse_header d)) = hn \<and> uint (pkt_length (parse_header d)) \<le> MaxPacketSize"
    if "u_recvfrom U fd MaxWireSize h = ((n, d), h')"
  proof -
    have "let (n, data) = fst (u_recvfrom U fd MaxWireSize h) in
          n = MaxWireSize \<and> length data = nat MaxWireSize \<and> sint (pkt_to (parse_header data)) = hn
          \<and> uint (pkt_length (parse_header data)) \<le> MaxPacketSize"
      using assms unfolding polite_def by blast
    with that show ?thesis by (simp add: Let_def)
  qed
qed

definition device_sems :: "('h, 'k) IOKernel_scheme \<Rightarrow> sref set" where
  "device_sems k = {s_wait (synchConsoleIn k), s_wait (synchConsoleOut k), s_wait (synchDisk k),
     messageAvailable k, s_wait (postOut k)}"

definition waiters_alive :: "('h, 'k) ThreadKernel_scheme \<Rightarrow> bool" where
  "waiters_alive k \<longleftrightarrow> (\<forall>s sm t. sems k s = Some sm \<longrightarrow> t \<in> set (queue sm) \<longrightarrow> threads k t \<noteq> None)"

definition io_ok :: "'h io \<Rightarrow> ('h, 'k) IOKernel_scheme \<Rightarrow> bool" where
  "io_ok U k \<longleftrightarrow>
     polite U (hostName k) \<and> dev_inv k
     \<and> length (registers k) = NumTotalRegs \<and> 0 \<le> sint (registers k ! LoadReg)
     \<and> sint (registers k ! LoadReg) < int NumTotalRegs
     \<and> waiters_alive k \<and> (\<forall>s\<in>device_sems k. sems k s \<noteq> None)
     \<and> length (inbox (networkInput k)) = nat MaxPacketSize"

text \<open>The part of it that \<open>V\<close> could touch, and the part of it in the devices.\<close>

definition sync_ok :: "sref set \<Rightarrow> ('h, 'k) ThreadKernel_scheme \<Rightarrow> bool" where
  "sync_ok S k \<longleftrightarrow> length (registers k) = NumTotalRegs \<and> 0 \<le> sint (registers k ! LoadReg)
     \<and> sint (registers k ! LoadReg) < int NumTotalRegs
     \<and> waiters_alive k \<and> (\<forall>s\<in>S. sems k s \<noteq> None)"

lemma V_sync_ok:
  assumes "sync_ok S k" "s \<in> S" "level k = IntOff"
  shows "\<exists>k'. Semaphore_V s k = Ok k' \<and> sync_ok S k'"
proof -
  obtain sm where sm: "sems k s = Some sm" using assms by (auto simp: sync_ok_def)
  show ?thesis
  proof (cases "queue sm")
    case Nil
    with sm assms show ?thesis
      by (auto simp: Semaphore_V_def SetLevel_def Let_def sync_ok_def waiters_alive_def)
  next
    case (Cons t ts)
    with sm assms obtain th where th: "threads k t = Some th"
      by (fastforce simp: sync_ok_def waiters_alive_def)
    have "threads k u \<noteq> None" if "sems k s' = Some sm'" "u \<in> set (queue sm')" for s' sm' u
      using that assms(1) by (auto simp: sync_ok_def waiters_alive_def)
    with sm th Cons assms show ?thesis
      by (auto simp: Semaphore_V_def SetLevel_def ReadyToRun_def Let_def sync_ok_def waiters_alive_def)
  qed
qed

text \<open>Everything of \<open>io_ok\<close> that sits behind the fields of \<open>ThreadKernel\<close>.\<close>

definition net_ok :: "'h io \<Rightarrow> ('h, 'k) IOKernel_scheme \<Rightarrow> bool" where
  "net_ok U k \<longleftrightarrow> polite U (hostName k) \<and> length (inbox (networkInput k)) = nat MaxPacketSize"

lemma io_ok_parts:
  "io_ok U k \<longleftrightarrow> net_ok U k \<and> dev_inv k \<and> sync_ok (device_sems k) k"
  by (auto simp: io_ok_def net_ok_def sync_ok_def)

lemma io_of_more:
  fixes k k' :: "('h, 'k) IOKernel_scheme"
  assumes "ThreadKernel.more k' = ThreadKernel.more k"
  shows "net_ok U k' = net_ok U k" "device_sems k' = device_sems k"
proof -
  have "hostName k' = hostName k" "networkInput k' = networkInput k" "synchConsoleIn k' = synchConsoleIn k"
    "synchConsoleOut k' = synchConsoleOut k" "synchDisk k' = synchDisk k"
    "messageAvailable k' = messageAvailable k" "postOut k' = postOut k"
    using assms by (cases k; cases k'; simp)+
  then show "net_ok U k' = net_ok U k" "device_sems k' = device_sems k"
    by (simp_all add: net_ok_def device_sems_def)
qed

text \<open>Waking the thread that waits for a device, at the end of a handler.\<close>

lemma V_io:
  fixes k :: "('h, 'k) IOKernel_scheme"
  assumes "net_ok U k" "sync_ok (device_sems k) k" "s \<in> device_sems k" "level k = IntOff"
  shows "\<exists>k'. Semaphore_V s k = Ok k' \<and> net_ok U k' \<and> sync_ok (device_sems k') k'"
proof -
  obtain k' where k': "Semaphore_V s k = Ok k'" "sync_ok (device_sems k) k'"
    using V_sync_ok [OF assms(2,3,4)] by blast
  with io_of_more [OF Semaphore_V_handler(3) [OF k'(1) assms(4)]] assms(1) show ?thesis by auto
qed

lemma io_updates [simp]:
  "net_ok U (k\<lparr>pending := ps\<rparr>) = net_ok U k" "net_ok U (k\<lparr>yieldOnReturn := b\<rparr>) = net_ok U k"
  "net_ok U (k\<lparr>fileSystem := fs\<rparr>) = net_ok U k" "net_ok U (k\<lparr>stats := st\<rparr>) = net_ok U k"
  "net_ok U (k\<lparr>disk := d\<rparr>) = net_ok U k" "net_ok U (k\<lparr>consoleInput := ci\<rparr>) = net_ok U k"
  "net_ok U (k\<lparr>consoleOutput := co\<rparr>) = net_ok U k" "net_ok U (k\<lparr>networkOutput := no\<rparr>) = net_ok U k"
  "net_ok U (k\<lparr>inHandler := b\<rparr>) = net_ok U k" "net_ok U (k\<lparr>level := l\<rparr>) = net_ok U k"
  "net_ok U (k\<lparr>status := s\<rparr>) = net_ok U k" "net_ok U (k\<lparr>registers := r\<rparr>) = net_ok U k"
  by (simp_all add: net_ok_def)

lemma sync_updates [simp]:
  "sync_ok S (k\<lparr>pending := ps\<rparr>) = sync_ok S k" "sync_ok S (k\<lparr>yieldOnReturn := b\<rparr>) = sync_ok S k"
  "sync_ok S (k\<lparr>stats := st\<rparr>) = sync_ok S k" "sync_ok S (k\<lparr>inHandler := b\<rparr>) = sync_ok S k"
  by (simp_all add: sync_ok_def waiters_alive_def)

lemma sync_updates_kernel [simp]:
  "sync_ok S (k\<lparr>fileSystem := fs\<rparr>) = sync_ok S k" "sync_ok S (k\<lparr>level := l\<rparr>) = sync_ok S k"
  "sync_ok S (k\<lparr>status := s\<rparr>) = sync_ok S k"
  by (simp_all add: sync_ok_def waiters_alive_def)

lemma sync_updates_io [simp]:
  "sync_ok S (k\<lparr>disk := d\<rparr>) = sync_ok S k" "sync_ok S (k\<lparr>consoleInput := ci\<rparr>) = sync_ok S k"
  "sync_ok S (k\<lparr>consoleOutput := co\<rparr>) = sync_ok S k" "sync_ok S (k\<lparr>networkOutput := no\<rparr>) = sync_ok S k"
  "sync_ok S (k\<lparr>networkInput := ni\<rparr>) = sync_ok S k"
  by (simp_all add: sync_ok_def waiters_alive_def)

lemma sems_updates [simp]:
  "device_sems (k\<lparr>pending := ps\<rparr>) = device_sems k" "device_sems (k\<lparr>yieldOnReturn := b\<rparr>) = device_sems k"
  "device_sems (k\<lparr>fileSystem := fs\<rparr>) = device_sems k" "device_sems (k\<lparr>stats := st\<rparr>) = device_sems k"
  "device_sems (k\<lparr>disk := d\<rparr>) = device_sems k" "device_sems (k\<lparr>consoleInput := ci\<rparr>) = device_sems k"
  "device_sems (k\<lparr>consoleOutput := co\<rparr>) = device_sems k" "device_sems (k\<lparr>networkOutput := no\<rparr>) = device_sems k"
  "device_sems (k\<lparr>inHandler := b\<rparr>) = device_sems k" "device_sems (k\<lparr>level := l\<rparr>) = device_sems k"
  "device_sems (k\<lparr>status := s\<rparr>) = device_sems k" "device_sems (k\<lparr>registers := r\<rparr>) = device_sems k"
  "device_sems (k\<lparr>networkInput := ni\<rparr>) = device_sems k"
  by (simp_all add: device_sems_def)

definition handled :: "'h io \<Rightarrow> ('h, 'k) IOKernel_scheme result \<Rightarrow> bool" where
  "handled U r \<longleftrightarrow> (\<exists>k'. r = Ok k' \<and> net_ok U k' \<and> sync_ok (device_sems k') k')"

lemma handled_V:
  "net_ok U k \<Longrightarrow> sync_ok (device_sems k) k \<Longrightarrow> s \<in> device_sems k \<Longrightarrow> level k = IntOff
   \<Longrightarrow> handled U (Semaphore_V s k)"
  unfolding handled_def by (rule V_io)

lemma handled_Schedule:
  "net_ok U k \<Longrightarrow> sync_ok (device_sems k) k \<Longrightarrow> 0 < n \<Longrightarrow> handled U (Schedule c n ty k)"
  by (simp add: handled_def Schedule_def)

lemma Timer_handled:
  assumes "net_ok U k" "sync_ok (device_sems k) k" "inHandler k"
  shows "handled U (Timer_CallBack rnd k)"
proof -
  obtain b where b: "Alarm_CallBack k = Ok (k\<lparr>yieldOnReturn := b\<rparr>)"
  proof (cases "status k = IdleMode")
    case True
    then show ?thesis using that [of "yieldOnReturn k"] by (simp add: Alarm_CallBack_def)
  next
    case False
    then show ?thesis using assms(3) that [of True] by (simp add: Alarm_CallBack_def YieldOnReturn_def)
  qed
  let ?k = "k\<lparr>yieldOnReturn := b\<rparr>"
  have ok: "net_ok U ?k" "sync_ok (device_sems ?k) ?k" using assms by simp_all
  have "handled U (SetInterrupt rnd ?k)"
  proof (cases "disable (timer ?k)")
    case True
    with ok show ?thesis by (auto simp: SetInterrupt_def handled_def)
  next
    case False
    show ?thesis
    proof (cases "randomize (timer ?k)")
      case True
      obtain r h where "rnd (host (fileSystem ?k)) = (r, h)" by fastforce
      with False True ok show ?thesis
        by (auto simp: SetInterrupt_def Let_def tick_consts intro!: handled_Schedule)
    next
      case nr: False
      with False ok show ?thesis
        by (auto simp: SetInterrupt_def Let_def tick_consts intro!: handled_Schedule)
    qed
  qed
  with b show ?thesis by (simp add: Timer_CallBack_def)
qed

lemma ConsoleInput_handled:
  assumes "net_ok U k" "sync_ok (device_sems k) k" "level k = IntOff" "incoming (consoleInput k) = EOF"
  shows "handled U (ConsoleInput_CallBack U k)"
proof -
  have s: "s_wait (synchConsoleIn k) \<in> device_sems k" by (simp add: device_sems_def)
  let ?fd = "readFileNo (consoleInput k)"
  obtain r h where r: "u_select U ?fd (unix_state k) = (r, h)" by fastforce
  then have "r = 0 \<or> r = 1" using assms(1) politeD(1) [of U "hostName k"] by (simp add: net_ok_def)
  then consider "r = 0" | "r = 1" by blast
  then show ?thesis
  proof cases
    case 1
    with r assms show ?thesis
      by (auto simp: ConsoleInput_CallBack_def PollFile_def Let_def tick_consts intro!: handled_Schedule)
  next
    case 2
    obtain n data h2 where d: "u_read (files U) ?fd 1 h = ((n, data), h2)" by (metis surj_pair)
    have n: "n = 0 \<or> n = 1 \<and> length data = 1"
      using politeD(2) [OF _ d, of "hostName k"] assms(1) by (simp add: net_ok_def)
    show ?thesis
    proof (cases "n = 0")
      case True
      with r 2 d assms s show ?thesis
        by (simp add: ConsoleInput_CallBack_def PollFile_def ReadPartial_def Let_def
            SynchConsoleInput_CallBack_def handled_V)
    next
      case False
      with n obtain c where "data = [c]" by (auto simp: length_Suc_conv)
      with False n r 2 d assms s show ?thesis
        by (simp add: ConsoleInput_CallBack_def PollFile_def ReadPartial_def Let_def count_stat_def
            SynchConsoleInput_CallBack_def handled_V arr_get_def)
    qed
  qed
qed

lemma NetworkInput_handled:
  assumes "net_ok U k" "sync_ok (device_sems k) k" "level k = IntOff"
  shows "handled U (NetworkInput_CallBack U k)"
proof -
  obtain x where x: "Schedule NetInObj NetworkTime NetworkRecvInt k = Ok x" "net_ok U x"
      "sync_ok (device_sems x) x"
    using handled_Schedule [OF assms(1,2), of NetworkTime] by (auto simp: handled_def tick_consts)
  have lv: "level x = IntOff" using queued_Schedule(2) [OF x(1)] assms(3) by auto
  have s: "messageAvailable x \<in> device_sems x" by (simp add: device_sems_def)
  let ?sock = "in_sock (networkInput x)"
  obtain r h where r: "u_select U ?sock (unix_state x) = (r, h)" by fastforce
  then have r01: "r = 0 \<or> r = 1" using x(2) politeD(1) [of U "hostName x"] by (simp add: net_ok_def)
  show ?thesis
  proof (cases "pkt_length (inHdr (networkInput x)) \<noteq> 0 \<or> r = 0")
    case True
    with x r show ?thesis
      by (auto simp: NetworkInput_CallBack_def PollSocket_def PollFile_def handled_def)
  next
    case False
    obtain n data h2 where d: "u_recvfrom U ?sock MaxWireSize h = ((n, data), h2)" by (metis surj_pair)
    have n: "n = MaxWireSize" "length data = nat MaxWireSize"
        "sint (pkt_to (parse_header data)) = hostName x"
        "uint (pkt_length (parse_header data)) \<le> MaxPacketSize"
      using politeD(3) [OF _ d, of "hostName x"] x(2) by (simp_all add: net_ok_def)
    let ?len = "uint (pkt_length (parse_header data))"
    have "nat ?len \<le> nat 52" by (rule nat_mono) (use n(4) in \<open>simp add: wire_consts\<close>)
    then have u: "unat (pkt_length (parse_header data)) \<le> 52" by simp
    define b where "b = take (nat ?len) (drop 12 data)"
    have b: "copy_out data 12 ?len = Ok b" "length b = nat ?len"
      using n(2,4) u by (simp_all add: b_def copy_out_def wire_consts)
    have lb: "length (inbox (networkInput x)) = nat MaxPacketSize" using x(2) by (simp add: net_ok_def)
    obtain b' where b': "copy_in (inbox (networkInput x)) 0 b = Ok b'" "length b' = nat MaxPacketSize"
      using lb b(2) n(4) u by (auto simp: copy_in_def wire_consts)
    have ok: "net_ok U (x\<lparr>fileSystem := fs, networkInput := (networkInput x)\<lparr>inHdr := hd, inbox := b'\<rparr>, stats := st\<rparr>)"
      for fs hd st using x(2) b'(2) by (simp add: net_ok_def)
    from False r01 x r d n b b' lv s ok show ?thesis
      by (simp add: NetworkInput_CallBack_def PollSocket_def PollFile_def ReadFromSocket_def Let_def
          count_stat_def PostOfficeInput_CallBack_def handled_V)
  qed
qed

lemma CallBack_handled:
  assumes "net_ok U k" "sync_ok (device_sems k) k" "taken p k" "inHandler k"
  shows "handled U (CallBack U (callOnInterrupt p) k)"
proof -
  have lv: "level k = IntOff" using assms(3) by (simp add: taken_def)
  show ?thesis
  proof (cases "callOnInterrupt p")
    case TimerObj
    with Timer_handled [OF assms(1,2,4)] show ?thesis by (simp add: CallBack_def)
  next
    case ConsoleInObj
    then have "incoming (consoleInput k) = EOF" using assms(3) by (auto simp: taken_def)
    with ConsoleInput_handled [OF assms(1,2) lv] ConsoleInObj show ?thesis by (simp add: CallBack_def)
  next
    case NetInObj
    with NetworkInput_handled [OF assms(1,2) lv] show ?thesis by (simp add: CallBack_def)
  qed (use assms(1,2) lv in \<open>simp_all add: CallBack_def Disk_CallBack_def SynchDisk_CallBack_def
      ConsoleOutput_CallBack_def SynchConsoleOutput_CallBack_def NetworkOutput_CallBack_def
      PostOfficeOutput_CallBack_def count_stat_def handled_V device_sems_def\<close>)
qed

lemma clock_updates [simp]:
  "net_ok U (idle_until t k) = net_ok U k" "net_ok U (advance_ticks k) = net_ok U k"
  "device_sems (idle_until t k) = device_sems k" "device_sems (advance_ticks k) = device_sems k"
  "sync_ok S (idle_until t k) = sync_ok S k" "sync_ok S (advance_ticks k) = sync_ok S k"
  by (simp_all add: idle_until_def advance_ticks_def)

lemma io_ok_flags:
  fixes k :: "('h, 'k) IOKernel_scheme"
  assumes "io_ok U k"
  shows "io_ok U (k\<lparr>inHandler := b\<rparr>)" "io_ok U (k\<lparr>level := l\<rparr>)" "io_ok U (k\<lparr>status := s\<rparr>)"
    "io_ok U (k\<lparr>yieldOnReturn := b\<rparr>)" "io_ok U (idle_until t k)" "io_ok U (advance_ticks k)"
  using assms by (simp_all add: io_ok_parts dev_inv_flags)

lemma io_ok_load:
  fixes k :: "('h, 'k) IOKernel_scheme"
  assumes "io_ok U k"
  shows "\<exists>k'. DelayedLoad k 0 0 = Ok k' \<and> io_ok U k'"
proof -
  have "length (registers k) = 40" "0 \<le> sint (registers k ! 37)" "sint (registers k ! 37) < 40"
    using assms by (simp_all add: io_ok_def NumTotalRegs_def)
  then show ?thesis
    using assms dev_inv_flags(7)
    by (auto simp: DelayedLoad_def io_ok_parts sync_ok_def waiters_alive_def NumTotalRegs_def)
qed

lemma taken_io:
  fixes k :: "('h, 'k) IOKernel_scheme"
  assumes "io_ok U k" "pending k = p # rest" "level k = IntOff"
  shows "taken p (k\<lparr>pending := rest\<rparr>)" "net_ok U (k\<lparr>pending := rest\<rparr>)"
    "sync_ok (device_sems (k\<lparr>pending := rest\<rparr>)) (k\<lparr>pending := rest\<rparr>)"
  using assms by (auto simp: io_ok_parts taken_def dev_inv_def queued_def)

interpretation lv: live_devices "CallBack U" "io_ok U" for U
proof unfold_locales
  fix k k' :: "('a, 'b) IOKernel_scheme" and p rest
  assume k: "io_ok U k" "pending k = p # rest" "level k = IntOff" "inHandler k"
  note t = taken_io [OF k(1-3)]
  have h: "handled U (CallBack U (callOnInterrupt p) (k\<lparr>pending := rest\<rparr>))"
    by (intro CallBack_handled t) (use k(4) in simp)
  then show "is_ok (CallBack U (callOnInterrupt p) (k\<lparr>pending := rest\<rparr>))"
    by (auto simp: handled_def is_ok_iff)
  assume c: "CallBack U (callOnInterrupt p) (k\<lparr>pending := rest\<rparr>) = Ok k'"
  from h handler_dev_inv [OF c t(1)] c show "io_ok U k'" by (auto simp: handled_def io_ok_parts)
next
  fix k :: "('a, 'b) IOKernel_scheme"
  assume "io_ok U k"
  then show "is_ok (DelayedLoad k 0 0)" using io_ok_load [of U k] by (auto simp: is_ok_iff)
next
  fix k k' :: "('a, 'b) IOKernel_scheme"
  assume "io_ok U k" "DelayedLoad k 0 0 = Ok k'"
  then show "io_ok U k'" using io_ok_load [of U k] by auto
qed (simp_all add: io_ok_flags)

section \<open>The requests of the kernel\<close>

lemma dev_inv_Schedule:
  fixes k k' :: "('h, 'k) IOKernel_scheme"
  assumes "Schedule c n ty k = Ok k'"
  shows "dev_inv k' \<longleftrightarrow>
     (\<exists>t. (disable (timer k) \<or> t)
        \<and> one_each (active (disk k)) (putBusy (consoleOutput k)) (incoming (consoleInput k) = EOF) True t
            (add_mset c (queued k)))"
  using queued_Schedule [OF assms] by (auto simp: dev_inv_def)

lemma dev_inv_fs [simp]: "dev_inv (k\<lparr>fileSystem := fs\<rparr>) = dev_inv k"
  by (simp add: dev_inv_def)

lemma PutChar_dev_inv:
  fixes k k' :: "('h, 'k) IOKernel_scheme"
  assumes "ConsoleOutput_PutChar U ch k = Ok k'" "dev_inv k"
  shows "dev_inv k'"
proof -
  obtain fs where s: "\<not> putBusy (consoleOutput k)" "Schedule ConsoleOutObj ConsoleTime ConsoleWriteInt
      (k\<lparr>fileSystem := fs, consoleOutput := (consoleOutput k)\<lparr>putBusy := True\<rparr>\<rparr>) = Ok k'"
    using assms(1) by (auto simp: ConsoleOutput_PutChar_def elim!: rbind_OkE)
  from assms(2) s(1) show ?thesis unfolding dev_inv_Schedule [OF s(2)] by (auto simp: dev_inv_def)
qed

lemma GetChar_dev_inv:
  fixes k k' :: "('h, 'k) IOKernel_scheme"
  assumes "ConsoleInput_GetChar k = Ok (ch, k')" "dev_inv k"
  shows "dev_inv k'"
proof (cases "incoming (consoleInput k) = EOF")
  case True
  with assms show ?thesis by (auto simp: ConsoleInput_GetChar_def Let_def dev_inv_def)
next
  case False
  then obtain k1 where s: "Schedule ConsoleInObj ConsoleTime ConsoleReadInt k = Ok k1"
      "k' = k1\<lparr>consoleInput := (consoleInput k1)\<lparr>incoming := EOF\<rparr>\<rparr>"
    using assms(1) by (auto simp: ConsoleInput_GetChar_def Let_def elim!: rbind_OkE)
  then obtain ps where "k1 = k\<lparr>pending := ps\<rparr>" using queued_Schedule(2) by blast
  with s queued_Schedule(1) [OF s(1)] assms(2) False show ?thesis by (auto simp: dev_inv_def)
qed

lemma UpdateLast_disk:
  "\<exists>d. UpdateLast s k = k\<lparr>disk := d\<rparr> \<and> active d = active (disk k)"
proof -
  obtain a b where "TimeToSeek s k = (a, b)" by fastforce
  then show ?thesis
    by (cases "a = 0") (auto simp: UpdateLast_def Let_def intro!: exI)
qed

lemma Request_dev_inv:
  fixes k k' :: "('h, 'k) IOKernel_scheme"
  assumes "Schedule DiskObj n DiskInt (count_stat f (UpdateLast s (k\<lparr>fileSystem := fs,
      disk := (disk k)\<lparr>active := True\<rparr>\<rparr>))) = Ok k'" "\<not> active (disk k)" "dev_inv k"
  shows "dev_inv k'"
proof -
  obtain d where d: "UpdateLast s (k\<lparr>fileSystem := fs, disk := (disk k)\<lparr>active := True\<rparr>\<rparr>)
      = k\<lparr>fileSystem := fs, disk := d\<rparr>" "active d"
    using UpdateLast_disk [of s "k\<lparr>fileSystem := fs, disk := (disk k)\<lparr>active := True\<rparr>\<rparr>"] by auto
  from assms(2,3) d show ?thesis
    unfolding dev_inv_Schedule [OF assms(1)] by (auto simp: dev_inv_def count_stat_def)
qed

lemma ReadRequest_dev_inv:
  fixes k k' :: "('h, 'k) IOKernel_scheme"
  assumes "ReadRequest U s k = Ok (data, k')" "dev_inv k"
  shows "dev_inv k'"
  using assms by (auto simp: ReadRequest_def Let_def elim!: rbind_OkE intro: Request_dev_inv)

lemma WriteRequest_dev_inv:
  fixes k k' :: "('h, 'k) IOKernel_scheme"
  assumes "WriteRequest U s data k = Ok k'" "dev_inv k"
  shows "dev_inv k'"
  using assms by (auto simp: WriteRequest_def Let_def elim!: rbind_OkE intro: Request_dev_inv)

lemma Send_dev_inv:
  fixes k k' :: "('h, 'k) IOKernel_scheme"
  assumes "NetworkOutput_Send U junk hdr data k = Ok k'" "dev_inv k"
  shows "dev_inv k'"
proof -
  obtain k1 where s: "Schedule NetOutObj NetworkTime NetworkSendInt k = Ok k1"
    using assms(1) by (auto simp: NetworkOutput_Send_def elim!: rbind_OkE)
  have "dev_inv k1" using assms(2) unfolding dev_inv_Schedule [OF s] by (simp add: dev_inv_def)
  moreover have "\<exists>fs. k' = k1\<lparr>fileSystem := fs\<rparr>"
    using assms(1) s
    by (auto simp: NetworkOutput_Send_def Let_def elim!: rbind_OkE split: prod.splits if_splits)
  ultimately show ?thesis by auto
qed

lemma Yield_dev_inv:
  fixes k k' :: "('h, 'k) IOKernel_scheme"
  assumes "Thread_Yield k = Ok (sw, lv, k')"
  shows "dev_inv k' = dev_inv k"
  by (rule dev_inv_more [OF Thread_Yield_more [OF assms]])

section \<open>Ticks and the threads\<close>

text \<open>The threads as the abstract machine of the theory \<open>Threads\<close> sees them.\<close>

definition view :: "('h, 'k) ThreadKernel_scheme \<Rightarrow> (tid \<Rightarrow> instr list) \<Rightarrow> bool option \<Rightarrow> Abs" where
  "view k ps z = abs_sys \<lparr>kern = ThreadKernel.truncate k, progs = ps, sleeping = z\<rparr>"

lemma view_eq:
  "view k ps z = \<lparr>run = mset (if z = None then currentThread k # readyList k else readyList k), prg = ps,
     asem = sems k, alock = locks k, acond = conds k, scount = semCount k, tcount = threadCount k\<rparr>"
  by (simp add: view_def abs_sys_eq ThreadKernel.truncate_def)

lemma view_updates [simp]:
  "view (k\<lparr>pending := ps\<rparr>) = view k" "view (k\<lparr>stats := st\<rparr>) = view k"
  "view (k\<lparr>yieldOnReturn := b\<rparr>) = view k" "view (k\<lparr>inHandler := b\<rparr>) = view k"
  by (simp_all add: view_eq fun_eq_iff)

lemma view_kernel_updates [simp]:
  "view (k\<lparr>fileSystem := fs\<rparr>) = view k" "view (k\<lparr>level := l\<rparr>) = view k" "view (k\<lparr>status := s\<rparr>) = view k"
  "view (k\<lparr>registers := r\<rparr>) = view k"
  by (simp_all add: view_eq fun_eq_iff)

lemma view_io_updates [simp]:
  "view (k\<lparr>disk := d\<rparr>) = view k" "view (k\<lparr>consoleInput := ci\<rparr>) = view k"
  "view (k\<lparr>consoleOutput := co\<rparr>) = view k" "view (k\<lparr>networkOutput := no\<rparr>) = view k"
  "view (k\<lparr>networkInput := ni\<rparr>) = view k"
  by (simp_all add: view_eq fun_eq_iff)

lemma V_view: "Semaphore_V s k = Ok k' \<Longrightarrow> wake s (view k ps z) = Some (view k' ps z)"
  by (auto simp: Semaphore_V_def SetLevel_def wake_def view_eq ReadyToRun_eq Let_def elim!: rbind_OkE
      split: list.splits)

text \<open>A handler wakes at most one thread, through the semaphore of a device.\<close>

definition woken :: "sref set \<Rightarrow> ('h, 'k) ThreadKernel_scheme \<Rightarrow> ('h, 'k) ThreadKernel_scheme \<Rightarrow> bool" where
  "woken D k k' \<longleftrightarrow> (\<forall>ps z. view k' ps z = view k ps z)
     \<or> (\<exists>s\<in>D. \<forall>ps z. wake s (view k ps z) = Some (view k' ps z))"

lemma woken_V: "Semaphore_V s k1 = Ok k' \<Longrightarrow> s \<in> D \<Longrightarrow> view k1 = view k \<Longrightarrow> woken D k k'"
  using V_view [of s k1 k'] by (auto simp: woken_def)

lemma woken_same: "view k' = view k \<Longrightarrow> woken D k k'"
  by (simp add: woken_def)

lemma view_Schedule: "Schedule c n ty k = Ok k' \<Longrightarrow> view k' = view k"
  using queued_Schedule(2) [of c n ty k k'] by auto

lemma device_sems_Schedule: "Schedule c n ty k = Ok k' \<Longrightarrow> device_sems k' = device_sems k"
  using queued_Schedule(2) [of c n ty k k'] by auto

definition waking :: "('h, 'k) IOKernel_scheme \<Rightarrow> ('h, 'k) IOKernel_scheme \<Rightarrow> bool" where
  "waking k k' \<longleftrightarrow> device_sems k' = device_sems k \<and> woken (device_sems k) k k'"

lemma waking_V:
  fixes k k1 k' :: "('h, 'k) IOKernel_scheme"
  assumes "Semaphore_V s k1 = Ok k'" "level k1 = IntOff" "s \<in> device_sems k" "view k1 = view k"
    "device_sems k1 = device_sems k"
  shows "waking k k'"
  using woken_V [OF assms(1,3,4)] io_of_more(2) [OF Semaphore_V_handler(3) [OF assms(1,2)]] assms(5)
  by (simp add: waking_def)

lemma waking_devices:
  fixes k x k' :: "('h, 'k) IOKernel_scheme"
  assumes "level x = IntOff" "view x = view k" "device_sems x = device_sems k"
  shows "SynchConsoleInput_CallBack x = Ok k' \<Longrightarrow> waking k k'" "SynchConsoleOutput_CallBack x = Ok k' \<Longrightarrow> waking k k'"
    "SynchDisk_CallBack x = Ok k' \<Longrightarrow> waking k k'" "PostOfficeInput_CallBack x = Ok k' \<Longrightarrow> waking k k'"
    "PostOfficeOutput_CallBack x = Ok k' \<Longrightarrow> waking k k'"
proof -
  have "s_wait (synchConsoleIn x) \<in> device_sems k" "s_wait (synchConsoleOut x) \<in> device_sems k"
    "s_wait (synchDisk x) \<in> device_sems k" "messageAvailable x \<in> device_sems k" "s_wait (postOut x) \<in> device_sems k"
    using assms(3) by (auto simp: device_sems_def)
  with assms show "SynchConsoleInput_CallBack x = Ok k' \<Longrightarrow> waking k k'"
    "SynchConsoleOutput_CallBack x = Ok k' \<Longrightarrow> waking k k'" "SynchDisk_CallBack x = Ok k' \<Longrightarrow> waking k k'"
    "PostOfficeInput_CallBack x = Ok k' \<Longrightarrow> waking k k'" "PostOfficeOutput_CallBack x = Ok k' \<Longrightarrow> waking k k'"
    by (auto simp: SynchConsoleInput_CallBack_def SynchConsoleOutput_CallBack_def SynchDisk_CallBack_def
        PostOfficeInput_CallBack_def PostOfficeOutput_CallBack_def intro: waking_V)
qed

lemma waking_same: "view k' = view k \<Longrightarrow> device_sems k' = device_sems k \<Longrightarrow> waking k k'"
  by (simp add: waking_def woken_same)

lemma waking_Schedule:
  "Schedule c n ty k1 = Ok k' \<Longrightarrow> view k1 = view k \<Longrightarrow> device_sems k1 = device_sems k \<Longrightarrow> waking k k'"
  by (simp add: waking_same view_Schedule device_sems_Schedule)

lemma Timer_waking:
  assumes "Timer_CallBack rnd k = Ok k'"
  shows "waking k k'"
proof -
  obtain k1 where k1: "Alarm_CallBack k = Ok k1" "SetInterrupt rnd k1 = Ok k'"
    using assms by (auto simp: Timer_CallBack_def)
  then have "k1 = k \<or> k1 = k\<lparr>yieldOnReturn := True\<rparr>"
    by (auto simp: Alarm_CallBack_def YieldOnReturn_def split: if_splits)
  then have v: "view k1 = view k" "device_sems k1 = device_sems k" by auto
  have P: "waking k k'" if "Schedule TimerObj n TimerInt (k1\<lparr>fileSystem := fs\<rparr>) = Ok k'" for n fs
    by (rule waking_Schedule [OF that]) (simp_all add: v)
  have Q: "waking k k'" if "Schedule TimerObj n TimerInt k1 = Ok k'" for n
    by (rule waking_Schedule [OF that]) (simp_all add: v)
  show ?thesis
  proof (cases "disable (timer k1)")
    case True
    with k1(2) v show ?thesis by (simp add: SetInterrupt_def waking_same)
  next
    case False
    with k1(2) show ?thesis
      by (cases "randomize (timer k1)") (auto simp: SetInterrupt_def Let_def split: prod.splits intro: P Q)
  qed
qed

lemma ConsoleInput_waking:
  fixes k k' :: "('h, 'k) IOKernel_scheme"
  assumes "ConsoleInput_CallBack U k = Ok k'" "level k = IntOff"
  shows "waking k k'"
proof -
  obtain ready h where s: "PollFile U (readFileNo (consoleInput k)) (unix_state k) = Ok (ready, h)"
    using assms(1) by (auto simp: ConsoleInput_CallBack_def Let_def elim!: rbind_OkE)
  show ?thesis
  proof (cases ready)
    case False
    with assms(1) s show ?thesis
      by (auto simp: ConsoleInput_CallBack_def Let_def elim!: waking_Schedule)
  next
    case True
    obtain n data h2 where d: "ReadPartial (files U) (readFileNo (consoleInput k)) 1 h = ((n, data), h2)"
      by (metis surj_pair)
    have P: "waking k k'" if "SynchConsoleInput_CallBack (k\<lparr>fileSystem := fs, consoleInput := ci, stats := st\<rparr>) = Ok k'"
      for fs ci st by (rule waking_devices(1) [OF _ _ _ that]) (use assms(2) in auto)
    have Q: "waking k k'" if "SynchConsoleInput_CallBack (k\<lparr>fileSystem := fs\<rparr>) = Ok k'" for fs
      by (rule waking_devices(1) [OF _ _ _ that]) (use assms(2) in auto)
    show ?thesis
    proof (cases "n = 0")
      case True
      with assms(1) s d \<open>ready\<close> show ?thesis
        by (auto simp: ConsoleInput_CallBack_def Let_def intro: Q)
    next
      case False
      with assms(1) s d \<open>ready\<close> show ?thesis
        by (auto simp: ConsoleInput_CallBack_def Let_def count_stat_def elim!: rbind_OkE intro: P)
    qed
  qed
qed

lemma NetworkInput_waking:
  fixes k k' :: "('h, 'k) IOKernel_scheme"
  assumes "NetworkInput_CallBack U k = Ok k'" "level k = IntOff"
  shows "waking k k'"
proof -
  obtain x where x: "Schedule NetInObj NetworkTime NetworkRecvInt k = Ok x"
    using assms(1) by (auto simp: NetworkInput_CallBack_def elim!: rbind_OkE)
  then have vx: "view x = view k" "device_sems x = device_sems k" "level x = IntOff"
    using view_Schedule device_sems_Schedule queued_Schedule(2) [OF x] assms(2) by auto
  note r = assms(1) [unfolded NetworkInput_CallBack_def x rbind.simps]
  show ?thesis
  proof (cases "pkt_length (inHdr (networkInput x)) \<noteq> 0")
    case True
    with r vx show ?thesis by (simp add: waking_same)
  next
    case False
    then obtain ready h where s: "PollSocket U (in_sock (networkInput x)) (unix_state x) = Ok (ready, h)"
      using r by (auto elim!: rbind_OkE)
    show ?thesis
    proof (cases ready)
      case True
      then obtain buffer h2 where b: "ReadFromSocket U (in_sock (networkInput x)) MaxWireSize h = Ok (buffer, h2)"
        using r s False by (auto simp: Let_def elim!: rbind_OkE)
      have P: "waking k k'" if "PostOfficeInput_CallBack (x\<lparr>fileSystem := fs, networkInput := n, stats := st\<rparr>) = Ok k'"
        for fs n st by (rule waking_devices(4) [OF _ _ _ that]) (use vx in auto)
      from b show ?thesis
        using r s False True by (auto simp: Let_def count_stat_def elim!: rbind_OkE intro: P)
    next
      case nr: False
      with r s False vx show ?thesis by (auto simp: Let_def intro: waking_same)
    qed
  qed
qed

lemma CallBack_waking:
  fixes k k' :: "('h, 'k) IOKernel_scheme"
  assumes "CallBack U c k = Ok k'" "level k = IntOff"
  shows "waking k k'"
proof (cases c)
  case DiskObj
  with assms show ?thesis
    by (auto simp: CallBack_def Disk_CallBack_def elim!: waking_devices(3) [rotated 3])
next
  case ConsoleOutObj
  with assms show ?thesis
    by (auto simp: CallBack_def ConsoleOutput_CallBack_def count_stat_def elim!: waking_devices(2) [rotated 3])
next
  case NetOutObj
  with assms show ?thesis
    by (auto simp: CallBack_def NetworkOutput_CallBack_def count_stat_def elim!: waking_devices(5) [rotated 3])
qed (use assms in \<open>auto simp: CallBack_def intro: Timer_waking ConsoleInput_waking NetworkInput_waking\<close>)

lemma waking_steps:
  assumes "waking k k'" "device_sems k = D" "(astep F D)\<^sup>*\<^sup>* a (view k ps z)"
  shows "(astep F D)\<^sup>*\<^sup>* a (view k' ps z)"
proof -
  consider "view k' ps z = view k ps z" | s where "s \<in> D" "wake s (view k ps z) = Some (view k' ps z)"
    using assms(1,2) by (auto simp: waking_def woken_def)
  then show ?thesis
  proof cases
    case 2
    then have "astep F D (view k ps z) (view k' ps z)" by (rule astep.device)
    with assms(3) show ?thesis by simp
  qed (use assms in simp)
qed

interpretation sim: device_invariant "CallBack U"
  "\<lambda>k. device_sems k = D \<and> (astep F D)\<^sup>*\<^sup>* a (view k ps z)" for U D F a ps z
proof unfold_locales
  fix k k' :: "('a, 'b) IOKernel_scheme" and p rest
  assume k: "device_sems k = D \<and> (astep F D)\<^sup>*\<^sup>* a (view k ps z)" "level k = IntOff"
    "CallBack U (callOnInterrupt p) (k\<lparr>pending := rest\<rparr>) = Ok k'"
  then have "waking (k\<lparr>pending := rest\<rparr>) k'" by (intro CallBack_waking) auto
  with k(1) show "device_sems k' = D \<and> (astep F D)\<^sup>*\<^sup>* a (view k' ps z)"
    using waking_steps [of "k\<lparr>pending := rest\<rparr>" k' D F a ps z] by (simp add: waking_def)
next
  fix k k' :: "('a, 'b) IOKernel_scheme"
  assume "device_sems k = D \<and> (astep F D)\<^sup>*\<^sup>* a (view k ps z)" "DelayedLoad k 0 0 = Ok k'"
  then show "device_sems k' = D \<and> (astep F D)\<^sup>*\<^sup>* a (view k' ps z)"
    by (auto simp: DelayedLoad_def rbind_eq_Ok)
qed (auto simp: idle_until_def advance_ticks_def)

section \<open>A keyboard that stays silent\<close>

definition silent :: "('h, 'k) IOKernel_scheme \<Rightarrow> bool" where
  "silent k \<longleftrightarrow> ConsoleInObj \<notin># queued k \<and> incoming (consoleInput k) = EOF"

lemma silent_more:
  fixes k k' :: "('h, 'k) IOKernel_scheme"
  assumes "ThreadKernel.more k' = ThreadKernel.more k"
  shows "silent k' = silent k"
proof -
  have "consoleInput k' = consoleInput k" using assms by (cases k; cases k'; simp)
  with clock_of_more [OF assms] show ?thesis by (simp add: silent_def queued_def)
qed

lemma silent_V:
  fixes k k' :: "('h, 'k) IOKernel_scheme"
  assumes "Semaphore_V s k = Ok k'" "level k = IntOff"
  shows "silent k' = silent k"
  by (rule silent_more [OF Semaphore_V_handler(3) [OF assms]])

lemma silent_Schedule:
  fixes k k' :: "('h, 'k) IOKernel_scheme"
  assumes "Schedule c n ty k = Ok k'" "c \<noteq> ConsoleInObj"
  shows "silent k' = silent k"
  using queued_Schedule [OF assms(1)] assms(2) by (auto simp: silent_def)

lemma silent_updates [simp]:
  "silent (k\<lparr>fileSystem := fs\<rparr>) = silent k" "silent (k\<lparr>yieldOnReturn := b\<rparr>) = silent k"
  "silent (k\<lparr>inHandler := b\<rparr>) = silent k" "silent (k\<lparr>level := l\<rparr>) = silent k"
  "silent (k\<lparr>status := s\<rparr>) = silent k" "silent (k\<lparr>registers := r\<rparr>) = silent k"
  "silent (k\<lparr>disk := d\<rparr>) = silent k" "silent (k\<lparr>stats := st\<rparr>) = silent k"
  "silent (k\<lparr>consoleOutput := co\<rparr>) = silent k" "silent (k\<lparr>networkInput := ni\<rparr>) = silent k"
  "silent (k\<lparr>networkOutput := no\<rparr>) = silent k"
  by (simp_all add: silent_def)

lemma Timer_silent:
  fixes k k' :: "('h, 'k) IOKernel_scheme"
  assumes "Timer_CallBack rnd k = Ok k'" "silent k"
  shows "silent k'"
proof -
  obtain k1 where k1: "Alarm_CallBack k = Ok k1" "SetInterrupt rnd k1 = Ok k'"
    using assms by (auto simp: Timer_CallBack_def)
  then have "k1 = k \<or> k1 = k\<lparr>yieldOnReturn := True\<rparr>"
    by (auto simp: Alarm_CallBack_def YieldOnReturn_def split: if_splits)
  with assms(2) have s: "silent k1" by auto
  have P: "silent k'" if "Schedule TimerObj n TimerInt (k1\<lparr>fileSystem := fs\<rparr>) = Ok k'" for n fs
    using silent_Schedule [OF that] s by simp
  have Q: "silent k'" if "Schedule TimerObj n TimerInt k1 = Ok k'" for n
    using silent_Schedule [OF that] s by simp
  show ?thesis
  proof (cases "disable (timer k1)")
    case True
    with k1(2) s show ?thesis by (simp add: SetInterrupt_def)
  next
    case False
    with k1(2) show ?thesis
      by (cases "randomize (timer k1)") (auto simp: SetInterrupt_def Let_def split: prod.splits intro: P Q)
  qed
qed

lemma NetworkInput_silent:
  fixes k k' :: "('h, 'k) IOKernel_scheme"
  assumes "NetworkInput_CallBack U k = Ok k'" "silent k" "level k = IntOff"
  shows "silent k'"
proof -
  obtain x where x: "Schedule NetInObj NetworkTime NetworkRecvInt k = Ok x"
    using assms(1) by (auto simp: NetworkInput_CallBack_def elim!: rbind_OkE)
  then have sx: "silent x" "level x = IntOff"
    using silent_Schedule [OF x] queued_Schedule(2) [OF x] assms(2,3) by auto
  have P: "silent k'" if "PostOfficeInput_CallBack (x\<lparr>fileSystem := fs, networkInput := n, stats := st\<rparr>) = Ok k'"
    for fs n st
    using silent_V [OF that [unfolded PostOfficeInput_CallBack_def]] sx by simp
  note r = assms(1) [unfolded NetworkInput_CallBack_def x rbind.simps]
  show ?thesis
  proof (cases "pkt_length (inHdr (networkInput x)) \<noteq> 0")
    case True
    with r sx show ?thesis by simp
  next
    case False
    then obtain ready h where s: "PollSocket U (in_sock (networkInput x)) (unix_state x) = Ok (ready, h)"
      using r by (auto elim!: rbind_OkE)
    show ?thesis
    proof (cases ready)
      case True
      then obtain buffer h2 where "ReadFromSocket U (in_sock (networkInput x)) MaxWireSize h = Ok (buffer, h2)"
        using r s False by (auto simp: Let_def elim!: rbind_OkE)
      with r s False True show ?thesis by (auto simp: Let_def count_stat_def elim!: rbind_OkE intro: P)
    next
      case nr: False
      with r s False sx show ?thesis by (auto simp: Let_def)
    qed
  qed
qed

lemma CallBack_silent:
  fixes k k' :: "('h, 'k) IOKernel_scheme"
  assumes "CallBack U c k = Ok k'" "c \<noteq> ConsoleInObj" "silent k" "level k = IntOff"
  shows "silent k'"
proof (cases c)
  case DiskObj
  then have "Semaphore_V (s_wait (synchDisk k)) (k\<lparr>disk := (disk k)\<lparr>active := False\<rparr>\<rparr>) = Ok k'"
    using assms(1) by (simp add: CallBack_def Disk_CallBack_def SynchDisk_CallBack_def)
  from silent_V [OF this] assms(3,4) show ?thesis by simp
next
  case ConsoleOutObj
  then have "Semaphore_V (s_wait (synchConsoleOut k)) (k\<lparr>consoleOutput := (consoleOutput k)\<lparr>putBusy := False\<rparr>,
      stats := (stats k)\<lparr>numConsoleCharsWritten := numConsoleCharsWritten (stats k) + 1\<rparr>\<rparr>) = Ok k'"
    using assms(1)
    by (simp add: CallBack_def ConsoleOutput_CallBack_def SynchConsoleOutput_CallBack_def count_stat_def)
  from silent_V [OF this] assms(3,4) show ?thesis by simp
next
  case NetOutObj
  then have "Semaphore_V (s_wait (postOut k)) (k\<lparr>networkOutput := (networkOutput k)\<lparr>sendBusy := False\<rparr>,
      stats := (stats k)\<lparr>numPacketsSent := numPacketsSent (stats k) + 1\<rparr>\<rparr>) = Ok k'"
    using assms(1)
    by (simp add: CallBack_def NetworkOutput_CallBack_def PostOfficeOutput_CallBack_def count_stat_def)
  from silent_V [OF this] assms(3,4) show ?thesis by simp
qed (use assms in \<open>auto simp: CallBack_def intro: Timer_silent NetworkInput_silent\<close>)

interpretation quiet: device_invariant "CallBack U" silent for U
proof unfold_locales
  fix k k' :: "('a, 'b) IOKernel_scheme" and p rest
  assume k: "silent k" "pending k = p # rest" "level k = IntOff"
    "CallBack U (callOnInterrupt p) (k\<lparr>pending := rest\<rparr>) = Ok k'"
  show "silent k'"
    by (rule CallBack_silent [OF k(4)]) (use k(1-3) in \<open>auto simp: silent_def queued_def\<close>)
next
  fix k k' :: "('a, 'b) IOKernel_scheme"
  assume "silent k" "DelayedLoad k 0 0 = Ok k'"
  then show "silent k'" by (auto simp: DelayedLoad_def rbind_eq_Ok)
qed (simp_all add: idle_until_def advance_ticks_def)

text \<open>How a keyboard gets silent: at the end of its file, or by a character with the code of \<open>EOF\<close>.\<close>

lemma ConsoleInput_silent:
  fixes k k' :: "('h, 'k) IOKernel_scheme"
  assumes "taken p k" "callOnInterrupt p = ConsoleInObj" "ConsoleInput_CallBack U k = Ok k'"
    and "u_select U (readFileNo (consoleInput k)) (unix_state k) = (1, h)"
    and "u_read (files U) (readFileNo (consoleInput k)) 1 h = ((n, d), h')" "n = 0 \<or> d = [EOF]"
  shows "silent k'"
proof -
  have e: "incoming (consoleInput k) = EOF" using assms(3) by (simp add: ConsoleInput_CallBack_def Let_def)
  have q: "ConsoleInObj \<notin># queued k"
  proof -
    obtain a b t where "one_each a b False True t (queued k)" using assms(1,2) by (auto simp: taken_def)
    then show ?thesis by (simp add: one_each_def count_eq_zero_iff)
  qed
  have lv: "level k = IntOff" using assms(1) by (simp add: taken_def)
  have P: "silent k'" if "SynchConsoleInput_CallBack (k\<lparr>fileSystem := fs\<rparr>) = Ok k'" for fs
    using silent_V [OF that [unfolded SynchConsoleInput_CallBack_def]] lv e q by (simp add: silent_def)
  have Q: "silent k'" if "SynchConsoleInput_CallBack (k\<lparr>fileSystem := fs,
      consoleInput := (consoleInput k)\<lparr>incoming := EOF\<rparr>, stats := st\<rparr>) = Ok k'" for fs st
    using silent_V [OF that [unfolded SynchConsoleInput_CallBack_def]] lv q by (simp add: silent_def)
  show ?thesis
  proof (cases "n = 0")
    case True
    with assms e show ?thesis
      by (auto simp: ConsoleInput_CallBack_def PollFile_def ReadPartial_def Let_def intro: P)
  next
    case False
    with assms e show ?thesis
      by (auto simp: ConsoleInput_CallBack_def PollFile_def ReadPartial_def Let_def count_stat_def arr_get_def
          elim!: rbind_OkE intro: Q)
  qed
qed

lemma Yield_silent:
  fixes k k' :: "('h, 'k) IOKernel_scheme"
  assumes "silent k" "Thread_Yield k = Ok (sw, lv, k')"
  shows "silent k'"
  using silent_more [OF Thread_Yield_more [OF assms(2)]] assms(1) by simp

lemma distinct_filter_count: "(\<And>x. Q x \<Longrightarrow> count (mset xs) x \<le> 1) \<Longrightarrow> distinct (filter Q xs)"
proof (induction xs)
  case (Cons a xs)
  have "count (mset xs) x \<le> 1" if "Q x" for x
    using Cons.prems [OF that] by (cases "a = x") (auto simp: le_Suc_eq)
  moreover have "a \<notin> set xs" if "Q a"
    using Cons.prems [OF that] by (simp add: count_eq_zero_iff)
  ultimately show ?case using Cons.IH by auto
qed simp

section \<open>The machine of the witnesses\<close>

lemma quiet_host_polite: "polite quiet_host 0"
  unfolding polite_def quiet_host_def
  by (auto simp: one_file_def Let_def wire_consts parse_header_def bytes_int_def numeral_eq_Suc min_def
      split: prod.splits)

lemma demo_dev_inv: "dev_inv demo_io"
  by (auto simp: dev_inv_def demo_io_def demo_machine_def queued_def one_each_def intro: exI [of _ True])

lemma demo_io_ok: "io_ok quiet_host demo_io"
  using quiet_host_polite
  by (auto simp: io_ok_parts net_ok_def sync_ok_def waiters_alive_def device_sems_def demo_dev_inv)
     (auto simp: demo_io_def demo_machine_def NumTotalRegs_def wire_consts split: if_splits)

lemma demo_clock_ok: "clock_ok demo_io" "none_due demo_io" "\<not> inHandler demo_io" "level demo_io = IntOff"
    "status demo_io = SystemMode" "now demo_io = 0"
  by (simp_all add: clock_ok_def none_due_def demo_io_def demo_machine_def Statistics_new_def)

section \<open>Properties\<close>

text \<open>C23: \<open>CheckIfDue\<close> returns whenever the handlers do, and runs exactly the handlers of the
  interrupts that are due, in the order of their times, each once, with interrupts scheduled
  meanwhile left for later; when nothing is due and time may not be advanced it changes nothing.\<close>

theorem CheckIfDue_runs_due_handlers:
  fixes k :: "('h, 'k) IOKernel_scheme"
  assumes "level k = IntOff"
  shows "CheckIfDue (CallBack U) adv k =
    (let t = (if adv \<and> pending k \<noteq> [] then max (now k) (due (hd (pending k))) else now k);
         ds = takeWhile (\<lambda>p. due p \<le> t) (pending k) in
     if ds = [] then Ok (False, k)
     else rbind (DelayedLoad (k\<lparr>stats := (stats k)\<lparr>idleTicks := idleTicks (stats k) + (t - now k),
                                                    totalTicks := t\<rparr>\<rparr>) 0 0) (\<lambda>k'.
          rbind (run_due (CallBack U) ds (k'\<lparr>inHandler := True\<rparr>)) (\<lambda>k'.
          Ok (True, k'\<lparr>inHandler := False\<rparr>))))"
proof -
  have p: "pending k' = pending k" if "DelayedLoad (idle_until (target adv k) k) 0 0 = Ok k'" for k'
    using that by (auto simp: DelayedLoad_def rbind_eq_Ok idle_until_def)
  show ?thesis
    unfolding dev.CheckIfDue_due [OF assms] Let_def target_def [symmetric] idle_until_def [symmetric]
    by (cases "DelayedLoad (idle_until (target adv k) k) 0 0") (simp_all add: p)
qed

theorem CheckIfDue_runs_due_handlers_witness:
  "CheckIfDue (CallBack quiet_host) False demo_io = Ok (False, demo_io)"
  unfolding CheckIfDue_runs_due_handlers [OF demo_clock_ok(4)]
  by (simp add: demo_io_def demo_machine_def Statistics_new_def Let_def)

lemma clock_accounts_for_time_parts:
  fixes k :: "('h, 'k) IOKernel_scheme"
  assumes "clock_ok k" "\<not> inHandler k"
  shows "OneTick (CallBack U) k = Ok (y, k') \<Longrightarrow>
      clock_ok k' \<and> none_due k' \<and> \<not> inHandler k' \<and> now k < now k'"
    and "Idle (CallBack U) k = Ok k' \<Longrightarrow>
      clock_ok k' \<and> none_due k' \<and> \<not> inHandler k' \<and> pending k \<noteq> [] \<and> now k' = max (now k) (due (hd (pending k)))
      \<and> idleTicks (stats k') = idleTicks (stats k) + (now k' - now k)"
proof -
  assume "OneTick (CallBack U) k = Ok (y, k')"
  from dev.tick_run_ticked [OF OneTick_run [OF this] assms]
  show "clock_ok k' \<and> none_due k' \<and> \<not> inHandler k' \<and> now k < now k'" by (simp add: ticked_ok_def)
next
  assume i: "Idle (CallBack U) k = Ok k'"
  note c = dev.Idle_clock [OF i assms]
  from c show "clock_ok k' \<and> none_due k' \<and> \<not> inHandler k' \<and> pending k \<noteq> []
      \<and> now k' = max (now k) (due (hd (pending k)))
      \<and> idleTicks (stats k') = idleTicks (stats k) + (now k' - now k)" by (simp add: target_def)
qed

text \<open>C24: Simulated time. Each tick, with any context switch inside it, and each round of idling moves
  the clock forward (idling, to the next interrupt), keeps the list of pending interrupts sorted, keeps
  the total equal to the sum of the idle, system and user ticks, and returns with no interrupt due.\<close>

theorem Clock_accounts_for_time:
  fixes k :: "('h, 'k) IOKernel_scheme"
  assumes "clock_ok k" "\<not> inHandler k"
  shows "(\<forall>y k'. OneTick (CallBack U) k = Ok (y, k') \<longrightarrow>
        clock_ok k' \<and> none_due k' \<and> \<not> inHandler k' \<and> now k < now k')
    \<and> (\<forall>k'. Idle (CallBack U) k = Ok k' \<longrightarrow>
        clock_ok k' \<and> none_due k' \<and> \<not> inHandler k' \<and> pending k \<noteq> [] \<and> now k' = max (now k) (due (hd (pending k)))
        \<and> idleTicks (stats k') = idleTicks (stats k) + (now k' - now k))"
  using clock_accounts_for_time_parts [OF assms] by (intro conjI [of "All _"] allI impI)

lemma demo_idle: "\<exists>k'. Idle (CallBack quiet_host) demo_io = Ok k'"
  using lv.Idle_ok [OF demo_io_ok demo_clock_ok(4)] by (auto simp: is_ok_iff demo_io_def demo_machine_def)

theorem Clock_accounts_for_time_witness:
  "\<exists>k'. Idle (CallBack quiet_host) demo_io = Ok k' \<and> now k' = 100 \<and> idleTicks (stats k') = 100"
proof -
  obtain k' where k': "Idle (CallBack quiet_host) demo_io = Ok k'" using demo_idle by blast
  from Clock_accounts_for_time [OF demo_clock_ok(1,3), THEN conjunct2, rule_format, OF k'] k'
  show ?thesis by (auto simp: demo_io_def demo_machine_def Statistics_new_def)
qed

lemma devices_one_interrupt_parts:
  fixes k :: "('h, 'k) IOKernel_scheme"
  assumes "dev_inv k"
  shows "ReadRequest U s k = Ok (data, k') \<Longrightarrow> dev_inv k'"
    and "WriteRequest U s data k = Ok k' \<Longrightarrow> dev_inv k'"
    and "ConsoleOutput_PutChar U ch k = Ok k' \<Longrightarrow> dev_inv k'"
    and "ConsoleInput_GetChar k = Ok (ch, k') \<Longrightarrow> dev_inv k'"
    and "NetworkOutput_Send U junk hdr data k = Ok k' \<Longrightarrow> dev_inv k'"
    and "OneTick (CallBack U) k = Ok (y, k') \<Longrightarrow> dev_inv k'"
    and "Idle (CallBack U) k = Ok k' \<Longrightarrow> dev_inv k'"
    and "active (disk k) \<longleftrightarrow> DiskObj \<in> set (map callOnInterrupt (pending k))"
    and "ConsoleInObj \<in> set (map callOnInterrupt (pending k)) \<Longrightarrow> incoming (consoleInput k) = EOF"
    and "distinct (filter (\<lambda>c. c \<noteq> NetOutObj) (map callOnInterrupt (pending k)))"
proof -
  have "tick_run (CallBack U) k y k' \<Longrightarrow> dev_inv k'"
    by (rule di.tick_run_Inv [OF _ _ assms]) (simp add: Yield_dev_inv)
  then show "OneTick (CallBack U) k = Ok (y, k') \<Longrightarrow> dev_inv k'" by (simp add: OneTick_run)
  have l: "n = of_bool b \<Longrightarrow> n \<le> 1" "n \<le> of_bool b \<Longrightarrow> n \<le> 1" for n :: nat and b by (cases b; simp)+
  have c: "count (queued k) c \<le> 1" if "c \<noteq> NetOutObj" for c
    using assms that unfolding dev_inv_def one_each_def by (cases c) (metis l)+
  have q: "queued k = mset (map callOnInterrupt (pending k))" by (simp add: queued_def)
  show "active (disk k) \<longleftrightarrow> DiskObj \<in> set (map callOnInterrupt (pending k))"
    using assms unfolding dev_inv_def one_each_def q
    by (metis count_eq_zero_iff of_bool_eq(1) of_bool_eq(2) set_mset_mset zero_neq_one)
  show "incoming (consoleInput k) = EOF" if "ConsoleInObj \<in> set (map callOnInterrupt (pending k))"
    using assms that unfolding dev_inv_def one_each_def q
    by (metis count_eq_zero_iff le_zero_eq of_bool_eq(1) set_mset_mset)
  show "distinct (filter (\<lambda>c. c \<noteq> NetOutObj) (map callOnInterrupt (pending k)))"
    by (rule distinct_filter_count) (use c [unfolded q] in blast)
qed (use assms in \<open>auto intro: ReadRequest_dev_inv WriteRequest_dev_inv PutChar_dev_inv GetChar_dev_inv
    Send_dev_inv di.Idle_Inv\<close>)



text \<open>C15: An interrupt that is scheduled happens, and at its time. On a host whose calls succeed, a
  machine with nothing to run that idles again and again comes to the time of any pending interrupt,
  exactly, after at most as many rounds as there are ticks until then, and its handlers have run.\<close>

theorem Interrupt_fires_on_time:
  fixes k :: "('h, 'k) IOKernel_scheme"
  assumes "io_ok U k" "clock_ok k" "none_due k" "\<not> inHandler k" "level k = IntOff"
    and "p \<in> set (pending k)"
  shows "\<exists>n k'. n \<le> nat (due p - now k) \<and> idles (CallBack U) n k = Ok k' \<and> now k' = due p
    \<and> none_due k' \<and> io_ok U k'"
  using lv.idles_reach [OF assms] by blast

theorem Interrupt_fires_on_time_witness:
  "\<exists>n k'. n \<le> 100 \<and> idles (CallBack quiet_host) n demo_io = Ok k' \<and> now k' = 100 \<and> io_ok quiet_host k'"
  using Interrupt_fires_on_time [OF demo_io_ok demo_clock_ok(1-4), of "hd (pending demo_io)"]
  by (auto simp: demo_io_def demo_machine_def Statistics_new_def)

text \<open>C10: The clock and the devices implement what the threads library assumes of interrupts: whatever
  the handlers do during a tick (up to the context switch it may ask for) or an idle round, the threads
  see only signals on the semaphores of the devices, the step \<open>device\<close> of the abstract machine.\<close>

theorem Ticks_refine_device_steps:
  fixes k :: "('h, 'k) IOKernel_scheme"
  shows "(\<exists>y. OneTick_enter (CallBack U) k = Ok (y, k')) \<or> Idle (CallBack U) k = Ok k'
      \<or> (\<exists>adv fired. CheckIfDue (CallBack U) adv k = Ok (fired, k'))
    \<Longrightarrow> device_sems k' = device_sems k \<and> (astep F (device_sems k))\<^sup>*\<^sup>* (view k ps z) (view k' ps z)"
  using sim.OneTick_enter_Inv [of U k _ k' "device_sems k" F "view k ps z" ps z]
    sim.Idle_Inv [of U k k' "device_sems k" F "view k ps z" ps z]
    sim.CheckIfDue_Inv [of U _ k _ k' "device_sems k" F "view k ps z" ps z] by auto

theorem Ticks_refine_device_steps_witness:
  "\<exists>k' :: (bytes \<times> nat) IOKernel. (astep demo_text (device_sems demo_io))\<^sup>*\<^sup>* (view demo_io (\<lambda>_. []) (Some False)) (view k' (\<lambda>_. []) (Some False))
     \<and> now k' = 100"
proof -
  obtain k' where k': "Idle (CallBack quiet_host) demo_io = Ok k'" using demo_idle by blast
  have "target True demo_io = 100" by (simp add: target_def demo_io_def demo_machine_def Statistics_new_def)
  then have "now k' = 100" using dev.Idle_clock(3) [OF k' demo_clock_ok(1,3)] by simp
  with Ticks_refine_device_steps [OF disjI2 [OF disjI1 [OF k']], of demo_text "\<lambda>_. []" "Some False"]
  show ?thesis by blast
qed

lemma keyboard_falls_silent_parts:
  fixes k :: "('h, 'k) IOKernel_scheme"
  shows "taken p k \<Longrightarrow> callOnInterrupt p = ConsoleInObj \<Longrightarrow> ConsoleInput_CallBack U k = Ok k'
      \<Longrightarrow> u_select U (readFileNo (consoleInput k)) (unix_state k) = (1, h)
      \<Longrightarrow> u_read (files U) (readFileNo (consoleInput k)) 1 h = ((n, d), h') \<Longrightarrow> n = 0 \<or> d = [EOF] \<Longrightarrow> silent k'"
    and "silent k \<Longrightarrow> ConsoleInput_GetChar k = Ok (EOF, k)"
    and "silent k \<Longrightarrow> OneTick (CallBack U) k = Ok (y, k') \<Longrightarrow> silent k'"
    and "silent k \<Longrightarrow> Idle (CallBack U) k = Ok k' \<Longrightarrow> silent k'"
proof -
  show "silent k \<Longrightarrow> ConsoleInput_GetChar k = Ok (EOF, k)"
    by (simp add: silent_def ConsoleInput_GetChar_def Let_def)
  have "tick_run (CallBack U) k y k' \<Longrightarrow> silent k \<Longrightarrow> silent k'"
    by (rule quiet.tick_run_Inv) (auto intro: Yield_silent)
  then show "silent k \<Longrightarrow> OneTick (CallBack U) k = Ok (y, k') \<Longrightarrow> silent k'" by (simp add: OneTick_run)
qed (blast intro: ConsoleInput_silent quiet.Idle_Inv)+

text \<open>C37: The keyboard falls silent for good at the end of its file, and also when the character with
  code 255 is typed, which is \<^verbatim>\<open>EOF\<close> in a variable of type \<^verbatim>\<open>char\<close>: from then on
  every \<open>GetChar\<close> answers \<open>EOF\<close> and changes nothing, and no tick and no idle round brings another
  character.\<close>

theorem Keyboard_falls_silent:
  fixes k :: "('h, 'k) IOKernel_scheme"
  shows "(\<forall>p n d h h' k'. taken p k \<and> callOnInterrupt p = ConsoleInObj \<and> ConsoleInput_CallBack U k = Ok k'
        \<and> u_select U (readFileNo (consoleInput k)) (unix_state k) = (1, h)
        \<and> u_read (files U) (readFileNo (consoleInput k)) 1 h = ((n, d), h') \<and> (n = 0 \<or> d = [EOF]) \<longrightarrow> silent k')
    \<and> (silent k \<longrightarrow> ConsoleInput_GetChar k = Ok (EOF, k)
        \<and> (\<forall>y k'. OneTick (CallBack U) k = Ok (y, k') \<longrightarrow> silent k')
        \<and> (\<forall>k'. Idle (CallBack U) k = Ok k' \<longrightarrow> silent k'))"
  by (intro conjI allI impI) (blast intro: keyboard_falls_silent_parts)+

definition typed_host :: "bytes \<Rightarrow> (bytes \<times> nat) io" where
  "typed_host cs = quiet_host\<lparr>u_select := (\<lambda>fd h. (if fd = 0 then 1 else 0, h)),
     files := one_file\<lparr>u_read := (\<lambda>fd n h. ((int (length (take (nat n) cs)), take (nat n) cs), h))\<rparr>\<rparr>"

definition polled_io :: "(bytes \<times> nat) IOKernel" where
  "polled_io = demo_io\<lparr>pending := [hd (pending demo_io), hd (tl (tl (pending demo_io)))]\<rparr>"

theorem Keyboard_falls_silent_witness:
  "\<exists>k. ConsoleInput_CallBack (typed_host [255, 65]) polled_io = Ok k \<and> silent k
     \<and> ConsoleInput_GetChar k = Ok (EOF, k)"
proof -
  have t: "taken (hd (tl (pending demo_io))) polled_io"
    by (auto simp: taken_def polled_io_def demo_io_def demo_machine_def queued_def one_each_def intro: exI [of _ True])
  obtain k where k: "ConsoleInput_CallBack (typed_host [255, 65]) polled_io = Ok k"
    by (auto simp: ConsoleInput_CallBack_def polled_io_def demo_io_def demo_machine_def typed_host_def quiet_host_def one_file_def
        PollFile_def ReadPartial_def Let_def count_stat_def SynchConsoleInput_CallBack_def Semaphore_V_def
        SetLevel_def arr_get_def)
  have "silent k"
    by (rule Keyboard_falls_silent [THEN conjunct1, rule_format, where n = 1 and d = "[255]"],
        rule conjI [OF t conjI [OF _ conjI [OF k]]])
       (simp_all add: polled_io_def demo_io_def demo_machine_def typed_host_def quiet_host_def EOF_def)
  with k Keyboard_falls_silent [THEN conjunct2] show ?thesis by blast
qed

end
