(* ===== verification/Disk_Files.thy ===== *)
theory Disk_Files
  imports Disk_Device Bitmap
begin

text \<open>
  The files of the disk file system, built without \<^verbatim>\<open>FILESYS_STUB\<close>: \<open>FileHeader\<close> of
  \<^verbatim>\<open>filesys/filehdr.cc\<close> and \<open>OpenFile\<close> of \<^verbatim>\<open>filesys/openfile.cc\<close> (here
  \<open>NachosFile\<close>, the other build of the kernel has the class of the theory \<open>Stub_FS\<close>).

  \<open>kernel->synchDisk\<close> is the argument \<open>D\<close>, its two operations over a state \<open>'d\<close>; the locale
  \<open>sector_disk\<close> says what the file system relies on. A buffer from \<open>new char[n]\<close> holds whatever was
  in that memory: these bytes are the argument \<open>junk\<close>.
\<close>

record 'd disk_ops =
  read_sector :: "int \<Rightarrow> 'd \<Rightarrow> (bytes \<times> 'd) result"
  write_sector :: "int \<Rightarrow> bytes \<Rightarrow> 'd \<Rightarrow> 'd result"

definition new_buffer :: "bytes \<Rightarrow> int \<Rightarrow> bytes" where
  "new_buffer junk n = take (nat n) (junk @ replicate (nat n) 0)"

section \<open>Numbers and objects as bytes\<close>

definition num_bytes :: "int \<Rightarrow> bytes" where "num_bytes i = int_bytes (word_of_int i)"
definition bytes_num :: "bytes \<Rightarrow> int" where "bytes_num b = sint (bytes_int b)"

definition nums :: "nat \<Rightarrow> bytes \<Rightarrow> int list" where
  "nums n b = map (\<lambda>i. bytes_num (drop (4 * i) b)) [0..<n]"

section \<open>FileHeader\<close>

definition NumDirect :: int where "NumDirect = (SectorSize - 2 * 4) div 4"
definition MaxFileSize :: int where "MaxFileSize = NumDirect * SectorSize"

record FileHeader =
  numBytes :: int
  numSectors :: int
  dataSectors :: "int list"

definition hdr_bytes :: "FileHeader \<Rightarrow> bytes" where
  "hdr_bytes h = concat (map num_bytes (numBytes h # numSectors h # dataSectors h))"

definition parse_hdr :: "bytes \<Rightarrow> FileHeader" where
  "parse_hdr b = (let ns = nums 32 b in \<lparr>numBytes = ns ! 0, numSectors = ns ! 1, dataSectors = drop 2 ns\<rparr>)"

definition FileHeader_new :: "bytes \<Rightarrow> FileHeader" where
  "FileHeader_new junk = parse_hdr (new_buffer junk SectorSize)"

definition FileHeader_Allocate ::
  "bitmap \<Rightarrow> int \<Rightarrow> FileHeader \<Rightarrow> (bool \<times> FileHeader \<times> bitmap) result" where
  "FileHeader_Allocate freeMap fileSize h =
     (let h = h\<lparr>numBytes := fileSize, numSectors := divRoundUp fileSize SectorSize\<rparr> in
      rbind (Bitmap_NumClear freeMap) (\<lambda>c.
      if c < numSectors h then Ok (False, h, freeMap)
      else rbind (for_loop 0 (numSectors h) (\<lambda>i (ds, m).
                    rbind (Bitmap_FindAndSet m) (\<lambda>(s, m).
                    rbind (arr_set ds i s) (\<lambda>ds. ASSERT (s \<ge> 0) (Ok (ds, m))))) (dataSectors h, freeMap))
             (\<lambda>(ds, m). Ok (True, h\<lparr>dataSectors := ds\<rparr>, m))))"

definition FileHeader_Deallocate :: "FileHeader \<Rightarrow> bitmap \<Rightarrow> bitmap result" where
  "FileHeader_Deallocate h freeMap =
     for_loop 0 (numSectors h) (\<lambda>i m.
       rbind (arr_get (dataSectors h) i) (\<lambda>s.
       rbind (Bitmap_Test m s) (\<lambda>t. ASSERT t (Bitmap_Clear m s)))) freeMap"

definition FileHeader_FetchFrom :: "'d disk_ops \<Rightarrow> int \<Rightarrow> 'd \<Rightarrow> (FileHeader \<times> 'd) result" where
  "FileHeader_FetchFrom D sector d = rbind (read_sector D sector d) (\<lambda>(b, d). Ok (parse_hdr b, d))"

definition FileHeader_WriteBack :: "'d disk_ops \<Rightarrow> int \<Rightarrow> FileHeader \<Rightarrow> 'd \<Rightarrow> 'd result" where
  "FileHeader_WriteBack D sector h d = write_sector D sector (hdr_bytes h) d"

definition ByteToSector :: "FileHeader \<Rightarrow> int \<Rightarrow> int result" where
  "ByteToSector h offset = arr_get (dataSectors h) (offset sdiv SectorSize)"

definition FileLength :: "FileHeader \<Rightarrow> int" where "FileLength h = numBytes h"

section \<open>OpenFile\<close>

text \<open>As in \<open>Stub_FS\<close>, \<open>nf_type\<close> is \<open>None\<close> and \<open>nf_name\<close> is \<open>Wild\<close> where a constructor sets no value.\<close>

record NachosFile =
  nf_type :: "int option"
  nf_name :: "bytes ptr"
  nf_hdr :: FileHeader
  seekPosition :: int

definition NachosFile_sector :: "'d disk_ops \<Rightarrow> int \<Rightarrow> 'd \<Rightarrow> (NachosFile \<times> 'd) result" where
  "NachosFile_sector D sector d =
     rbind (FileHeader_FetchFrom D sector d) (\<lambda>(h, d).
     Ok (\<lparr>nf_type = None, nf_name = Wild, nf_hdr = h, seekPosition = 0\<rparr>, d))"

definition NachosFile_type :: "'d disk_ops \<Rightarrow> int \<Rightarrow> int \<Rightarrow> 'd \<Rightarrow> (NachosFile \<times> 'd) result" where
  "NachosFile_type D sector t d =
     rbind (FileHeader_FetchFrom D sector d) (\<lambda>(h, d).
     Ok (\<lparr>nf_type = Some t, nf_name = Wild, nf_hdr = h, seekPosition = 0\<rparr>, d))"

definition NachosFile_name :: "'d disk_ops \<Rightarrow> int \<Rightarrow> int \<Rightarrow> bytes \<Rightarrow> 'd \<Rightarrow> (NachosFile \<times> 'd) result" where
  "NachosFile_name D sector t name d =
     rbind (FileHeader_FetchFrom D sector d) (\<lambda>(h, d).
     Ok (\<lparr>nf_type = Some t, nf_name = Ptr name, nf_hdr = h, seekPosition = 0\<rparr>, d))"

text \<open>The destructor frees the name, which two of the constructors have not set.\<close>

definition NachosFile_delete :: "NachosFile \<Rightarrow> unit result" where
  "NachosFile_delete f = (case nf_name f of Wild \<Rightarrow> Fault Uninitialised | Dangling \<Rightarrow> Fault UseAfterFree | _ \<Rightarrow> Ok ())"

definition NachosFile_Seek :: "int \<Rightarrow> NachosFile \<Rightarrow> NachosFile" where
  "NachosFile_Seek position f = f\<lparr>seekPosition := position\<rparr>"

definition NachosFile_ReadAt ::
  "'d disk_ops \<Rightarrow> NachosFile \<Rightarrow> int \<Rightarrow> int \<Rightarrow> 'd \<Rightarrow> ((int \<times> bytes) \<times> 'd) result" where
  "NachosFile_ReadAt D f n position d =
     (let fileLength = FileLength (nf_hdr f) in
      if n \<le> 0 \<or> position \<ge> fileLength then Ok ((0, []), d)
      else
        let n = (if position + n > fileLength then fileLength - position else n);
            firstSector = divRoundDown position SectorSize;
            lastSector = divRoundDown (position + n - 1) SectorSize
        in rbind (for_loop firstSector (lastSector + 1) (\<lambda>i (buf, d).
                    rbind (ByteToSector (nf_hdr f) (i * SectorSize)) (\<lambda>s.
                    rbind (read_sector D s d) (\<lambda>(b, d). Ok (buf @ b, d)))) ([], d)) (\<lambda>(buf, d).
           rbind (copy_out buf (position - firstSector * SectorSize) n) (\<lambda>data. Ok ((n, data), d))))"

definition NachosFile_WriteAt ::
  "'d disk_ops \<Rightarrow> bytes \<Rightarrow> NachosFile \<Rightarrow> bytes \<Rightarrow> int \<Rightarrow> int \<Rightarrow> 'd \<Rightarrow> (int \<times> 'd) result" where
  "NachosFile_WriteAt D junk f from n position d =
     (let fileLength = FileLength (nf_hdr f) in
      if n \<le> 0 \<or> position \<ge> fileLength then Ok (0, d)
      else
        let n = (if position + n > fileLength then fileLength - position else n);
            firstSector = divRoundDown position SectorSize;
            lastSector = divRoundDown (position + n - 1) SectorSize;
            numSectors = 1 + lastSector - firstSector;
            buf = new_buffer junk (numSectors * SectorSize);
            firstAligned = (position = firstSector * SectorSize);
            lastAligned = (position + n = (lastSector + 1) * SectorSize)
        in rbind (if \<not> firstAligned
                  then rbind (NachosFile_ReadAt D f SectorSize (firstSector * SectorSize) d) (\<lambda>((_, b), d).
                       rbind (copy_in buf 0 b) (\<lambda>buf. Ok (buf, d)))
                  else Ok (buf, d)) (\<lambda>(buf, d).
           rbind (if \<not> lastAligned \<and> (firstSector \<noteq> lastSector \<or> firstAligned)
                  then rbind (NachosFile_ReadAt D f SectorSize (lastSector * SectorSize) d) (\<lambda>((_, b), d).
                       rbind (copy_in buf ((lastSector - firstSector) * SectorSize) b) (\<lambda>buf. Ok (buf, d)))
                  else Ok (buf, d)) (\<lambda>(buf, d).
           rbind (rbind (copy_out from 0 n) (copy_in buf (position - firstSector * SectorSize))) (\<lambda>buf.
           rbind (for_loop firstSector (lastSector + 1) (\<lambda>i d.
                    rbind (ByteToSector (nf_hdr f) (i * SectorSize)) (\<lambda>s.
                    rbind (copy_out buf ((i - firstSector) * SectorSize) SectorSize) (\<lambda>b. write_sector D s b d))) d)
             (\<lambda>d. Ok (n, d))))))"

definition NachosFile_Read ::
  "'d disk_ops \<Rightarrow> NachosFile \<Rightarrow> int \<Rightarrow> 'd \<Rightarrow> ((int \<times> bytes) \<times> NachosFile \<times> 'd) result" where
  "NachosFile_Read D f n d =
     rbind (NachosFile_ReadAt D f n (seekPosition f) d) (\<lambda>((result, data), d).
     Ok ((result, data), f\<lparr>seekPosition := seekPosition f + result\<rparr>, d))"

definition NachosFile_Write ::
  "'d disk_ops \<Rightarrow> bytes \<Rightarrow> NachosFile \<Rightarrow> bytes \<Rightarrow> int \<Rightarrow> 'd \<Rightarrow> (int \<times> NachosFile \<times> 'd) result" where
  "NachosFile_Write D junk f from n d =
     rbind (NachosFile_WriteAt D junk f from n (seekPosition f) d) (\<lambda>(result, d).
     Ok (result, f\<lparr>seekPosition := seekPosition f + result\<rparr>, d))"

definition NachosFile_Length :: "NachosFile \<Rightarrow> int" where
  "NachosFile_Length f = FileLength (nf_hdr f)"

definition NachosFile_GetCurrentPos :: "NachosFile \<Rightarrow> int" where
  "NachosFile_GetCurrentPos f = seekPosition f"

section \<open>Lists of blocks\<close>

lemma length_concat_blocks:
  "\<forall>b\<in>set bs. length b = n \<Longrightarrow> length (concat bs) = n * length bs"
  by (induction bs) auto

lemma concat_block:
  assumes "\<forall>b\<in>set bs. length b = n" "i < length bs"
  shows "take n (drop (n * i) (concat bs)) = bs ! i"
  using assms
proof (induction bs arbitrary: i)
  case (Cons b bs)
  then show ?case by (cases i) auto
qed simp

lemma nth_concat_blocks:
  assumes "\<forall>b\<in>set bs. length b = n" "j < n * length bs"
  shows "concat bs ! j = bs ! (j div n) ! (j mod n)"
proof -
  have "0 < n" using assms(2) by (cases n) auto
  have i: "j div n < length bs" using assms(2) by (simp add: less_mult_imp_div_less mult.commute)
  have "concat bs ! j = take n (drop (n * (j div n)) (concat bs)) ! (j mod n)"
    using \<open>0 < n\<close> assms(2) i by (simp add: length_concat_blocks [OF assms(1)])
  then show ?thesis unfolding concat_block [OF assms(1) i] .
qed

lemma copy_in_nth:
  assumes "off + length src \<le> length b"
  shows "\<exists>b'. copy_in b (int off) src = Ok b' \<and> length b' = length b
    \<and> (\<forall>j<length b. b' ! j = (if off \<le> j \<and> j < off + length src then src ! (j - off) else b ! j))"
  using assms by (auto simp: copy_in_def nth_append)

lemma copy_out_nat: "off + n \<le> length b \<Longrightarrow> copy_out b (int off) (int n) = Ok (take n (drop off b))"
  by (simp add: copy_out_def)

lemma div_round_up:
  fixes p m :: nat
  assumes "0 < m"
  shows "p + m \<le> 128 * Suc ((p + m - 1) div 128)"
proof -
  define q r where "q = (p + m - 1) div 128" and "r = (p + m - 1) mod 128"
  have "p + m - 1 = 128 * q + r" "r < 128" by (simp_all add: q_def r_def)
  then have "p + m \<le> 128 * Suc q" using assms by simp
  then show ?thesis by (simp only: q_def)
qed

lemma block_inner: "p + m \<le> 128 * b \<Longrightarrow> 128 * a \<le> p \<Longrightarrow> p - 128 * a + m \<le> 128 * (b - a)" for p m a b :: nat
  by simp

lemma div_times_128: "128 * (p div 128) \<le> p" for p :: nat
  by simp

lemma length_block_slice: "128 * b \<le> length R \<Longrightarrow> length (take (128 * (b - a)) (drop (128 * a) R)) = 128 * (b - a)"
  by simp

lemma take_block_slice:
  assumes "p - 128 * a + m \<le> 128 * (b - a)" "128 * a \<le> p"
  shows "take m (drop (p - 128 * a) (take (128 * (b - a)) (drop (128 * a) R))) = take m (drop p R)"
proof -
  have "p - 128 * a + 128 * a = p" using assms(2) by simp
  then show ?thesis using assms(1) by (simp add: drop_take take_take min_def)
qed

section \<open>What a header describes\<close>

definition int32 :: "int \<Rightarrow> bool" where "int32 i \<longleftrightarrow> - (2 ^ 31) \<le> i \<and> i < 2 ^ 31"

definition secs :: "FileHeader \<Rightarrow> nat list" where
  "secs h = map nat (take (nat (numSectors h)) (dataSectors h))"

definition raw_bytes :: "bytes list \<Rightarrow> FileHeader \<Rightarrow> bytes" where
  "raw_bytes ss h = concat (map ((!) ss) (secs h))"

definition file_bytes :: "bytes list \<Rightarrow> FileHeader \<Rightarrow> bytes" where
  "file_bytes ss h = take (nat (numBytes h)) (raw_bytes ss h)"

definition wf_hdr :: "FileHeader \<Rightarrow> bool" where
  "wf_hdr h \<longleftrightarrow> 0 \<le> numBytes h \<and> numBytes h \<le> MaxFileSize
     \<and> numSectors h = divRoundUp (numBytes h) SectorSize
     \<and> length (dataSectors h) = nat NumDirect \<and> (\<forall>s\<in>set (dataSectors h). int32 s)
     \<and> (\<forall>s\<in>set (take (nat (numSectors h)) (dataSectors h)). 0 \<le> s \<and> s < NumSectors)
     \<and> distinct (secs h)"

definition wf_sectors :: "bytes list \<Rightarrow> bool" where
  "wf_sectors ss \<longleftrightarrow> length ss = 1024 \<and> (\<forall>b\<in>set ss. length b = 128)"

lemma NumDirect_eq: "NumDirect = 30" "MaxFileSize = 3840"
  by (simp_all add: NumDirect_def MaxFileSize_def disk_consts)

lemma wf_hdrD:
  assumes "wf_hdr h"
  shows "0 \<le> numBytes h" "numBytes h \<le> 3840" "nat (numSectors h) \<le> 30" "length (dataSectors h) = 30"
    "length (secs h) = nat (numSectors h)" "set (secs h) \<subseteq> {0..<1024}" "distinct (secs h)"
    "0 \<le> numSectors h" "nat (numBytes h) \<le> 128 * nat (numSectors h)" "128 * nat (numSectors h) < nat (numBytes h) + 128"
proof -
  from assms show *: "0 \<le> numBytes h" "numBytes h \<le> 3840" "length (dataSectors h) = 30" "distinct (secs h)"
    by (auto simp: wf_hdr_def NumDirect_eq)
  have n: "numSectors h = divRoundUp (numBytes h) 128" using assms by (simp add: wf_hdr_def disk_consts)
  have c: "numBytes h \<le> numSectors h * 128" "numSectors h * 128 < numBytes h + 128"
    unfolding n using *(1) by (rule divRoundUp_covers; simp)+
  then show "0 \<le> numSectors h" "nat (numSectors h) \<le> 30" "nat (numBytes h) \<le> 128 * nat (numSectors h)"
    "128 * nat (numSectors h) < nat (numBytes h) + 128"
    using * by linarith+
  then show "length (secs h) = nat (numSectors h)" using *(3) by (simp add: secs_def)
  show "set (secs h) \<subseteq> {0..<1024}"
    using assms by (fastforce simp: secs_def wf_hdr_def disk_consts nat_less_iff)
qed

lemma raw_blocks:
  assumes "wf_hdr h" "wf_sectors ss"
  shows "\<forall>b\<in>set (map ((!) ss) (secs h)). length b = 128"
    "length (raw_bytes ss h) = 128 * nat (numSectors h)"
    "i < nat (numSectors h) \<Longrightarrow> take 128 (drop (128 * i) (raw_bytes ss h)) = ss ! (secs h ! i)"
    "length (file_bytes ss h) = nat (numBytes h)"
proof -
  show b: "\<forall>b\<in>set (map ((!) ss) (secs h)). length b = 128"
    using wf_hdrD(6) [OF assms(1)] assms(2) by (auto simp: wf_sectors_def)
  then show l: "length (raw_bytes ss h) = 128 * nat (numSectors h)"
    unfolding raw_bytes_def using length_concat_blocks [OF b] wf_hdrD(5) [OF assms(1)] by simp
  show "take 128 (drop (128 * i) (raw_bytes ss h)) = ss ! (secs h ! i)" if "i < nat (numSectors h)"
    unfolding raw_bytes_def using concat_block [OF b, of i] that wf_hdrD(5) [OF assms(1)] by simp
  show "length (file_bytes ss h) = nat (numBytes h)"
    using l wf_hdrD(9) [OF assms(1)] by (simp add: file_bytes_def)
qed

lemma nth_file_bytes:
  assumes "wf_hdr h" "wf_sectors ss" "j < nat (numBytes h)"
  shows "file_bytes ss h ! j = ss ! (secs h ! (j div 128)) ! (j mod 128)" "j div 128 < nat (numSectors h)"
proof -
  note w = wf_hdrD [OF assms(1)] and r = raw_blocks [OF assms(1,2)]
  have j: "j < 128 * nat (numSectors h)" using w(9) assms(3) by simp
  then show i: "j div 128 < nat (numSectors h)" by (simp add: less_mult_imp_div_less mult.commute)
  have "file_bytes ss h ! j = raw_bytes ss h ! j" using assms(3) by (simp add: file_bytes_def)
  also have "\<dots> = map ((!) ss) (secs h) ! (j div 128) ! (j mod 128)"
    unfolding raw_bytes_def using nth_concat_blocks [OF r(1)] j w(5) by simp
  finally show "file_bytes ss h ! j = ss ! (secs h ! (j div 128)) ! (j mod 128)" using i w(5) by simp
qed

lemma ByteToSector_nat:
  assumes "wf_hdr h" "i < nat (numSectors h)"
  shows "ByteToSector h (int i * SectorSize) = Ok (int (secs h ! i))" "secs h ! i < 1024"
proof -
  note w = wf_hdrD [OF assms(1)]
  have "secs h ! i \<in> set (secs h)" using assms(2) w(5) by simp
  with w(6) show "secs h ! i < 1024" by auto
  have "(int i * SectorSize) sdiv SectorSize = int i"
    by (simp add: disk_consts sdiv_nonneg)
  moreover have "i < 30" "dataSectors h ! i \<in> set (take (nat (numSectors h)) (dataSectors h))"
    using assms(2) w(3,4) by (auto simp: in_set_conv_nth intro!: exI [of _ i])
  moreover have "0 \<le> dataSectors h ! i" using calculation(3) assms(1) by (auto simp: wf_hdr_def)
  ultimately show "ByteToSector h (int i * SectorSize) = Ok (int (secs h ! i))"
    using assms(2) w(3,4) by (simp add: ByteToSector_def secs_def arr_get_def)
qed

lemma divRoundDown_nat: "divRoundDown (int p) SectorSize = int (p div 128)"
  by (simp add: divRoundDown_nonneg disk_consts zdiv_int)

section \<open>The disk a file system relies on\<close>

text \<open>
  The contract of the synchronous disk: it holds 1024 sectors of 128 bytes, a read gives a sector and a
  write replaces one.
\<close>

locale sector_disk =
  fixes D :: "'d disk_ops" and I :: "'d \<Rightarrow> bool" and S :: "'d \<Rightarrow> bytes list"
  assumes rd_ok: "I d \<Longrightarrow> s < 1024 \<Longrightarrow> \<exists>d'. read_sector D (int s) d = Ok (S d ! s, d') \<and> I d' \<and> S d' = S d"
    and wr_ok: "I d \<Longrightarrow> s < 1024 \<Longrightarrow> length b = 128 \<Longrightarrow>
      \<exists>d'. write_sector D (int s) b d = Ok d' \<and> I d' \<and> S d' = (S d)[s := b]"
    and wf_S: "I d \<Longrightarrow> wf_sectors (S d)"
begin

lemma read_loop:
  assumes "wf_hdr h" "I d" "a \<le> b" "b \<le> nat (numSectors h)"
  shows "\<exists>d'. for_loop (int a) (int b) (\<lambda>i (buf, d).
      rbind (ByteToSector h (i * SectorSize)) (\<lambda>s. rbind (read_sector D s d) (\<lambda>(x, d). Ok (buf @ x, d)))) ([], d)
    = Ok (take (128 * (b - a)) (drop (128 * a) (raw_bytes (S d) h)), d') \<and> I d' \<and> S d' = S d"
proof -
  let ?R = "raw_bytes (S d) h"
  let ?body = "\<lambda>i (buf, d). rbind (ByteToSector h (i * SectorSize)) (\<lambda>s. rbind (read_sector D s d) (\<lambda>(x, d). Ok (buf @ x, d)))"
  let ?I = "\<lambda>k (buf, d'). buf = take (128 * (k - a)) (drop (128 * a) ?R) \<and> I d' \<and> S d' = S d"
  have "\<exists>s'. for_loop (int a) (int b) ?body ([], d) = Ok s' \<and> ?I b s'"
  proof (rule for_loop_nat)
    fix k t assume k: "a \<le> k" "k < b" and t: "?I k t"
    obtain buf d1 where t1: "t = (buf, d1)" by force
    have kn: "k < nat (numSectors h)" using k assms(4) by simp
    obtain d2 where d2: "read_sector D (int (secs h ! k)) d1 = Ok (S d ! (secs h ! k), d2)" "I d2" "S d2 = S d"
      using rd_ok [of d1 "secs h ! k"] ByteToSector_nat(2) [OF assms(1) kn] t unfolding t1 by auto
    have "take (128 * (k - a)) (drop (128 * a) ?R) @ take 128 (drop (128 * k) ?R)
      = take (128 * (Suc k - a)) (drop (128 * a) ?R)"
      using take_add [of "128 * (k - a)" 128 "drop (128 * a) ?R"] k(1)
      by (simp add: Suc_diff_le add.commute diff_mult_distrib2)
    then show "\<exists>t'. ?body (int k) t = Ok t' \<and> ?I (Suc k) t'"
      using d2 t ByteToSector_nat(1) [OF assms(1) kn] raw_blocks(3) [OF assms(1) wf_S [OF assms(2)] kn]
      unfolding t1 by simp
  qed (use assms in auto)
  then show ?thesis by auto
qed

lemma ReadAt_spec:
  fixes n :: int
  assumes "wf_hdr (nf_hdr f)" "I d" "0 \<le> position"
  defines "data \<equiv> take (nat n) (drop (nat position) (file_bytes (S d) (nf_hdr f)))"
  shows "\<exists>d'. NachosFile_ReadAt D f n position d = Ok ((int (length data), data), d') \<and> I d' \<and> S d' = S d"
proof -
  let ?h = "nf_hdr f" and ?R = "raw_bytes (S d) (nf_hdr f)"
  note w = wf_hdrD [OF assms(1)] and r = raw_blocks [OF assms(1) wf_S [OF assms(2)]]
  define p where "p = nat position"
  define m where "m = min (nat n) (nat (numBytes ?h) - p)"
  show ?thesis
  proof (cases "n \<le> 0 \<or> position \<ge> numBytes ?h")
    case True
    then have "data = []" using r(4) w(1) by (auto simp: data_def)
    with True assms(2) show ?thesis by (auto simp: NachosFile_ReadAt_def FileLength_def)
  next
    case False
    have pos: "position = int p" and L: "p + m \<le> nat (numBytes ?h)" "0 < m" "0 < nat n"
      using assms(3) False by (auto simp: p_def m_def)
    have n': "(if position + n > numBytes ?h then numBytes ?h - position else n) = int m"
      using False assms(3) by (auto simp: m_def p_def)
    let ?a = "p div 128" and ?b = "Suc ((p + m - 1) div 128)"
    have ab: "?a \<le> ?b" by (simp add: div_le_mono le_SucI)
    have bn: "?b \<le> nat (numSectors ?h)"
    proof -
      have "p + m - 1 < 128 * nat (numSectors ?h)" using L w(9) by linarith
      then show ?thesis by (simp add: less_mult_imp_div_less mult.commute Suc_le_eq)
    qed
    from read_loop [OF assms(1,2) ab bn] obtain d' where d':
      "for_loop (int ?a) (int ?b) (\<lambda>i (buf, d).
         rbind (ByteToSector ?h (i * SectorSize)) (\<lambda>s. rbind (read_sector D s d) (\<lambda>(x, d). Ok (buf @ x, d)))) ([], d)
       = Ok (take (128 * (?b - ?a)) (drop (128 * ?a) ?R), d')" "I d'" "S d' = S d" by blast
    have last: "divRoundDown (position + int m - 1) SectorSize + 1 = int ?b"
    proof -
      have e: "position + int m - 1 = int (p + m - 1)" using L(2) pos by simp
      show ?thesis unfolding e divRoundDown_nat by simp
    qed
    have off: "position - int ?a * SectorSize = int (p - 128 * ?a)"
      using pos div_times_less_eq_dividend [of p 128] by (simp add: disk_consts of_nat_diff mult.commute)
    have inner: "p - 128 * ?a + m \<le> 128 * (?b - ?a)"
      by (rule block_inner [OF div_round_up [OF L(2)] div_times_128])
    have lenR: "128 * ?b \<le> length ?R" using bn r(2) by simp
    let ?buf = "take (128 * (?b - ?a)) (drop (128 * ?a) ?R)"
    have lb: "length ?buf = 128 * (?b - ?a)" by (rule length_block_slice [OF lenR])
    have "copy_out ?buf (int (p - 128 * ?a)) (int m) = Ok (take m (drop (p - 128 * ?a) ?buf))"
      by (rule copy_out_nat) (use inner lb in simp)
    moreover have "take m (drop (p - 128 * ?a) ?buf) = take m (drop p ?R)"
      by (rule take_block_slice [OF inner div_times_128])
    moreover have "take m (drop p ?R) = data"
      using L(1) by (simp add: data_def file_bytes_def drop_take p_def [symmetric] m_def min.commute)
    ultimately have c: "copy_out ?buf (position - int ?a * SectorSize) (int m) = Ok data"
      unfolding off by simp
    have ld: "length data = m" using r(4) by (simp add: data_def m_def p_def min.commute)
    have fst: "divRoundDown position SectorSize = int ?a" unfolding pos by (rule divRoundDown_nat)
    show ?thesis
      unfolding NachosFile_ReadAt_def FileLength_def Let_def n' fst last
      using False d' c ld by simp
  qed
qed

lemma write_loop:
  assumes "wf_hdr h" "I d" "a \<le> b" "b \<le> nat (numSectors h)" "length buf = 128 * (b - a)"
  shows "\<exists>d'. for_loop (int a) (int b) (\<lambda>i d.
      rbind (ByteToSector h (i * SectorSize)) (\<lambda>s.
      rbind (copy_out buf ((i - int a) * SectorSize) SectorSize) (\<lambda>x. write_sector D s x d))) d = Ok d'
    \<and> I d' \<and> (\<forall>i<nat (numSectors h). S d' ! (secs h ! i) =
        (if a \<le> i \<and> i < b then take 128 (drop (128 * (i - a)) buf) else S d ! (secs h ! i)))
    \<and> (\<forall>t. t \<notin> set (secs h) \<longrightarrow> S d' ! t = S d ! t)"
proof -
  note w = wf_hdrD [OF assms(1)]
  let ?body = "\<lambda>i d. rbind (ByteToSector h (i * SectorSize)) (\<lambda>s.
      rbind (copy_out buf ((i - int a) * SectorSize) SectorSize) (\<lambda>x. write_sector D s x d))"
  let ?J = "\<lambda>k d'. I d' \<and> (\<forall>i<nat (numSectors h). S d' ! (secs h ! i) =
        (if a \<le> i \<and> i < k then take 128 (drop (128 * (i - a)) buf) else S d ! (secs h ! i)))
    \<and> (\<forall>t. t \<notin> set (secs h) \<longrightarrow> S d' ! t = S d ! t)"
  show ?thesis
  proof (rule for_loop_nat [where I = ?J])
    fix k d1 assume k: "a \<le> k" "k < b" and J: "?J k d1"
    have kn: "k < nat (numSectors h)" using k assms(4) by simp
    let ?x = "take 128 (drop (128 * (k - a)) buf)"
    have fit: "128 * (k - a) + 128 \<le> length buf" using k assms(5) by simp
    have o: "(int k - int a) * SectorSize = int (128 * (k - a))" "SectorSize = int 128"
      using k by (simp_all add: disk_consts)
    have "copy_out buf ((int k - int a) * SectorSize) SectorSize = Ok ?x"
      by (subst o(1), subst o(2)) (rule copy_out_nat [OF fit])
    moreover have "length ?x = 128" using fit by simp
    then obtain d2 where d2: "write_sector D (int (secs h ! k)) ?x d1 = Ok d2" "I d2" "S d2 = (S d1)[secs h ! k := ?x]"
      using wr_ok [of d1 "secs h ! k" ?x] ByteToSector_nat(2) [OF assms(1) kn] J by blast
    moreover have "?J (Suc k) d2"
    proof (intro conjI allI impI)
      fix i assume i: "i < nat (numSectors h)"
      have len: "secs h ! k < length (S d1)"
        using ByteToSector_nat(2) [OF assms(1) kn] wf_S J by (simp add: wf_sectors_def)
      show "S d2 ! (secs h ! i) = (if a \<le> i \<and> i < Suc k then take 128 (drop (128 * (i - a)) buf) else S d ! (secs h ! i))"
      proof (cases "i = k")
        case True
        then show ?thesis using d2(3) len k by simp
      next
        case False
        then have "secs h ! i \<noteq> secs h ! k" using w(5,7) i kn by (simp add: nth_eq_iff_index_eq)
        then show ?thesis using d2(3) J i False by (simp add: less_Suc_eq)
      qed
    next
      fix t assume t: "t \<notin> set (secs h)"
      then have "t \<noteq> secs h ! k" using kn w(5) by (metis nth_mem)
      with t J d2(3) show "S d2 ! t = S d ! t" by simp
    qed (use d2 in simp)
    ultimately show "\<exists>t'. ?body (int k) d1 = Ok t' \<and> ?J (Suc k) t'"
      using ByteToSector_nat(1) [OF assms(1) kn] by auto
  qed (use assms in auto)
qed

text \<open>The two reads that fill in the parts of the buffer a write does not replace.\<close>

lemma fill_buffer:
  assumes "wf_hdr (nf_hdr f)" "I d" "off + 128 \<le> length buf" "i = int off"
  shows "\<exists>buf' d'. (if c
      then rbind (NachosFile_ReadAt D f SectorSize (int a * SectorSize) d) (\<lambda>((_, b), d).
           rbind (copy_in buf i b) (\<lambda>buf. Ok (buf, d)))
      else Ok (buf, d)) = Ok (buf', d') \<and> I d' \<and> S d' = S d \<and> length buf' = length buf
    \<and> (\<forall>j<length buf. j < off \<or> off + 128 \<le> j \<or> \<not> c \<longrightarrow> buf' ! j = buf ! j)
    \<and> (\<forall>j<128. c \<longrightarrow> 128 * a + j < nat (numBytes (nf_hdr f)) \<longrightarrow>
        buf' ! (off + j) = file_bytes (S d) (nf_hdr f) ! (128 * a + j))"
proof (cases c)
  case True
  let ?fb = "file_bytes (S d) (nf_hdr f)"
  let ?b = "take 128 (drop (128 * a) ?fb)"
  have l: "length ?fb = nat (numBytes (nf_hdr f))" using raw_blocks(4) [OF assms(1) wf_S [OF assms(2)]] .
  have e: "nat SectorSize = 128" "nat (int a * SectorSize) = 128 * a" by (simp_all add: disk_consts nat_mult_distrib)
  obtain d' where d': "NachosFile_ReadAt D f SectorSize (int a * SectorSize) d = Ok ((int (length ?b), ?b), d')"
      "I d'" "S d' = S d"
    using ReadAt_spec [OF assms(1,2), of "int a * SectorSize" SectorSize] unfolding e by (auto simp: disk_consts)
  have le: "off + length ?b \<le> length buf" using assms(3) by simp
  obtain b' where b': "copy_in buf (int off) ?b = Ok b'" "length b' = length buf"
      "\<forall>j<length buf. b' ! j = (if off \<le> j \<and> j < off + length ?b then ?b ! (j - off) else buf ! j)"
    using copy_in_nth [OF le] by blast
  have "\<forall>j<128. 128 * a + j < nat (numBytes (nf_hdr f)) \<longrightarrow> b' ! (off + j) = ?fb ! (128 * a + j)"
    using b'(3) assms(3) l by auto
  with True d' b' assms(4) show ?thesis by auto
qed (use assms in auto)

lemma WriteAt_spec:
  fixes n position :: int
  assumes "wf_hdr (nf_hdr f)" "I d" "0 \<le> position" "n \<le> int (length src)"
  defines "m \<equiv> min (nat n) (nat (numBytes (nf_hdr f)) - nat position)" and "fb \<equiv> file_bytes (S d) (nf_hdr f)"
  shows "\<exists>d'. NachosFile_WriteAt D junk f src n position d = Ok (int m, d') \<and> I d'
    \<and> (\<forall>t. t \<notin> set (secs (nf_hdr f)) \<longrightarrow> S d' ! t = S d ! t)
    \<and> file_bytes (S d') (nf_hdr f) = take (nat position) fb @ take m src @ drop (nat position + m) fb"
proof -
  let ?h = "nf_hdr f" and ?L = "nat (numBytes (nf_hdr f))"
  note w = wf_hdrD [OF assms(1)] and r = raw_blocks [OF assms(1) wf_S [OF assms(2)]]
  have lfb: "length fb = ?L" unfolding fb_def by (rule r(4))
  show ?thesis
  proof (cases "n \<le> 0 \<or> position \<ge> numBytes ?h")
    case True
    then have "m = 0" "\<not> position < numBytes ?h \<or> \<not> 0 < n" using w(1) by (auto simp: m_def)
    with True assms(2) show ?thesis
      by (auto simp: NachosFile_WriteAt_def FileLength_def fb_def)
  next
    case False
    define p where "p = nat position"
    have pos: "position = int p" and L: "p + m \<le> ?L" "0 < m" "m \<le> length src"
      using assms(3,4) False by (auto simp: p_def m_def)
    have n': "(if position + n > numBytes ?h then numBytes ?h - position else n) = int m"
      using False assms(3) by (auto simp: m_def p_def)
    define a b where "a = p div 128" and "b = (p + m - 1) div 128"
    have ab: "a \<le> b" unfolding a_def b_def by (rule div_le_mono) (use L(2) in simp)
    have ap: "128 * a \<le> p" "p < 128 * a + 128" by (simp_all add: a_def) 
    have bp: "p + m \<le> 128 * Suc b" "128 * b < p + m"
      using div_round_up [OF L(2), of p] div_times_128 [of "p + m - 1"] L(2) unfolding b_def by linarith+
    have bn: "Suc b \<le> nat (numSectors ?h)"
    proof -
      have "128 * b < 128 * nat (numSectors ?h)" using bp(2) L(1) w(9) by linarith
      then show ?thesis by simp
    qed
    have fst: "divRoundDown position SectorSize = int a" unfolding pos a_def by (rule divRoundDown_nat)
    have e: "position + int m - 1 = int (p + m - 1)" using L(2) pos by simp
    have last: "divRoundDown (position + int m - 1) SectorSize = int b" unfolding e b_def by (rule divRoundDown_nat)
    define buf0 where "buf0 = new_buffer junk ((1 + int b - int a) * SectorSize)"
    have l0: "length buf0 = 128 * (Suc b - a)"
      using ab by (simp add: buf0_def new_buffer_def disk_consts)
    have fit: "0 + 128 \<le> length buf0" "128 * (b - a) + 128 \<le> length buf0" using l0 ab by simp_all
    define c1 where "c1 = (position \<noteq> int a * SectorSize)"
    define c2 where "c2 = (position + int m \<noteq> (int b + 1) * SectorSize \<and> (int a \<noteq> int b \<or> position = int a * SectorSize))"
    have c1: "c1 \<longleftrightarrow> p \<noteq> 128 * a" by (auto simp: c1_def pos disk_consts)
    have c2: "c2 \<longleftrightarrow> p + m \<noteq> 128 * Suc b \<and> (a \<noteq> b \<or> p = 128 * a)" by (auto simp: c2_def pos disk_consts)
    from fill_buffer [OF assms(1,2) fit(1), of 0 c1 a, unfolded add_0] obtain buf1 d1 where
      b1: "(if c1 then rbind (NachosFile_ReadAt D f SectorSize (int a * SectorSize) d) (\<lambda>((_, b), d).
           rbind (copy_in buf0 0 b) (\<lambda>buf. Ok (buf, d))) else Ok (buf0, d)) = Ok (buf1, d1)"
        "I d1" "S d1 = S d" "length buf1 = length buf0"
        "\<forall>j<128. c1 \<longrightarrow> 128 * a + j < ?L \<longrightarrow> buf1 ! j = fb ! (128 * a + j)"
      unfolding fb_def by auto
    have off2: "(int b - int a) * SectorSize = int (128 * (b - a))" using ab by (simp add: disk_consts)
    have fit2: "128 * (b - a) + 128 \<le> length buf1" using fit(2) b1(4) by simp
    from fill_buffer [OF assms(1) b1(2) fit2 off2, of c2 b, unfolded b1(3,4)] obtain buf2 d2 where
      b2: "(if c2 then rbind (NachosFile_ReadAt D f SectorSize (int b * SectorSize) d1) (\<lambda>((_, x), d).
           rbind (copy_in buf1 ((int b - int a) * SectorSize) x) (\<lambda>buf. Ok (buf, d))) else Ok (buf1, d1)) = Ok (buf2, d2)"
        "I d2" "S d2 = S d" "length buf2 = length buf0"
        "\<forall>j<length buf0. j < 128 * (b - a) \<or> \<not> c2 \<longrightarrow> buf2 ! j = buf1 ! j"
        "\<forall>j<128. c2 \<longrightarrow> 128 * b + j < ?L \<longrightarrow> buf2 ! (128 * (b - a) + j) = fb ! (128 * b + j)"
      unfolding fb_def by blast
    define o3 where "o3 = p - 128 * a"
    have in3: "o3 + length (take m src) \<le> length buf2"
      using block_inner [OF bp(1) ap(1)] L(3) by (simp add: o3_def b2(4) l0)
    obtain buf3 where b3: "copy_in buf2 (int o3) (take m src) = Ok buf3" "length buf3 = length buf0"
        "\<forall>j<length buf0. buf3 ! j = (if o3 \<le> j \<and> j < o3 + m then take m src ! (j - o3) else buf2 ! j)"
      using copy_in_nth [OF in3] L(3) b2(4) by auto
    have off3: "position - int a * SectorSize = int o3" using ap(1) by (simp add: o3_def pos disk_consts)
    have o: "copy_out src 0 (int m) = Ok (take m src)" using copy_out_nat [of 0 m src] L(3) by simp
    have "a \<le> Suc b" "length buf3 = 128 * (Suc b - a)" using ab b3(2) l0 by simp_all
    from write_loop [OF assms(1) b2(2) this(1) bn this(2)] obtain d3 where
      d3: "for_loop (int a) (int (Suc b)) (\<lambda>i d. rbind (ByteToSector ?h (i * SectorSize)) (\<lambda>s.
          rbind (copy_out buf3 ((i - int a) * SectorSize) SectorSize) (\<lambda>x. write_sector D s x d))) d2 = Ok d3"
        "I d3" "\<forall>i<nat (numSectors ?h). S d3 ! (secs ?h ! i) =
          (if a \<le> i \<and> i < Suc b then take 128 (drop (128 * (i - a)) buf3) else S d ! (secs ?h ! i))"
        "\<forall>t. t \<notin> set (secs ?h) \<longrightarrow> S d3 ! t = S d ! t"
      unfolding b2(3) by blast
    have W: "NachosFile_WriteAt D junk f src n position d = Ok (int m, d3)"
      using False unfolding NachosFile_WriteAt_def FileLength_def Let_def n' fst last
        buf0_def [symmetric] c1_def [symmetric] c2_def [symmetric]
      by (simp only: if_False b1(1) rbind.simps prod.case b2(1) o off3 b3(1) d3(1) of_nat_Suc add.commute [of _ 1]
          d3(1) [unfolded of_nat_Suc add.commute [of _ 1]])
    have kept: "buf2 ! (j - 128 * a) = fb ! j"
      if j: "128 * a \<le> j" "j < 128 * Suc b" "j < ?L" "j < p \<or> p + m \<le> j" for j
    proof (cases "c2 \<and> 128 * b \<le> j")
      case True
      then have "128 * (b - a) + (j - 128 * b) = j - 128 * a" "128 * b + (j - 128 * b) = j" "j - 128 * b < 128"
        using ab j by simp_all
      with b2(6) True j(3) show ?thesis by metis
    next
      case False
      have small: "j - 128 * a < length buf0" using j(1,2) l0 ab by simp
      have "j - 128 * a < 128 * (b - a) \<or> \<not> c2" using False j(1) ab by auto
      then have "buf2 ! (j - 128 * a) = buf1 ! (j - 128 * a)" using b2(5) small by blast
      moreover have "c1 \<and> j - 128 * a < 128"
      proof (cases "j < p")
        case True
        then show ?thesis using j(1) ap c1 by auto
      next
        case notp: False
        then have "p + m \<le> j" using j(4) by simp
        then have "128 * b \<le> j" "p + m \<noteq> 128 * Suc b" using bp(2) j(2) by linarith+
        with False have "a = b" "p \<noteq> 128 * a" unfolding c2 by auto
        then show ?thesis using c1 j(1,2) by auto
      qed
      moreover have "128 * a + (j - 128 * a) = j" using j(1) by simp
      ultimately show ?thesis using b1(5) j(3) by metis
    qed
    let ?new = "take p fb @ take m src @ drop (p + m) fb"
    have "file_bytes (S d3) ?h = ?new"
    proof (rule nth_equalityI)
      show "length (file_bytes (S d3) ?h) = length ?new"
        using raw_blocks(4) [OF assms(1) wf_S [OF d3(2)]] lfb L by simp
      fix j assume "j < length (file_bytes (S d3) ?h)"
      then have j: "j < ?L" using raw_blocks(4) [OF assms(1) wf_S [OF d3(2)]] by simp
      have new: "?new ! j = (if p \<le> j \<and> j < p + m then src ! (j - p) else fb ! j)"
        using j L lfb by (auto simp: nth_append)
      define i where "i = j div 128"
      have ji: "j = 128 * i + j mod 128" "j mod 128 < 128" by (simp_all add: i_def)
      note f3 = nth_file_bytes [OF assms(1) wf_S [OF d3(2)] j, folded i_def]
      note f0 = nth_file_bytes [OF assms(1) wf_S [OF assms(2)] j, folded i_def fb_def]
      show "file_bytes (S d3) ?h ! j = ?new ! j"
      proof (cases "a \<le> i \<and> i < Suc b")
        case True
        have "128 * a \<le> 128 * i" "128 * i + 128 \<le> 128 * Suc b" using True by simp_all
        then have lo: "128 * a \<le> j" and hi: "j < 128 * Suc b" using ji by linarith+
        have small: "j - 128 * a < length buf0" using lo hi l0 ab by simp
        have "file_bytes (S d3) ?h ! j = take 128 (drop (128 * (i - a)) buf3) ! (j mod 128)"
          using f3 d3(3) True by simp
        also have "\<dots> = buf3 ! (128 * (i - a) + j mod 128)"
          using small b3(2) True ji lo by (subst nth_take) (auto intro!: nth_drop)
        also have "128 * (i - a) + j mod 128 = j - 128 * a" using True ji(1) by (simp add: diff_mult_distrib2)
        also have "buf3 ! (j - 128 * a) = (if p \<le> j \<and> j < p + m then src ! (j - p) else buf2 ! (j - 128 * a))"
          using b3(3) small lo ap(1) by (auto simp: o3_def)
        finally show ?thesis unfolding new using kept [OF lo hi j] by auto
      next
        case False
        then have "file_bytes (S d3) ?h ! j = fb ! j" using f3 f0 d3(3) by auto
        moreover have "\<not> (p \<le> j \<and> j < p + m)" using False ji ap bp(1) by auto
        ultimately show ?thesis unfolding new by (simp only: if_False)
      qed
    qed
    with W d3(2,4) show ?thesis unfolding p_def by blast
  qed
qed

end

section \<open>Headers on the disk\<close>

lemma bytes_num_bytes [simp]: "int32 i \<Longrightarrow> bytes_num (num_bytes i @ rest) = i"
  by (simp add: bytes_num_def num_bytes_def int32_def int_word_sint)

lemma length_num_bytes [simp]: "length (num_bytes i) = 4"
  by (simp add: num_bytes_def)

lemma length_nums_bytes [simp]: "length (concat (map num_bytes xs)) = 4 * length xs"
  by (induction xs) simp_all

lemma int32_bytes_num: "int32 (bytes_num b)"
  using sint_ge [of "bytes_int b"] sint_lt [of "bytes_int b"] by (simp add: bytes_num_def int32_def)

lemma nums_bytes: "\<forall>x\<in>set xs. int32 x \<Longrightarrow> nums (length xs) (concat (map num_bytes xs) @ rest) = xs"
proof (induction xs arbitrary: rest)
  case (Cons x xs)
  have "nums (length (x # xs)) b = bytes_num b # nums (length xs) (drop 4 b)" for b
    by (simp add: nums_def upt_conv_Cons map_Suc_upt [symmetric] o_def add.commute del: upt_Suc)
  with Cons show ?case by simp
qed (simp add: nums_def)

lemma nums_int32: "\<forall>x\<in>set (nums n b). int32 x" "length (nums n b) = n"
  by (auto simp: nums_def int32_bytes_num)

lemma length_hdr_bytes: "length (dataSectors h) = 30 \<Longrightarrow> length (hdr_bytes h) = 128"
  by (simp add: hdr_bytes_def del: concat.simps list.map)

lemma parse_hdr_bytes:
  assumes "int32 (numBytes h)" "int32 (numSectors h)" "\<forall>x\<in>set (dataSectors h). int32 x" "length (dataSectors h) = 30"
  shows "parse_hdr (hdr_bytes h) = h"
proof -
  let ?xs = "numBytes h # numSectors h # dataSectors h"
  have "nums (length ?xs) (concat (map num_bytes ?xs) @ []) = ?xs" by (rule nums_bytes) (use assms in auto)
  then have "nums 32 (hdr_bytes h) = ?xs" using assms(4) by (simp add: hdr_bytes_def)
  then show ?thesis by (simp add: parse_hdr_def)
qed

lemma parse_hdr_fields: "length (dataSectors (parse_hdr b)) = 30" "\<forall>x\<in>set (dataSectors (parse_hdr b)). int32 x"
  using nums_int32 [of 32 b] by (auto simp: parse_hdr_def Let_def dest: in_set_dropD)

lemma wf_hdr_round_trip:
  assumes "wf_hdr h"
  shows "parse_hdr (hdr_bytes h) = h" "length (hdr_bytes h) = 128"
proof -
  note w = wf_hdrD [OF assms]
  have "int32 (numBytes h)" "int32 (numSectors h)" using w(1,2,3,8) by (simp_all add: int32_def)
  with w(4) assms show "parse_hdr (hdr_bytes h) = h" by (intro parse_hdr_bytes) (auto simp: wf_hdr_def)
  show "length (hdr_bytes h) = 128" using w(4) by (rule length_hdr_bytes)
qed

section \<open>Allocating and freeing sectors\<close>

abbreviation "free_sectors m \<equiv> numBits m - int (card (marked m))"

lemma not_full:
  assumes "wf_bitmap m" "int (card (marked m)) < numBits m"
  shows "marked m \<noteq> {0..<numBits m}"
proof
  assume "marked m = {0..<numBits m}"
  moreover have "0 \<le> numBits m" using assms(1) by (simp add: wf_bitmap_def)
  ultimately have "int (card (marked m)) = numBits m" by simp
  with assms(2) show False by linarith
qed

lemma Allocate_loop:
  assumes "wf_bitmap m" "int n \<le> free_sectors m" "n \<le> length ds"
  shows "\<exists>ss m'. for_loop 0 (int n) (\<lambda>i (ds, m).
      rbind (Bitmap_FindAndSet m) (\<lambda>(s, m). rbind (arr_set ds i s) (\<lambda>ds. ASSERT (s \<ge> 0) (Ok (ds, m))))) (ds, m)
      = Ok (ss @ drop n ds, m') \<and> length ss = n \<and> distinct ss \<and> set ss \<inter> marked m = {}
    \<and> set ss \<subseteq> {0..<numBits m} \<and> wf_bitmap m' \<and> numBits m' = numBits m \<and> marked m' = marked m \<union> set ss"
proof -
  let ?body = "\<lambda>i (ds, m). rbind (Bitmap_FindAndSet m) (\<lambda>(s, m).
      rbind (arr_set ds i s) (\<lambda>ds. ASSERT (s \<ge> 0) (Ok (ds, m))))"
  let ?I = "\<lambda>k (ds', m'). \<exists>ss. ds' = ss @ drop k ds \<and> length ss = k \<and> distinct ss \<and> set ss \<inter> marked m = {}
    \<and> set ss \<subseteq> {0..<numBits m} \<and> wf_bitmap m' \<and> numBits m' = numBits m \<and> marked m' = marked m \<union> set ss"
  have "\<exists>r. for_loop (int 0) (int n) ?body (ds, m) = Ok r \<and> ?I n r"
  proof (rule for_loop_nat)
    fix k t assume k: "k < n" and I: "?I k t"
    obtain ds' m' where t: "t = (ds', m')" by force
    from I obtain ss where ss: "ds' = ss @ drop k ds" "length ss = k" "distinct ss" "set ss \<inter> marked m = {}"
      "set ss \<subseteq> {0..<numBits m}" "wf_bitmap m'" "numBits m' = numBits m" "marked m' = marked m \<union> set ss"
      unfolding t by auto
    have "card (marked m') = card (marked m) + k"
      unfolding ss(8) using ss(2,3,4) by (simp add: card_Un_disjoint Int_commute distinct_card)
    then have "int (card (marked m')) < numBits m'" using assms(2) k ss(7) by simp
    then have "marked m' \<noteq> {0..<numBits m'}" by (rule not_full [OF ss(6)])
    from FindAndSet_free [OF ss(6) this] obtain s m2 where s: "Bitmap_FindAndSet m' = Ok (s, m2)" "0 \<le> s"
      "s < numBits m'" "s \<notin> marked m'" "wf_bitmap m2" "numBits m2 = numBits m'" "marked m2 = insert s (marked m')"
      by blast
    have "ds'[k := s] = (ss @ [s]) @ drop (Suc k) ds"
      using k assms(3) ss(1,2) by (simp add: list_update_append Cons_nth_drop_Suc [symmetric])
    moreover have "k < length ds'" using k assms(3) ss(1,2) by simp
    ultimately have "?body (int k) t = Ok ((ss @ [s]) @ drop (Suc k) ds, m2)" using s(1,2) by (simp add: t arr_set_def)
    moreover have "?I (Suc k) ((ss @ [s]) @ drop (Suc k) ds, m2)"
      using s ss by (auto intro!: exI [of _ "ss @ [s]"])
    ultimately show "\<exists>t'. ?body (int k) t = Ok t' \<and> ?I (Suc k) t'" by blast
  qed (use assms(1) in simp_all)
  then show ?thesis by auto
qed

lemma Allocate_spec:
  fixes size :: int
  assumes "wf_bitmap m" "length (dataSectors h) = 30" "0 \<le> size"
  defines "n \<equiv> divRoundUp size SectorSize"
  defines "h' \<equiv> h\<lparr>numBytes := size, numSectors := n\<rparr>"
  shows "free_sectors m < n \<Longrightarrow> FileHeader_Allocate m size h = Ok (False, h', m)"
    and "n \<le> free_sectors m \<Longrightarrow> n \<le> NumDirect \<Longrightarrow> \<exists>ss m'.
      FileHeader_Allocate m size h = Ok (True, h'\<lparr>dataSectors := ss @ drop (nat n) (dataSectors h)\<rparr>, m')
      \<and> length ss = nat n \<and> distinct ss \<and> set ss \<inter> marked m = {} \<and> set ss \<subseteq> {0..<numBits m}
      \<and> wf_bitmap m' \<and> numBits m' = numBits m \<and> marked m' = marked m \<union> set ss"
    and "n \<le> free_sectors m \<Longrightarrow> NumDirect < n \<Longrightarrow> FileHeader_Allocate m size h = Fault OutOfRange"
proof -
  let ?body = "\<lambda>i (ds, m). rbind (Bitmap_FindAndSet m) (\<lambda>(s, m).
      rbind (arr_set ds i s) (\<lambda>ds. ASSERT (s \<ge> 0) (Ok (ds, m))))"
  have n0: "0 \<le> n" unfolding n_def using assms(3) by (intro divRoundUp_ge0) (simp_all add: disk_consts)
  have A: "FileHeader_Allocate m size h = (if free_sectors m < n then Ok (False, h', m)
      else rbind (for_loop 0 n ?body (dataSectors h, m)) (\<lambda>(ds, m). Ok (True, h'\<lparr>dataSectors := ds\<rparr>, m)))"
    by (simp add: FileHeader_Allocate_def NumClear_correct [OF assms(1)] h'_def n_def Let_def)
  show "FileHeader_Allocate m size h = Ok (False, h', m)" if "free_sectors m < n" using that unfolding A by simp
  show "\<exists>ss m'. FileHeader_Allocate m size h = Ok (True, h'\<lparr>dataSectors := ss @ drop (nat n) (dataSectors h)\<rparr>, m')
      \<and> length ss = nat n \<and> distinct ss \<and> set ss \<inter> marked m = {} \<and> set ss \<subseteq> {0..<numBits m}
      \<and> wf_bitmap m' \<and> numBits m' = numBits m \<and> marked m' = marked m \<union> set ss"
    if "n \<le> free_sectors m" "n \<le> NumDirect"
  proof -
    have "int (nat n) \<le> free_sectors m" "nat n \<le> length (dataSectors h)"
      using that n0 assms(2) by (simp_all add: NumDirect_eq)
    from Allocate_loop [OF assms(1) this] n0 obtain ss m' where
      "for_loop 0 n ?body (dataSectors h, m) = Ok (ss @ drop (nat n) (dataSectors h), m')"
      "length ss = nat n" "distinct ss" "set ss \<inter> marked m = {}" "set ss \<subseteq> {0..<numBits m}"
      "wf_bitmap m'" "numBits m' = numBits m" "marked m' = marked m \<union> set ss"
      by auto
    then show ?thesis using that(1) unfolding A by (intro exI [of _ ss] exI [of _ m']) simp
  qed
  show "FileHeader_Allocate m size h = Fault OutOfRange" if l: "n \<le> free_sectors m" "NumDirect < n"
  proof -
    have "int 30 \<le> free_sectors m" "30 \<le> length (dataSectors h)"
      using l assms(2) by (simp_all add: NumDirect_eq)
    from Allocate_loop [OF assms(1) this] obtain ss m' where
      f: "for_loop 0 30 ?body (dataSectors h, m) = Ok (ss @ drop 30 (dataSectors h), m')"
      "length ss = 30" "distinct ss" "set ss \<inter> marked m = {}" "wf_bitmap m'" "numBits m' = numBits m"
      "marked m' = marked m \<union> set ss"
      by auto
    have "card (marked m') = card (marked m) + 30"
      unfolding f(7) using f(2,3,4) by (simp add: card_Un_disjoint Int_commute distinct_card)
    then have "int (card (marked m')) < numBits m'" using l f(6) by (simp add: NumDirect_eq)
    then have "marked m' \<noteq> {0..<numBits m'}" by (rule not_full [OF f(5)])
    from FindAndSet_free [OF f(5) this] obtain s m2 where "Bitmap_FindAndSet m' = Ok (s, m2)" by blast
    then have "for_loop 30 n ?body (ss @ drop 30 (dataSectors h), m') = Fault OutOfRange"
      using l(2) f(2) assms(2) by (simp add: NumDirect_eq for_loop_step arr_set_def)
    then have "for_loop 0 n ?body (dataSectors h, m) = Fault OutOfRange"
      using for_loop_split [of 0 30 n ?body "(dataSectors h, m)"] f(1) l(2) by (simp add: NumDirect_eq)
    then show ?thesis using l(1) unfolding A by simp
  qed
qed

lemma Deallocate_spec:
  assumes "wf_hdr h" "wf_bitmap m" "int ` set (secs h) \<subseteq> marked m"
  shows "\<exists>m'. FileHeader_Deallocate h m = Ok m' \<and> wf_bitmap m' \<and> numBits m' = numBits m
    \<and> marked m' = marked m - int ` set (secs h)"
proof -
  note w = wf_hdrD [OF assms(1)]
  let ?body = "\<lambda>i m. rbind (arr_get (dataSectors h) i) (\<lambda>s.
       rbind (Bitmap_Test m s) (\<lambda>t. ASSERT t (Bitmap_Clear m s)))"
  let ?I = "\<lambda>k m'. wf_bitmap m' \<and> numBits m' = numBits m \<and> marked m' = marked m - int ` set (take k (secs h))"
  have "\<exists>m'. for_loop (int 0) (int (nat (numSectors h))) ?body m = Ok m' \<and> ?I (nat (numSectors h)) m'"
  proof (rule for_loop_nat)
    fix k m1 assume k: "k < nat (numSectors h)" and I: "?I k m1"
    let ?s = "secs h ! k"
    have ks: "k < length (secs h)" using k w(5) by simp
    have "dataSectors h ! k \<in> set (take (nat (numSectors h)) (dataSectors h))"
      using k w(3,4) by (auto simp: in_set_conv_nth intro!: exI [of _ k])
    then have "0 \<le> dataSectors h ! k" using assms(1) by (auto simp: wf_hdr_def)
    then have g: "arr_get (dataSectors h) (int k) = Ok (int ?s)"
      using k w(3,4) by (simp add: secs_def arr_get_def)
    have "?s \<notin> set (take k (secs h))" using w(7) ks by (auto simp: in_set_conv_nth nth_eq_iff_index_eq)
    then have "int ?s \<in> marked m1" using I assms(3) ks by auto
    then have r: "0 \<le> int ?s" "int ?s < numBits m1" using marked_range [of m1] by auto
    have "wf_bitmap m1" using I by simp
    note T = Test_correct [OF this r] and C = Clear_correct [OF this r]
    from C obtain m2 where "Bitmap_Clear m1 (int ?s) = Ok m2" "wf_bitmap m2" "numBits m2 = numBits m1"
      "marked m2 = marked m1 - {int ?s}" by blast
    with T \<open>int ?s \<in> marked m1\<close> I g ks show "\<exists>m2. ?body (int k) m1 = Ok m2 \<and> ?I (Suc k) m2"
      by (auto simp: take_Suc_conv_app_nth)
  qed (use assms(2) in simp_all)
  then show ?thesis using w(5,8) by (simp add: FileHeader_Deallocate_def)
qed

end
