(* ===== verification/Disk_Tables.thy ===== *)
theory Disk_Tables
  imports Disk_Files
begin

text \<open>
  The two tables the disk file system keeps in files: the map of used sectors, \<open>PersistentBitmap\<close> of
  \<^verbatim>\<open>filesys/pbitmap.cc\<close>, and the directory, \<open>Directory\<close> of \<^verbatim>\<open>filesys/directory.cc\<close>.
  Both are written to the disk as the bytes they have in memory.
\<close>

section \<open>PersistentBitmap\<close>

definition words_bytes :: "32 word list \<Rightarrow> bytes" where
  "words_bytes ws = concat (map int_bytes ws)"

definition bytes_words :: "nat \<Rightarrow> bytes \<Rightarrow> 32 word list" where
  "bytes_words n b = map (\<lambda>i. bytes_int (drop (4 * i) b)) [0..<n]"

definition PBitmap_new :: "int \<Rightarrow> bitmap result" where
  "PBitmap_new numItems = Bitmap_new numItems"

definition PBitmap_FetchFrom :: "'d disk_ops \<Rightarrow> NachosFile \<Rightarrow> bitmap \<Rightarrow> 'd \<Rightarrow> (bitmap \<times> 'd) result" where
  "PBitmap_FetchFrom D f b d =
     rbind (NachosFile_ReadAt D f (numWords b * 4) 0 d) (\<lambda>((_, data), d).
     rbind (copy_in (words_bytes (bwords b)) 0 data) (\<lambda>bs.
     Ok (b\<lparr>bwords := bytes_words (length (bwords b)) bs\<rparr>, d)))"

definition PBitmap_file :: "'d disk_ops \<Rightarrow> NachosFile \<Rightarrow> int \<Rightarrow> 'd \<Rightarrow> (bitmap \<times> 'd) result" where
  "PBitmap_file D f numItems d = rbind (Bitmap_new numItems) (\<lambda>b. PBitmap_FetchFrom D f b d)"

definition PBitmap_WriteBack :: "'d disk_ops \<Rightarrow> bytes \<Rightarrow> NachosFile \<Rightarrow> bitmap \<Rightarrow> 'd \<Rightarrow> 'd result" where
  "PBitmap_WriteBack D junk f b d =
     rbind (NachosFile_WriteAt D junk f (words_bytes (bwords b)) (numWords b * 4) 0 d) (\<lambda>(_, d). Ok d)"

section \<open>Directory\<close>

definition FileNameMaxLen :: nat where "FileNameMaxLen = 9"

text \<open>An entry takes 20 bytes: the flag, three bytes of padding, the sector, the name, two bytes of padding.\<close>

record DirectoryEntry =
  inUse :: bool
  e_sector :: int
  e_name :: bytes
  e_pad :: bytes

definition entry_bytes :: "DirectoryEntry \<Rightarrow> bytes" where
  "entry_bytes e =
     [if inUse e then 1 else 0] @ take 3 (e_pad e) @ num_bytes (e_sector e) @ e_name e @ drop 3 (e_pad e)"

definition parse_entry :: "bytes \<Rightarrow> DirectoryEntry" where
  "parse_entry b =
     \<lparr>inUse = b ! 0 \<noteq> 0, e_sector = bytes_num (drop 4 b), e_name = take 10 (drop 8 b),
      e_pad = take 3 (drop 1 b) @ take 2 (drop 18 b)\<rparr>"

type_synonym Directory = "DirectoryEntry list"

definition table_bytes :: "Directory \<Rightarrow> bytes" where
  "table_bytes tbl = concat (map entry_bytes tbl)"

definition parse_table :: "nat \<Rightarrow> bytes \<Rightarrow> Directory" where
  "parse_table n b = map (\<lambda>i. parse_entry (drop (20 * i) b)) [0..<n]"

definition Directory_new :: "bytes \<Rightarrow> nat \<Rightarrow> Directory" where
  "Directory_new junk n =
     map (\<lambda>e. e\<lparr>inUse := False\<rparr>) (parse_table n (new_buffer junk (20 * int n)))"

definition Directory_FetchFrom :: "'d disk_ops \<Rightarrow> NachosFile \<Rightarrow> Directory \<Rightarrow> 'd \<Rightarrow> (Directory \<times> 'd) result" where
  "Directory_FetchFrom D f tbl d =
     rbind (NachosFile_ReadAt D f (int (length tbl) * 20) 0 d) (\<lambda>((_, data), d).
     rbind (copy_in (table_bytes tbl) 0 data) (\<lambda>bs. Ok (parse_table (length tbl) bs, d)))"

definition Directory_WriteBack :: "'d disk_ops \<Rightarrow> bytes \<Rightarrow> NachosFile \<Rightarrow> Directory \<Rightarrow> 'd \<Rightarrow> 'd result" where
  "Directory_WriteBack D junk f tbl d =
     rbind (NachosFile_WriteAt D junk f (table_bytes tbl) (int (length tbl) * 20) 0 d) (\<lambda>(_, d). Ok d)"

text \<open>
  \<open>strncmp(buf, s, n) == 0\<close> for a buffer and a string, which is its bytes before the terminator, and
  \<open>strncpy(buf, s, n)\<close>, which writes \<open>n\<close> bytes and a terminator only when there is room for it.
\<close>

definition strncmp_equal :: "nat \<Rightarrow> bytes \<Rightarrow> bytes \<Rightarrow> bool" where
  "strncmp_equal n buf s \<longleftrightarrow> takeWhile (\<lambda>c. c \<noteq> 0) (take n buf) = take n s"

definition strncpy :: "nat \<Rightarrow> bytes \<Rightarrow> bytes \<Rightarrow> bytes" where
  "strncpy n buf s = take n (s @ replicate n 0) @ drop n buf"

fun FindIndex_from :: "int \<Rightarrow> Directory \<Rightarrow> bytes \<Rightarrow> int" where
  "FindIndex_from i [] name = -1"
| "FindIndex_from i (e # tbl) name =
     (if inUse e \<and> strncmp_equal FileNameMaxLen (e_name e) name then i else FindIndex_from (i + 1) tbl name)"

definition Directory_FindIndex :: "Directory \<Rightarrow> bytes \<Rightarrow> int" where
  "Directory_FindIndex tbl name = FindIndex_from 0 tbl name"

definition Directory_Find :: "Directory \<Rightarrow> bytes \<Rightarrow> int result" where
  "Directory_Find tbl name =
     (let i = Directory_FindIndex tbl name in
      if i \<noteq> -1 then rbind (arr_get tbl i) (\<lambda>e. Ok (e_sector e)) else Ok (-1))"

fun Add_loop :: "bytes \<Rightarrow> int \<Rightarrow> Directory \<Rightarrow> bool \<times> Directory" where
  "Add_loop name newSector [] = (False, [])"
| "Add_loop name newSector (e # tbl) =
     (if \<not> inUse e
      then (True, e\<lparr>inUse := True, e_name := strncpy FileNameMaxLen (e_name e) name, e_sector := newSector\<rparr> # tbl)
      else let (ok, tbl) = Add_loop name newSector tbl in (ok, e # tbl))"

definition Directory_Add :: "bytes \<Rightarrow> int \<Rightarrow> Directory \<Rightarrow> bool \<times> Directory" where
  "Directory_Add name newSector tbl =
     (if Directory_FindIndex tbl name \<noteq> -1 then (False, tbl) else Add_loop name newSector tbl)"

definition Directory_Remove :: "bytes \<Rightarrow> Directory \<Rightarrow> (bool \<times> Directory) result" where
  "Directory_Remove name tbl =
     (let i = Directory_FindIndex tbl name in
      if i = -1 then Ok (False, tbl)
      else rbind (arr_get tbl i) (\<lambda>e. rbind (arr_set tbl i (e\<lparr>inUse := False\<rparr>)) (\<lambda>tbl. Ok (True, tbl))))"

text \<open>
  \<open>List\<close> prints each name up to its terminator, which must come within the ten bytes of the entry:
  what it prints, line by line.
\<close>

fun Directory_List :: "Directory \<Rightarrow> bytes list result" where
  "Directory_List [] = Ok []"
| "Directory_List (e # tbl) =
     (if \<not> inUse e then Directory_List tbl
      else if 0 \<notin> set (e_name e) then Fault OutOfRange
      else rbind (Directory_List tbl) (\<lambda>out. Ok (takeWhile (\<lambda>c. c \<noteq> 0) (e_name e) # out)))"

section \<open>Reading back what was written\<close>

lemma parse_blocks:
  assumes "\<And>x rest. x \<in> set xs \<Longrightarrow> p (f x @ rest) = x" "\<And>x. x \<in> set xs \<Longrightarrow> length (f x) = k"
  shows "map (\<lambda>i. p (drop (k * i) (concat (map f xs)))) [0..<length xs] = xs"
  using assms
proof (induction xs)
  case (Cons x xs)
  have "map (\<lambda>i. p (drop (k * i) (concat (map f (x # xs))))) [0..<length (x # xs)]
      = p (concat (map f (x # xs))) # map (\<lambda>i. p (drop (k * Suc i) (concat (map f (x # xs))))) [0..<length xs]"
    by (simp add: upt_conv_Cons map_Suc_upt [symmetric] o_def del: upt_Suc)
  also have "\<dots> = x # map (\<lambda>i. p (drop (k * i) (concat (map f xs)))) [0..<length xs]"
    using Cons.prems(1) [of x] Cons.prems(2) [of x] by simp
  also have "map (\<lambda>i. p (drop (k * i) (concat (map f xs)))) [0..<length xs] = xs"
    by (rule Cons.IH) (use Cons.prems in auto)
  finally show ?case .
qed simp

lemma length_blocks: "(\<And>x. x \<in> set xs \<Longrightarrow> length (f x) = k) \<Longrightarrow> length (concat (map f xs)) = k * length xs"
  by (induction xs) auto

lemma bytes_words_bytes: "bytes_words (length ws) (words_bytes ws) = ws"
  unfolding bytes_words_def words_bytes_def by (rule parse_blocks) simp_all

lemma length_words_bytes [simp]: "length (words_bytes ws) = 4 * length ws"
  unfolding words_bytes_def by (rule length_blocks) simp

definition wf_entry :: "DirectoryEntry \<Rightarrow> bool" where
  "wf_entry e \<longleftrightarrow> length (e_name e) = 10 \<and> length (e_pad e) = 5 \<and> int32 (e_sector e)"

lemma parse_entry_bytes:
  assumes "wf_entry e"
  shows "parse_entry (entry_bytes e @ rest) = e" "length (entry_bytes e) = 20"
proof -
  show "length (entry_bytes e) = 20" using assms by (simp add: wf_entry_def entry_bytes_def)
  obtain a b c x y where p: "e_pad e = [a, b, c, x, y]"
    using assms unfolding wf_entry_def by (auto simp: length_Suc_conv numeral_eq_Suc)
  show "parse_entry (entry_bytes e @ rest) = e"
    using assms by (simp add: parse_entry_def entry_bytes_def p wf_entry_def)
qed

lemma parse_table_bytes:
  assumes "\<forall>e\<in>set tbl. wf_entry e"
  shows "parse_table (length tbl) (table_bytes tbl) = tbl" "length (table_bytes tbl) = 20 * length tbl"
proof -
  show "parse_table (length tbl) (table_bytes tbl) = tbl"
    unfolding parse_table_def table_bytes_def by (rule parse_blocks) (use assms parse_entry_bytes in auto)
  show "length (table_bytes tbl) = 20 * length tbl"
    unfolding table_bytes_def by (rule length_blocks) (use assms parse_entry_bytes in auto)
qed

lemma parse_table_wf:
  assumes "length b = 20 * n"
  shows "\<forall>e\<in>set (parse_table n b). wf_entry e" "length (parse_table n b) = n"
proof -
  have "wf_entry (parse_entry (drop (20 * i) b))" if "i < n" for i
  proof -
    have "20 * i + 20 \<le> length b" using that assms by simp
    then show ?thesis by (simp add: wf_entry_def parse_entry_def int32_bytes_num)
  qed
  then show "\<forall>e\<in>set (parse_table n b). wf_entry e" by (auto simp: parse_table_def)
qed (simp add: parse_table_def)

lemma Directory_new_wf:
  "\<forall>e\<in>set (Directory_new junk n). wf_entry e \<and> \<not> inUse e" "length (Directory_new junk n) = n"
proof -
  have l: "length (new_buffer junk (20 * int n)) = 20 * n" by (simp add: new_buffer_def nat_mult_distrib)
  show "\<forall>e\<in>set (Directory_new junk n). wf_entry e \<and> \<not> inUse e" "length (Directory_new junk n) = n"
    using parse_table_wf [OF l] by (auto simp: Directory_new_def wf_entry_def)
qed

section \<open>The directory as a map\<close>

definition entry_name :: "DirectoryEntry \<Rightarrow> bytes" where
  "entry_name e = takeWhile (\<lambda>c. c \<noteq> 0) (take FileNameMaxLen (e_name e))"

definition dir_map :: "Directory \<Rightarrow> bytes \<rightharpoonup> int" where
  "dir_map tbl = map_of (map (\<lambda>e. (entry_name e, e_sector e)) (filter inUse tbl))"

abbreviation "key name \<equiv> take FileNameMaxLen name"

definition names_differ :: "Directory \<Rightarrow> bool" where
  "names_differ tbl \<longleftrightarrow> distinct (map entry_name (filter inUse tbl))"

lemma strncmp_key: "strncmp_equal FileNameMaxLen (e_name e) name \<longleftrightarrow> entry_name e = key name"
  by (simp add: strncmp_equal_def entry_name_def)

lemma FindIndex_None:
  "\<forall>e\<in>set tbl. inUse e \<longrightarrow> entry_name e \<noteq> key name \<Longrightarrow> FindIndex_from i tbl name = -1"
  by (induction i tbl name rule: FindIndex_from.induct) (auto simp: strncmp_key)

lemma FindIndex_Some:
  "inUse e \<Longrightarrow> entry_name e = key name \<Longrightarrow> \<forall>x\<in>set pre. inUse x \<longrightarrow> entry_name x \<noteq> key name \<Longrightarrow>
    FindIndex_from i (pre @ e # post) name = i + int (length pre)"
  by (induction pre arbitrary: i) (auto simp: strncmp_key)

lemma dir_map_None: "dir_map tbl k = None \<longleftrightarrow> (\<forall>e\<in>set tbl. inUse e \<longrightarrow> entry_name e \<noteq> k)"
  unfolding dir_map_def map_of_eq_None_iff by (auto simp: image_image)

lemma dir_split:
  assumes "dir_map tbl (key name) \<noteq> None"
  obtains pre e post where "tbl = pre @ e # post" "inUse e" "entry_name e = key name"
    "\<forall>x\<in>set pre. inUse x \<longrightarrow> entry_name x \<noteq> key name" "dir_map tbl (key name) = Some (e_sector e)"
proof -
  have "\<exists>e\<in>set tbl. inUse e \<and> entry_name e = key name"
    using assms unfolding dir_map_None by blast
  from split_list_first_prop [OF this] obtain pre e post where
    s: "tbl = pre @ e # post" "inUse e \<and> entry_name e = key name"
      "\<forall>x\<in>set pre. \<not> (inUse x \<and> entry_name x = key name)" by blast
  have "map_of (map (\<lambda>e. (entry_name e, e_sector e)) (filter inUse pre)) (key name) = None"
    using s(3) unfolding map_of_eq_None_iff by (auto simp: image_image)
  then have "dir_map tbl (key name) = Some (e_sector e)" using s(1,2) by (simp add: dir_map_def map_add_def)
  with s show thesis by (intro that) auto
qed

lemmas dir_None = iffD1 [OF dir_map_None]

lemma Directory_Find_spec:
  "Directory_Find tbl name = Ok (case dir_map tbl (key name) of None \<Rightarrow> -1 | Some s \<Rightarrow> s)"
proof (cases "dir_map tbl (key name)")
  case None
  with FindIndex_None [OF dir_None [OF None]] show ?thesis
    by (simp add: Directory_Find_def Directory_FindIndex_def)
next
  case (Some s)
  then have "dir_map tbl (key name) \<noteq> None" by simp
  then obtain pre e post where e: "tbl = pre @ e # post" "inUse e" "entry_name e = key name"
    "\<forall>x\<in>set pre. inUse x \<longrightarrow> entry_name x \<noteq> key name" "dir_map tbl (key name) = Some (e_sector e)"
    by (rule dir_split)
  with FindIndex_Some [OF e(2,3,4), of 0 post] Some show ?thesis
    by (simp add: Directory_Find_def Directory_FindIndex_def arr_get_def)
qed

lemma Add_loop_full: "\<forall>e\<in>set tbl. inUse e \<Longrightarrow> Add_loop name s tbl = (False, tbl)"
  by (induction tbl) auto

lemma Add_loop_free: "\<forall>x\<in>set pre. inUse x \<Longrightarrow> \<not> inUse e \<Longrightarrow>
    Add_loop name s (pre @ e # post)
      = (True, pre @ e\<lparr>inUse := True, e_name := strncpy FileNameMaxLen (e_name e) name, e_sector := s\<rparr> # post)"
  by (induction pre) auto

lemma takeWhile_key: "0 \<notin> set name \<Longrightarrow> takeWhile (\<lambda>c. c \<noteq> 0) (take n name @ replicate k 0) = take n name"
  for name :: bytes
proof -
  assume "0 \<notin> set name"
  then have "\<forall>x\<in>set (take n name). x \<noteq> 0" by (metis in_set_takeD)
  moreover have "takeWhile (\<lambda>c. c \<noteq> 0) (replicate k (0 :: 8 word)) = []" by (cases k) simp_all
  ultimately show ?thesis by (simp add: takeWhile_append2)
qed

lemma entry_added:
  assumes "wf_entry e" "0 \<notin> set name" "int32 s"
  defines "e' \<equiv> e\<lparr>inUse := True, e_name := strncpy FileNameMaxLen (e_name e) name, e_sector := s\<rparr>"
  shows "wf_entry e'" "entry_name e' = key name" "inUse e'" "e_sector e' = s"
proof -
  let ?n = "take 9 (name @ replicate 9 0)"
  have l: "length ?n = 9" by simp
  show "wf_entry e'" "inUse e'" "e_sector e' = s"
    using assms by (simp_all add: wf_entry_def strncpy_def FileNameMaxLen_def)
  have "take 9 (?n @ drop 9 (e_name e)) = ?n" unfolding append_eq_conv_conj using l by simp
  moreover have "?n = take 9 name @ replicate (9 - length name) 0" by simp
  moreover have "e_name e' = ?n @ drop 9 (e_name e)" by (simp add: e'_def strncpy_def FileNameMaxLen_def)
  ultimately show "entry_name e' = key name"
    using takeWhile_key [OF assms(2), of 9 "9 - length name"]
    by (simp only: entry_name_def FileNameMaxLen_def)
qed

text \<open>What \<open>Add\<close> and \<open>Remove\<close> do to the table.\<close>

lemma Directory_Add_cases:
  obtains (present) "dir_map tbl (key name) \<noteq> None" "Directory_Add name s tbl = (False, tbl)"
  | (full) "dir_map tbl (key name) = None" "\<forall>e\<in>set tbl. inUse e" "Directory_Add name s tbl = (False, tbl)"
  | (added) pre e post where "dir_map tbl (key name) = None" "tbl = pre @ e # post" "\<forall>x\<in>set pre. inUse x"
      "\<not> inUse e" "Directory_Add name s tbl
      = (True, pre @ e\<lparr>inUse := True, e_name := strncpy FileNameMaxLen (e_name e) name, e_sector := s\<rparr> # post)"
proof (cases "dir_map tbl (key name) = None")
  case False
  then obtain pre e post where e: "tbl = pre @ e # post" "inUse e" "entry_name e = key name"
    "\<forall>x\<in>set pre. inUse x \<longrightarrow> entry_name x \<noteq> key name" by (metis dir_split)
  with FindIndex_Some [OF e(2,3,4), of 0 post] False show ?thesis
    by (intro present) (simp_all add: Directory_Add_def Directory_FindIndex_def)
next
  case True
  note f = FindIndex_None [OF dir_None [OF True]]
  show ?thesis
  proof (cases "\<forall>e\<in>set tbl. inUse e")
    case t: True
    with True f show ?thesis by (intro full) (simp_all add: Directory_Add_def Directory_FindIndex_def Add_loop_full)
  next
    case False
    then have "\<exists>e\<in>set tbl. \<not> inUse e" by blast
    from split_list_first_prop [OF this] obtain pre e post where
      "tbl = pre @ e # post" "\<not> inUse e" "\<forall>x\<in>set pre. inUse x" by blast
    with True f show ?thesis
      by (intro added) (simp_all add: Directory_Add_def Directory_FindIndex_def Add_loop_free)
  qed
qed

lemma Directory_Remove_cases:
  obtains (absent) "dir_map tbl (key name) = None" "Directory_Remove name tbl = Ok (False, tbl)"
  | (removed) pre e post where "tbl = pre @ e # post" "inUse e" "entry_name e = key name"
      "dir_map tbl (key name) = Some (e_sector e)"
      "Directory_Remove name tbl = Ok (True, pre @ e\<lparr>inUse := False\<rparr> # post)"
proof (cases "dir_map tbl (key name) = None")
  case True
  with FindIndex_None [OF dir_None [OF True]] show ?thesis
    by (intro absent) (simp_all add: Directory_Remove_def Directory_FindIndex_def)
next
  case False
  then obtain pre e post where e: "tbl = pre @ e # post" "inUse e" "entry_name e = key name"
    "\<forall>x\<in>set pre. inUse x \<longrightarrow> entry_name x \<noteq> key name" "dir_map tbl (key name) = Some (e_sector e)"
    by (rule dir_split)
  with FindIndex_Some [OF e(2,3,4), of 0 post] show ?thesis
    by (intro removed [OF e(1-3,5)])
       (simp add: Directory_Remove_def Directory_FindIndex_def arr_get_def arr_set_def Let_def)
qed

section \<open>The tables on the disk\<close>

definition full_map :: "bitmap \<Rightarrow> bool" where
  "full_map b \<longleftrightarrow> wf_bitmap b \<and> numBits b = NumSectors"

lemma full_mapD:
  assumes "full_map b"
  shows "wf_bitmap b" "numBits b = 1024" "numWords b = 32" "length (bwords b) = 32"
proof -
  show 1: "wf_bitmap b" "numBits b = 1024" using assms by (simp_all add: full_map_def disk_consts)
  then show "numWords b = 32"
    by (simp add: wf_bitmap_def divRoundUp_nonneg BitsInWord_def BitsInByte_def)
  with 1(1) show "length (bwords b) = 32" by (simp add: wf_bitmap_def)
qed

context sector_disk
begin

lemma PBitmap_file_spec:
  assumes "wf_hdr (nf_hdr f)" "I d" "full_map b" "file_bytes (S d) (nf_hdr f) = words_bytes (bwords b)"
  shows "\<exists>d'. PBitmap_file D f NumSectors d = Ok (b, d') \<and> I d' \<and> S d' = S d"
proof -
  note m = full_mapD [OF assms(3)]
  have "0 < NumSectors" by (simp add: disk_consts)
  from Bitmap_new_correct [OF this] obtain b0 where b0: "Bitmap_new NumSectors = Ok b0" "full_map b0"
    by (auto simp: full_map_def)
  note m0 = full_mapD [OF b0(2)]
  obtain d' where d': "NachosFile_ReadAt D f 128 0 d = Ok ((128, words_bytes (bwords b)), d')" "I d'" "S d' = S d"
    using ReadAt_spec [OF assms(1,2), of 0 128] m(4) unfolding assms(4) by auto
  have "copy_in (words_bytes (bwords b0)) 0 (words_bytes (bwords b)) = Ok (words_bytes (bwords b))"
    using m(4) m0(4) by (simp add: copy_in_def)
  moreover have "bytes_words 32 (words_bytes (bwords b)) = bwords b" using bytes_words_bytes [of "bwords b"] m(4) by simp
  moreover have "b0\<lparr>bwords := bwords b\<rparr> = b" using m m0 by (cases b; cases b0) simp
  ultimately show ?thesis
    using b0(1) d' m0(3,4) by (simp add: PBitmap_file_def PBitmap_FetchFrom_def)
qed

lemma PBitmap_WriteBack_spec:
  assumes "wf_hdr (nf_hdr f)" "I d" "full_map b" "numBytes (nf_hdr f) = 128"
  shows "\<exists>d'. PBitmap_WriteBack D junk f b d = Ok d' \<and> I d'
    \<and> (\<forall>t. t \<notin> set (secs (nf_hdr f)) \<longrightarrow> S d' ! t = S d ! t)
    \<and> file_bytes (S d') (nf_hdr f) = words_bytes (bwords b)"
proof -
  note m = full_mapD [OF assms(3)]
  have l: "length (file_bytes (S d) (nf_hdr f)) = 128"
    using raw_blocks(4) [OF assms(1) wf_S [OF assms(2)]] assms(4) by simp
  from WriteAt_spec [OF assms(1,2), of 0 128 "words_bytes (bwords b)" junk] m(4) l assms(4)
  show ?thesis by (auto simp: PBitmap_WriteBack_def m(3))
qed

lemma Directory_FetchFrom_spec:
  assumes "wf_hdr (nf_hdr f)" "I d" "\<forall>e\<in>set tbl. wf_entry e" "length tbl = length tbl0" "\<forall>e\<in>set tbl0. wf_entry e"
    and "file_bytes (S d) (nf_hdr f) = table_bytes tbl"
  shows "\<exists>d'. Directory_FetchFrom D f tbl0 d = Ok (tbl, d') \<and> I d' \<and> S d' = S d"
proof -
  note t = parse_table_bytes [OF assms(3)] and t0 = parse_table_bytes [OF assms(5)]
  obtain d' where d': "NachosFile_ReadAt D f (int (length tbl0) * 20) 0 d
      = Ok ((int (length (table_bytes tbl)), table_bytes tbl), d')" "I d'" "S d' = S d"
    using ReadAt_spec [OF assms(1,2), of 0 "int (length tbl0) * 20"] t(2) assms(4)
    unfolding assms(6) by (auto simp: nat_mult_distrib)
  have "copy_in (table_bytes tbl0) 0 (table_bytes tbl) = Ok (table_bytes tbl)"
    using t(2) t0(2) assms(4) by (simp add: copy_in_def)
  with d' t(1) assms(4) show ?thesis by (simp add: Directory_FetchFrom_def)
qed

lemma Directory_WriteBack_spec:
  assumes "wf_hdr (nf_hdr f)" "I d" "\<forall>e\<in>set tbl. wf_entry e" "numBytes (nf_hdr f) = 20 * int (length tbl)"
  shows "\<exists>d'. Directory_WriteBack D junk f tbl d = Ok d' \<and> I d'
    \<and> (\<forall>t. t \<notin> set (secs (nf_hdr f)) \<longrightarrow> S d' ! t = S d ! t)
    \<and> file_bytes (S d') (nf_hdr f) = table_bytes tbl"
proof -
  note t = parse_table_bytes [OF assms(3)]
  have l: "length (file_bytes (S d) (nf_hdr f)) = 20 * length tbl"
    using raw_blocks(4) [OF assms(1) wf_S [OF assms(2)]] assms(4) by (simp add: nat_mult_distrib)
  from WriteAt_spec [OF assms(1,2), of 0 "int (length tbl) * 20" "table_bytes tbl" junk] t(2) l assms(4)
  show ?thesis by (auto simp: Directory_WriteBack_def nat_mult_distrib mult.commute)
qed

end

end
