(* ===== verification/Disk_FS.thy ===== *)
theory Disk_FS
  imports Disk_Tables
begin

text \<open>
  The disk file system of \<^verbatim>\<open>filesys/filesys.cc\<close>: formatting, \<open>Create\<close>, \<open>Open\<close>, \<open>Remove\<close> and
  \<open>List\<close>, over the synchronous disk \<open>D\<close>. \<open>heap i\<close> is what was in the memory of the \<open>i\<close>-th object an
  operation allocates. The class is shown to implement a map from names to contents.

  \<open>Open(name, type)\<close> and \<open>FindFreeSlot\<close> name a variable that no file declares, so that this build of
  the kernel does not compile; they are left out.
\<close>

definition FreeMapSector :: int where "FreeMapSector = 0"
definition DirectorySector :: int where "DirectorySector = 1"
definition FreeMapFileSize :: int where "FreeMapFileSize = NumSectors div BitsInByte"
definition NumDirEntries :: nat where "NumDirEntries = 10"
definition DirectoryFileSize :: int where "DirectoryFileSize = 20 * int NumDirEntries"

lemmas fs_consts = FreeMapSector_def DirectorySector_def FreeMapFileSize_def NumDirEntries_def
  DirectoryFileSize_def BitsInByte_def

record DiskFS =
  freeMapFile :: NachosFile
  directoryFile :: NachosFile

definition DiskFS_new :: "'d disk_ops \<Rightarrow> (nat \<Rightarrow> bytes) \<Rightarrow> bool \<Rightarrow> 'd \<Rightarrow> (DiskFS \<times> 'd) result" where
  "DiskFS_new D heap format d =
     (if format then
        rbind (PBitmap_new NumSectors) (\<lambda>freeMap.
        let directory = Directory_new (heap 0) NumDirEntries;
            mapHdr = FileHeader_new (heap 1); dirHdr = FileHeader_new (heap 2) in
        rbind (Bitmap_Mark freeMap FreeMapSector) (\<lambda>freeMap.
        rbind (Bitmap_Mark freeMap DirectorySector) (\<lambda>freeMap.
        rbind (FileHeader_Allocate freeMap FreeMapFileSize mapHdr) (\<lambda>(ok, mapHdr, freeMap). ASSERT ok
        (rbind (FileHeader_Allocate freeMap DirectoryFileSize dirHdr) (\<lambda>(ok, dirHdr, freeMap). ASSERT ok
        (rbind (FileHeader_WriteBack D FreeMapSector mapHdr d) (\<lambda>d.
         rbind (FileHeader_WriteBack D DirectorySector dirHdr d) (\<lambda>d.
         rbind (NachosFile_sector D FreeMapSector d) (\<lambda>(mf, d).
         rbind (NachosFile_sector D DirectorySector d) (\<lambda>(df, d).
         rbind (PBitmap_WriteBack D (heap 3) mf freeMap d) (\<lambda>d.
         rbind (Directory_WriteBack D (heap 4) df directory d) (\<lambda>d.
         Ok (\<lparr>freeMapFile = mf, directoryFile = df\<rparr>, d))))))))))))))
      else
        rbind (NachosFile_sector D FreeMapSector d) (\<lambda>(mf, d).
        rbind (NachosFile_sector D DirectorySector d) (\<lambda>(df, d).
        Ok (\<lparr>freeMapFile = mf, directoryFile = df\<rparr>, d))))"

definition DiskFS_Create ::
  "'d disk_ops \<Rightarrow> (nat \<Rightarrow> bytes) \<Rightarrow> DiskFS \<Rightarrow> bytes \<Rightarrow> int \<Rightarrow> 'd \<Rightarrow> (bool \<times> 'd) result" where
  "DiskFS_Create D heap fs name initialSize d =
     rbind (Directory_FetchFrom D (directoryFile fs) (Directory_new (heap 0) NumDirEntries) d) (\<lambda>(directory, d).
     rbind (Directory_Find directory name) (\<lambda>found.
     if found \<noteq> -1 then Ok (False, d)
     else
       rbind (PBitmap_file D (freeMapFile fs) NumSectors d) (\<lambda>(freeMap, d).
       rbind (Bitmap_FindAndSet freeMap) (\<lambda>(sector, freeMap).
       if sector = -1 then Ok (False, d)
       else let (added, directory) = Directory_Add name sector directory in
         if \<not> added then Ok (False, d)
         else
           rbind (FileHeader_Allocate freeMap initialSize (FileHeader_new (heap 1))) (\<lambda>(ok, hdr, freeMap).
           if \<not> ok then Ok (False, d)
           else
             rbind (FileHeader_WriteBack D sector hdr d) (\<lambda>d.
             rbind (Directory_WriteBack D (heap 2) (directoryFile fs) directory d) (\<lambda>d.
             rbind (PBitmap_WriteBack D (heap 3) (freeMapFile fs) freeMap d) (\<lambda>d. Ok (True, d)))))))))"

definition DiskFS_Open ::
  "'d disk_ops \<Rightarrow> (nat \<Rightarrow> bytes) \<Rightarrow> DiskFS \<Rightarrow> bytes \<Rightarrow> 'd \<Rightarrow> (NachosFile ptr \<times> 'd) result" where
  "DiskFS_Open D heap fs name d =
     rbind (Directory_FetchFrom D (directoryFile fs) (Directory_new (heap 0) NumDirEntries) d) (\<lambda>(directory, d).
     rbind (Directory_Find directory name) (\<lambda>sector.
     if sector \<ge> 0 then rbind (NachosFile_sector D sector d) (\<lambda>(f, d). Ok (Ptr f, d))
     else Ok (Null, d)))"

definition DiskFS_Remove ::
  "'d disk_ops \<Rightarrow> (nat \<Rightarrow> bytes) \<Rightarrow> DiskFS \<Rightarrow> bytes \<Rightarrow> 'd \<Rightarrow> (bool \<times> 'd) result" where
  "DiskFS_Remove D heap fs name d =
     rbind (Directory_FetchFrom D (directoryFile fs) (Directory_new (heap 0) NumDirEntries) d) (\<lambda>(directory, d).
     rbind (Directory_Find directory name) (\<lambda>sector.
     if sector = -1 then Ok (False, d)
     else
       rbind (FileHeader_FetchFrom D sector d) (\<lambda>(fileHdr, d).
       rbind (PBitmap_file D (freeMapFile fs) NumSectors d) (\<lambda>(freeMap, d).
       rbind (FileHeader_Deallocate fileHdr freeMap) (\<lambda>freeMap.
       rbind (Bitmap_Clear freeMap sector) (\<lambda>freeMap.
       rbind (Directory_Remove name directory) (\<lambda>(_, directory).
       rbind (PBitmap_WriteBack D (heap 1) (freeMapFile fs) freeMap d) (\<lambda>d.
       rbind (Directory_WriteBack D (heap 2) (directoryFile fs) directory d) (\<lambda>d. Ok (True, d))))))))))"

definition DiskFS_List ::
  "'d disk_ops \<Rightarrow> (nat \<Rightarrow> bytes) \<Rightarrow> DiskFS \<Rightarrow> 'd \<Rightarrow> (bytes list \<times> 'd) result" where
  "DiskFS_List D heap fs d =
     rbind (Directory_FetchFrom D (directoryFile fs) (Directory_new (heap 0) NumDirEntries) d) (\<lambda>(directory, d).
     rbind (Directory_List directory) (\<lambda>out. Ok (out, d)))"

section \<open>What is on a disk\<close>

abbreviation "map_hdr fs \<equiv> nf_hdr (freeMapFile fs)"
abbreviation "dir_hdr fs \<equiv> nf_hdr (directoryFile fs)"

definition hdr_at :: "bytes list \<Rightarrow> int \<Rightarrow> FileHeader" where
  "hdr_at ss s = parse_hdr (ss ! nat s)"

text \<open>The sectors an entry of the directory owns, and all sectors in use, file by file.\<close>

definition owned :: "bytes list \<Rightarrow> DirectoryEntry \<Rightarrow> nat list" where
  "owned ss e = nat (e_sector e) # secs (hdr_at ss (e_sector e))"

definition layout :: "DiskFS \<Rightarrow> bytes list \<Rightarrow> Directory \<Rightarrow> nat list" where
  "layout fs ss tbl = [0, 1] @ secs (map_hdr fs) @ secs (dir_hdr fs) @ concat (map (owned ss) (filter inUse tbl))"

text \<open>The sectors \<open>ss\<close> hold the file system \<open>fs\<close> with the directory \<open>tbl\<close> and the map \<open>m\<close>.\<close>

definition fs_rep :: "DiskFS \<Rightarrow> bytes list \<Rightarrow> Directory \<Rightarrow> bitmap \<Rightarrow> bool" where
  "fs_rep fs ss tbl m \<longleftrightarrow>
     wf_sectors ss
   \<and> wf_hdr (map_hdr fs) \<and> numBytes (map_hdr fs) = FreeMapFileSize \<and> hdr_at ss FreeMapSector = map_hdr fs
   \<and> wf_hdr (dir_hdr fs) \<and> numBytes (dir_hdr fs) = DirectoryFileSize \<and> hdr_at ss DirectorySector = dir_hdr fs
   \<and> full_map m \<and> file_bytes ss (map_hdr fs) = words_bytes (bwords m)
   \<and> length tbl = NumDirEntries \<and> (\<forall>e\<in>set tbl. wf_entry e) \<and> file_bytes ss (dir_hdr fs) = table_bytes tbl
   \<and> (\<forall>e\<in>set tbl. inUse e \<longrightarrow> 0 \<le> e_sector e \<and> wf_hdr (hdr_at ss (e_sector e)))
   \<and> names_differ tbl
   \<and> distinct (layout fs ss tbl) \<and> marked m = int ` set (layout fs ss tbl)"

text \<open>The abstract file system: the contents under each name.\<close>

definition files_of :: "bytes list \<Rightarrow> Directory \<Rightarrow> bytes \<rightharpoonup> bytes" where
  "files_of ss tbl = (\<lambda>k. map_option (\<lambda>s. file_bytes ss (hdr_at ss s)) (dir_map tbl k))"

lemma file_bytes_cong: "\<forall>s\<in>set (secs h). ss' ! s = ss ! s \<Longrightarrow> file_bytes ss' h = file_bytes ss h"
  by (simp add: file_bytes_def raw_bytes_def cong: map_cong)

lemma hdr_at_cong: "ss' ! nat s = ss ! nat s \<Longrightarrow> hdr_at ss' s = hdr_at ss s"
  by (simp add: hdr_at_def)

lemma owned_cong: "ss' ! nat (e_sector e) = ss ! nat (e_sector e) \<Longrightarrow> owned ss' e = owned ss e"
  by (simp add: owned_def hdr_at_def)

lemma layout_cong:
  assumes "\<And>x. x \<in> set tbl \<Longrightarrow> inUse x \<Longrightarrow> owned ss' x = owned ss x"
  shows "layout fs ss' tbl = layout fs ss tbl"
proof -
  have "map (owned ss') (filter inUse tbl) = map (owned ss) (filter inUse tbl)"
    by (rule map_cong) (use assms in auto)
  then show ?thesis by (simp only: layout_def)
qed

lemma dir_map_iff:
  assumes "names_differ tbl"
  shows "dir_map tbl k = Some s \<longleftrightarrow> (\<exists>e\<in>set tbl. inUse e \<and> entry_name e = k \<and> e_sector e = s)"
proof -
  have "distinct (map fst (map (\<lambda>e. (entry_name e, e_sector e)) (filter inUse tbl)))"
    using assms by (simp add: names_differ_def o_def)
  then show ?thesis unfolding dir_map_def by (auto simp: map_of_eq_Some_iff)
qed

lemma files_of_cong:
  assumes "names_differ tbl" "\<And>e s. e \<in> set tbl \<Longrightarrow> inUse e \<Longrightarrow> s \<in> set (owned ss e) \<Longrightarrow> ss' ! s = ss ! s"
  shows "files_of ss' tbl = files_of ss tbl"
proof
  fix k
  show "files_of ss' tbl k = files_of ss tbl k"
  proof (cases "dir_map tbl k")
    case (Some s)
    then obtain e where e: "e \<in> set tbl" "inUse e" "e_sector e = s" using dir_map_iff [OF assms(1)] by blast
    then have "\<And>t. t \<in> set (owned ss e) \<Longrightarrow> ss' ! t = ss ! t" using assms(2) by blast
    then have "ss' ! nat s = ss ! nat s" "\<forall>t\<in>set (secs (hdr_at ss s)). ss' ! t = ss ! t"
      using e(3) by (auto simp: owned_def)
    then have "hdr_at ss' s = hdr_at ss s" "file_bytes ss' (hdr_at ss s) = file_bytes ss (hdr_at ss s)"
      by (simp_all add: hdr_at_def file_bytes_cong)
    with Some show ?thesis by (simp add: files_of_def)
  qed (simp add: files_of_def)
qed

lemma fs_nums: "FreeMapFileSize = 128" "DirectoryFileSize = 200" "FreeMapSector = 0" "DirectorySector = 1"
    "NumDirEntries = 10"
  by (simp_all add: fs_consts disk_consts)

text \<open>What the representation says of the parts of the disk.\<close>

lemma fs_repD:
  assumes "fs_rep fs ss tbl m"
  shows "wf_sectors ss" "wf_hdr (map_hdr fs)" "numBytes (map_hdr fs) = 128" "hdr_at ss 0 = map_hdr fs"
    "wf_hdr (dir_hdr fs)" "numBytes (dir_hdr fs) = 200" "hdr_at ss 1 = dir_hdr fs"
    "full_map m" "file_bytes ss (map_hdr fs) = words_bytes (bwords m)"
    "length tbl = 10" "\<forall>e\<in>set tbl. wf_entry e" "file_bytes ss (dir_hdr fs) = table_bytes tbl"
    "e \<in> set tbl \<Longrightarrow> inUse e \<Longrightarrow> 0 \<le> e_sector e" "e \<in> set tbl \<Longrightarrow> inUse e \<Longrightarrow> wf_hdr (hdr_at ss (e_sector e))"
    "names_differ tbl" "distinct (layout fs ss tbl)" "marked m = int ` set (layout fs ss tbl)"
proof -
  from assms show "wf_sectors ss" "wf_hdr (map_hdr fs)" "numBytes (map_hdr fs) = 128" "hdr_at ss 0 = map_hdr fs"
    "wf_hdr (dir_hdr fs)" "numBytes (dir_hdr fs) = 200" "hdr_at ss 1 = dir_hdr fs"
    "full_map m" "file_bytes ss (map_hdr fs) = words_bytes (bwords m)"
    "length tbl = 10" "\<forall>e\<in>set tbl. wf_entry e" "file_bytes ss (dir_hdr fs) = table_bytes tbl"
    "e \<in> set tbl \<Longrightarrow> inUse e \<Longrightarrow> 0 \<le> e_sector e" "e \<in> set tbl \<Longrightarrow> inUse e \<Longrightarrow> wf_hdr (hdr_at ss (e_sector e))"
    "names_differ tbl" "distinct (layout fs ss tbl)" "marked m = int ` set (layout fs ss tbl)"
    unfolding fs_rep_def fs_nums by blast+
qed

lemma layout_disjoint:
  assumes "fs_rep fs ss tbl m"
  shows "0 \<notin> set (secs (map_hdr fs))" "0 \<notin> set (secs (dir_hdr fs))" "Suc 0 \<notin> set (secs (map_hdr fs))"
    "Suc 0 \<notin> set (secs (dir_hdr fs))" "set (secs (map_hdr fs)) \<inter> set (secs (dir_hdr fs)) = {}"
    "e \<in> set tbl \<Longrightarrow> inUse e \<Longrightarrow> set (owned ss e) \<inter> set (secs (map_hdr fs)) = {}"
    "e \<in> set tbl \<Longrightarrow> inUse e \<Longrightarrow> set (owned ss e) \<inter> set (secs (dir_hdr fs)) = {}"
    "e \<in> set tbl \<Longrightarrow> inUse e \<Longrightarrow> 0 \<notin> set (owned ss e)" "e \<in> set tbl \<Longrightarrow> inUse e \<Longrightarrow> Suc 0 \<notin> set (owned ss e)"
    "e \<in> set tbl \<Longrightarrow> inUse e \<Longrightarrow> distinct (owned ss e)"
    "e \<in> set tbl \<Longrightarrow> inUse e \<Longrightarrow> s \<in> set (owned ss e) \<Longrightarrow> s < 1024"
proof -
  note d = fs_repD(16) [OF assms, unfolded layout_def]
  from d show "0 \<notin> set (secs (map_hdr fs))" "0 \<notin> set (secs (dir_hdr fs))" "Suc 0 \<notin> set (secs (map_hdr fs))"
    "Suc 0 \<notin> set (secs (dir_hdr fs))" "set (secs (map_hdr fs)) \<inter> set (secs (dir_hdr fs)) = {}"
    "e \<in> set tbl \<Longrightarrow> inUse e \<Longrightarrow> set (owned ss e) \<inter> set (secs (map_hdr fs)) = {}"
    "e \<in> set tbl \<Longrightarrow> inUse e \<Longrightarrow> set (owned ss e) \<inter> set (secs (dir_hdr fs)) = {}"
    "e \<in> set tbl \<Longrightarrow> inUse e \<Longrightarrow> 0 \<notin> set (owned ss e)" "e \<in> set tbl \<Longrightarrow> inUse e \<Longrightarrow> Suc 0 \<notin> set (owned ss e)"
    by auto
  show "distinct (owned ss e)" if "e \<in> set tbl" "inUse e" using d that by (auto simp: distinct_concat_iff)
  show "s < 1024" if e: "e \<in> set tbl" "inUse e" "s \<in> set (owned ss e)"
  proof -
    have "int s \<in> marked m" unfolding fs_repD(17) [OF assms] layout_def using e by auto
    then show ?thesis using marked_range [of m] full_mapD(2) [OF fs_repD(8) [OF assms]] by auto
  qed
qed

text \<open>Two files own no common sector.\<close>

lemma owned_disjoint:
  assumes "fs_rep fs ss (pre @ e # post) m" "inUse e" "x \<in> set (pre @ post)" "inUse x"
  shows "set (owned ss x) \<inter> set (owned ss e) = {}"
  using fs_repD(16) [OF assms(1), unfolded layout_def] assms(2-) by auto

text \<open>
  Writing to the data sectors of one entry changes the contents of its file and nothing else.
\<close>

lemma fs_rep_data:
  assumes "fs_rep fs ss tbl m" "tbl = pre @ e # post" "inUse e" "wf_sectors ss'"
    and "\<forall>t. t \<notin> set (secs (hdr_at ss (e_sector e))) \<longrightarrow> ss' ! t = ss ! t"
  shows "fs_rep fs ss' tbl m"
    "files_of ss' tbl = (files_of ss tbl)(entry_name e \<mapsto> file_bytes ss' (hdr_at ss (e_sector e)))"
proof -
  note r = fs_repD [OF assms(1)] and l = layout_disjoint [OF assms(1)]
  let ?D = "set (secs (hdr_at ss (e_sector e)))"
  have e: "e \<in> set tbl" using assms(2) by simp
  have De: "?D \<subseteq> set (owned ss e)" by (auto simp: owned_def)
  have same: "ss' ! t = ss ! t" if "t \<notin> ?D" for t using assms(5) that by blast
  have es: "nat (e_sector e) \<notin> ?D" using l(10) [OF e assms(3)] by (simp add: owned_def)
  have hx: "ss' ! nat (e_sector x) = ss ! nat (e_sector x)" if x: "x \<in> set tbl" "inUse x" for x
  proof (cases "x \<in> set (pre @ post)")
    case True
    with owned_disjoint [OF assms(1) [unfolded assms(2)] assms(3) True x(2)] De
    show ?thesis by (intro same) (auto simp: owned_def)
  next
    case False
    with x(1) assms(2) have "x = e" by auto
    then show ?thesis using same es by simp
  qed
  have own: "owned ss' x = owned ss x" "hdr_at ss' (e_sector x) = hdr_at ss (e_sector x)"
    if "x \<in> set tbl" "inUse x" for x
    using hx [OF that] by (rule owned_cong, rule hdr_at_cong)
  have lay: "layout fs ss' tbl = layout fs ss tbl"
    using own(1) by (rule layout_cong)
  have "0 \<notin> ?D" "Suc 0 \<notin> ?D" using l(8,9) [OF e assms(3)] De by auto
  then have h01: "hdr_at ss' 0 = hdr_at ss 0" "hdr_at ss' 1 = hdr_at ss 1" using same by (simp_all add: hdr_at_def)
  have fm: "file_bytes ss' (map_hdr fs) = file_bytes ss (map_hdr fs)"
    by (rule file_bytes_cong) (use l(6) [OF e assms(3)] De same in blast)
  have fd: "file_bytes ss' (dir_hdr fs) = file_bytes ss (dir_hdr fs)"
    by (rule file_bytes_cong) (use l(7) [OF e assms(3)] De same in blast)
  show "fs_rep fs ss' tbl m"
    using assms(1,4) own(2) lay h01 fm fd unfolding fs_rep_def FreeMapSector_def DirectorySector_def by simp
  show "files_of ss' tbl = (files_of ss tbl)(entry_name e \<mapsto> file_bytes ss' (hdr_at ss (e_sector e)))"
  proof
    fix k
    show "files_of ss' tbl k = ((files_of ss tbl)(entry_name e \<mapsto> file_bytes ss' (hdr_at ss (e_sector e)))) k"
    proof (cases "k = entry_name e")
      case True
      then have "dir_map tbl k = Some (e_sector e)" using dir_map_iff [OF r(15)] e assms(3) by blast
      then show ?thesis using True own(2) [OF e assms(3)] by (simp add: files_of_def)
    next
      case False
      show ?thesis
      proof (cases "dir_map tbl k")
        case (Some s)
        then obtain x where x: "x \<in> set tbl" "inUse x" "entry_name x = k" "e_sector x = s"
          using dir_map_iff [OF r(15)] by blast
        with False have xp: "x \<in> set (pre @ post)" using assms(2) by auto
        have "file_bytes ss' (hdr_at ss s) = file_bytes ss (hdr_at ss s)"
          using owned_disjoint [OF assms(1) [unfolded assms(2)] assms(3) xp x(2)] De same x(4)
          by (intro file_bytes_cong) (auto simp: owned_def)
        with Some False own(2) [OF x(1,2)] x(4) show ?thesis by (simp add: files_of_def)
      qed (use False in \<open>simp add: files_of_def\<close>)
    qed
  qed
qed

section \<open>A file more, a file less\<close>

lemma dir_map_parts:
  "dir_map (pre @ e # post) = (if inUse e then (dir_map post)(entry_name e \<mapsto> e_sector e) else dir_map post) ++ dir_map pre"
  by (simp add: dir_map_def)

lemma dir_map_insert:
  assumes "\<not> inUse e" "inUse e'" "dir_map (pre @ e # post) (entry_name e') = None"
  shows "dir_map (pre @ e' # post) = (dir_map (pre @ e # post))(entry_name e' \<mapsto> e_sector e')"
proof -
  have "entry_name e' \<notin> dom (dir_map pre)" using assms(1,3) by (auto simp: dir_map_parts map_add_None)
  then show ?thesis using assms(1,2) by (simp add: dir_map_parts map_add_upd_left)
qed

lemma dir_map_delete:
  assumes "inUse e" "names_differ (pre @ e # post)"
  shows "dir_map (pre @ e\<lparr>inUse := False\<rparr> # post) = (dir_map (pre @ e # post))(entry_name e := None)"
proof -
  have "entry_name e \<notin> entry_name ` {x \<in> set pre. inUse x} \<union> entry_name ` {x \<in> set post. inUse x}"
    using assms by (auto simp: names_differ_def)
  then have "\<forall>x\<in>set pre \<union> set post. inUse x \<longrightarrow> entry_name x \<noteq> entry_name e"
    by (metis (mono_tags, lifting) UnCI UnE image_eqI mem_Collect_eq)
  then have "dir_map pre (entry_name e) = None" "dir_map post (entry_name e) = None"
    unfolding dir_map_None by auto
  with assms(1) show ?thesis by (auto simp: dir_map_parts fun_eq_iff map_add_def split: option.splits)
qed

lemma rep_create:
  assumes rep: "fs_rep fs ss (pre @ e # post) m" and e: "\<not> inUse e" "dir_map (pre @ e # post) (entry_name e') = None"
    and e': "inUse e'" "wf_entry e'" "e_sector e' = int k"
    and new: "int k \<notin> marked m" "k < 1024" "wf_hdr h" "set (secs h) \<inter> insert k (nat ` marked m) = {}"
    and m': "full_map m'" "marked m' = marked m \<union> int ` set (k # secs h)"
    and ss': "wf_sectors ss'" "\<And>t. t \<notin> set (secs (map_hdr fs)) \<Longrightarrow> t \<notin> set (secs (dir_hdr fs)) \<Longrightarrow> t \<noteq> k \<Longrightarrow> ss' ! t = ss ! t"
      "ss' ! k = hdr_bytes h" "file_bytes ss' (map_hdr fs) = words_bytes (bwords m')"
      "file_bytes ss' (dir_hdr fs) = table_bytes (pre @ e' # post)"
  shows "fs_rep fs ss' (pre @ e' # post) m'"
    "files_of ss' (pre @ e' # post) = (files_of ss (pre @ e # post))(entry_name e' \<mapsto> file_bytes ss' h)"
proof -
  let ?tbl = "pre @ e # post" and ?tbl' = "pre @ e' # post"
  note r = fs_repD [OF rep] and l = layout_disjoint [OF rep]
  have lay: "nat ` marked m = set (layout fs ss ?tbl)" unfolding r(17) by (auto simp: image_image)
  have k: "k \<notin> set (layout fs ss ?tbl)" using new(1) unfolding r(17) by auto
  have hk: "hdr_at ss' (e_sector e') = h" using ss'(3) wf_hdr_round_trip(1) [OF new(3)] by (simp add: hdr_at_def e'(3))
  have ek: "owned ss' e' = k # secs h" unfolding owned_def hk by (simp add: e'(3))
  have same: "ss' ! t = ss ! t" if x: "x \<in> set (pre @ post)" "inUse x" "t \<in> set (owned ss x)" for x t
  proof -
    have xt: "x \<in> set ?tbl" using x(1) by auto
    moreover have "t \<noteq> k" using k x unfolding layout_def by auto
    ultimately show ?thesis using l(6,7) [OF xt x(2)] x(3) by (intro ss'(2)) auto
  qed
  have own: "owned ss' x = owned ss x" "hdr_at ss' (e_sector x) = hdr_at ss (e_sector x)"
    if "x \<in> set (pre @ post)" "inUse x" for x
    using same [OF that, of "nat (e_sector x)"] by (simp_all add: owned_def hdr_at_def)
  have mp: "map (owned ss') (filter inUse pre) = map (owned ss) (filter inUse pre)"
    "map (owned ss') (filter inUse post) = map (owned ss) (filter inUse post)"
    by (rule map_cong; use own(1) in auto)+
  define a where "a = [0, 1] @ secs (map_hdr fs) @ secs (dir_hdr fs) @ concat (map (owned ss) (filter inUse pre))"
  define b where "b = concat (map (owned ss) (filter inUse post))"
  have L: "layout fs ss ?tbl = a @ b" using e(1) by (simp add: layout_def a_def b_def)
  have L': "layout fs ss' ?tbl' = a @ (k # secs h) @ b" 
    unfolding layout_def a_def b_def
    by (simp only: filter_append filter.simps e'(1) if_True map_append list.map concat_append concat.simps ek mp append_assoc)
  have lset: "set (layout fs ss' ?tbl') = set (layout fs ss ?tbl) \<union> set (k # secs h)"
    unfolding L L' by auto
  have h0: "0 \<noteq> k" "Suc 0 \<noteq> k" using k unfolding layout_def by auto
  have h01: "hdr_at ss' 0 = map_hdr fs" "hdr_at ss' 1 = dir_hdr fs"
    using ss'(2) [of 0] ss'(2) [of "Suc 0"] l(1-4) h0 r(4,7) by (simp_all add: hdr_at_def)
  have "distinct (k # secs h)" "set (k # secs h) \<inter> set (layout fs ss ?tbl) = {}"
    using wf_hdrD(7) [OF new(3)] new(4) k unfolding lay by auto
  then have dist: "distinct (layout fs ss' ?tbl')"
    using r(16) unfolding L L' distinct_append by auto
  have nd: "names_differ ?tbl'"
    using r(15) e'(1) e iffD1 [OF dir_map_None e(2)] by (auto simp: names_differ_def)
  have hdrs: "\<forall>x\<in>set ?tbl'. inUse x \<longrightarrow> 0 \<le> e_sector x \<and> wf_hdr (hdr_at ss' (e_sector x))"
  proof (intro ballI impI)
    fix x assume x: "x \<in> set ?tbl'" "inUse x"
    show "0 \<le> e_sector x \<and> wf_hdr (hdr_at ss' (e_sector x))"
    proof (cases "x \<in> set (pre @ post)")
      case True
      then have "x \<in> set ?tbl" by auto
      with r(13,14) x(2) own(2) [OF True x(2)] show ?thesis by simp
    next
      case False
      with x(1) have "x = e'" by auto
      with hk new(3) e'(3) show ?thesis by (simp only:) simp
    qed
  qed
  have mk: "marked m' = int ` set (layout fs ss' ?tbl')" unfolding m'(2) lset r(17) by (simp only: image_Un)
  have tb: "length ?tbl' = 10" "\<forall>x\<in>set ?tbl'. wf_entry x" using r(10,11) e'(2) by auto
  show rep': "fs_rep fs ss' ?tbl' m'"
    unfolding fs_rep_def fs_nums
    by (intro conjI) (fact ss'(1) r(2,3) h01 r(5,6) m'(1) ss'(4,5) tb hdrs nd dist mk)+
  show "files_of ss' ?tbl' = (files_of ss ?tbl)(entry_name e' \<mapsto> file_bytes ss' h)"
  proof
    fix q
    note dm = dir_map_insert [OF e(1) e'(1) e(2)]
    show "files_of ss' ?tbl' q = ((files_of ss ?tbl)(entry_name e' \<mapsto> file_bytes ss' h)) q"
    proof (cases "q = entry_name e'")
      case False
      show ?thesis
      proof (cases "dir_map ?tbl q")
        case (Some s)
        then obtain x where x: "x \<in> set ?tbl" "inUse x" "e_sector x = s" using dir_map_iff [OF r(15)] by blast
        then have xp: "x \<in> set (pre @ post)" using e(1) by auto
        have "file_bytes ss' (hdr_at ss s) = file_bytes ss (hdr_at ss s)"
          by (rule file_bytes_cong) (use same [OF xp x(2)] x(3) in \<open>auto simp: owned_def\<close>)
        with Some False own(2) [OF xp x(2)] x(3) show ?thesis by (simp add: files_of_def dm)
      qed (use False in \<open>simp add: files_of_def dm\<close>)
    qed (simp add: files_of_def dm hk [unfolded e'(3)] e'(3))
  qed
qed

lemma rep_remove:
  assumes rep: "fs_rep fs ss (pre @ e # post) m" and e: "inUse e"
    and m': "full_map m'" "marked m' = marked m - int ` set (owned ss e)"
    and ss': "wf_sectors ss'" "\<And>t. t \<notin> set (secs (map_hdr fs)) \<Longrightarrow> t \<notin> set (secs (dir_hdr fs)) \<Longrightarrow> ss' ! t = ss ! t"
      "file_bytes ss' (map_hdr fs) = words_bytes (bwords m')"
      "file_bytes ss' (dir_hdr fs) = table_bytes (pre @ e\<lparr>inUse := False\<rparr> # post)"
  shows "fs_rep fs ss' (pre @ e\<lparr>inUse := False\<rparr> # post) m'"
    "files_of ss' (pre @ e\<lparr>inUse := False\<rparr> # post) = (files_of ss (pre @ e # post))(entry_name e := None)"
proof -
  let ?tbl = "pre @ e # post" and ?tbl' = "pre @ e\<lparr>inUse := False\<rparr> # post"
  note r = fs_repD [OF rep] and l = layout_disjoint [OF rep]
  have same: "ss' ! t = ss ! t" if x: "x \<in> set ?tbl" "inUse x" "t \<in> set (owned ss x)" for x t
    using l(6,7) [OF x(1,2)] x(3) by (intro ss'(2)) auto
  have own: "owned ss' x = owned ss x" "hdr_at ss' (e_sector x) = hdr_at ss (e_sector x)"
    if "x \<in> set ?tbl" "inUse x" for x
    using same [OF that, of "nat (e_sector x)"] by (simp_all add: owned_def hdr_at_def)
  have mp: "map (owned ss') (filter inUse pre) = map (owned ss) (filter inUse pre)"
    "map (owned ss') (filter inUse post) = map (owned ss) (filter inUse post)"
    by (rule map_cong; use own(1) in auto)+
  define a where "a = [0, 1] @ secs (map_hdr fs) @ secs (dir_hdr fs) @ concat (map (owned ss) (filter inUse pre))"
  define b where "b = concat (map (owned ss) (filter inUse post))"
  have L: "layout fs ss ?tbl = a @ owned ss e @ b" using e(1) by (simp add: layout_def a_def b_def)
  have off: "\<not> inUse (e\<lparr>inUse := False\<rparr>)" by simp
  have L': "layout fs ss' ?tbl' = a @ b"
    unfolding layout_def a_def b_def
    by (simp only: filter_append filter.simps off if_False map_append list.map concat_append concat.simps mp append_assoc)
  have dist: "distinct (layout fs ss' ?tbl')" using r(16) unfolding L L' distinct_append by auto
  have "set (owned ss e) \<inter> set (a @ b) = {}" using r(16) unfolding L by auto
  then have mk: "marked m' = int ` set (layout fs ss' ?tbl')"
    unfolding m'(2) r(17) L L' by auto
  have h01: "hdr_at ss' 0 = map_hdr fs" "hdr_at ss' 1 = dir_hdr fs"
    using ss'(2) [of 0] ss'(2) [of "Suc 0"] l(1-4) r(4,7) by (simp_all add: hdr_at_def)
  have nd: "names_differ ?tbl'" using r(15) e by (auto simp: names_differ_def)
  have hdrs: "\<forall>x\<in>set ?tbl'. inUse x \<longrightarrow> 0 \<le> e_sector x \<and> wf_hdr (hdr_at ss' (e_sector x))"
  proof (intro ballI impI)
    fix x assume x: "x \<in> set ?tbl'" "inUse x"
    then have "x \<in> set ?tbl" by auto
    with r(13,14) x(2) own(2) [OF this x(2)] show "0 \<le> e_sector x \<and> wf_hdr (hdr_at ss' (e_sector x))" by simp
  qed
  have tb: "length ?tbl' = 10" "\<forall>x\<in>set ?tbl'. wf_entry x" using r(10,11) by (auto simp: wf_entry_def)
  show "fs_rep fs ss' ?tbl' m'"
    unfolding fs_rep_def fs_nums
    by (intro conjI) (fact ss'(1) r(2,3) h01 r(5,6) m'(1) ss'(3,4) tb hdrs nd dist mk)+
  show "files_of ss' ?tbl' = (files_of ss ?tbl)(entry_name e := None)"
  proof
    fix q
    note dm = dir_map_delete [OF e r(15)]
    show "files_of ss' ?tbl' q = ((files_of ss ?tbl)(entry_name e := None)) q"
    proof (cases "q = entry_name e")
      case False
      show ?thesis
      proof (cases "dir_map ?tbl q")
        case (Some s)
        then obtain x where x: "x \<in> set ?tbl" "inUse x" "e_sector x = s" using dir_map_iff [OF r(15)] by blast
        have "file_bytes ss' (hdr_at ss s) = file_bytes ss (hdr_at ss s)"
          by (rule file_bytes_cong) (use same [OF x(1,2)] x(3) in \<open>auto simp: owned_def\<close>)
        with Some False own(2) [OF x(1,2)] x(3) show ?thesis by (simp add: files_of_def dm)
      qed (use False in \<open>simp add: files_of_def dm\<close>)
    qed (simp add: files_of_def dm)
  qed
qed

section \<open>The operations\<close>

context sector_disk
begin

lemma fetch_dir:
  assumes "fs_rep fs (S d) tbl m" "I d"
  shows "\<exists>d'. Directory_FetchFrom D (directoryFile fs) (Directory_new junk NumDirEntries) d = Ok (tbl, d')
    \<and> I d' \<and> S d' = S d"
  using fs_repD [OF assms(1)] Directory_new_wf [of junk NumDirEntries] assms(2)
  by (intro Directory_FetchFrom_spec) (auto simp: NumDirEntries_def)

lemma fetch_map:
  assumes "fs_rep fs (S d) tbl m" "I d"
  shows "\<exists>d'. PBitmap_file D (freeMapFile fs) NumSectors d = Ok (m, d') \<and> I d' \<and> S d' = S d"
  using fs_repD [OF assms(1)] assms(2) by (intro PBitmap_file_spec) auto

lemma fetch_hdr:
  assumes "I d" "0 \<le> s" "s < 1024"
  shows "\<exists>d'. FileHeader_FetchFrom D s d = Ok (hdr_at (S d) s, d') \<and> I d' \<and> S d' = S d"
  using rd_ok [OF assms(1), of "nat s"] assms(2,3) by (auto simp: FileHeader_FetchFrom_def hdr_at_def nat_less_iff)

lemma open_sector:
  assumes "I d" "0 \<le> s" "s < 1024"
  shows "\<exists>f d'. NachosFile_sector D s d = Ok (f, d') \<and> nf_hdr f = hdr_at (S d) s \<and> seekPosition f = 0
    \<and> I d' \<and> S d' = S d"
  using fetch_hdr [OF assms] by (auto simp: NachosFile_sector_def)

text \<open>Both tables are flushed, in either order.\<close>

lemma flush:
  assumes "I d" "wf_hdr (nf_hdr mf)" "wf_hdr (nf_hdr df)" "set (secs (nf_hdr mf)) \<inter> set (secs (nf_hdr df)) = {}"
    and "full_map m" "numBytes (nf_hdr mf) = 128"
    and "\<forall>e\<in>set tbl. wf_entry e" "length tbl = 10" "numBytes (nf_hdr df) = 200"
  defines "flushed \<equiv> \<lambda>d'. I d' \<and> (\<forall>t. t \<notin> set (secs (nf_hdr mf)) \<and> t \<notin> set (secs (nf_hdr df)) \<longrightarrow> S d' ! t = S d ! t)
    \<and> file_bytes (S d') (nf_hdr mf) = words_bytes (bwords m) \<and> file_bytes (S d') (nf_hdr df) = table_bytes tbl"
  shows "\<exists>d1 d2. Directory_WriteBack D j df tbl d = Ok d1 \<and> PBitmap_WriteBack D j' mf m d1 = Ok d2 \<and> flushed d2"
    "\<exists>d1 d2. PBitmap_WriteBack D j mf m d = Ok d1 \<and> Directory_WriteBack D j' df tbl d1 = Ok d2 \<and> flushed d2"
proof -
  have n: "numBytes (nf_hdr df) = 20 * int (length tbl)" using assms(8,9) by simp
  obtain d1 where d1: "Directory_WriteBack D j df tbl d = Ok d1" "I d1"
    "\<forall>t. t \<notin> set (secs (nf_hdr df)) \<longrightarrow> S d1 ! t = S d ! t" "file_bytes (S d1) (nf_hdr df) = table_bytes tbl"
    using Directory_WriteBack_spec [OF assms(3,1,7) n] by blast
  obtain d2 where d2: "PBitmap_WriteBack D j' mf m d1 = Ok d2" "I d2"
    "\<forall>t. t \<notin> set (secs (nf_hdr mf)) \<longrightarrow> S d2 ! t = S d1 ! t" "file_bytes (S d2) (nf_hdr mf) = words_bytes (bwords m)"
    using PBitmap_WriteBack_spec [OF assms(2) d1(2) assms(5,6)] by blast
  have "file_bytes (S d2) (nf_hdr df) = file_bytes (S d1) (nf_hdr df)"
    by (rule file_bytes_cong) (use d2(3) assms(4) in blast)
  with d1 d2 show "\<exists>d1 d2. Directory_WriteBack D j df tbl d = Ok d1 \<and> PBitmap_WriteBack D j' mf m d1 = Ok d2 \<and> flushed d2"
    unfolding flushed_def by auto
  obtain d1 where d1: "PBitmap_WriteBack D j mf m d = Ok d1" "I d1"
    "\<forall>t. t \<notin> set (secs (nf_hdr mf)) \<longrightarrow> S d1 ! t = S d ! t" "file_bytes (S d1) (nf_hdr mf) = words_bytes (bwords m)"
    using PBitmap_WriteBack_spec [OF assms(2,1,5,6)] by blast
  obtain d2 where d2: "Directory_WriteBack D j' df tbl d1 = Ok d2" "I d2"
    "\<forall>t. t \<notin> set (secs (nf_hdr df)) \<longrightarrow> S d2 ! t = S d1 ! t" "file_bytes (S d2) (nf_hdr df) = table_bytes tbl"
    using Directory_WriteBack_spec [OF assms(3) d1(2) assms(7) n] by blast
  have "file_bytes (S d2) (nf_hdr mf) = file_bytes (S d1) (nf_hdr mf)"
    by (rule file_bytes_cong) (use d2(3) assms(4) in blast)
  with d1 d2 show "\<exists>d1 d2. PBitmap_WriteBack D j mf m d = Ok d1 \<and> Directory_WriteBack D j' df tbl d1 = Ok d2 \<and> flushed d2"
    unfolding flushed_def by auto
qed

lemma Open_spec:
  assumes "fs_rep fs (S d) tbl m" "I d"
  shows "\<exists>d' f. DiskFS_Open D heap fs name d = Ok (f, d') \<and> I d' \<and> S d' = S d
    \<and> (case f of Null \<Rightarrow> dir_map tbl (key name) = None
       | Ptr f \<Rightarrow> seekPosition f = 0 \<and> (\<exists>pre e post. tbl = pre @ e # post \<and> inUse e \<and> entry_name e = key name
           \<and> nf_hdr f = hdr_at (S d) (e_sector e))
       | _ \<Rightarrow> False)"
proof -
  obtain d1 where d1: "Directory_FetchFrom D (directoryFile fs) (Directory_new (heap 0) NumDirEntries) d = Ok (tbl, d1)"
    "I d1" "S d1 = S d" using fetch_dir [OF assms] by blast
  show ?thesis
  proof (cases "dir_map tbl (key name)")
    case None
    then show ?thesis using d1 by (simp add: DiskFS_Open_def Directory_Find_spec)
  next
    case (Some s)
    then have "dir_map tbl (key name) \<noteq> None" by simp
    then obtain pre e post where e: "tbl = pre @ e # post" "inUse e" "entry_name e = key name"
      "dir_map tbl (key name) = Some (e_sector e)" by (rule dir_split)
    have et: "e \<in> set tbl" using e(1) by simp
    have "0 \<le> e_sector e" using fs_repD(13) [OF assms(1) et e(2)] .
    moreover have "e_sector e < 1024"
      using layout_disjoint(11) [OF assms(1) et e(2), of "nat (e_sector e)"] by (simp add: owned_def)
    ultimately obtain f d2 where "NachosFile_sector D (e_sector e) d1 = Ok (f, d2)"
      "nf_hdr f = hdr_at (S d) (e_sector e)" "seekPosition f = 0" "I d2" "S d2 = S d"
      using open_sector [OF d1(2), of "e_sector e"] d1(3) by auto
    with d1 e \<open>0 \<le> e_sector e\<close> show ?thesis
      by (auto simp: DiskFS_Open_def Directory_Find_spec)
  qed
qed

text \<open>The header \<open>Allocate\<close> makes for a file.\<close>

lemma allocated_hdr:
  assumes "full_map m" "0 \<le> fsize" "fsize \<le> MaxFileSize"
  defines "n \<equiv> divRoundUp fsize SectorSize"
  assumes "n \<le> free_sectors m"
  shows "\<exists>h m'. FileHeader_Allocate m fsize (FileHeader_new junk) = Ok (True, h, m') \<and> wf_hdr h \<and> numBytes h = fsize
    \<and> length (secs h) = nat n \<and> set (secs h) \<inter> nat ` marked m = {} \<and> full_map m'
    \<and> marked m' = marked m \<union> int ` set (secs h)"
proof -
  note f = full_mapD [OF assms(1)]
  let ?junkHdr = "FileHeader_new junk"
  have l: "length (dataSectors ?junkHdr) = 30" "\<forall>x\<in>set (dataSectors ?junkHdr). int32 x"
    unfolding FileHeader_new_def by (rule parse_hdr_fields)+
  have "n * 128 < fsize + 128" "0 \<le> n"
    unfolding n_def using divRoundUp_covers(2) [of fsize 128] divRoundUp_ge0 [of fsize 128] assms(2)
    by (simp_all add: disk_consts)
  then have n: "0 \<le> n" "n \<le> 30" using assms(3) by (simp_all add: NumDirect_eq)
  have "n \<le> NumDirect" using n(2) by (simp add: NumDirect_eq)
  from Allocate_spec(2) [OF f(1) l(1) assms(2), folded n_def, OF assms(5) this] obtain ss m' where
    A: "FileHeader_Allocate m fsize ?junkHdr = Ok (True, ?junkHdr\<lparr>numBytes := fsize, numSectors := n,
        dataSectors := ss @ drop (nat n) (dataSectors ?junkHdr)\<rparr>, m')"
    "length ss = nat n" "distinct ss" "set ss \<inter> marked m = {}" "set ss \<subseteq> {0..<numBits m}" "wf_bitmap m'"
    "numBits m' = numBits m" "marked m' = marked m \<union> set ss" by blast
  let ?h = "?junkHdr\<lparr>numBytes := fsize, numSectors := n, dataSectors := ss @ drop (nat n) (dataSectors ?junkHdr)\<rparr>"
  have sc: "secs ?h = map nat ss" using A(2) by (simp add: secs_def)
  have range: "\<forall>s\<in>set ss. 0 \<le> s \<and> s < 1024" using A(5) f(2) by auto
  then have ni: "int ` set (map nat ss) = set ss" by (force simp: image_image)
  have "distinct (map nat ss)" using A(3) range by (auto simp: distinct_map inj_on_def eq_nat_nat_iff)
  moreover have "\<forall>x\<in>set (ss @ drop (nat n) (dataSectors ?junkHdr)). int32 x"
  proof
    fix x assume "x \<in> set (ss @ drop (nat n) (dataSectors ?junkHdr))"
    then have "x \<in> set ss \<or> x \<in> set (dataSectors ?junkHdr)" unfolding set_append by (blast dest: in_set_dropD)
    then show "int32 x"
    proof
      assume "x \<in> set ss"
      then have "0 \<le> x" "x < 1024" using range by blast+
      then show ?thesis by (simp add: int32_def)
    qed (use l(2) in blast)
  qed
  ultimately have "wf_hdr ?h"
    unfolding wf_hdr_def sc using A(2) l(1) range assms(2,3) n by (simp add: n_def NumDirect_eq disk_consts)
  moreover have "set (secs ?h) \<inter> nat ` marked m = {}"
  proof -
    have "False" if "x \<in> set ss" "y \<in> marked m" "nat x = nat y" for x y
    proof -
      have "0 \<le> x" "0 \<le> y" using that range marked_range [of m] by auto
      then have "x = y" using that(3) by (simp add: eq_nat_nat_iff)
      with that A(4) show False by blast
    qed
    then show ?thesis unfolding sc by auto
  qed
  moreover have "full_map m'" using A(6,7) assms(1) by (simp add: full_map_def)
  moreover have "length (secs ?h) = nat n" using A(2) by (simp add: sc)
  moreover have "marked m' = marked m \<union> int ` set (secs ?h)" unfolding sc ni by (rule A(8))
  ultimately show ?thesis using A(1) by (intro exI [of _ ?h] exI [of _ m']) simp
qed

lemma Create_spec:
  assumes rep: "fs_rep fs (S d) tbl m" and "I d" "0 \<notin> set name" "0 \<le> fsize" "fsize \<le> MaxFileSize"
  defines "need \<equiv> 1 + divRoundUp fsize SectorSize"
  shows "\<exists>ok d'. DiskFS_Create D heap fs name fsize d = Ok (ok, d') \<and> I d'
    \<and> (ok \<longleftrightarrow> dir_map tbl (key name) = None \<and> (\<exists>e\<in>set tbl. \<not> inUse e) \<and> need \<le> free_sectors m)
    \<and> (\<not> ok \<longrightarrow> S d' = S d)
    \<and> (ok \<longrightarrow> (\<exists>tbl' m' content. fs_rep fs (S d') tbl' m' \<and> length content = nat fsize
        \<and> files_of (S d') tbl' = (files_of (S d) tbl)(key name \<mapsto> content)
        \<and> free_sectors m' = free_sectors m - need))"
proof -
  note r = fs_repD [OF rep] and l = layout_disjoint [OF rep] and fm = full_mapD [OF fs_repD(8) [OF rep]]
  have need1: "1 \<le> need" using divRoundUp_ge0 [of fsize 128] assms(4) by (simp add: need_def disk_consts)
  obtain d1 where d1: "Directory_FetchFrom D (directoryFile fs) (Directory_new (heap 0) NumDirEntries) d = Ok (tbl, d1)"
    "I d1" "S d1 = S d" using fetch_dir [OF rep assms(2)] by blast
  have rep1: "fs_rep fs (S d1) tbl m" using rep d1(3) by simp
  obtain d2 where d2: "PBitmap_file D (freeMapFile fs) NumSectors d1 = Ok (m, d2)" "I d2" "S d2 = S d"
    using fetch_map [OF rep1 d1(2)] d1(3) by auto
  show ?thesis
  proof (cases "dir_map tbl (key name)")
    case (Some s)
    then obtain e where "e \<in> set tbl" "inUse e" "e_sector e = s" using dir_map_iff [OF r(15)] by blast
    with r(13) have "0 \<le> s" by blast
    with Some d1 show ?thesis by (auto simp: DiskFS_Create_def Directory_Find_spec)
  next
    case None
    note F = Directory_Find_spec [of tbl name, unfolded None]
    show ?thesis
    proof (cases "marked m = {0..<numBits m}")
      case True
      have "free_sectors m = 0" unfolding True fm(2) by simp
      with FindAndSet_full [OF fm(1) True] d1 d2 F need1 show ?thesis
        by (auto simp: DiskFS_Create_def)
    next
      case False
      from FindAndSet_free [OF fm(1) this] obtain k m1 where
        k: "Bitmap_FindAndSet m = Ok (k, m1)" "0 \<le> k" "k < numBits m" "k \<notin> marked m" "wf_bitmap m1"
          "numBits m1 = numBits m" "marked m1 = insert k (marked m)" by blast
      have m1: "full_map m1" using k(5,6) r(8) by (simp add: full_map_def)
      have fr: "free_sectors m1 = free_sectors m - 1" using k(4,6,7) by simp
      show ?thesis
      proof (cases rule: Directory_Add_cases [of tbl name k])
        case present
        with None show ?thesis by simp
      next
        case full
        with d1 d2 F k(1,2) show ?thesis by (auto simp: DiskFS_Create_def)
      next
        case (added pre e post)
        let ?e' = "e\<lparr>inUse := True, e_name := strncpy FileNameMaxLen (e_name e) name, e_sector := k\<rparr>"
        have et: "e \<in> set tbl" using added(2) by simp
        show ?thesis
        proof (cases "need \<le> free_sectors m")
          case False
          then have less: "free_sectors m1 < divRoundUp fsize SectorSize" using fr by (simp add: need_def)
          have "FileHeader_Allocate m1 fsize (FileHeader_new (heap 1))
            = Ok (False, (FileHeader_new (heap 1))\<lparr>numBytes := fsize, numSectors := divRoundUp fsize SectorSize\<rparr>, m1)"
            by (rule Allocate_spec(1) [OF k(5) _ assms(4) less]) (simp add: FileHeader_new_def parse_hdr_fields)
          with d1 d2 F k(1,2) added(5) False show ?thesis by (auto simp: DiskFS_Create_def)
        next
          case True
          then have enough: "divRoundUp fsize SectorSize \<le> free_sectors m1" using fr by (simp add: need_def)
          from allocated_hdr [OF m1 assms(4,5) enough, of "heap 1"] obtain h m2 where
            h: "FileHeader_Allocate m1 fsize (FileHeader_new (heap 1)) = Ok (True, h, m2)" "wf_hdr h" "numBytes h = fsize"
              "length (secs h) = nat (divRoundUp fsize SectorSize)" "set (secs h) \<inter> nat ` marked m1 = {}" "full_map m2"
              "marked m2 = marked m1 \<union> int ` set (secs h)" by blast
          have kn: "k = int (nat k)" "nat k < 1024" using k(2,3) fm(2) by simp_all
          obtain d3 where d3: "FileHeader_WriteBack D k h d2 = Ok d3" "I d3" "S d3 = (S d)[nat k := hdr_bytes h]"
            using wr_ok [OF d2(2) kn(2) wf_hdr_round_trip(2) [OF h(2)]] kn(1) d2(3)
            by (auto simp: FileHeader_WriteBack_def)
          have ki: "int32 k" using k(2,3) fm(2) by (simp add: int32_def)
          note e' = entry_added [OF r(11) [rule_format, OF et] assms(3) ki]
          have tb: "\<forall>x\<in>set (pre @ ?e' # post). wf_entry x" "length (pre @ ?e' # post) = 10"
            using r(10,11) e'(1) added(2) by auto
          from flush(1) [OF d3(2) r(2,5) l(5) h(6) r(3) tb r(6), of "heap 2" "heap 3"] obtain d4 d5 where
            d5: "Directory_WriteBack D (heap 2) (directoryFile fs) (pre @ ?e' # post) d3 = Ok d4"
              "PBitmap_WriteBack D (heap 3) (freeMapFile fs) m2 d4 = Ok d5" "I d5"
              "\<And>t. t \<notin> set (secs (map_hdr fs)) \<Longrightarrow> t \<notin> set (secs (dir_hdr fs)) \<Longrightarrow> S d5 ! t = S d3 ! t"
              "file_bytes (S d5) (map_hdr fs) = words_bytes (bwords m2)"
              "file_bytes (S d5) (dir_hdr fs) = table_bytes (pre @ ?e' # post)" by blast
          have klay: "nat k \<notin> set (layout fs (S d) tbl)" using k(2,4) unfolding r(17) by (metis image_eqI int_nat_eq)
          then have ks: "nat k \<notin> set (secs (map_hdr fs))" "nat k \<notin> set (secs (dir_hdr fs))"
            unfolding layout_def by auto
          have len: "length (S d) = 1024" using r(1) by (simp add: wf_sectors_def)
          have S5: "S d5 ! t = S d ! t" if "t \<notin> set (secs (map_hdr fs))" "t \<notin> set (secs (dir_hdr fs))" "t \<noteq> nat k" for t
            using d5(4) [OF that(1,2)] d3(3) that(3) by simp
          have S5k: "S d5 ! nat k = hdr_bytes h" using d5(4) [OF ks] d3(3) len kn(2) by simp
          have new: "int (nat k) \<notin> marked m" "nat k < 1024" "wf_hdr h" "set (secs h) \<inter> insert (nat k) (nat ` marked m) = {}"
            using k(4) kn h(2,5) k(7) by auto
          have mk: "marked m2 = marked m \<union> int ` set (nat k # secs h)" using h(7) k(7) kn(1) by auto
          have en: "e_sector ?e' = int (nat k)" using kn by simp
          have dn: "dir_map (pre @ e # post) (entry_name ?e') = None" using added(1,2) e'(2) by simp
          note R = rep_create [OF rep [unfolded added(2)] added(4) dn e'(3,1) en new h(6) mk wf_S [OF d5(3)] S5 S5k d5(5,6)]
          have "free_sectors m2 = free_sectors m - need"
          proof -
            have disj: "x \<notin> set (secs h)" if "int x \<in> marked m1" for x
              using h(5) that by (metis disjoint_iff image_eqI nat_int)
            have "card (marked m2) = card (marked m1) + card (int ` set (secs h))"
              unfolding h(7) by (rule card_Un_disjoint) (use disj in auto)
            also have "card (int ` set (secs h)) = nat (divRoundUp fsize SectorSize)"
              using h(4) wf_hdrD(7) [OF h(2)] by (simp add: card_image distinct_card)
            finally show ?thesis
              using fr need1 full_mapD(2) [OF h(6)] full_mapD(2) [OF m1] fm(2) by (simp add: need_def)
          qed
          moreover have "length (file_bytes (S d5) h) = nat fsize"
            using raw_blocks(4) [OF h(2) wf_S [OF d5(3)]] h(3) by simp
          moreover have "DiskFS_Create D heap fs name fsize d = Ok (True, d5)"
            using d1(1) d2(1) F k(1,2) added(5) h(1) d3(1) d5(1,2) by (simp add: DiskFS_Create_def)
          ultimately show ?thesis using R d5(3) None added(2,4) True e'(2) by auto
        qed
      qed
    qed
  qed
qed

lemma Remove_spec:
  assumes rep: "fs_rep fs (S d) tbl m" and "I d"
  shows "\<exists>ok d'. DiskFS_Remove D heap fs name d = Ok (ok, d') \<and> I d'
    \<and> (ok \<longleftrightarrow> dir_map tbl (key name) \<noteq> None) \<and> (\<not> ok \<longrightarrow> S d' = S d)
    \<and> (ok \<longrightarrow> (\<exists>tbl' m'. fs_rep fs (S d') tbl' m' \<and> free_sectors m < free_sectors m'
        \<and> files_of (S d') tbl' = (files_of (S d) tbl)(key name := None)))"
proof -
  note r = fs_repD [OF rep] and l = layout_disjoint [OF rep] and fm = full_mapD [OF fs_repD(8) [OF rep]]
  obtain d1 where d1: "Directory_FetchFrom D (directoryFile fs) (Directory_new (heap 0) NumDirEntries) d = Ok (tbl, d1)"
    "I d1" "S d1 = S d" using fetch_dir [OF rep assms(2)] by blast
  show ?thesis
  proof (cases rule: Directory_Remove_cases [of tbl name])
    case absent
    with d1 show ?thesis by (auto simp: DiskFS_Remove_def Directory_Find_spec)
  next
    case (removed pre e post)
    have et: "e \<in> set tbl" using removed(1) by simp
    define s where "s = e_sector e"
    have s0: "0 \<le> s" using r(13) [OF et removed(2)] by (simp add: s_def)
    have so: "set (owned (S d) e) = insert (nat s) (set (secs (hdr_at (S d) s)))" by (simp add: owned_def s_def)
    have s1: "nat s < 1024" using l(11) [OF et removed(2), of "nat s"] so by simp
    then have s2: "s < 1024" using s0 by linarith
    have wh: "wf_hdr (hdr_at (S d) s)" using r(14) [OF et removed(2)] by (simp add: s_def)
    have om: "int ` set (owned (S d) e) \<subseteq> marked m"
      unfolding r(17) layout_def using et removed(2) by auto
    obtain d2 where d2: "FileHeader_FetchFrom D s d1 = Ok (hdr_at (S d) s, d2)" "I d2" "S d2 = S d"
      using fetch_hdr [OF d1(2) s0 s2] d1(3) by auto
    have rep2: "fs_rep fs (S d2) tbl m" using rep d2(3) by simp
    obtain d3 where d3: "PBitmap_file D (freeMapFile fs) NumSectors d2 = Ok (m, d3)" "I d3" "S d3 = S d"
      using fetch_map [OF rep2 d2(2)] d2(3) by auto
    have "int ` set (secs (hdr_at (S d) s)) \<subseteq> marked m" using om so by auto
    from Deallocate_spec [OF wh fm(1) this] obtain m1 where
      m1: "FileHeader_Deallocate (hdr_at (S d) s) m = Ok m1" "wf_bitmap m1" "numBits m1 = numBits m"
        "marked m1 = marked m - int ` set (secs (hdr_at (S d) s))" by blast
    have "s < numBits m1" using s2 m1(3) fm(2) by simp
    from Clear_correct [OF m1(2) s0 this] obtain m2 where
      m2: "Bitmap_Clear m1 s = Ok m2" "wf_bitmap m2" "numBits m2 = numBits m1" "marked m2 = marked m1 - {s}" by blast
    have f2: "full_map m2" using m1(3) m2(2,3) r(8) by (simp add: full_map_def)
    have mk: "marked m2 = marked m - int ` set (owned (S d) e)" unfolding so m2(4) m1(4) using s0 by auto
    let ?tbl' = "pre @ e\<lparr>inUse := False\<rparr> # post"
    have tb: "\<forall>x\<in>set ?tbl'. wf_entry x" "length ?tbl' = 10"
      using r(10,11) removed(1) by (auto simp: wf_entry_def)
    from flush(2) [OF d3(2) r(2,5) l(5) f2 r(3) tb r(6), of "heap 1" "heap 2"] obtain d4 d5 where
      d5: "PBitmap_WriteBack D (heap 1) (freeMapFile fs) m2 d3 = Ok d4"
        "Directory_WriteBack D (heap 2) (directoryFile fs) ?tbl' d4 = Ok d5" "I d5"
        "\<And>t. t \<notin> set (secs (map_hdr fs)) \<Longrightarrow> t \<notin> set (secs (dir_hdr fs)) \<Longrightarrow> S d5 ! t = S d ! t"
        "file_bytes (S d5) (map_hdr fs) = words_bytes (bwords m2)" "file_bytes (S d5) (dir_hdr fs) = table_bytes ?tbl'"
      unfolding d3(3) by blast
    note R = rep_remove [OF rep [unfolded removed(1)] removed(2) f2 mk wf_S [OF d5(3)] d5(4,5,6)]
    have "s \<noteq> -1" using s0 by simp
    then have "DiskFS_Remove D heap fs name d = Ok (True, d5)"
      using d1(1) removed(4,5) d2(1) d3(1) m1(1) m2(1) d5(1,2)
      by (simp add: DiskFS_Remove_def Directory_Find_spec s_def)
    moreover have "free_sectors m < free_sectors m2"
    proof -
      have "s \<in> marked m" using om s0 so by auto
      then have "marked m2 \<subset> marked m" using s0 so unfolding mk by auto
      then show ?thesis using psubset_card_mono [of "marked m" "marked m2"] full_mapD(2) [OF f2] fm(2) by simp
    qed
    ultimately show ?thesis using R d5(3) removed(1,3,4) by auto
  qed
qed

text \<open>Reading and writing a file that was opened.\<close>

lemma file_access:
  fixes n position :: int
  assumes rep: "fs_rep fs (S d) tbl m" and "I d" "tbl = pre @ e # post" "inUse e" "nf_hdr f = hdr_at (S d) (e_sector e)"
    and "0 \<le> position"
  defines "c \<equiv> file_bytes (S d) (hdr_at (S d) (e_sector e))" and "p \<equiv> nat position"
  shows "files_of (S d) tbl (entry_name e) = Some c"
    and "\<exists>d'. NachosFile_ReadAt D f n position d
        = Ok ((int (length (take (nat n) (drop p c))), take (nat n) (drop p c)), d') \<and> I d' \<and> S d' = S d"
    and "n \<le> int (length src) \<Longrightarrow> \<exists>d'. NachosFile_WriteAt D junk f src n position d
        = Ok (int (min (nat n) (length c - p)), d') \<and> I d' \<and> fs_rep fs (S d') tbl m
        \<and> hdr_at (S d') (e_sector e) = hdr_at (S d) (e_sector e)
        \<and> files_of (S d') tbl = (files_of (S d) tbl)(entry_name e \<mapsto>
            take p c @ take (min (nat n) (length c - p)) src @ drop (p + min (nat n) (length c - p)) c)"
proof -
  have et: "e \<in> set tbl" using assms(3) by simp
  have wh: "wf_hdr (nf_hdr f)" using fs_repD(14) [OF rep et assms(4)] assms(5) by simp
  have "dir_map tbl (entry_name e) = Some (e_sector e)"
    using dir_map_iff [OF fs_repD(15) [OF rep]] et assms(4) by blast
  then show "files_of (S d) tbl (entry_name e) = Some c" by (simp add: files_of_def c_def)
  show "\<exists>d'. NachosFile_ReadAt D f n position d
        = Ok ((int (length (take (nat n) (drop p c))), take (nat n) (drop p c)), d') \<and> I d' \<and> S d' = S d"
    using ReadAt_spec [OF wh assms(2,6), of n] unfolding assms(5) c_def p_def .
  show "\<exists>d'. NachosFile_WriteAt D junk f src n position d
        = Ok (int (min (nat n) (length c - p)), d') \<and> I d' \<and> fs_rep fs (S d') tbl m
        \<and> hdr_at (S d') (e_sector e) = hdr_at (S d) (e_sector e)
        \<and> files_of (S d') tbl = (files_of (S d) tbl)(entry_name e \<mapsto>
            take p c @ take (min (nat n) (length c - p)) src @ drop (p + min (nat n) (length c - p)) c)"
    if "n \<le> int (length src)"
  proof -
    have lc: "length c = nat (numBytes (nf_hdr f))"
      using raw_blocks(4) [OF wh wf_S [OF assms(2)]] by (simp add: c_def assms(5))
    from WriteAt_spec [OF wh assms(2,6) that, folded p_def lc, of junk] obtain d' where
      d': "NachosFile_WriteAt D junk f src n position d = Ok (int (min (nat n) (length c - p)), d')" "I d'"
        "\<forall>t. t \<notin> set (secs (hdr_at (S d) (e_sector e))) \<longrightarrow> S d' ! t = S d ! t"
        "file_bytes (S d') (hdr_at (S d) (e_sector e)) = take p c @ take (min (nat n) (length c - p)) src
           @ drop (p + min (nat n) (length c - p)) c"
      unfolding assms(5) c_def by auto
    have "nat (e_sector e) \<notin> set (secs (hdr_at (S d) (e_sector e)))"
      using layout_disjoint(10) [OF rep et assms(4)] by (simp add: owned_def)
    then have "hdr_at (S d') (e_sector e) = hdr_at (S d) (e_sector e)" using d'(3) by (simp add: hdr_at_def)
    with d' fs_rep_data [OF rep assms(3,4) wf_S [OF d'(2)] d'(3)] show ?thesis by simp
  qed
qed

text \<open>A new disk: the two headers, one sector for the map, two for the directory.\<close>

lemma format_spec:
  assumes "I d"
  shows "\<exists>fs d' tbl m. DiskFS_new D heap True d = Ok (fs, d') \<and> I d' \<and> fs_rep fs (S d') tbl m
    \<and> files_of (S d') tbl = Map.empty \<and> free_sectors m = 1019"
proof -
  have "0 < NumSectors" by (simp add: disk_consts)
  from Bitmap_new_correct [OF this] obtain m0 where
    m0: "PBitmap_new NumSectors = Ok m0" "wf_bitmap m0" "numBits m0 = 1024" "marked m0 = {}"
    by (auto simp: PBitmap_new_def disk_consts)
  obtain m1 where m1: "Bitmap_Mark m0 FreeMapSector = Ok m1" "wf_bitmap m1" "numBits m1 = 1024" "marked m1 = {0}"
    using Mark_correct [OF m0(2), of FreeMapSector] m0(3,4) by (auto simp: fs_nums)
  obtain m2 where m2: "Bitmap_Mark m1 DirectorySector = Ok m2" "wf_bitmap m2" "numBits m2 = 1024" "marked m2 = {1, 0}"
    using Mark_correct [OF m1(2), of DirectorySector] m1(3,4) by (auto simp: fs_nums)
  have f2: "full_map m2" using m2(2,3) by (simp add: full_map_def disk_consts)
  have n1: "divRoundUp FreeMapFileSize SectorSize = 1" "divRoundUp DirectoryFileSize SectorSize = 2"
    by (simp_all add: fs_nums divRoundUp_nonneg disk_consts)
  have c2: "free_sectors m2 = 1022" using m2(3,4) by simp
  obtain mh m3 where mh: "FileHeader_Allocate m2 FreeMapFileSize (FileHeader_new (heap 1)) = Ok (True, mh, m3)"
      "wf_hdr mh" "numBytes mh = FreeMapFileSize" "length (secs mh) = 1" "set (secs mh) \<inter> nat ` marked m2 = {}"
      "full_map m3" "marked m3 = marked m2 \<union> int ` set (secs mh)"
    using allocated_hdr [OF f2, of FreeMapFileSize "heap 1"] unfolding n1 c2 by (auto simp: fs_nums NumDirect_eq)
  obtain a where a: "secs mh = [a]" using mh(4) by (auto simp: length_Suc_conv)
  have a01: "a \<noteq> 0" "a \<noteq> Suc 0" using mh(5) unfolding a m2(4) by auto
  have m3: "marked m3 = {int a, 1, 0}" unfolding mh(7) a m2(4) by auto
  have c3: "free_sectors m3 = 1021" using full_mapD(2) [OF mh(6)] a01 unfolding m3 by simp
  obtain dh m4 where dh: "FileHeader_Allocate m3 DirectoryFileSize (FileHeader_new (heap 2)) = Ok (True, dh, m4)"
      "wf_hdr dh" "numBytes dh = DirectoryFileSize" "length (secs dh) = 2" "set (secs dh) \<inter> nat ` marked m3 = {}"
      "full_map m4" "marked m4 = marked m3 \<union> int ` set (secs dh)"
    using allocated_hdr [OF mh(6), of DirectoryFileSize "heap 2"] unfolding n1 c3 by (auto simp: fs_nums NumDirect_eq)
  have dist: "set (secs mh) \<inter> set (secs dh) = {}" "0 \<notin> set (secs dh)" "Suc 0 \<notin> set (secs dh)"
    using dh(5) unfolding a m3 by auto
  have c4: "free_sectors m4 = 1019"
  proof -
    have "card (marked m4) = card (marked m3) + card (int ` set (secs dh))"
      unfolding dh(7) by (rule card_Un_disjoint) (use dh(5) in \<open>auto simp: m3\<close>)
    moreover have "card (int ` set (secs dh)) = 2"
      using dh(4) wf_hdrD(7) [OF dh(2)] by (simp add: card_image distinct_card)
    ultimately show ?thesis using c3 full_mapD(2) [OF mh(6)] full_mapD(2) [OF dh(6)] by simp
  qed
  let ?tbl = "Directory_new (heap 0) NumDirEntries"
  note T = Directory_new_wf [of "heap 0" NumDirEntries]
  obtain d1 where d1: "FileHeader_WriteBack D FreeMapSector mh d = Ok d1" "I d1" "S d1 = (S d)[0 := hdr_bytes mh]"
    using wr_ok [OF assms, of 0] wf_hdr_round_trip(2) [OF mh(2)] by (auto simp: FileHeader_WriteBack_def fs_nums)
  obtain d2 where d2: "FileHeader_WriteBack D DirectorySector dh d1 = Ok d2" "I d2" "S d2 = (S d1)[1 := hdr_bytes dh]"
    using wr_ok [OF d1(2), of 1] wf_hdr_round_trip(2) [OF dh(2)] by (auto simp: FileHeader_WriteBack_def fs_nums)
  have len: "length (S d) = 1024" using wf_S [OF assms] by (simp add: wf_sectors_def)
  have h2: "hdr_at (S d2) FreeMapSector = mh" "hdr_at (S d2) DirectorySector = dh"
    using wf_hdr_round_trip(1) [OF mh(2)] wf_hdr_round_trip(1) [OF dh(2)] len
    by (simp_all add: hdr_at_def fs_nums d2(3) d1(3))
  obtain mf d3 where d3: "NachosFile_sector D FreeMapSector d2 = Ok (mf, d3)" "nf_hdr mf = mh" "I d3" "S d3 = S d2"
    using open_sector [OF d2(2), of FreeMapSector] h2(1) by (auto simp: fs_nums)
  obtain df d4 where d4: "NachosFile_sector D DirectorySector d3 = Ok (df, d4)" "nf_hdr df = dh" "I d4" "S d4 = S d2"
    using open_sector [OF d3(3), of DirectorySector] h2(2) d3(4) by (auto simp: fs_nums)
  have wm: "wf_hdr (nf_hdr mf)" "wf_hdr (nf_hdr df)" "numBytes (nf_hdr mf) = 128" "numBytes (nf_hdr df) = 200"
      "set (secs (nf_hdr mf)) \<inter> set (secs (nf_hdr df)) = {}"
    using mh(2,3) dh(2,3) d3(2) d4(2) dist(1) by (simp_all add: fs_nums)
  have tb: "\<forall>x\<in>set ?tbl. wf_entry x" "length ?tbl = 10" using T by (auto simp: fs_nums)
  from flush(2) [OF d4(3) wm(1,2,5) dh(6) wm(3) tb wm(4), of "heap 3" "heap 4"] obtain d5 d6 where
    d6: "PBitmap_WriteBack D (heap 3) mf m4 d4 = Ok d5" "Directory_WriteBack D (heap 4) df ?tbl d5 = Ok d6" "I d6"
      "\<And>t. t \<notin> set (secs mh) \<Longrightarrow> t \<notin> set (secs dh) \<Longrightarrow> S d6 ! t = S d2 ! t"
      "file_bytes (S d6) mh = words_bytes (bwords m4)" "file_bytes (S d6) dh = table_bytes ?tbl"
    unfolding d3(2) d4(2,4) by blast
  let ?fs = "\<lparr>freeMapFile = mf, directoryFile = df\<rparr>"
  have unused: "filter inUse ?tbl = []" using T(1) by (simp add: filter_empty_conv)
  have lay: "layout ?fs (S d6) ?tbl = [0, 1] @ secs mh @ secs dh" unfolding layout_def unused by (simp add: d3(2) d4(2))
  have h6: "hdr_at (S d6) FreeMapSector = mh" "hdr_at (S d6) DirectorySector = dh"
    using h2 d6(4) [of 0] d6(4) [of "Suc 0"] dist a a01 by (auto simp: hdr_at_def fs_nums)
  have "distinct (layout ?fs (S d6) ?tbl)" "marked m4 = int ` set (layout ?fs (S d6) ?tbl)"
    unfolding lay dh(7) m3 using dist a a01 wf_hdrD(7) [OF dh(2)] by auto
  then have "fs_rep ?fs (S d6) ?tbl m4"
    unfolding fs_rep_def
    using wf_S [OF d6(3)] mh(2,3) dh(2,3,6) h6 d6(5,6) T unused
    by (simp add: d3(2) d4(2) names_differ_def)
  moreover have "files_of (S d6) ?tbl = Map.empty" by (simp add: files_of_def dir_map_def unused fun_eq_iff)
  moreover have "DiskFS_new D heap True d = Ok (?fs, d6)"
    using m0(1) m1(1) m2(1) mh(1) dh(1) d1(1) d2(1) d3(1) d4(1) d6(1,2) by (simp add: DiskFS_new_def)
  ultimately show ?thesis using d6(3) c4 by blast
qed

text \<open>A disk that was formatted before is found again.\<close>

lemma reopen_spec:
  assumes "fs_rep fs0 (S d) tbl m" "I d"
  shows "\<exists>fs d'. DiskFS_new D heap False d = Ok (fs, d') \<and> I d' \<and> S d' = S d \<and> fs_rep fs (S d') tbl m"
proof -
  obtain mf d1 where d1: "NachosFile_sector D FreeMapSector d = Ok (mf, d1)" "nf_hdr mf = map_hdr fs0" "I d1" "S d1 = S d"
    using open_sector [OF assms(2), of FreeMapSector] fs_repD(4) [OF assms(1)] by (auto simp: fs_nums)
  obtain df d2 where d2: "NachosFile_sector D DirectorySector d1 = Ok (df, d2)" "nf_hdr df = dir_hdr fs0" "I d2" "S d2 = S d"
    using open_sector [OF d1(3), of DirectorySector] fs_repD(7) [OF assms(1)] d1(4) by (auto simp: fs_nums)
  have "fs_rep \<lparr>freeMapFile = mf, directoryFile = df\<rparr> (S d2) tbl m = fs_rep fs0 (S d) tbl m"
    unfolding fs_rep_def layout_def d2(4) by (simp only: DiskFS.simps d1(2) d2(2))
  with assms(1) d1 d2 show ?thesis by (simp add: DiskFS_new_def)
qed

end

end
