(* ===== verification/Synch_Disk.thy ===== *)
theory Synch_Disk
  imports Devices Disk_FS
begin

text \<open>
  The disk as the file system sees it: \<open>SynchDisk\<close> on the simulated disk, with the thread that waits,
  the clock that goes on and the handlers that run meanwhile, implements the interface
  \<open>sector_disk\<close> of the file system. The theorems on the file system follow from its interpretation.

  The level of interrupts is \<open>IntOff\<close>, as it is in \<open>Kernel::Initialize\<close>, where the file system is made and
  its directory and bit map are read.
\<close>

section \<open>What the wait for the disk leaves alone\<close>

text \<open>A host on which polling, reading and random numbers leave the content of the disk's file.\<close>

definition steady :: "'h io \<Rightarrow> ('h \<Rightarrow> bytes \<times> nat) \<Rightarrow> bool" where
  "steady U v \<longleftrightarrow>
     (\<forall>fd h. fst (v (snd (u_select U fd h))) = fst (v h))
     \<and> (\<forall>fd n h. fst (v (snd (u_read (files U) fd n h))) = fst (v h))
     \<and> (\<forall>fd n h. fst (v (snd (u_recvfrom U fd n h))) = fst (v h))
     \<and> (\<forall>h. fst (v (snd (u_rand U h))) = fst (v h))"

lemma steadyD:
  assumes "steady U v"
  shows "u_select U fd h = (r, h') \<Longrightarrow> fst (v h') = fst (v h)"
    "u_read (files U) fd n h = (d, h') \<Longrightarrow> fst (v h') = fst (v h)"
    "u_recvfrom U fd n h = (d, h') \<Longrightarrow> fst (v h') = fst (v h)"
    "u_rand U h = (m, h') \<Longrightarrow> fst (v h') = fst (v h)"
  using assms unfolding steady_def by (metis snd_conv)+

lemma steady_calls:
  assumes "steady U v"
  shows "PollFile U fd h = Ok (b, h') \<Longrightarrow> fst (v h') = fst (v h)"
    "PollSocket U fd h = Ok (b, h') \<Longrightarrow> fst (v h') = fst (v h)"
    "ReadPartial (files U) fd n h = (d, h') \<Longrightarrow> fst (v h') = fst (v h)"
    "ReadFromSocket U fd n h = Ok (p, h') \<Longrightarrow> fst (v h') = fst (v h)"
  using steadyD [OF assms]
  by (auto simp: PollSocket_def PollFile_def ReadPartial_def ReadFromSocket_def Let_def split: prod.splits)

definition other_sems :: "('h, 'k) IOKernel_scheme \<Rightarrow> sref set" where
  "other_sems k = {s_wait (synchConsoleIn k), s_wait (synchConsoleOut k), messageAvailable k, s_wait (postOut k)}"

lemma other_sems_kernel [simp]:
  "other_sems (k\<lparr>sems := ss\<rparr>) = other_sems k" "other_sems (k\<lparr>locks := ls\<rparr>) = other_sems k"
  "other_sems (k\<lparr>threads := ts\<rparr>) = other_sems k" "other_sems (k\<lparr>readyList := rl\<rparr>) = other_sems k"
  by (simp_all add: other_sems_def)

text \<open>What the thread that waits for the disk, and the disk itself, depend on.\<close>

definition held :: "('h \<Rightarrow> bytes \<times> nat) \<Rightarrow> ('h, 'k) IOKernel_scheme \<Rightarrow> _" where
  "held v k = ((threads k, readyList k, currentThread k, toBeDestroyed k, tableOwner k, sems k, locks k),
     disk k, synchDisk k, other_sems k, level k, fst (v (unix_state k)))"

lemma held_updates [simp]:
  "held v (k\<lparr>pending := ps\<rparr>) = held v k" "held v (k\<lparr>yieldOnReturn := b\<rparr>) = held v k"
  "held v (k\<lparr>stats := st\<rparr>) = held v k" "held v (k\<lparr>consoleInput := ci\<rparr>) = held v k"
  "held v (k\<lparr>consoleOutput := co\<rparr>) = held v k" "held v (k\<lparr>networkOutput := no\<rparr>) = held v k"
  "held v (k\<lparr>networkInput := ni\<rparr>) = held v k" "held v (k\<lparr>inHandler := b\<rparr>) = held v k"
  by (simp_all add: held_def other_sems_def)

lemma held_kernel_updates [simp]:
  "held v (k\<lparr>status := s\<rparr>) = held v k" "held v (k\<lparr>registers := r\<rparr>) = held v k"
  "fst (v h) = fst (v (unix_state k)) \<Longrightarrow> held v (set_unix h k) = held v k"
  by (simp_all add: held_def other_sems_def)

lemma held_Schedule: "Schedule c n ty k = Ok k' \<Longrightarrow> held v k' = held v k"
  using queued_Schedule(2) [of c n ty k k'] by auto

text \<open>A handler of another device at most wakes a thread that waits for that device.\<close>

definition ends :: "('h \<Rightarrow> bytes \<times> nat) \<Rightarrow> ('h, 'k) IOKernel_scheme \<Rightarrow> ('h, 'k) IOKernel_scheme \<Rightarrow> bool" where
  "ends v k k' \<longleftrightarrow> (\<exists>x. held v x = held v k \<and> (k' = x \<or> (\<exists>s\<in>other_sems k. Semaphore_V s x = Ok k')))"

lemma ends_same: "held v k' = held v k \<Longrightarrow> ends v k k'"
  by (auto simp: ends_def)

lemma ends_V: "Semaphore_V s x = Ok k' \<Longrightarrow> held v x = held v k \<Longrightarrow> s \<in> other_sems x \<Longrightarrow> ends v k k'"
  unfolding ends_def by (auto simp: held_def intro!: exI [of _ x])

lemma ends_Schedule: "Schedule c n ty x = Ok k' \<Longrightarrow> held v x = held v k \<Longrightarrow> ends v k k'"
  by (simp add: ends_same held_Schedule)

lemma ends_devices:
  assumes "held v x = held v k"
  shows "SynchConsoleInput_CallBack x = Ok k' \<Longrightarrow> ends v k k'" "SynchConsoleOutput_CallBack x = Ok k' \<Longrightarrow> ends v k k'"
    "PostOfficeInput_CallBack x = Ok k' \<Longrightarrow> ends v k k'" "PostOfficeOutput_CallBack x = Ok k' \<Longrightarrow> ends v k k'"
  by (auto simp: SynchConsoleInput_CallBack_def SynchConsoleOutput_CallBack_def PostOfficeInput_CallBack_def
      PostOfficeOutput_CallBack_def other_sems_def intro: ends_V [OF _ assms])

lemma Timer_ends:
  assumes "Timer_CallBack (u_rand U) k = Ok k'" "steady U v"
  shows "ends v k k'"
proof -
  obtain k1 where k1: "Alarm_CallBack k = Ok k1" "SetInterrupt (u_rand U) k1 = Ok k'"
    using assms(1) by (auto simp: Timer_CallBack_def)
  then have h1: "held v k1 = held v k"
    by (auto simp: Alarm_CallBack_def YieldOnReturn_def split: if_splits)
  have P: "ends v k k'" if "Schedule TimerObj n TimerInt (set_unix h k1) = Ok k'"
      "u_rand U (unix_state k1) = (m, h)" for n m h
    by (rule ends_Schedule [OF that(1)]) (simp add: h1 steadyD(4) [OF assms(2) that(2)])
  have Q: "ends v k k'" if "Schedule TimerObj n TimerInt k1 = Ok k'" for n
    by (rule ends_Schedule [OF that h1])
  show ?thesis
  proof (cases "disable (timer k1)")
    case True
    with k1(2) h1 show ?thesis by (simp add: SetInterrupt_def ends_same)
  next
    case False
    with k1(2) show ?thesis
      by (cases "randomize (timer k1)") (auto simp: SetInterrupt_def Let_def split: prod.splits intro: P Q)
  qed
qed

lemma ConsoleInput_ends:
  assumes "ConsoleInput_CallBack U k = Ok k'" "steady U v"
  shows "ends v k k'"
proof -
  obtain ready h where s: "PollFile U (readFileNo (consoleInput k)) (unix_state k) = Ok (ready, h)"
    using assms(1) by (auto simp: ConsoleInput_CallBack_def Let_def elim!: rbind_OkE)
  note h = steady_calls(1) [OF assms(2) s]
  show ?thesis
  proof (cases ready)
    case False
    with assms(1) s h show ?thesis
      by (auto simp: ConsoleInput_CallBack_def Let_def elim!: ends_Schedule)
  next
    case True
    obtain n data h2 where d: "ReadPartial (files U) (readFileNo (consoleInput k)) 1 h = ((n, data), h2)"
      by (metis surj_pair)
    have h2: "fst (v h2) = fst (v (unix_state k))" using steady_calls(3) [OF assms(2) d] h by simp
    then have e: "held v (set_unix h2 k) = held v k" by simp
    have P: "ends v k k'" if "SynchConsoleInput_CallBack ((set_unix h2 k)\<lparr>consoleInput := ci, stats := st\<rparr>) = Ok k'"
      for ci st by (rule ends_devices(1) [OF _ that]) (simp add: h2)
    have Q: "ends v k k'" if "SynchConsoleInput_CallBack (set_unix h2 k) = Ok k'"
      by (rule ends_devices(1) [OF e that])
    show ?thesis
    proof (cases "n = 0")
      case True
      with assms(1) s d \<open>ready\<close> show ?thesis
        by (auto simp: ConsoleInput_CallBack_def Let_def intro: Q)
    next
      case False
      with assms(1) s d \<open>ready\<close> show ?thesis
        by (auto simp: ConsoleInput_CallBack_def Let_def count_stat_def elim!: rbind_OkE intro: P)
    qed
  qed
qed

lemma NetworkInput_ends:
  assumes "NetworkInput_CallBack U k = Ok k'" "steady U v"
  shows "ends v k k'"
proof -
  obtain x where x: "Schedule NetInObj NetworkTime NetworkRecvInt k = Ok x"
    using assms(1) by (auto simp: NetworkInput_CallBack_def elim!: rbind_OkE)
  then have vx: "held v x = held v k" by (rule held_Schedule)
  note r = assms(1) [unfolded NetworkInput_CallBack_def x rbind.simps]
  show ?thesis
  proof (cases "pkt_length (inHdr (networkInput x)) \<noteq> 0")
    case True
    with r vx show ?thesis by (simp add: ends_same)
  next
    case False
    then obtain ready h where s: "PollSocket U (in_sock (networkInput x)) (unix_state x) = Ok (ready, h)"
      using r by (auto elim!: rbind_OkE)
    note h = steady_calls(2) [OF assms(2) s]
    show ?thesis
    proof (cases ready)
      case True
      then obtain buffer h2 where b: "ReadFromSocket U (in_sock (networkInput x)) MaxWireSize h = Ok (buffer, h2)"
        using r s False by (auto simp: Let_def elim!: rbind_OkE)
      have h2: "fst (v h2) = fst (v (unix_state x))" using steady_calls(4) [OF assms(2) b] h by simp
      have P: "ends v k k'" if "PostOfficeInput_CallBack ((set_unix h2 x)\<lparr>networkInput := n, stats := st\<rparr>) = Ok k'"
        for n st by (rule ends_devices(3) [OF _ that]) (simp add: vx h2)
      from b show ?thesis
        using r s False True by (auto simp: Let_def count_stat_def elim!: rbind_OkE intro: P)
    next
      case nr: False
      with r s False vx h show ?thesis by (auto simp: Let_def intro: ends_same)
    qed
  qed
qed

lemma CallBack_ends:
  assumes "CallBack U c k = Ok k'" "steady U v" "c \<noteq> DiskObj"
  shows "ends v k k'"
proof (cases c)
  case ConsoleOutObj
  with assms show ?thesis
    by (auto simp: CallBack_def ConsoleOutput_CallBack_def count_stat_def elim!: ends_devices(2) [rotated])
next
  case NetOutObj
  with assms show ?thesis
    by (auto simp: CallBack_def NetworkOutput_CallBack_def count_stat_def elim!: ends_devices(4) [rotated])
qed (use assms in \<open>auto simp: CallBack_def intro: Timer_ends ConsoleInput_ends NetworkInput_ends\<close>)

section \<open>The wait\<close>

definition can_run :: "Thread \<Rightarrow> bool" where
  "can_run th \<longleftrightarrow> \<not> Thread.fresh th \<and> space th = None \<and> (stack th = None \<or> stack th = Some STACK_FENCEPOST)"

text \<open>What does not change while the thread waits; \<open>l\<close> is the semaphore of the lock of the disk.\<close>

definition anchor :: "('h \<Rightarrow> bytes \<times> nat) \<Rightarrow> sref \<Rightarrow> ('h, 'k) IOKernel_scheme \<Rightarrow> _" where
  "anchor v l k = ((currentThread k, toBeDestroyed k, tableOwner k, locks k, sems k l),
     synchDisk k, other_sems k, fileno (disk k), lastSector (disk k), fst (v (unix_state k)))"

text \<open>The other devices hold no thread, and their semaphores are not those of the disk.\<close>

definition apart :: "sref \<Rightarrow> ('h, 'k) IOKernel_scheme \<Rightarrow> bool" where
  "apart l k \<longleftrightarrow> (\<forall>s\<in>other_sems k. \<exists>n. sems k s = Some \<lparr>semval = n, queue = []\<rparr>)
     \<and> s_wait (synchDisk k) \<notin> other_sems k \<and> l \<notin> other_sems k \<and> l \<noteq> s_wait (synchDisk k)
     \<and> (\<exists>th. threads k (currentThread k) = Some th \<and> can_run th)"

text \<open>The thread waits until the disk's interrupt, due at \<open>T\<close> at the latest; or it has been woken.\<close>

definition asleep :: "int \<Rightarrow> ('h, 'k) IOKernel_scheme \<Rightarrow> bool" where
  "asleep T k \<longleftrightarrow> active (disk k) \<and> readyList k = []
     \<and> sems k (s_wait (synchDisk k)) = Some \<lparr>semval = 0, queue = [currentThread k]\<rparr>
     \<and> (\<forall>p\<in>set (pending k). callOnInterrupt p = DiskObj \<longrightarrow> due p \<le> T)"

definition awake :: "('h, 'k) IOKernel_scheme \<Rightarrow> bool" where
  "awake k \<longleftrightarrow> \<not> active (disk k) \<and> readyList k = [currentThread k]
     \<and> sems k (s_wait (synchDisk k)) = Some \<lparr>semval = 1, queue = []\<rparr>"

definition waits ::
  "'h io \<Rightarrow> ('h \<Rightarrow> bytes \<times> nat) \<Rightarrow> sref \<Rightarrow> int \<Rightarrow> ('h, 'k) IOKernel_scheme \<Rightarrow> ('h, 'k) IOKernel_scheme \<Rightarrow> bool" where
  "waits U v l T k0 k \<longleftrightarrow>
     io_ok U k \<and> steady U v \<and> anchor v l k = anchor v l k0 \<and> apart l k \<and> (asleep T k \<or> awake k)"

lemma anchor_updates [simp]:
  "anchor v l (k\<lparr>pending := ps\<rparr>) = anchor v l k" "anchor v l (k\<lparr>yieldOnReturn := b\<rparr>) = anchor v l k"
  "anchor v l (k\<lparr>stats := st\<rparr>) = anchor v l k" "anchor v l (k\<lparr>inHandler := b\<rparr>) = anchor v l k"
  "anchor v l (k\<lparr>status := s\<rparr>) = anchor v l k" "anchor v l (k\<lparr>registers := r\<rparr>) = anchor v l k"
  "anchor v l (k\<lparr>level := lv\<rparr>) = anchor v l k" "anchor v l (k\<lparr>readyList := rl\<rparr>) = anchor v l k"
  "anchor v l (k\<lparr>threads := ts\<rparr>) = anchor v l k"
  by (simp_all add: anchor_def other_sems_def)

lemma apart_updates [simp]:
  "apart l (k\<lparr>pending := ps\<rparr>) = apart l k" "apart l (k\<lparr>yieldOnReturn := b\<rparr>) = apart l k"
  "apart l (k\<lparr>stats := st\<rparr>) = apart l k" "apart l (k\<lparr>inHandler := b\<rparr>) = apart l k"
  "apart l (k\<lparr>status := s\<rparr>) = apart l k" "apart l (k\<lparr>registers := r\<rparr>) = apart l k"
  "apart l (k\<lparr>level := lv\<rparr>) = apart l k" "apart l (k\<lparr>readyList := rl\<rparr>) = apart l k"
  "apart l (k\<lparr>fileSystem := fs\<rparr>) = apart l k" "apart l (k\<lparr>disk := d\<rparr>) = apart l k"
  "apart l (k\<lparr>locks := ls\<rparr>) = apart l k"
  by (simp_all add: apart_def other_sems_def)

lemma asleep_updates [simp]:
  "asleep T (k\<lparr>yieldOnReturn := b\<rparr>) = asleep T k" "asleep T (k\<lparr>stats := st\<rparr>) = asleep T k"
  "asleep T (k\<lparr>inHandler := b\<rparr>) = asleep T k" "asleep T (k\<lparr>status := s\<rparr>) = asleep T k"
  "asleep T (k\<lparr>registers := r\<rparr>) = asleep T k" "asleep T (k\<lparr>level := lv\<rparr>) = asleep T k"
  "awake (k\<lparr>yieldOnReturn := b\<rparr>) = awake k" "awake (k\<lparr>stats := st\<rparr>) = awake k"
  "awake (k\<lparr>inHandler := b\<rparr>) = awake k" "awake (k\<lparr>status := s\<rparr>) = awake k"
  "awake (k\<lparr>registers := r\<rparr>) = awake k" "awake (k\<lparr>level := lv\<rparr>) = awake k"
  "awake (k\<lparr>pending := ps\<rparr>) = awake k"
  by (simp_all add: asleep_def awake_def)

lemma ends_parts:
  fixes k k' :: "('h, 'k) IOKernel_scheme"
  assumes "ends v k k'" "apart l k" "level k = IntOff"
  shows "anchor v l k' = anchor v l k" "apart l k'" "disk k' = disk k" "readyList k' = readyList k"
    "sems k' (s_wait (synchDisk k')) = sems k (s_wait (synchDisk k))" "currentThread k' = currentThread k"
proof -
  obtain x where x: "held v x = held v k" "k' = x \<or> (\<exists>s\<in>other_sems k. Semaphore_V s x = Ok k')"
    using assms(1) by (auto simp: ends_def)
  have hx: "anchor v l x = anchor v l k" "apart l x" "disk x = disk k" "readyList x = readyList k"
    "sems x = sems k" "synchDisk x = synchDisk k" "currentThread x = currentThread k"
    "other_sems x = other_sems k" "level x = IntOff"
    using x(1) assms(2,3) by (auto simp: held_def anchor_def apart_def)
  have "anchor v l k' = anchor v l k \<and> apart l k' \<and> disk k' = disk k \<and> readyList k' = readyList k
    \<and> sems k' (s_wait (synchDisk k')) = sems k (s_wait (synchDisk k)) \<and> currentThread k' = currentThread k"
    using x(2)
  proof
    assume "\<exists>s\<in>other_sems k. Semaphore_V s x = Ok k'"
    then obtain s where s: "s \<in> other_sems x" "Semaphore_V s x = Ok k'" using hx by auto
    then obtain n where n: "sems x s = Some \<lparr>semval = n, queue = []\<rparr>" using hx(2) by (auto simp: apart_def)
    have k': "k' = x\<lparr>sems := (sems x)(s \<mapsto> \<lparr>semval = n + 1, queue = []\<rparr>), level := IntOff\<rparr>"
      using s(2) n hx(9) by (simp add: Semaphore_V_def SetLevel_def Let_def)
    have ne: "s \<noteq> l" "s \<noteq> s_wait (synchDisk x)" using hx(2) s(1) by (auto simp: apart_def)
    have o: "other_sems k' = other_sems x" by (simp add: k' other_sems_def)
    have "anchor v l k' = anchor v l x" using ne o by (simp add: anchor_def k')
    moreover have "apart l k'" using hx(2) ne o by (auto simp: apart_def k')
    ultimately show ?thesis using hx ne by (simp add: k')
  qed (use hx in simp)
  then show "anchor v l k' = anchor v l k" "apart l k'" "disk k' = disk k" "readyList k' = readyList k"
    "sems k' (s_wait (synchDisk k')) = sems k (s_wait (synchDisk k))" "currentThread k' = currentThread k"
    by blast+
qed

text \<open>Other handlers schedule no interrupt of a disk that is busy.\<close>

lemma DiskObj_kept:
  fixes k k' :: "('h, 'k) IOKernel_scheme"
  assumes "CallBack U (callOnInterrupt p) k = Ok k'" "taken p k" "callOnInterrupt p \<noteq> DiskObj"
    "disk k' = disk k" "q \<in> set (pending k')" "callOnInterrupt q = DiskObj"
  shows "q \<in> set (pending k)"
proof -
  have lv: "level k = IntOff" using assms(2) by (simp add: taken_def)
  obtain new where new: "pending k' = insert_all new (pending k)"
    using CallBack_later [OF assms(1) lv] by (auto simp: schedules_later_def)
  have m: "mset (insert_all ns ps) = mset ns + mset ps" for ns and ps :: "PendingInterrupt list"
    by (induction ns arbitrary: ps) auto
  have "count (queued k') DiskObj = of_bool (active (disk k'))"
    using handler_dev_inv [OF assms(1,2)] by (auto simp: dev_inv_def one_each_def)
  moreover have "count (queued k) DiskObj = of_bool (active (disk k))"
    using assms(2,3) by (auto simp: taken_def one_each_def)
  ultimately have "count (image_mset callOnInterrupt (mset new)) DiskObj = 0"
    using assms(4) by (simp add: queued_def new m)
  then have "DiskObj \<notin> callOnInterrupt ` set new" by (simp add: count_eq_zero_iff)
  with assms(5,6) show ?thesis unfolding new by force
qed

lemma waits_handler:
  fixes k k' :: "('h, 'k) IOKernel_scheme"
  assumes "waits U v l T k0 k" "pending k = p # rest" "level k = IntOff" "inHandler k"
    "CallBack U (callOnInterrupt p) (k\<lparr>pending := rest\<rparr>) = Ok k'"
  shows "waits U v l T k0 k'"
proof -
  let ?k = "k\<lparr>pending := rest\<rparr>"
  have w: "io_ok U k" "steady U v" "anchor v l k = anchor v l k0" "apart l k" "asleep T k \<or> awake k"
    using assms(1) by (auto simp: waits_def)
  have io: "io_ok U k'" by (rule lv.handler_Inv [OF w(1) assms(2-5)])
  note t = taken_io(1) [OF w(1) assms(2,3)]
  show ?thesis
  proof (cases "callOnInterrupt p = DiskObj")
    case True
    then have "active (disk k)" using t by (auto simp: taken_def)
    then have sl: "asleep T k" using w(5) by (auto simp: awake_def)
    obtain th where th: "threads k (currentThread k) = Some th" "can_run th"
      using w(4) by (auto simp: apart_def)
    let ?s = "s_wait (synchDisk k)"
    have k': "k' = k\<lparr>pending := rest, disk := (disk k)\<lparr>active := False\<rparr>,
        threads := (threads k)(currentThread k \<mapsto> th\<lparr>tstatus := READY\<rparr>), readyList := [currentThread k],
        sems := (sems k)(?s \<mapsto> \<lparr>semval = 1, queue = []\<rparr>), level := IntOff\<rparr>"
      using assms(3,5) True sl th(1)
      by (simp add: CallBack_def Disk_CallBack_def SynchDisk_CallBack_def Semaphore_V_def SetLevel_def Let_def
          asleep_def ReadyToRun_def)
    have ne: "l \<noteq> ?s" "?s \<notin> other_sems k" using w(4) by (auto simp: apart_def)
    have o: "other_sems k' = other_sems k" by (simp add: k' other_sems_def)
    have "anchor v l k' = anchor v l k" using ne o by (simp add: anchor_def k')
    moreover have "apart l k'" using w(4) ne o th by (auto simp: apart_def k' can_run_def)
    moreover have "awake k'" by (simp add: awake_def k')
    ultimately show ?thesis using io w by (simp add: waits_def)
  next
    case False
    note e = CallBack_ends [OF assms(5) w(2) False]
    have "apart l ?k" "level ?k = IntOff" using w(4) assms(3) by simp_all
    note k' = ends_parts [OF e this]
    have "asleep T k' \<or> awake k'"
      using w(5) k' DiskObj_kept [OF assms(5) t False k'(3)] assms(2)
      by (auto simp: asleep_def awake_def)
    with io w k' show ?thesis by (simp add: waits_def)
  qed
qed

interpretation wt: live_devices "CallBack U" "waits U v l T k0" for U v l T k0
proof unfold_locales
  fix k :: "('a, 'b) IOKernel_scheme" and t
  assume "waits U v l T k0 k"
  then show "waits U v l T k0 (idle_until t k)"
    by (simp add: waits_def io_ok_flags) (simp add: idle_until_def)
next
  fix k :: "('a, 'b) IOKernel_scheme"
  assume "waits U v l T k0 k"
  then show "waits U v l T k0 (advance_ticks k)"
    by (simp add: waits_def io_ok_flags) (simp add: advance_ticks_def)
next
  fix k k' :: "('a, 'b) IOKernel_scheme"
  assume w: "waits U v l T k0 k" and d: "DelayedLoad k 0 0 = Ok k'"
  then have "io_ok U k'" using lv.Inv_load by (auto simp: waits_def)
  with w d show "waits U v l T k0 k'" by (auto simp: waits_def DelayedLoad_def rbind_eq_Ok)
next
  fix k :: "('a, 'b) IOKernel_scheme" and p rest
  assume "waits U v l T k0 k" "pending k = p # rest" "level k = IntOff" "inHandler k"
  then show "is_ok (CallBack U (callOnInterrupt p) (k\<lparr>pending := rest\<rparr>))"
    by (intro lv.handler_ok) (auto simp: waits_def)
next
  fix k :: "('a, 'b) IOKernel_scheme"
  assume "waits U v l T k0 k"
  then show "is_ok (DelayedLoad k 0 0)" by (intro lv.load_ok) (auto simp: waits_def)
qed (erule (4) waits_handler, simp_all add: waits_def io_ok_flags)

text \<open>The thread sleeps until the interrupt of the disk has been handled, and goes on.\<close>

definition clock_idle :: "('h, 'k) ClockKernel_scheme \<Rightarrow> bool" where
  "clock_idle k \<longleftrightarrow> clock_ok k \<and> none_due k \<and> \<not> inHandler k \<and> level k = IntOff"

lemma clock_idle_updates [simp]:
  "clock_idle (k\<lparr>threads := ts\<rparr>) = clock_idle k" "clock_idle (k\<lparr>readyList := rl\<rparr>) = clock_idle k"
  "clock_idle (k\<lparr>sems := ss\<rparr>) = clock_idle k" "clock_idle (k\<lparr>locks := ls\<rparr>) = clock_idle k"
  "clock_idle (k\<lparr>currentThread := t\<rparr>) = clock_idle k"
  by (simp_all add: clock_idle_def clock_ok_def none_due_def)

lemma Idle_waits:
  fixes k :: "('h, 'k) IOKernel_scheme"
  assumes "waits U v l T k0 k" "asleep T k" "clock_idle k"
  shows "\<exists>k'. Idle (CallBack U) k = Ok k' \<and> waits U v l T k0 k' \<and> clock_idle k' \<and> now k < now k'
    \<and> now k < T"
proof -
  have "DiskObj \<in># queued k"
    using assms(1,2) by (auto simp: waits_def io_ok_parts dev_inv_def one_each_def asleep_def
        simp flip: count_greater_zero_iff)
  then obtain p where p: "p \<in> set (pending k)" "callOnInterrupt p = DiskObj" by (auto simp: queued_def)
  then have T: "now k < T" using assms(2,3) by (fastforce simp: asleep_def clock_idle_def none_due_def)
  have ne: "pending k \<noteq> []" using p(1) by auto
  obtain k' where k': "Idle (CallBack U) k = Ok k'"
    using wt.Idle_ok [OF assms(1) _ ne] assms(3) by (auto simp: clock_idle_def is_ok_iff)
  have c: "clock_ok k" "\<not> inHandler k" using assms(3) by (simp_all add: clock_idle_def)
  note c' = dev.Idle_clock [OF k' c]
  have "now k < due (hd (pending k))"
    using assms(3) ne by (cases "pending k") (auto simp: clock_idle_def none_due_def)
  then have "now k < now k'" using c'(3) ne by (simp add: target_def)
  with k' wt.Idle_Inv [OF k' assms(1)] c' T show ?thesis by (simp add: clock_idle_def)
qed

lemma Sleep_waits:
  fixes k :: "('h, 'k) IOKernel_scheme"
  assumes "waits U v l T k0 k" "clock_idle k"
  shows "\<exists>k' n. Sleep_loop (CallBack U) k = Some (Scheduler_Run n False (k'\<lparr>readyList := []\<rparr>))
    \<and> waits U v l T k0 k' \<and> awake k' \<and> n = currentThread k' \<and> clock_idle k' \<and> now k \<le> now k'"
  using assms
proof (induction "nat (T - now k)" arbitrary: k rule: less_induct)
  case less
  have lv: "level k = IntOff" using less.prems(2) by (simp add: clock_idle_def)
  show ?case
  proof (cases "awake k")
    case True
    then have "readyList k = [currentThread k]" by (simp add: awake_def)
    with lv True less.prems show ?thesis
      by (subst Sleep_loop.simps) (auto simp: FindNextToRun_def)
  next
    case False
    then have s: "asleep T k" using less.prems(1) by (simp add: waits_def)
    obtain k1 where k1: "Idle (CallBack U) k = Ok k1" "waits U v l T k0 k1" "clock_idle k1" "now k < now k1"
        "now k < T" using Idle_waits [OF less.prems(1) s less.prems(2)] by blast
    have "Sleep_loop (CallBack U) k = Sleep_loop (CallBack U) k1"
      using s lv k1(1) by (subst Sleep_loop.simps) (simp add: FindNextToRun_def asleep_def)
    moreover have "nat (T - now k1) < nat (T - now k)" using k1(4,5) by simp
    ultimately show ?thesis using less.hyps [OF _ k1(2,3)] k1(4) by fastforce
  qed
qed

lemma Run_myself:
  fixes k :: "('h, 'k) ThreadKernel_scheme"
  assumes "threads k (currentThread k) = Some th" "can_run th" "toBeDestroyed k = None" "tableOwner k = None"
    "level k = IntOff"
  shows "Scheduler_Run (currentThread k) False k
    = Ok (put_thread k (currentThread k) (th\<lparr>tstatus := RUNNING\<rparr>))"
proof -
  have "sync_table k = k" using assms(4) by (simp add: sync_table_def)
  with assms show ?thesis
    by (auto simp: Scheduler_Run_def Run_out_def Switch_in_def CheckOverflow_def CheckToBeDestroyed_def can_run_def Let_def
        split: option.splits)
qed

section \<open>One request\<close>

lemma level_same: "level k = lv \<Longrightarrow> k\<lparr>level := lv\<rparr> = k"
  by simp

lemma SetLevel_off: "level k = IntOff \<Longrightarrow> SetLevel_alone cb IntOff k = Ok (IntOff, k)"
  by (simp add: SetLevel_alone_def Interrupt_SetLevel_def SetLevel_def Let_def level_same)

lemma P_alone_free:
  assumes "level k = IntOff" "sems k s = Some \<lparr>semval = n, queue = q\<rparr>" "n \<noteq> 0"
  shows "P_alone cb s k = Ok (put_sem k s \<lparr>semval = n - 1, queue = q\<rparr>)"
  using assms
  by (simp add: P_alone_def SetLevel_off P_loop.simps [of cb s k] Semaphore_P_def SetLevel_def level_same)

lemma V_alone_free:
  assumes "level k = IntOff" "sems k s = Some \<lparr>semval = n, queue = []\<rparr>"
  shows "V_alone cb s k = Ok (put_sem k s \<lparr>semval = n + 1, queue = []\<rparr>)"
  using assms by (simp add: V_alone_def SetLevel_off Semaphore_V_def SetLevel_def Let_def level_same)

text \<open>The updates of the threads library that keep \<open>io_ok\<close>.\<close>

lemma io_ok_threads:
  fixes k k' :: "('h, 'k) IOKernel_scheme"
  assumes "io_ok U k" "ThreadKernel.more k' = ThreadKernel.more k" "registers k' = registers k"
    "waiters_alive k'" "\<forall>s\<in>device_sems k. sems k' s \<noteq> None"
  shows "io_ok U k'"
  using assms dev_inv_more [OF assms(2)] io_of_more [OF assms(2)] by (simp add: io_ok_parts sync_ok_def)

lemma io_ok_put_sem:
  assumes "io_ok U k" "\<forall>t\<in>set (queue sm). threads k t \<noteq> None"
  shows "io_ok U (put_sem k s sm)"
  using assms by (intro io_ok_threads [OF assms(1)]) (auto simp: io_ok_def waiters_alive_def)

lemma io_ok_put_thread: "io_ok U k \<Longrightarrow> io_ok U (put_thread k t th)"
  by (rule io_ok_threads) (auto simp: io_ok_def waiters_alive_def)

lemma io_ok_other [simp]:
  "io_ok U (k\<lparr>locks := ls\<rparr>) = io_ok U k" "io_ok U (k\<lparr>readyList := rl\<rparr>) = io_ok U k"
  by (simp_all add: io_ok_def waiters_alive_def device_sems_def dev_inv_def queued_def)

text \<open>
  The one thread of the machine, with the disk holding \<open>c\<close>: \<open>busy\<close> when a request is in progress, and
  \<open>mine\<close> when the thread has the lock of the disk, whose semaphore is \<open>l\<close>.
\<close>

definition sits ::
  "'h io \<Rightarrow> ('h \<Rightarrow> bytes \<times> nat) \<Rightarrow> sref \<Rightarrow> bytes \<Rightarrow> bool \<Rightarrow> bool \<Rightarrow> ('h, 'k) IOKernel_scheme \<Rightarrow> bool" where
  "sits U v l c busy mine k \<longleftrightarrow>
     io_ok U k \<and> clock_idle k \<and> 0 \<le> now k
     \<and> posix_file (files U) (fileno (disk k)) v \<and> steady U v \<and> fst (v (unix_state k)) = c \<and> disk_image c
     \<and> 0 \<le> lastSector (disk k) \<and> lastSector (disk k) < NumSectors
     \<and> apart l k \<and> toBeDestroyed k = None \<and> tableOwner k = None \<and> readyList k = [] \<and> active (disk k) = busy
     \<and> sems k (s_wait (synchDisk k)) = Some \<lparr>semval = 0, queue = []\<rparr>
     \<and> sems k l = Some \<lparr>semval = (if mine then 0 else 1), queue = []\<rparr>
     \<and> locks k (s_lock (synchDisk k))
         = Some \<lparr>semaphore = l, lockHolder = (if mine then Some (currentThread k) else None)\<rparr>"

lemma apart_put_sem:
  "s \<notin> other_sems k \<Longrightarrow> apart l (put_sem k s sm) = apart l k"
  by (auto simp: apart_def other_sems_def)

lemma sits_apart:
  assumes "sits U v l c b m k"
  shows "l \<noteq> s_wait (synchDisk k)" "s_wait (synchDisk k) \<noteq> l" "l \<notin> other_sems k" "s_wait (synchDisk k) \<notin> other_sems k"
    "level k = IntOff"
  using assms by (auto simp: sits_def apart_def clock_idle_def)

lemma Acquire_sits:
  fixes k :: "('h, 'k) IOKernel_scheme"
  assumes "sits U v l c False False k"
  shows "\<exists>k'. Acquire_alone cb (s_lock (synchDisk k)) k = Ok k' \<and> sits U v l c False True k'
    \<and> synchDisk k' = synchDisk k"
proof -
  let ?k1 = "put_sem k l \<lparr>semval = 0, queue = []\<rparr>"
  let ?k' = "?k1\<lparr>locks := (locks k)(s_lock (synchDisk k) \<mapsto> \<lparr>semaphore = l, lockHolder = Some (currentThread k)\<rparr>)\<rparr>"
  note n = sits_apart [OF assms]
  have "P_alone cb l k = Ok ?k1"
    using P_alone_free [OF n(5), of l 1] assms by (simp add: sits_def)
  then have "Acquire_alone cb (s_lock (synchDisk k)) k = Ok ?k'"
    using assms by (simp add: Acquire_alone_def Lock_SetHolder_def sits_def)
  moreover have "io_ok U ?k1" using assms by (intro io_ok_put_sem) (auto simp: sits_def)
  then have "sits U v l c False True ?k'"
    using assms n by (auto simp: sits_def apart_put_sem)
  ultimately show ?thesis by simp
qed

lemma Release_sits:
  fixes k :: "('h, 'k) IOKernel_scheme"
  assumes "sits U v l c False True k"
  shows "\<exists>k'. Release_alone cb (s_lock (synchDisk k)) k = Ok k' \<and> sits U v l c False False k'"
proof -
  let ?k1 = "k\<lparr>locks := (locks k)(s_lock (synchDisk k) \<mapsto> \<lparr>semaphore = l, lockHolder = None\<rparr>)\<rparr>"
  let ?k' = "put_sem ?k1 l \<lparr>semval = 1, queue = []\<rparr>"
  note n = sits_apart [OF assms]
  have "V_alone cb l ?k1 = Ok ?k'"
    using V_alone_free [of ?k1 l 0 cb] n(5) assms by (simp add: sits_def)
  then have R: "Release_alone cb (s_lock (synchDisk k)) k = Ok ?k'"
    using assms by (simp add: Release_alone_def Lock_ClearHolder_def IsHeldByCurrentThread_def sits_def)
  have "io_ok U ?k'" using assms by (intro io_ok_put_sem) (auto simp: sits_def)
  moreover have "apart l ?k'" using apart_put_sem [of l ?k1 l] n assms by (simp add: sits_def)
  ultimately have "sits U v l c False False ?k'"
    using assms n by (auto simp: sits_def)
  with R show ?thesis by blast
qed

definition same_ticks :: "Statistics \<Rightarrow> Statistics \<Rightarrow> bool" where
  "same_ticks st st' \<longleftrightarrow> idleTicks st' = idleTicks st \<and> systemTicks st' = systemTicks st
     \<and> userTicks st' = userTicks st"

text \<open>Only the fields of the disk, the host, the statistics and the pending interrupts change.\<close>

definition disk_step :: "('h, 'k) IOKernel_scheme \<Rightarrow> ('h, 'k) IOKernel_scheme \<Rightarrow> bool" where
  "disk_step k k' \<longleftrightarrow> (\<exists>fs dk st ps. k' = k\<lparr>fileSystem := fs, disk := dk, stats := st, pending := ps\<rparr>
     \<and> same_ticks (stats k) st)"

lemma Request_frame:
  fixes k k' :: "('h, 'k) IOKernel_scheme"
  assumes "ReadRequest U s k = Ok (d, k') \<or> WriteRequest U s d k = Ok k'"
  shows "disk_step k k'"
proof -
  have P: "disk_step k k'" if s: "Schedule DiskObj n DiskInt (count_stat f (UpdateLast s (k\<lparr>fileSystem := fs,
      disk := (disk k)\<lparr>active := True\<rparr>\<rparr>))) = Ok k'" "\<And>st. same_ticks st (f st)"
    for n f fs
  proof -
    obtain dk where d: "UpdateLast s (k\<lparr>fileSystem := fs, disk := (disk k)\<lparr>active := True\<rparr>\<rparr>)
        = k\<lparr>fileSystem := fs, disk := dk\<rparr>"
      using UpdateLast_disk [of s "k\<lparr>fileSystem := fs, disk := (disk k)\<lparr>active := True\<rparr>\<rparr>"] by auto
    obtain ps where "k' = k\<lparr>fileSystem := fs, disk := dk, stats := f (stats k), pending := ps\<rparr>"
      using queued_Schedule(2) [OF s(1)] unfolding d by (auto simp: count_stat_def)
    with s(2) show ?thesis unfolding disk_step_def by blast
  qed
  from assms show ?thesis
    by (auto simp: ReadRequest_def WriteRequest_def Let_def elim!: rbind_OkE)
       (erule P, simp add: same_ticks_def)+
qed

lemma started_clock:
  fixes k k' :: "('h, 'k) IOKernel_scheme"
  assumes "started s w k k'" "0 < ComputeLatency s w k" "clock_idle k" "level k' = IntOff" "\<not> inHandler k'"
    "idleTicks (stats k') = idleTicks (stats k)" "systemTicks (stats k') = systemTicks (stats k)"
    "userTicks (stats k') = userTicks (stats k)"
  shows "clock_idle k'"
  using assms by (auto simp: clock_idle_def clock_ok_def none_due_def started_def)

lemma Request_sits:
  fixes k k' :: "('h, 'k) IOKernel_scheme"
  assumes "sits U v l c False True k" "ReadRequest U s k = Ok (d, k') \<or> WriteRequest U s d k = Ok k'"
    "started s w k k'" "disk_image (fst (v (unix_state k')))" "0 \<le> s" "s < NumSectors"
  shows "sits U v l (fst (v (unix_state k'))) True True k'" "synchDisk k' = synchDisk k"
proof -
  obtain fs dk st ps where k': "k' = k\<lparr>fileSystem := fs, disk := dk, stats := st, pending := ps\<rparr>"
      "idleTicks st = idleTicks (stats k)" "systemTicks st = systemTicks (stats k)" "userTicks st = userTicks (stats k)"
    using Request_frame [OF assms(2)] by (auto simp: disk_step_def same_ticks_def)
  have b: "0 \<le> lastSector (disk k)" "lastSector (disk k) < 1024" "0 \<le> now k" "clock_idle k" "io_ok U k"
    using assms(1) by (auto simp: sits_def disk_consts)
  have "0 < ComputeLatency s w k" using Latency_bounds(1) [of s k w] assms(5,6) b by (simp add: disk_consts)
  then have "clock_idle k'"
    by (intro started_clock [OF assms(3) _ b(4)]) (use k' b(4) in \<open>auto simp: clock_idle_def\<close>)
  moreover have "dev_inv k'"
    using assms(2) ReadRequest_dev_inv WriteRequest_dev_inv b(5) by (auto simp: io_ok_def)
  then have "io_ok U k'" using b(5) by (auto simp: io_ok_parts k')
  moreover have "now k' = now k" "fileno (disk k') = fileno (disk k)" "active (disk k')" "lastSector (disk k') = s"
    using assms(3) by (auto simp: started_def)
  ultimately show "sits U v l (fst (v (unix_state k'))) True True k'" "synchDisk k' = synchDisk k"
    using assms(1,4-6) k'(1) by (auto simp: sits_def)
qed

text \<open>The thread sleeps on the semaphore of the disk and comes back when the request is done.\<close>

lemma sleep_state:
  fixes k :: "('h, 'k) IOKernel_scheme"
  assumes "sits U v l c True True k"
  shows "\<exists>k' T. Semaphore_P IntOff (s_wait (synchDisk k)) k = Ok (False, k') \<and> waits U v l T k k' \<and> clock_idle k'
    \<and> synchDisk k' = synchDisk k \<and> 0 \<le> now k'"
proof -
  let ?s = "s_wait (synchDisk k)"
  note n = sits_apart [OF assms]
  obtain th where th: "threads k (currentThread k) = Some th" "can_run th"
    using assms by (auto simp: sits_def apart_def)
  let ?k1 = "put_sem k ?s \<lparr>semval = 0, queue = [currentThread k]\<rparr>"
  let ?k' = "put_thread ?k1 (currentThread k) (th\<lparr>tstatus := BLOCKED\<rparr>)"
  have P: "Semaphore_P IntOff ?s k = Ok (False, ?k')"
    using assms n(5) th(1)
    by (simp add: Semaphore_P_def SetLevel_def Sleep_enter_def sits_def level_same)
  have "io_ok U ?k1" using assms th(1) by (intro io_ok_put_sem) (auto simp: sits_def)
  then have io: "io_ok U ?k'" by (rule io_ok_put_thread)
  have "DiskObj \<in># queued k"
    using assms by (auto simp: sits_def io_ok_parts dev_inv_def one_each_def simp flip: count_greater_zero_iff)
  define T where "T = Max (due ` set (pending k))"
  have T: "\<forall>p\<in>set (pending k). due p \<le> T" by (simp add: T_def)
  have "anchor v l ?k' = anchor v l k" using n by (simp add: anchor_def)
  moreover have "apart l ?k'" using assms n th by (auto simp: sits_def apart_def can_run_def)
  moreover have "asleep T ?k'" using assms T n by (auto simp: sits_def asleep_def)
  ultimately have "waits U v l T k ?k'" using io assms by (simp add: waits_def sits_def)
  moreover have "clock_idle ?k'" "0 \<le> now ?k'" using assms by (simp_all add: sits_def)
  ultimately show ?thesis using P by auto
qed

lemma wake_up:
  fixes k k0 :: "('h, 'k) IOKernel_scheme"
  assumes "waits U v l T k0 k" "awake k" "clock_idle k" "sits U v l c True True k0" "0 \<le> now k"
  shows "\<exists>k'. Scheduler_Run (currentThread k) False (k\<lparr>readyList := []\<rparr>) = Ok k'
    \<and> (\<exists>k''. Semaphore_P IntOff (s_wait (synchDisk k0)) k' = Ok (True, k'') \<and> sits U v l c False True k''
        \<and> synchDisk k'' = synchDisk k0 \<and> level k'' = IntOff)"
proof -
  let ?s = "s_wait (synchDisk k)"
  have w: "io_ok U k" "anchor v l k = anchor v l k0" "apart l k" "steady U v"
    using assms(1) by (auto simp: waits_def)
  have a: "currentThread k = currentThread k0" "toBeDestroyed k = None" "tableOwner k = None" "locks k = locks k0"
    "sems k l = Some \<lparr>semval = 0, queue = []\<rparr>" "synchDisk k = synchDisk k0" "fileno (disk k) = fileno (disk k0)"
    "lastSector (disk k) = lastSector (disk k0)" "fst (v (unix_state k)) = c"
    using w(2) assms(4) by (auto simp: anchor_def sits_def)
  have lv: "level k = IntOff" using assms(3) by (simp add: clock_idle_def)
  obtain th where th: "threads k (currentThread k) = Some th" "can_run th"
    using w(3) by (auto simp: apart_def)
  let ?k' = "put_thread (k\<lparr>readyList := []\<rparr>) (currentThread k) (th\<lparr>tstatus := RUNNING\<rparr>)"
  let ?k'' = "put_sem ?k' ?s \<lparr>semval = 0, queue = []\<rparr>"
  have R: "Scheduler_Run (currentThread k) False (k\<lparr>readyList := []\<rparr>) = Ok ?k'"
    using Run_myself [of "k\<lparr>readyList := []\<rparr>" th] th a lv by simp
  have P: "Semaphore_P IntOff (s_wait (synchDisk k0)) ?k' = Ok (True, ?k'')"
    using assms(2) lv a(6) by (simp add: Semaphore_P_def SetLevel_def level_same awake_def)
  have "io_ok U ?k'" using io_ok_put_thread [of U "k\<lparr>readyList := []\<rparr>"] w(1) by simp
  then have "io_ok U ?k''" by (rule io_ok_put_sem) simp
  moreover have "clock_idle ?k''" using assms(3) by simp
  moreover have n: "l \<noteq> s_wait (synchDisk k0)" "s_wait (synchDisk k0) \<notin> other_sems k"
    using w(3) a(6) by (auto simp: apart_def)
  then have "apart l ?k''" using w(3) th a(6) by (auto simp: apart_def can_run_def)
  ultimately have "sits U v l c False True ?k''"
    using a assms(2,4,5) w(4) n by (auto simp: sits_def awake_def)
  moreover have "synchDisk ?k'' = synchDisk k0" "level ?k'' = IntOff" using a(6) lv by simp_all
  ultimately show ?thesis using R P by blast
qed

lemma P_sits:
  fixes k :: "('h, 'k) IOKernel_scheme"
  assumes "sits U v l c True True k"
  shows "\<exists>k'. P_alone (CallBack U) (s_wait (synchDisk k)) k = Ok k' \<and> sits U v l c False True k'
    \<and> synchDisk k' = synchDisk k"
proof -
  let ?cb = "CallBack U" and ?s = "s_wait (synchDisk k)"
  obtain k1 T where k1: "Semaphore_P IntOff ?s k = Ok (False, k1)" "waits U v l T k k1" "clock_idle k1"
      "synchDisk k1 = synchDisk k" "0 \<le> now k1" using sleep_state [OF assms] by blast
  obtain k2 where k2: "Sleep_loop ?cb k1 = Some (Scheduler_Run (currentThread k2) False (k2\<lparr>readyList := []\<rparr>))"
      "waits U v l T k k2" "awake k2" "clock_idle k2" "0 \<le> now k2"
    using Sleep_waits [OF k1(2,3)] k1(5) by fastforce
  obtain k3 k4 where k3: "Scheduler_Run (currentThread k2) False (k2\<lparr>readyList := []\<rparr>) = Ok k3"
      "Semaphore_P IntOff ?s k3 = Ok (True, k4)" "sits U v l c False True k4" "synchDisk k4 = synchDisk k"
      "level k4 = IntOff" using wake_up [OF k2(2-4) assms k2(5)] by blast
  have "P_loop ?cb ?s k3 = Some (Ok k4)" using k3(2) by (subst P_loop.simps) simp
  then have "P_loop ?cb ?s k = Some (Ok k4)"
    using k1(1) k2(1) k3(1) by (subst P_loop.simps) simp
  moreover have "level k = IntOff" using assms by (simp add: sits_def clock_idle_def)
  ultimately have "P_alone ?cb ?s k = Ok k4" using k3(5) by (simp add: P_alone_def SetLevel_off)
  with k3 show ?thesis by blast
qed

section \<open>The interface of the file system\<close>

text \<open>\<open>lone U v l c k\<close>: one thread, at rest, and the disk's file on the host holds \<open>c\<close>.\<close>

definition lone :: "'h io \<Rightarrow> ('h \<Rightarrow> bytes \<times> nat) \<Rightarrow> sref \<Rightarrow> ('h, 'k) IOKernel_scheme \<Rightarrow> bool" where
  "lone U v l k \<longleftrightarrow> sits U v l (fst (v (unix_state k))) False False k"

definition sectors :: "('h \<Rightarrow> bytes \<times> nat) \<Rightarrow> ('h, 'k) IOKernel_scheme \<Rightarrow> bytes list" where
  "sectors v k = disk_sectors (fst (v (unix_state k)))"

definition synch_disk :: "'h io \<Rightarrow> ('h, 'k) IOKernel_scheme disk_ops" where
  "synch_disk U = \<lparr>read_sector = ReadSector (CallBack U) U, write_sector = WriteSector (CallBack U) U\<rparr>"

lemma sits_content: "sits U v l c b m k \<Longrightarrow> fst (v (unix_state k)) = c"
  by (simp add: sits_def)

lemma ReadSector_lone:
  fixes k :: "('h, 'k) IOKernel_scheme"
  assumes "lone U v l k" "s < 1024"
  shows "\<exists>k'. ReadSector (CallBack U) U (int s) k = Ok (sectors v k ! s, k') \<and> lone U v l k' \<and> sectors v k' = sectors v k"
proof -
  let ?c = "fst (v (unix_state k))"
  obtain k1 where k1: "Acquire_alone (CallBack U) (s_lock (synchDisk k)) k = Ok k1" "sits U v l ?c False True k1"
    using Acquire_sits assms(1) unfolding lone_def by blast
  have s: "0 \<le> int s" "int s < NumSectors" using assms(2) by (simp_all add: disk_consts)
  obtain k2 where k2: "ReadRequest U (int s) k1 = Ok (disk_sectors ?c ! s, k2)" "started (int s) False k1 k2"
      "fst (v (unix_state k2)) = ?c"
    using ReadRequest_spec [of ?c v k1 U "int s"] k1(2) s by (auto simp: sits_def)
  have "disk_image (fst (v (unix_state k2)))" using k1(2) k2(3) by (simp add: sits_def)
  note r = Request_sits [OF k1(2) disjI1 [OF k2(1)] k2(2) this s]
  obtain k3 where k3: "P_alone (CallBack U) (s_wait (synchDisk k2)) k2 = Ok k3" "sits U v l ?c False True k3"
    using P_sits [OF r(1)] k2(3) by auto
  obtain k4 where k4: "Release_alone (CallBack U) (s_lock (synchDisk k3)) k3 = Ok k4" "sits U v l ?c False False k4"
    using Release_sits [OF k3(2)] by blast
  then have "fst (v (unix_state k4)) = ?c" by (simp add: sits_content)
  with k1(1) k2(1) k3(1) k4 show ?thesis by (simp add: ReadSector_def lone_def sectors_def)
qed

lemma WriteSector_lone:
  fixes k :: "('h, 'k) IOKernel_scheme"
  assumes "lone U v l k" "s < 1024" "length b = 128"
  shows "\<exists>k'. WriteSector (CallBack U) U (int s) b k = Ok k' \<and> lone U v l k' \<and> sectors v k' = (sectors v k)[s := b]"
proof -
  let ?c = "fst (v (unix_state k))"
  obtain k1 where k1: "Acquire_alone (CallBack U) (s_lock (synchDisk k)) k = Ok k1" "sits U v l ?c False True k1"
    using Acquire_sits assms(1) unfolding lone_def by blast
  have s: "0 \<le> int s" "int s < NumSectors" "length b = nat SectorSize" using assms(2,3) by (simp_all add: disk_consts)
  obtain k2 where k2: "WriteRequest U (int s) b k1 = Ok k2" "started (int s) True k1 k2"
      "disk_image (fst (v (unix_state k2)))" "disk_sectors (fst (v (unix_state k2))) = (disk_sectors ?c)[s := b]"
    using WriteRequest_spec [of ?c v k1 U "int s" b] k1(2) s by (auto simp: sits_def)
  note r = Request_sits [OF k1(2) disjI2 [OF k2(1)] k2(2,3) s(1,2)]
  let ?d = "fst (v (unix_state k2))"
  obtain k3 where k3: "P_alone (CallBack U) (s_wait (synchDisk k2)) k2 = Ok k3" "sits U v l ?d False True k3"
    using P_sits [OF r(1)] by auto
  obtain k4 where k4: "Release_alone (CallBack U) (s_lock (synchDisk k3)) k3 = Ok k4" "sits U v l ?d False False k4"
    using Release_sits [OF k3(2)] by blast
  then have "fst (v (unix_state k4)) = ?d" by (simp add: sits_content)
  with k1(1) k2(1,4) k3(1) k4 show ?thesis by (simp add: WriteSector_def lone_def sectors_def)
qed

interpretation sd: sector_disk "synch_disk U" "lone U v l" "sectors v" for U v l
proof unfold_locales
  fix k :: "('a, 'b) IOKernel_scheme"
  assume "lone U v l k"
  then show "wf_sectors (sectors v k)"
    by (auto simp: lone_def sits_def sectors_def wf_sectors_def disk_sectors_def disk_image_def)
qed (use ReadSector_lone WriteSector_lone in \<open>auto simp: synch_disk_def\<close>)

end
