(* ===== verification/File_System.thy ===== *)
theory File_System
  imports Synch_Disk
begin

text \<open>
  What the disk file system is for its users: a map from names to contents, kept on the simulated disk
  that a thread waits for. The properties here join the components: \<open>FileSystem\<close> on \<open>OpenFile\<close>,
  \<open>FileHeader\<close>, \<open>Directory\<close> and \<open>PersistentBitmap\<close>, on \<open>SynchDisk\<close>, on \<open>Disk\<close> with the interrupts and
  the scheduler, on a file of the host.
\<close>

section \<open>The abstract file system\<close>

text \<open>
  \<open>disk_fs U v l fs k F n\<close>: on the disk of the kernel \<open>k\<close> the file system \<open>fs\<close> keeps the contents \<open>F\<close>, by
  name, and has \<open>n\<close> free sectors.
\<close>

definition disk_fs ::
  "'h io \<Rightarrow> ('h \<Rightarrow> bytes \<times> nat) \<Rightarrow> sref \<Rightarrow> DiskFS \<Rightarrow> ('h, 'k) IOKernel_scheme \<Rightarrow> (bytes \<rightharpoonup> bytes) \<Rightarrow> int \<Rightarrow> bool" where
  "disk_fs U v l fs k F n \<longleftrightarrow> lone U v l k
     \<and> (\<exists>tbl m. fs_rep fs (sectors v k) tbl m \<and> files_of (sectors v k) tbl = F \<and> free_sectors m = n)"

text \<open>The open file \<open>f\<close> is the one with the name \<open>nm\<close>.\<close>

definition opened ::
  "('h \<Rightarrow> bytes \<times> nat) \<Rightarrow> DiskFS \<Rightarrow> ('h, 'k) IOKernel_scheme \<Rightarrow> NachosFile \<Rightarrow> bytes \<Rightarrow> bool" where
  "opened v fs k f nm \<longleftrightarrow>
     (\<exists>tbl m pre e post. fs_rep fs (sectors v k) tbl m \<and> tbl = pre @ e # post \<and> inUse e \<and> entry_name e = nm
       \<and> nf_hdr f = hdr_at (sectors v k) (e_sector e))"

lemma dir_map_card:
  assumes "names_differ tbl"
  shows "card (dom (dir_map tbl)) = length (filter inUse tbl)"
proof -
  have "dom (dir_map tbl) = set (map entry_name (filter inUse tbl))"
    by (force simp: dir_map_def dom_map_of_conv_image_fst)
  with assms show ?thesis unfolding names_differ_def by (metis distinct_card length_map)
qed

lemma files_of_dom: "dom (files_of ss tbl) = dom (dir_map tbl)"
  by (auto simp: files_of_def)

lemma room_iff:
  assumes "fs_rep fs ss tbl m"
  shows "(\<exists>e\<in>set tbl. \<not> inUse e) \<longleftrightarrow> card (dom (files_of ss tbl)) < NumDirEntries"
proof -
  have "(\<exists>e\<in>set tbl. \<not> inUse e) \<longleftrightarrow> length (filter inUse tbl) < length tbl"
    by (metis filter_id_conv length_filter_le length_filter_less nat_less_le)
  then show ?thesis
    using dir_map_card [OF fs_repD(15) [OF assms]] fs_repD(10) [OF assms] by (simp add: files_of_dom NumDirEntries_def)
qed

lemma fs_rep_table:
  assumes "fs_rep fs ss tbl m" "fs_rep fs ss tbl' m'"
  shows "tbl' = tbl"
  using parse_table_bytes(1) [OF fs_repD(11) [OF assms(1)]] parse_table_bytes(1) [OF fs_repD(11) [OF assms(2)]]
    fs_repD(10,12) [OF assms(1)] fs_repD(10,12) [OF assms(2)] by simp

lemma opened_entry:
  assumes "disk_fs U v l fs k F n" "opened v fs k f nm"
  obtains pre e post m where "fs_rep fs (sectors v k) (pre @ e # post) m" "inUse e" "entry_name e = nm"
    "nf_hdr f = hdr_at (sectors v k) (e_sector e)" "files_of (sectors v k) (pre @ e # post) = F"
    "free_sectors m = n" "lone U v l k"
  using assms fs_rep_table unfolding disk_fs_def opened_def by metis

section \<open>Files that are open\<close>

lemma fs_ReadAt:
  fixes num position :: int
  assumes "disk_fs U v l fs k F n" "opened v fs k f nm" "0 \<le> position"
  shows "\<exists>c k'. F nm = Some c
    \<and> NachosFile_ReadAt (synch_disk U) f num position k
        = Ok ((int (length (take (nat num) (drop (nat position) c))), take (nat num) (drop (nat position) c)), k')
    \<and> disk_fs U v l fs k' F n \<and> opened v fs k' f nm"
proof -
  obtain pre e post m where e: "fs_rep fs (sectors v k) (pre @ e # post) m" "inUse e" "entry_name e = nm"
    "nf_hdr f = hdr_at (sectors v k) (e_sector e)" "files_of (sectors v k) (pre @ e # post) = F"
    "free_sectors m = n" "lone U v l k" by (rule opened_entry [OF assms(1,2)])
  note a = sd.file_access [OF e(1,7) refl e(2,4) assms(3)]
  obtain k' where k': "NachosFile_ReadAt (synch_disk U) f num position k
      = Ok ((int (length (take (nat num) (drop (nat position) (file_bytes (sectors v k) (nf_hdr f))))),
             take (nat num) (drop (nat position) (file_bytes (sectors v k) (nf_hdr f)))), k')"
      "lone U v l k'" "sectors v k' = sectors v k" using a(2) [of num] e(4) by auto
  moreover have "disk_fs U v l fs k' F n" using e k' by (auto simp: disk_fs_def)
  moreover have "opened v fs k' f nm" using e k' by (auto simp: opened_def)
  ultimately show ?thesis using a(1) e(3,4,5) by auto
qed

lemma fs_WriteAt:
  fixes num position :: int
  assumes "disk_fs U v l fs k F n" "opened v fs k f nm" "0 \<le> position" "num \<le> int (length src)"
  shows "\<exists>c w k'. F nm = Some c \<and> w = min (nat num) (length c - nat position)
    \<and> NachosFile_WriteAt (synch_disk U) junk f src num position k = Ok (int w, k')
    \<and> disk_fs U v l fs k' (F(nm \<mapsto> take (nat position) c @ take w src @ drop (nat position + w) c)) n
    \<and> opened v fs k' f nm"
proof -
  obtain pre e post m where e: "fs_rep fs (sectors v k) (pre @ e # post) m" "inUse e" "entry_name e = nm"
    "nf_hdr f = hdr_at (sectors v k) (e_sector e)" "files_of (sectors v k) (pre @ e # post) = F"
    "free_sectors m = n" "lone U v l k" by (rule opened_entry [OF assms(1,2)])
  note a = sd.file_access [OF e(1,7) refl e(2,4) assms(3)]
  define c where "c = file_bytes (sectors v k) (nf_hdr f)"
  define w where "w = min (nat num) (length c - nat position)"
  have Fc: "F nm = Some c" using a(1) e(3,4,5) by (simp add: c_def)
  obtain k' where k': "NachosFile_WriteAt (synch_disk U) junk f src num position k = Ok (int w, k')"
      "lone U v l k'" "fs_rep fs (sectors v k') (pre @ e # post) m"
      "hdr_at (sectors v k') (e_sector e) = hdr_at (sectors v k) (e_sector e)"
      "files_of (sectors v k') (pre @ e # post)
        = F(nm \<mapsto> take (nat position) c @ take w src @ drop (nat position + w) c)"
    using a(3) [OF assms(4), of junk] e(3-5) unfolding c_def w_def by metis
  have "disk_fs U v l fs k' (F(nm \<mapsto> take (nat position) c @ take w src @ drop (nat position + w) c)) n"
    using e k' unfolding disk_fs_def by blast
  moreover have "opened v fs k' f nm" using e k' unfolding opened_def by metis
  ultimately show ?thesis using Fc k'(1) w_def by blast
qed

lemma fs_Open:
  assumes "disk_fs U v l fs k F n"
  shows "\<exists>f k'. DiskFS_Open (synch_disk U) heap fs name k = Ok (f, k') \<and> disk_fs U v l fs k' F n
    \<and> (case f of Null \<Rightarrow> F (key name) = None
       | Ptr f \<Rightarrow> seekPosition f = 0 \<and> F (key name) \<noteq> None \<and> opened v fs k' f (key name)
       | _ \<Rightarrow> False)"
proof -
  obtain tbl m where r: "fs_rep fs (sectors v k) tbl m" "files_of (sectors v k) tbl = F" "free_sectors m = n" "lone U v l k"
    using assms by (auto simp: disk_fs_def)
  obtain f k' where k': "DiskFS_Open (synch_disk U) heap fs name k = Ok (f, k')" "lone U v l k'"
      "sectors v k' = sectors v k"
      "case f of Null \<Rightarrow> dir_map tbl (key name) = None
       | Ptr f \<Rightarrow> seekPosition f = 0 \<and> (\<exists>pre e post. tbl = pre @ e # post \<and> inUse e \<and> entry_name e = key name
           \<and> nf_hdr f = hdr_at (sectors v k) (e_sector e)) | _ \<Rightarrow> False"
    using sd.Open_spec [OF r(1,4), of heap name] by blast
  have d: "disk_fs U v l fs k' F n" using r k' by (auto simp: disk_fs_def)
  show ?thesis
  proof (cases f)
    case Null
    then have "F (key name) = None" using k'(4) r(2) by (auto simp: files_of_def)
    with Null d k'(1) show ?thesis by auto
  next
    case (Ptr g)
    then obtain pre e post where e: "seekPosition g = 0" "tbl = pre @ e # post" "inUse e" "entry_name e = key name"
      "nf_hdr g = hdr_at (sectors v k) (e_sector e)" using k'(4) by auto
    have o: "opened v fs k' g (key name)" unfolding opened_def using e r(1) k'(3) by metis
    then obtain c where "F (key name) = Some c" using fs_ReadAt [OF d, of g "key name" 0] by auto
    with Ptr d k'(1) o e(1) show ?thesis by auto
  qed (use k' in auto)
qed

lemma fs_Create:
  fixes k :: "('h, 'k) IOKernel_scheme"
  assumes "disk_fs U v l fs k F n" "0 \<notin> set name" "0 \<le> fsize" "fsize \<le> MaxFileSize"
  shows "\<exists>ok k' content. DiskFS_Create (synch_disk U) heap fs name fsize k = Ok (ok, k')
    \<and> (ok \<longleftrightarrow> F (take FileNameMaxLen name) = None \<and> card (dom F) < NumDirEntries
          \<and> 1 + divRoundUp fsize SectorSize \<le> n)
    \<and> (if ok then int (length content) = fsize
            \<and> disk_fs U v l fs k' (F(take FileNameMaxLen name \<mapsto> content)) (n - (1 + divRoundUp fsize SectorSize))
       else disk_fs U v l fs k' F n)"
proof -
  obtain tbl m where t: "fs_rep fs (sectors v k) tbl m" "lone U v l k" "files_of (sectors v k) tbl = F"
      "free_sectors m = n" using assms(1) unfolding disk_fs_def by blast
  have none: "dir_map tbl (key name) = None \<longleftrightarrow> F (key name) = None" unfolding t(3) [symmetric] by (simp add: files_of_def)
  have room: "(\<exists>e\<in>set tbl. \<not> inUse e) \<longleftrightarrow> card (dom F) < NumDirEntries" using room_iff [OF t(1)] t(3) by simp
  obtain ok k' where k': "DiskFS_Create (synch_disk U) heap fs name fsize k = Ok (ok, k')" "lone U v l k'"
      "ok \<longleftrightarrow> F (key name) = None \<and> card (dom F) < NumDirEntries \<and> 1 + divRoundUp fsize SectorSize \<le> n"
      "\<not> ok \<Longrightarrow> sectors v k' = sectors v k"
      "ok \<Longrightarrow> \<exists>tbl' m' content. fs_rep fs (sectors v k') tbl' m' \<and> length content = nat fsize
        \<and> files_of (sectors v k') tbl' = F(key name \<mapsto> content)
        \<and> free_sectors m' = n - (1 + divRoundUp fsize SectorSize)"
    using sd.Create_spec [OF t(1,2) assms(2-4), of heap] unfolding none room t(3,4) by blast
  show ?thesis
  proof (cases ok)
    case True
    obtain content where c: "length content = nat fsize"
      "disk_fs U v l fs k' (F(key name \<mapsto> content)) (n - (1 + divRoundUp fsize SectorSize))"
      using k'(5) [OF True] k'(2) unfolding disk_fs_def by blast
    show ?thesis
      by (rule exI [of _ ok], rule exI [of _ k'], rule exI [of _ content], intro conjI k'(1,3))
         (simp only: True if_True, use c assms(3) in simp)
  next
    case False
    then have d: "disk_fs U v l fs k' F n" using k'(2,4) t unfolding disk_fs_def by metis
    show ?thesis
      by (rule exI [of _ ok], rule exI [of _ k'], rule exI [of _ "[]"], intro conjI k'(1,3))
         (simp only: False if_False d)
  qed
qed

section \<open>A file larger than a header can describe\<close>

lemma too_large:
  assumes "MaxFileSize < fsize"
  shows "NumDirect < divRoundUp fsize SectorSize"
  using assms divRoundUp_covers(1) [of fsize 128] by (simp add: NumDirect_eq disk_consts)

context sector_disk
begin

lemma Create_overrun:
  assumes rep: "fs_rep fs (S d) tbl m" and "I d" "MaxFileSize < fsize"
    and "dir_map tbl (key name) = None" "\<exists>e\<in>set tbl. \<not> inUse e" "1 + divRoundUp fsize SectorSize \<le> free_sectors m"
  shows "DiskFS_Create D heap fs name fsize d = Fault OutOfRange"
proof -
  note r = fs_repD [OF rep] and fm = full_mapD [OF fs_repD(8) [OF rep]]
  have big: "0 \<le> fsize" "NumDirect < divRoundUp fsize SectorSize"
    using assms(3) too_large by (auto simp: NumDirect_eq)
  obtain d1 where d1: "Directory_FetchFrom D (directoryFile fs) (Directory_new (heap 0) NumDirEntries) d = Ok (tbl, d1)"
    "I d1" "S d1 = S d" using fetch_dir [OF rep assms(2)] by blast
  have rep1: "fs_rep fs (S d1) tbl m" using rep d1(3) by simp
  obtain d2 where d2: "PBitmap_file D (freeMapFile fs) NumSectors d1 = Ok (m, d2)"
    using fetch_map [OF rep1 d1(2)] by auto
  have "marked m \<noteq> {0..<numBits m}" using assms(6) big(2) fm(2) by (auto simp: NumDirect_eq)
  from FindAndSet_free [OF fm(1) this] obtain k m1 where
    k: "Bitmap_FindAndSet m = Ok (k, m1)" "0 \<le> k" "k \<notin> marked m" "wf_bitmap m1"
      "numBits m1 = numBits m" "marked m1 = insert k (marked m)" by blast
  have "divRoundUp fsize SectorSize \<le> free_sectors m1" using k(3,5,6) assms(6) by simp
  from Allocate_spec(3) [OF k(4) _ big(1) this big(2)]
  have A: "FileHeader_Allocate m1 fsize (FileHeader_new (heap 1)) = Fault OutOfRange"
    by (simp add: FileHeader_new_def parse_hdr_fields)
  show ?thesis
  proof (cases rule: Directory_Add_cases [of tbl name k])
    case (added pre e post)
    with d1 d2 k(1,2) A Directory_Find_spec [of tbl name] assms(4) show ?thesis
      by (simp add: DiskFS_Create_def)
  qed (use assms(4,5) in auto)
qed

end

section \<open>A machine with a disk\<close>

definition demo_disk :: "(bytes \<times> nat) IOKernel" where
  "demo_disk = set_unix (replicate 131076 0, 0) demo_io"

lemma demo_lone: "lone quiet_host (\<lambda>h. h) 2 demo_disk"
proof -
  have p: "posix_file (files quiet_host) 3 (\<lambda>h. h)" using one_file_posix by (simp add: quiet_host_def)
  have s: "steady quiet_host (\<lambda>h. h)"
    by (auto simp: steady_def quiet_host_def one_file_def Let_def)
  have io: "io_ok quiet_host demo_disk"
    using demo_io_ok unfolding demo_disk_def io_ok_parts io_updates sync_updates_kernel sems_updates dev_inv_fs .
  have c: "clock_idle demo_disk"
    using demo_clock_ok by (simp add: clock_idle_def clock_ok_def none_due_def demo_disk_def)
  have "apart 2 demo_disk"
    by (auto simp: apart_def other_sems_def can_run_def demo_disk_def demo_io_def demo_machine_def demo_kernel_def Thread_new_def)
  with p s io c show ?thesis
    by (simp add: lone_def sits_def demo_disk_def demo_io_def demo_machine_def disk_image_def disk_consts Statistics_new_def)
qed

section \<open>Properties\<close>

lemma synchDisk_transfers_parts:
  fixes k :: "('h, 'k) IOKernel_scheme"
  assumes "lone U v l k"
  shows "0 \<le> s \<Longrightarrow> s < NumSectors \<Longrightarrow> \<exists>k'. ReadSector (CallBack U) U s k = Ok (sectors v k ! nat s, k')
      \<and> lone U v l k' \<and> sectors v k' = sectors v k"
    and "0 \<le> s \<Longrightarrow> s < NumSectors \<Longrightarrow> int (length data) = SectorSize
      \<Longrightarrow> \<exists>k'. WriteSector (CallBack U) U s data k = Ok k'
        \<and> lone U v l k' \<and> sectors v k' = (sectors v k)[nat s := data]"
    and "s < 0 \<or> NumSectors \<le> s \<Longrightarrow> ReadSector (CallBack U) U s k = Fault AssertFailed
      \<and> WriteSector (CallBack U) U s data k = Fault AssertFailed"
proof -
  show "\<exists>k'. ReadSector (CallBack U) U s k = Ok (sectors v k ! nat s, k')
      \<and> lone U v l k' \<and> sectors v k' = sectors v k" if "0 \<le> s" "s < NumSectors"
    using ReadSector_lone [OF assms, of "nat s"] that by (simp add: disk_consts)
  show "\<exists>k'. WriteSector (CallBack U) U s data k = Ok k'
        \<and> lone U v l k' \<and> sectors v k' = (sectors v k)[nat s := data]"
    if "0 \<le> s" "s < NumSectors" "int (length data) = SectorSize"
    using WriteSector_lone [OF assms, of "nat s" data] that by (simp add: disk_consts)
  show "ReadSector (CallBack U) U s k = Fault AssertFailed
      \<and> WriteSector (CallBack U) U s data k = Fault AssertFailed" if "s < 0 \<or> NumSectors \<le> s"
    using Acquire_sits [OF assms [unfolded lone_def], of "CallBack U"] that
    by (auto simp: ReadSector_def WriteSector_def ReadRequest_def WriteRequest_def Let_def ASSERT_def)
qed



lemma diskFS_format_and_reopen_parts:
  fixes k :: "('h, 'k) IOKernel_scheme"
  shows "lone U v l k \<Longrightarrow> \<exists>fs k'. DiskFS_new (synch_disk U) heap True k = Ok (fs, k')
      \<and> disk_fs U v l fs k' Map.empty 1019"
    and "disk_fs U v l fs k F n \<Longrightarrow> \<exists>fs' k'. DiskFS_new (synch_disk U) heap False k = Ok (fs', k')
      \<and> disk_fs U v l fs' k' F n \<and> sectors v k' = sectors v k"
proof -
  show "\<exists>fs k'. DiskFS_new (synch_disk U) heap True k = Ok (fs, k') \<and> disk_fs U v l fs k' Map.empty 1019"
    if "lone U v l k" using sd.format_spec [OF that, of heap] unfolding disk_fs_def by blast
  show "\<exists>fs' k'. DiskFS_new (synch_disk U) heap False k = Ok (fs', k')
      \<and> disk_fs U v l fs' k' F n \<and> sectors v k' = sectors v k" if d: "disk_fs U v l fs k F n"
  proof -
    obtain tbl m where t: "lone U v l k" "fs_rep fs (sectors v k) tbl m" "files_of (sectors v k) tbl = F"
        "free_sectors m = n" using d unfolding disk_fs_def by blast
    from sd.reopen_spec [OF t(2,1), of heap] obtain fs' k' where
      "DiskFS_new (synch_disk U) heap False k = Ok (fs', k')" "lone U v l k'" "sectors v k' = sectors v k"
      "fs_rep fs' (sectors v k') tbl m" by blast
    with t(3,4) show ?thesis unfolding disk_fs_def by metis
  qed
qed

text \<open>C27: Formatting a disk, whatever is on it, succeeds and leaves an empty file system with 1019 of the
  1024 sectors free; starting from a disk that has a file system on it, without formatting, finds the same
  files and changes nothing.\<close>

theorem DiskFS_format_and_reopen:
  fixes k :: "('h, 'k) IOKernel_scheme"
  shows "(lone U v l k \<longrightarrow> (\<exists>fs k'. DiskFS_new (synch_disk U) heap True k = Ok (fs, k')
        \<and> disk_fs U v l fs k' Map.empty 1019))
    \<and> (disk_fs U v l fs k F n \<longrightarrow> (\<exists>fs' k'. DiskFS_new (synch_disk U) heap False k = Ok (fs', k')
        \<and> disk_fs U v l fs' k' F n \<and> sectors v k' = sectors v k))"
  by (intro conjI impI) (erule diskFS_format_and_reopen_parts)+

theorem DiskFS_format_and_reopen_witness:
  "\<exists>fs k1 fs' k2. DiskFS_new (synch_disk quiet_host) (\<lambda>_. replicate 128 0) True demo_disk = Ok (fs, k1)
     \<and> DiskFS_new (synch_disk quiet_host) (\<lambda>_. replicate 128 0) False k1 = Ok (fs', k2)
     \<and> disk_fs quiet_host (\<lambda>h. h) 2 fs' k2 Map.empty 1019"
  using DiskFS_format_and_reopen [THEN conjunct1, rule_format, OF demo_lone]
    DiskFS_format_and_reopen [THEN conjunct2, rule_format] by blast


definition demo_heap :: "nat \<Rightarrow> bytes" where
  "demo_heap i = replicate 128 0"


text \<open>C13: \<open>Remove\<close> deletes the file with the name, if there is one, and frees its sectors; every other
  file keeps its contents.\<close>

theorem DiskFS_Remove_deletes_file:
  fixes k :: "('h, 'k) IOKernel_scheme"
  assumes "disk_fs U v l fs k F n"
  shows "\<exists>ok k' n'. DiskFS_Remove (synch_disk U) heap fs name k = Ok (ok, k')
    \<and> (ok \<longleftrightarrow> F (take FileNameMaxLen name) \<noteq> None)
    \<and> (if ok then n < n' else n' = n)
    \<and> disk_fs U v l fs k' (F(take FileNameMaxLen name := None)) n'"
proof -
  obtain tbl m where t: "fs_rep fs (sectors v k) tbl m" "lone U v l k" "files_of (sectors v k) tbl = F"
      "free_sectors m = n" using assms(1) unfolding disk_fs_def by blast
  have some: "dir_map tbl (key name) \<noteq> None \<longleftrightarrow> F (key name) \<noteq> None" unfolding t(3) [symmetric] by (simp add: files_of_def)
  obtain ok k' where k': "DiskFS_Remove (synch_disk U) heap fs name k = Ok (ok, k')" "lone U v l k'"
      "ok \<longleftrightarrow> F (key name) \<noteq> None" "\<not> ok \<Longrightarrow> sectors v k' = sectors v k"
      "ok \<Longrightarrow> \<exists>tbl' m'. fs_rep fs (sectors v k') tbl' m' \<and> n < free_sectors m'
        \<and> files_of (sectors v k') tbl' = F(key name := None)"
    using sd.Remove_spec [OF t(1,2), of heap name] unfolding some t(3,4) by blast
  show ?thesis
  proof (cases ok)
    case True
    then obtain n' where "n < n'" "disk_fs U v l fs k' (F(key name := None)) n'"
      using k'(2,5) unfolding disk_fs_def by blast
    with True k'(1,3) show ?thesis by auto
  next
    case False
    have "disk_fs U v l fs k' F n" using False k'(2,4) t unfolding disk_fs_def by auto
    moreover have "F(key name := None) = F" using False k'(3) by auto
    ultimately show ?thesis using False k'(1,3) by auto
  qed
qed

theorem DiskFS_Remove_deletes_file_witness:
  "\<exists>fs k1 k2. DiskFS_new (synch_disk quiet_host) demo_heap True demo_disk = Ok (fs, k1)
     \<and> DiskFS_Remove (synch_disk quiet_host) demo_heap fs [65, 66] k1 = Ok (False, k2)
     \<and> disk_fs quiet_host (\<lambda>h. h) 2 fs k2 Map.empty 1019"
proof -
  obtain fs k1 where k1: "DiskFS_new (synch_disk quiet_host) demo_heap True demo_disk = Ok (fs, k1)"
      "disk_fs quiet_host (\<lambda>h. h) 2 fs k1 Map.empty 1019"
    using sd.format_spec [OF demo_lone, of demo_heap] unfolding disk_fs_def by blast
  with DiskFS_Remove_deletes_file [OF k1(2), of demo_heap "[65, 66]"] show ?thesis by auto
qed

lemma diskFS_read_after_write_parts:
  fixes k :: "('h, 'k) IOKernel_scheme" and name :: bytes
  assumes "disk_fs U v l fs k F n"
  defines "nm \<equiv> take FileNameMaxLen name"
  shows "F nm = None \<Longrightarrow> \<exists>k'. DiskFS_Open (synch_disk U) heap fs name k = Ok (Null, k') \<and> disk_fs U v l fs k' F n"
    and "F nm = Some c \<Longrightarrow> 0 \<le> p \<Longrightarrow> num \<le> int (length src) \<Longrightarrow>
      \<exists>f k1 w k2 c'. DiskFS_Open (synch_disk U) heap fs name k = Ok (Ptr f, k1)
        \<and> NachosFile_WriteAt (synch_disk U) junk f src num p k1 = Ok (int w, k2)
        \<and> w = min (nat num) (length c - nat p)
        \<and> c' = take (nat p) c @ take w src @ drop (nat p + w) c
        \<and> disk_fs U v l fs k2 (F(nm \<mapsto> c')) n
        \<and> (\<forall>g k3. (g, k3) = (f, k2) \<or> DiskFS_Open (synch_disk U) heap fs name k2 = Ok (Ptr g, k3) \<longrightarrow>
             (\<forall>q m. 0 \<le> q \<longrightarrow> (\<exists>k4. NachosFile_ReadAt (synch_disk U) g m q k3
                = Ok ((int (length (take (nat m) (drop (nat q) c'))), take (nat m) (drop (nat q) c')), k4)
                \<and> disk_fs U v l fs k4 (F(nm \<mapsto> c')) n)))"
proof -
  obtain f k1 where o: "DiskFS_Open (synch_disk U) heap fs name k = Ok (f, k1)" "disk_fs U v l fs k1 F n"
    "case f of Null \<Rightarrow> F nm = None | Ptr f \<Rightarrow> seekPosition f = 0 \<and> F nm \<noteq> None \<and> opened v fs k1 f nm | _ \<Rightarrow> False"
    using fs_Open [OF assms(1), of heap name] unfolding nm_def by blast
  show "\<exists>k'. DiskFS_Open (synch_disk U) heap fs name k = Ok (Null, k') \<and> disk_fs U v l fs k' F n" if "F nm = None"
    using o that by (cases f) auto
  assume F: "F nm = Some c" and p: "0 \<le> p" "num \<le> int (length src)"
  obtain g where g: "f = Ptr g" "opened v fs k1 g nm" using o(3) F by (cases f) auto
  define w where "w = min (nat num) (length c - nat p)"
  define c' where "c' = take (nat p) c @ take w src @ drop (nat p + w) c"
  obtain k2 where k2: "NachosFile_WriteAt (synch_disk U) junk g src num p k1 = Ok (int w, k2)"
      "disk_fs U v l fs k2 (F(nm \<mapsto> c')) n" "opened v fs k2 g nm"
    using fs_WriteAt [OF o(2) g(2) p, of junk] F unfolding w_def c'_def by auto
  have op: "disk_fs U v l fs k3 (F(nm \<mapsto> c')) n \<and> opened v fs k3 h nm"
    if "(h, k3) = (g, k2) \<or> DiskFS_Open (synch_disk U) heap fs name k2 = Ok (Ptr h, k3)" for h k3
    using that fs_Open [OF k2(2), of heap name] k2(2,3) unfolding nm_def by auto
  have rd: "\<exists>k4. NachosFile_ReadAt (synch_disk U) h m q k3
      = Ok ((int (length (take (nat m) (drop (nat q) c'))), take (nat m) (drop (nat q) c')), k4)
      \<and> disk_fs U v l fs k4 (F(nm \<mapsto> c')) n"
    if "(h, k3) = (g, k2) \<or> DiskFS_Open (synch_disk U) heap fs name k2 = Ok (Ptr h, k3)" "0 \<le> q" for h k3 q m
    using fs_ReadAt [OF conjunct1 [OF op [OF that(1)]] conjunct2 [OF op [OF that(1)]] that(2), of m] by auto
  show "\<exists>f k1 w k2 c'. DiskFS_Open (synch_disk U) heap fs name k = Ok (Ptr f, k1)
        \<and> NachosFile_WriteAt (synch_disk U) junk f src num p k1 = Ok (int w, k2)
        \<and> w = min (nat num) (length c - nat p)
        \<and> c' = take (nat p) c @ take w src @ drop (nat p + w) c
        \<and> disk_fs U v l fs k2 (F(nm \<mapsto> c')) n
        \<and> (\<forall>g k3. (g, k3) = (f, k2) \<or> DiskFS_Open (synch_disk U) heap fs name k2 = Ok (Ptr g, k3) \<longrightarrow>
             (\<forall>q m. 0 \<le> q \<longrightarrow> (\<exists>k4. NachosFile_ReadAt (synch_disk U) g m q k3
                = Ok ((int (length (take (nat m) (drop (nat q) c'))), take (nat m) (drop (nat q) c')), k4)
                \<and> disk_fs U v l fs k4 (F(nm \<mapsto> c')) n)))"
    by (rule exI [of _ g], rule exI [of _ k1], rule exI [of _ w], rule exI [of _ k2], rule exI [of _ c'],
        intro conjI allI impI w_def c'_def k2 rd; (assumption | simp only: o(1) g(1)))
qed

text \<open>C4: What is written to a file is what is read from it later, through the same or a new opening of
  the file, and no other file changes. A file keeps its size: what would lie beyond its end is neither
  written nor read, and the calls return the number of bytes that were moved. Opening a name that is not
  in the directory gives no file.\<close>

theorem DiskFS_read_after_write:
  fixes k :: "('h, 'k) IOKernel_scheme" and name :: bytes
  assumes "disk_fs U v l fs k F n"
  defines "nm \<equiv> take FileNameMaxLen name"
  shows "(F nm = None \<longrightarrow> (\<exists>k'. DiskFS_Open (synch_disk U) heap fs name k = Ok (Null, k') \<and> disk_fs U v l fs k' F n))
    \<and> (\<forall>c p num src. F nm = Some c \<and> 0 \<le> p \<and> num \<le> int (length src) \<longrightarrow>
      (\<exists>f k1 w k2 c'. DiskFS_Open (synch_disk U) heap fs name k = Ok (Ptr f, k1)
        \<and> NachosFile_WriteAt (synch_disk U) junk f src num p k1 = Ok (int w, k2)
        \<and> w = min (nat num) (length c - nat p)
        \<and> c' = take (nat p) c @ take w src @ drop (nat p + w) c
        \<and> disk_fs U v l fs k2 (F(nm \<mapsto> c')) n
        \<and> (\<forall>g k3. (g, k3) = (f, k2) \<or> DiskFS_Open (synch_disk U) heap fs name k2 = Ok (Ptr g, k3) \<longrightarrow>
             (\<forall>q m. 0 \<le> q \<longrightarrow> (\<exists>k4. NachosFile_ReadAt (synch_disk U) g m q k3
                = Ok ((int (length (take (nat m) (drop (nat q) c'))), take (nat m) (drop (nat q) c')), k4)
                \<and> disk_fs U v l fs k4 (F(nm \<mapsto> c')) n)))))"
  unfolding nm_def
  by (intro conjI allI impI; (elim conjE)?; (rule diskFS_read_after_write_parts [OF assms(1)]; assumption))

definition demo_file :: "bytes" where
  "demo_file = [65, 66]"

theorem DiskFS_read_after_write_witness:
  "\<exists>fs k1 k2 f k3 k4 d k5. DiskFS_new (synch_disk quiet_host) demo_heap True demo_disk = Ok (fs, k1)
     \<and> DiskFS_Create (synch_disk quiet_host) demo_heap fs demo_file 5 k1 = Ok (True, k2)
     \<and> DiskFS_Open (synch_disk quiet_host) demo_heap fs demo_file k2 = Ok (Ptr f, k3)
     \<and> NachosFile_WriteAt (synch_disk quiet_host) [] f [1, 2, 3] 3 3 k3 = Ok (2, k4)
     \<and> NachosFile_ReadAt (synch_disk quiet_host) f 9 3 k4 = Ok ((2, [1, 2]), k5)"
proof -
  obtain fs k1 where k1: "DiskFS_new (synch_disk quiet_host) demo_heap True demo_disk = Ok (fs, k1)"
      "disk_fs quiet_host (\<lambda>h. h) 2 fs k1 Map.empty 1019"
    using sd.format_spec [OF demo_lone, of demo_heap] unfolding disk_fs_def by blast
  have n: "(0 :: 8 word) \<notin> set demo_file" "(0::int) \<le> 5" "5 \<le> MaxFileSize" "divRoundUp 5 SectorSize = 1"
    by (simp_all add: NumDirect_eq disk_consts divRoundUp_def sdiv_nonneg smod_nonneg demo_file_def)
  obtain ok k2 c where k2: "DiskFS_Create (synch_disk quiet_host) demo_heap fs demo_file 5 k1 = Ok (ok, k2)"
      "ok" "int (length c) = 5" "disk_fs quiet_host (\<lambda>h. h) 2 fs k2 [key demo_file \<mapsto> c] (1019 - (1 + 1))"
    using fs_Create [OF k1(2) n(1-3), of demo_heap] unfolding n(4) by (auto simp: NumDirEntries_def split: if_splits)
  have three: "(0::int) \<le> 3" "3 \<le> int (length [1, 2, 3 :: 8 word])" by simp_all
  have Fc: "[key demo_file \<mapsto> c] (take FileNameMaxLen demo_file) = Some c" by simp
  obtain f k3 w k4 c' where
    f: "DiskFS_Open (synch_disk quiet_host) demo_heap fs demo_file k2 = Ok (Ptr f, k3)"
      "NachosFile_WriteAt (synch_disk quiet_host) [] f [1, 2, 3] 3 3 k3 = Ok (int w, k4)"
      "w = min (nat 3) (length c - nat 3)" "c' = take (nat 3) c @ take w [1, 2, 3] @ drop (nat 3 + w) c"
      "disk_fs quiet_host (\<lambda>h. h) 2 fs k4 ([key demo_file \<mapsto> c](take FileNameMaxLen demo_file \<mapsto> c')) (1019 - (1 + 1))"
      "\<forall>g k5. (g, k5) = (f, k4) \<or> DiskFS_Open (synch_disk quiet_host) demo_heap fs demo_file k4 = Ok (Ptr g, k5) \<longrightarrow>
         (\<forall>q m. 0 \<le> q \<longrightarrow> (\<exists>k6. NachosFile_ReadAt (synch_disk quiet_host) g m q k5
            = Ok ((int (length (take (nat m) (drop (nat q) c'))), take (nat m) (drop (nat q) c')), k6)
            \<and> disk_fs quiet_host (\<lambda>h. h) 2 fs k6
                ([key demo_file \<mapsto> c](take FileNameMaxLen demo_file \<mapsto> c')) (1019 - (1 + 1))))"
    using DiskFS_read_after_write [OF k2(4), of demo_file, THEN conjunct2, rule_format,
        OF conjI [OF Fc conjI [OF three]], of demo_heap "[]"]
    by (elim exE conjE) (rule that; assumption)
  have w: "w = 2" using f(3) k2(3) by simp
  have e: "take (nat 9) (drop (nat 3) c') = [1, 2]" using f(4) k2(3) by (simp add: w numeral_eq_Suc)
  from f(6) [THEN spec, THEN spec, THEN mp, OF disjI1 [OF refl], rule_format, of 3 9] obtain k5 where
    "NachosFile_ReadAt (synch_disk quiet_host) f 9 3 k4 = Ok ((2, [1, 2]), k5)" unfolding e by auto
  with k1(1) k2(1,2) f(1,2) w show ?thesis by auto
qed

text \<open>C29: \<open>Create\<close> does not check that a header can describe the file. For a size above 3840 bytes (30
  sectors), when everything else is in order, \<open>FileHeader::Allocate\<close> writes past the end of its array of
  sector numbers.\<close>

theorem DiskFS_Create_overruns_header:
  fixes k :: "('h, 'k) IOKernel_scheme"
  assumes "disk_fs U v l fs k F n" "F (take FileNameMaxLen name) = None" "card (dom F) < NumDirEntries"
    and "MaxFileSize < fsize" "1 + divRoundUp fsize SectorSize \<le> n"
  shows "DiskFS_Create (synch_disk U) heap fs name fsize k = Fault OutOfRange"
proof -
  obtain tbl m where t: "fs_rep fs (sectors v k) tbl m" "lone U v l k" "files_of (sectors v k) tbl = F"
      "free_sectors m = n" using assms(1) unfolding disk_fs_def by blast
  have "dir_map tbl (key name) = None" using assms(2) unfolding t(3) [symmetric] by (simp add: files_of_def)
  moreover have "\<exists>e\<in>set tbl. \<not> inUse e" using room_iff [OF t(1)] t(3) assms(3) by simp
  ultimately show ?thesis using sd.Create_overrun [OF t(1,2) assms(4)] assms(5) t(4) by blast
qed

theorem DiskFS_Create_overruns_header_witness:
  "\<exists>fs k1. DiskFS_new (synch_disk quiet_host) demo_heap True demo_disk = Ok (fs, k1)
     \<and> DiskFS_Create (synch_disk quiet_host) demo_heap fs demo_file 4000 k1 = Fault OutOfRange"
proof -
  obtain fs k1 where k1: "DiskFS_new (synch_disk quiet_host) demo_heap True demo_disk = Ok (fs, k1)"
      "disk_fs quiet_host (\<lambda>h. h) 2 fs k1 Map.empty 1019"
    using sd.format_spec [OF demo_lone, of demo_heap] unfolding disk_fs_def by blast
  have "Map.empty (take FileNameMaxLen demo_file) = None" "card (dom Map.empty) < NumDirEntries" "MaxFileSize < 4000"
    "1 + divRoundUp 4000 SectorSize \<le> 1019"
    by (simp_all add: NumDirect_eq NumDirEntries_def disk_consts divRoundUp_def sdiv_nonneg smod_nonneg)
  from DiskFS_Create_overruns_header [OF k1(2) this] k1(1) show ?thesis by blast
qed

end
