(* ===== verification/Hash_Table.thy ===== *)
theory Hash_Table
  imports Linked_List "HOL-Library.Multiset"
begin

text \<open>
  The hash table of \<^verbatim>\<open>lib/hash.h\<close> and \<^verbatim>\<open>lib/hash.cc\<close>: an array of lists that grows by a factor of
  four when it holds three items per bucket, with the iterators of \<^verbatim>\<open>list.h\<close> and \<^verbatim>\<open>hash.h\<close>.

  The buckets are the list objects of the theory \<open>Linked_List\<close>. The abstraction of a table is a map from
  keys to items; its contract, the locale \<open>keyed_table\<close>, is all that the self test of the class needs.
  The functions that get the key of an item and hash a key are fields of the object, as in the code. \<open>==\<close>
  on keys and items is equality.
\<close>

section \<open>ListIterator<T>\<close>

text \<open>The field \<open>current\<close> is the iterator.\<close>

definition ListIterator_new :: "'a LList \<Rightarrow> addr option" where
  "ListIterator_new s = first s"

definition ListIterator_IsDone :: "addr option \<Rightarrow> bool" where
  "ListIterator_IsDone current = (current = None)"

definition ListIterator_Item :: "'a LList \<Rightarrow> addr option \<Rightarrow> 'a result" where
  "ListIterator_Item s current =
     ASSERT (\<not> ListIterator_IsDone current) (rbind (deref s current) (\<lambda>(a, c). Ok (item c)))"

definition ListIterator_Next :: "'a LList \<Rightarrow> addr option \<Rightarrow> addr option result" where
  "ListIterator_Next s current = rbind (deref s current) (\<lambda>(a, c). Ok (next c))"

section \<open>HashTable<Key,T>\<close>

definition InitialBuckets :: int where "InitialBuckets = 4"
definition ResizeRatio :: int where "ResizeRatio = 3"
definition IncreaseSizeBy :: int where "IncreaseSizeBy = 4"

record ('k, 'a) HashTable =
  buckets :: "'a LList list"
  numBuckets :: int
  numItems :: int
  getKey :: "'a \<Rightarrow> 'k"
  hash :: "'k \<Rightarrow> 32 word"

definition InitBuckets :: "int \<Rightarrow> ('k, 'a) HashTable \<Rightarrow> ('k, 'a) HashTable" where
  "InitBuckets sz h = h\<lparr>numBuckets := sz, buckets := replicate (nat sz) List_new\<rparr>"

definition HashTable_new :: "('a \<Rightarrow> 'k) \<Rightarrow> ('k \<Rightarrow> 32 word) \<Rightarrow> ('k, 'a) HashTable" where
  "HashTable_new get hFunc =
     InitBuckets InitialBuckets \<lparr>buckets = [], numBuckets = 0, numItems = 0, getKey = get, hash = hFunc\<rparr>"

definition HashValue :: "('k, 'a) HashTable \<Rightarrow> 'k \<Rightarrow> int result" where
  "HashValue h key =
     (if numBuckets h = 0 then Fault DivideTrap
      else let result = uint (hash h key) mod numBuckets h in
           ASSERT (0 \<le> result \<and> result < numBuckets h) (Ok result))"

definition HashTable_IsEmpty :: "('k, 'a) HashTable \<Rightarrow> bool" where
  "HashTable_IsEmpty h = (numItems h = 0)"

text \<open>The destructor: the buckets are freed, the items are not.\<close>

definition HashTable_delete :: "('k, 'a) HashTable \<Rightarrow> unit result" where
  "HashTable_delete h = ASSERT (HashTable_IsEmpty h) (Ok ())"

text \<open>The value \<open>*itemPtr\<close> is the item or null.\<close>

primrec FindIn_loop :: "nat \<Rightarrow> ('a \<Rightarrow> 'k) \<Rightarrow> 'k \<Rightarrow> 'a LList \<Rightarrow> addr option \<Rightarrow> 'a option result" where
  "FindIn_loop 0 get key s it = (if ListIterator_IsDone it then Ok None else Fault Diverges)"
| "FindIn_loop (Suc n) get key s it =
     (if ListIterator_IsDone it then Ok None
      else rbind (ListIterator_Item s it) (\<lambda>x.
           if key = get x then Ok (Some x)
           else rbind (ListIterator_Next s it) (FindIn_loop n get key s)))"

definition FindInBucket :: "('k, 'a) HashTable \<Rightarrow> int \<Rightarrow> 'k \<Rightarrow> 'a option result" where
  "FindInBucket h bucket key =
     rbind (arr_get (buckets h) bucket) (\<lambda>s. FindIn_loop (Linked_List.fresh s) (getKey h) key s (ListIterator_new s))"

definition HashTable_Find :: "('k, 'a) HashTable \<Rightarrow> 'k \<Rightarrow> 'a option result" where
  "HashTable_Find h key = rbind (HashValue h key) (\<lambda>bucket. FindInBucket h bucket key)"

definition IsInTable :: "('k, 'a) HashTable \<Rightarrow> 'k \<Rightarrow> bool result" where
  "IsInTable h key = rbind (HashTable_Find h key) (\<lambda>x. Ok (x \<noteq> None))"

primrec HashCheck_loop :: "nat \<Rightarrow> ('k, 'a) HashTable \<Rightarrow> int \<Rightarrow> 'a LList \<Rightarrow> addr option \<Rightarrow> unit result" where
  "HashCheck_loop 0 h i s it = (if ListIterator_IsDone it then Ok () else Fault Diverges)"
| "HashCheck_loop (Suc n) h i s it =
     (if ListIterator_IsDone it then Ok ()
      else rbind (ListIterator_Item s it) (\<lambda>x.
           rbind (HashValue h (getKey h x)) (\<lambda>b. ASSERT (i = b)
          (rbind (ListIterator_Next s it) (HashCheck_loop n h i s)))))"

definition HashTable_SanityCheck :: "('k, 'a) HashTable \<Rightarrow> unit result" where
  "HashTable_SanityCheck h =
     rbind (for_loop 0 (numBuckets h) (\<lambda>i numFound.
       rbind (arr_get (buckets h) i) (\<lambda>s.
       rbind (List_SanityCheck s) (\<lambda>_.
       let numFound = numFound + numInList s in
       rbind (HashCheck_loop (Linked_List.fresh s) h i s (ListIterator_new s)) (\<lambda>_. Ok numFound)))) 0)
     (\<lambda>numFound. ASSERT (numItems h = numFound) (Ok ()))"

text \<open>The inner loop of \<open>ReHash\<close>. Every round takes an item off the old bucket.\<close>

primrec ReHash_loop :: "nat \<Rightarrow> 'a LList \<Rightarrow> ('k, 'a) HashTable \<Rightarrow> ('k, 'a) HashTable result" where
  "ReHash_loop 0 old h = (if List_IsEmpty old then Ok h else Fault Diverges)"
| "ReHash_loop (Suc n) old h =
     (if List_IsEmpty old then Ok h
      else rbind (List_RemoveFront old) (\<lambda>(x, old).
           rbind (HashValue h (getKey h x)) (\<lambda>b.
           rbind (arr_get (buckets h) b) (\<lambda>s.
           rbind (List_Append s x) (\<lambda>s.
           rbind (arr_set (buckets h) b s) (\<lambda>bs.
           ReHash_loop n old (h\<lparr>buckets := bs\<rparr>)))))))"

definition ReHash :: "('k, 'a) HashTable \<Rightarrow> ('k, 'a) HashTable result" where
  "ReHash h =
     (let oldTable = buckets h; oldSize = numBuckets h in
      rbind (HashTable_SanityCheck h) (\<lambda>_.
      rbind (for_loop 0 oldSize
               (\<lambda>i h. rbind (arr_get oldTable i) (\<lambda>old. ReHash_loop (nat (numInList old)) old h))
               (InitBuckets (numBuckets h * IncreaseSizeBy) h)) (\<lambda>h.
      rbind (HashTable_SanityCheck h) (\<lambda>_. Ok h))))"

definition HashTable_Insert :: "('k, 'a) HashTable \<Rightarrow> 'a \<Rightarrow> ('k, 'a) HashTable result" where
  "HashTable_Insert h x =
     (let key = getKey h x in
      rbind (IsInTable h key) (\<lambda>t. ASSERT (\<not> t)
     (rbind (if numBuckets h = 0 then Fault DivideTrap
             else if numItems h sdiv numBuckets h \<ge> ResizeRatio then ReHash h else Ok h) (\<lambda>h.
      rbind (HashValue h key) (\<lambda>b.
      rbind (arr_get (buckets h) b) (\<lambda>s.
      rbind (List_Append s x) (\<lambda>s.
      rbind (arr_set (buckets h) b s) (\<lambda>bs.
      let h = h\<lparr>buckets := bs, numItems := numItems h + 1\<rparr> in
      rbind (IsInTable h key) (\<lambda>t. ASSERT t (Ok h))))))))))"

definition HashTable_Remove :: "('k, 'a) HashTable \<Rightarrow> 'k \<Rightarrow> ('a \<times> ('k, 'a) HashTable) result" where
  "HashTable_Remove h key =
     rbind (HashValue h key) (\<lambda>bucket.
     rbind (FindInBucket h bucket key) (\<lambda>found.
     case found of None \<Rightarrow> Fault AssertFailed
     | Some x \<Rightarrow>
         rbind (arr_get (buckets h) bucket) (\<lambda>s.
         rbind (List_Remove s x) (\<lambda>s.
         rbind (arr_set (buckets h) bucket s) (\<lambda>bs.
         let h = h\<lparr>buckets := bs, numItems := numItems h - 1\<rparr> in
         rbind (IsInTable h key) (\<lambda>t. ASSERT (\<not> t) (Ok (x, h))))))))"

text \<open>\<open>Apply\<close> is modelled by the sequence of items the function is called on.\<close>

definition HashTable_Apply :: "('k, 'a) HashTable \<Rightarrow> 'a list result" where
  "HashTable_Apply h = for_loop 0 (numBuckets h)
     (\<lambda>bucket xs. rbind (arr_get (buckets h) bucket) (\<lambda>s. rbind (List_Apply s) (\<lambda>ys. Ok (xs @ ys)))) []"

function FindNextFullBucket :: "('k, 'a) HashTable \<Rightarrow> int \<Rightarrow> int result" where
  "FindNextFullBucket h bucket =
     (if bucket < numBuckets h
      then rbind (arr_get (buckets h) bucket) (\<lambda>s.
           if \<not> List_IsEmpty s then Ok bucket else FindNextFullBucket h (bucket + 1))
      else Ok bucket)"
  by pat_completeness auto
termination
  by (relation "measure (\<lambda>(h, bucket). nat (numBuckets h - bucket))") auto

declare FindNextFullBucket.simps [simp del]

section \<open>HashIterator<Key,T>\<close>

text \<open>The pointer to the table is an argument of the operations.\<close>

record HashIterator =
  bucket :: int
  bucketIter :: "addr option option"

definition HashIterator_at :: "('k, 'a) HashTable \<Rightarrow> int \<Rightarrow> HashIterator result" where
  "HashIterator_at tbl b =
     (if b < numBuckets tbl
      then rbind (arr_get (buckets tbl) b) (\<lambda>s. Ok \<lparr>bucket = b, bucketIter = Some (ListIterator_new s)\<rparr>)
      else Ok \<lparr>bucket = b, bucketIter = None\<rparr>)"

definition HashIterator_new :: "('k, 'a) HashTable \<Rightarrow> HashIterator result" where
  "HashIterator_new tbl = rbind (FindNextFullBucket tbl 0) (HashIterator_at tbl)"

definition HashIterator_IsDone :: "('k, 'a) HashTable \<Rightarrow> HashIterator \<Rightarrow> bool" where
  "HashIterator_IsDone tbl it = (bucket it = numBuckets tbl)"

definition HashIterator_Item :: "('k, 'a) HashTable \<Rightarrow> HashIterator \<Rightarrow> 'a result" where
  "HashIterator_Item tbl it =
     ASSERT (\<not> HashIterator_IsDone tbl it)
       (case bucketIter it of None \<Rightarrow> Fault NullDereference
        | Some li \<Rightarrow> rbind (arr_get (buckets tbl) (bucket it)) (\<lambda>s. ListIterator_Item s li))"

definition HashIterator_Next :: "('k, 'a) HashTable \<Rightarrow> HashIterator \<Rightarrow> HashIterator result" where
  "HashIterator_Next tbl it =
     (case bucketIter it of None \<Rightarrow> Fault NullDereference
      | Some li \<Rightarrow>
          rbind (arr_get (buckets tbl) (bucket it)) (\<lambda>s.
          rbind (ListIterator_Next s li) (\<lambda>li.
          if ListIterator_IsDone li
          then rbind (FindNextFullBucket tbl (bucket it + 1)) (HashIterator_at tbl)
          else Ok (it\<lparr>bucketIter := Some li\<rparr>))))"

section \<open>Walking a bucket\<close>

lemma find_cong_key: "List.find (\<lambda>x. key = get x) xs = List.find (\<lambda>x. get x = key) xs"
  by (induction xs) auto

lemma FindIn_loop_path:
  "path (cells s) p as None \<Longrightarrow> length as \<le> n \<Longrightarrow>
    FindIn_loop n get key s p = Ok (List.find (\<lambda>x. key = get x) (items s as))"
proof (induction as arbitrary: p n)
  case Nil
  then show ?case by (cases n) (auto simp: ListIterator_IsDone_def)
next
  case (Cons a as)
  then show ?case
    by (cases n) (auto simp: ListIterator_IsDone_def ListIterator_Item_def ListIterator_Next_def deref_Some)
qed

lemma HashCheck_loop_path:
  "path (cells s) p as None \<Longrightarrow> length as \<le> n \<Longrightarrow> \<forall>x\<in>set (items s as). HashValue h (getKey h x) = Ok i \<Longrightarrow>
    HashCheck_loop n h i s p = Ok ()"
proof (induction as arbitrary: p n)
  case Nil
  then show ?case by (cases n) (auto simp: ListIterator_IsDone_def)
next
  case (Cons a as)
  then show ?case
    by (cases n) (auto simp: ListIterator_IsDone_def ListIterator_Item_def ListIterator_Next_def deref_Some)
qed

lemma bucket_walks:
  assumes "represents s xs"
  shows "FindIn_loop (Linked_List.fresh s) get key s (ListIterator_new s) = Ok (List.find (\<lambda>x. key = get x) xs)"
    and "\<forall>x\<in>set xs. HashValue h (getKey h x) = Ok i \<Longrightarrow>
      HashCheck_loop (Linked_List.fresh s) h i s (ListIterator_new s) = Ok ()"
    and "List_Apply s = Ok xs" "List_SanityCheck s = Ok ()" "numInList s = int (length xs)"
proof -
  obtain as where as: "shape s as" "items s as = xs" using assms by (auto simp: represents_def)
  then have p: "path (cells s) (ListIterator_new s) as None" "length as \<le> Linked_List.fresh s"
    by (auto simp: shape_def ListIterator_new_def intro: shape_length)
  show "FindIn_loop (Linked_List.fresh s) get key s (ListIterator_new s) = Ok (List.find (\<lambda>x. key = get x) xs)"
    using FindIn_loop_path [OF p] as(2) by simp
  show "\<forall>x\<in>set xs. HashValue h (getKey h x) = Ok i \<Longrightarrow>
      HashCheck_loop (Linked_List.fresh s) h i s (ListIterator_new s) = Ok ()"
    using HashCheck_loop_path [OF p] as(2) by simp
  show "List_Apply s = Ok xs" "List_SanityCheck s = Ok ()"
    using Apply_shape [OF as(1)] SanityCheck_shape [OF as(1)] as(2) by simp_all
  show "numInList s = int (length xs)" using as by (auto simp: shape_def)
qed

section \<open>Abstraction and invariant\<close>

text \<open>Every item is in the bucket its key hashes to, and no two items have the same key.\<close>

definition slot_of :: "('k, 'a) HashTable \<Rightarrow> 'k \<Rightarrow> nat" where
  "slot_of h key = nat (uint (hash h key) mod numBuckets h)"

definition in_buckets :: "('k, 'a) HashTable \<Rightarrow> 'a list list \<Rightarrow> bool" where
  "in_buckets h bs \<longleftrightarrow> 0 < numBuckets h \<and> int (length bs) = numBuckets h \<and> list_all2 represents (buckets h) bs
     \<and> (\<forall>i<length bs. \<forall>x\<in>set (bs ! i). slot_of h (getKey h x) = i)
     \<and> distinct (map (getKey h) (concat bs))"

definition wf_table :: "('k, 'a) HashTable \<Rightarrow> 'a list list \<Rightarrow> bool" where
  "wf_table h bs \<longleftrightarrow> in_buckets h bs \<and> numItems h = int (length (concat bs))
     \<and> numItems h \<le> ResizeRatio * numBuckets h"

text \<open>The map a table stands for.\<close>

definition key_map :: "('a \<Rightarrow> 'k) \<Rightarrow> 'a list \<Rightarrow> ('k \<rightharpoonup> 'a)" where
  "key_map get xs k = List.find (\<lambda>x. k = get x) xs"

definition is_table :: "('a \<Rightarrow> 'k) \<Rightarrow> ('k, 'a) HashTable \<Rightarrow> ('k \<rightharpoonup> 'a) \<Rightarrow> bool" where
  "is_table get h m \<longleftrightarrow> getKey h = get \<and> (\<exists>bs. wf_table h bs \<and> m = key_map get (concat bs))"

lemma find_key_None: "List.find (\<lambda>x. k = f x) xs = None \<longleftrightarrow> k \<notin> f ` set xs"
  by (auto simp: find_None_iff)

lemma find_key:
  "distinct (map f xs) \<Longrightarrow> List.find (\<lambda>x. k = f x) xs = Some y \<longleftrightarrow> y \<in> set xs \<and> f y = k"
  by (induction xs) (auto simp: image_iff)

lemma find_mem: "List.find P xs = Some x \<Longrightarrow> x \<in> set xs"
  by (auto simp: find_Some_iff)

lemma find_key_mset:
  assumes "distinct (map f xs)" "mset xs = mset ys"
  shows "List.find (\<lambda>x. k = f x) xs = List.find (\<lambda>x. k = f x) ys"
proof -
  have "distinct (map f ys)"
    using assms mset_eq_imp_distinct_iff [of "map f xs" "map f ys"] by simp
  with assms have "List.find (\<lambda>x. k = f x) xs = Some y \<longleftrightarrow> List.find (\<lambda>x. k = f x) ys = Some y" for y
    by (metis find_key mset_eq_setD)
  then show ?thesis by (metis option.exhaust)
qed

lemma mset_concat_update:
  "i < length bs \<Longrightarrow> mset (concat (bs[i := ys])) + mset (bs ! i) = mset (concat bs) + mset ys"
proof (induction bs arbitrary: i)
  case (Cons b bs)
  then show ?case by (cases i) (auto simp: ac_simps)
qed simp

lemma HashValue_slot: "0 < numBuckets h \<Longrightarrow> HashValue h k = Ok (int (slot_of h k))"
  by (simp add: HashValue_def slot_of_def Let_def)

lemma slot_of_less: "in_buckets h bs \<Longrightarrow> slot_of h k < length bs"
  unfolding in_buckets_def slot_of_def by (metis nat_int nat_less_eq_zless pos_mod_bound pos_mod_sign)

lemma slot_of_fields [simp]:
  "slot_of (h\<lparr>buckets := b\<rparr>) k = slot_of h k" "slot_of (h\<lparr>numItems := n\<rparr>) k = slot_of h k"
  by (simp_all add: slot_of_def)

lemma in_buckets_fields [simp]: "in_buckets (h\<lparr>numItems := n\<rparr>) bs = in_buckets h bs"
  by (simp add: in_buckets_def)

lemma in_slot: "in_buckets h bs \<Longrightarrow> i < length bs \<Longrightarrow> x \<in> set (bs ! i) \<Longrightarrow> slot_of h (getKey h x) = i"
  unfolding in_buckets_def by blast

lemma in_buckets_upd:
  assumes "in_buckets h bs" "length bs' = length bs" "list_all2 represents bl bs'"
    "\<And>i y. i < length bs' \<Longrightarrow> y \<in> set (bs' ! i) \<Longrightarrow> slot_of h (getKey h y) = i"
    "distinct (map (getKey h) (concat bs'))"
  shows "in_buckets (h\<lparr>buckets := bl\<rparr>) bs'"
  using assms unfolding in_buckets_def by (simp del: distinct_concat_iff)

lemma in_buckets_length: "in_buckets h bs \<Longrightarrow> length (buckets h) = length bs"
  by (auto simp: in_buckets_def dest: list_all2_lengthD)

lemma in_buckets_nth: "in_buckets h bs \<Longrightarrow> i < length bs \<Longrightarrow> represents (buckets h ! i) (bs ! i)"
  by (auto simp: in_buckets_def dest: list_all2_nthD2)

lemma in_buckets_keys: "in_buckets h bs \<Longrightarrow> distinct (map (getKey h) (concat bs))"
  by (simp add: in_buckets_def)

text \<open>Looking into the bucket of the key is looking through all items.\<close>

lemma find_in_slot:
  assumes "in_buckets h bs"
  shows "List.find (\<lambda>x. k = getKey h x) (bs ! slot_of h k) = List.find (\<lambda>x. k = getKey h x) (concat bs)"
proof -
  let ?b = "bs ! slot_of h k"
  have l: "slot_of h k < length bs" by (rule slot_of_less [OF assms])
  then have sub: "set ?b \<subseteq> set (concat bs)" using nth_mem by fastforce
  have d: "distinct (map (getKey h) ?b)"
    using in_buckets_keys [OF assms] l by (simp add: distinct_concat_iff map_concat nth_mem)
  have "y \<in> set (concat bs) \<and> getKey h y = k \<Longrightarrow> y \<in> set ?b" for y
  proof -
    assume y: "y \<in> set (concat bs) \<and> getKey h y = k"
    then obtain b where "b \<in> set bs" "y \<in> set b" by auto
    then obtain i where "i < length bs" "bs ! i = b" "y \<in> set b" by (auto simp: in_set_conv_nth [of b])
    with y in_slot [OF assms, of i y] show "y \<in> set ?b" by simp
  qed
  then have "List.find (\<lambda>x. k = getKey h x) ?b = Some y
      \<longleftrightarrow> List.find (\<lambda>x. k = getKey h x) (concat bs) = Some y" for y
    unfolding find_key [OF d] find_key [OF in_buckets_keys [OF assms]] using sub by blast
  then show ?thesis by (metis option.exhaust)
qed

lemma table_Find_spec:
  assumes "in_buckets h bs"
  shows "HashTable_Find h k = Ok (List.find (\<lambda>x. k = getKey h x) (concat bs))"
    and "FindInBucket h (int (slot_of h k)) k = Ok (List.find (\<lambda>x. k = getKey h x) (concat bs))"
    and "IsInTable h k = Ok (k \<in> getKey h ` set (concat bs))"
proof -
  have l: "slot_of h k < length bs" by (rule slot_of_less [OF assms])
  show f: "FindInBucket h (int (slot_of h k)) k = Ok (List.find (\<lambda>x. k = getKey h x) (concat bs))"
    unfolding find_in_slot [OF assms, symmetric]
    using bucket_walks(1) [OF in_buckets_nth [OF assms l]] in_buckets_length [OF assms] l
    by (simp add: FindInBucket_def arr_get_nat)
  then show g: "HashTable_Find h k = Ok (List.find (\<lambda>x. k = getKey h x) (concat bs))"
    using assms by (simp add: HashTable_Find_def HashValue_slot in_buckets_def)
  show "IsInTable h k = Ok (k \<in> getKey h ` set (concat bs))"
    using find_key_None [of k "getKey h" "concat bs"]
    by (cases "List.find (\<lambda>x. k = getKey h x) (concat bs)") (auto simp: IsInTable_def g simp del: set_concat)
qed

section \<open>Putting an item into its bucket\<close>

text \<open>The four calls that \<open>Insert\<close> and \<open>ReHash\<close> share.\<close>

lemma bucket_append:
  assumes "in_buckets h bs" "getKey h x \<notin> getKey h ` set (concat bs)"
  defines "b \<equiv> int (slot_of h (getKey h x))"
  obtains s s' bl bs' where "arr_get (buckets h) b = Ok s" "List_Append s x = Ok s'"
    "arr_set (buckets h) b s' = Ok bl" "in_buckets (h\<lparr>buckets := bl\<rparr>) bs'"
    "mset (concat bs') = add_mset x (mset (concat bs))"
proof -
  let ?i = "slot_of h (getKey h x)"
  let ?bs = "bs[?i := bs ! ?i @ [x]]"
  have l: "?i < length bs" "length (buckets h) = length bs"
    using slot_of_less [OF assms(1)] in_buckets_length [OF assms(1)] by simp_all
  have "x \<notin> set (bs ! ?i)" using assms(2) l nth_mem by fastforce
  then obtain s' where s': "List_Append (buckets h ! ?i) x = Ok s'" "represents s' (bs ! ?i @ [x])"
    using Append_represents(1) [OF in_buckets_nth [OF assms(1) l(1)]] by blast
  have m: "mset (concat ?bs) = add_mset x (mset (concat bs))"
    using mset_concat_update [OF l(1), of "bs ! ?i @ [x]"] by simp
  have "distinct (map (getKey h) (x # concat bs))"
    using assms(2) in_buckets_keys [OF assms(1)] by simp
  moreover have "mset (map (getKey h) (concat ?bs)) = mset (map (getKey h) (x # concat bs))"
    by (simp only: mset_map m mset.simps image_mset_add_mset)
  ultimately have c1: "distinct (map (getKey h) (concat ?bs))" using mset_eq_imp_distinct_iff by blast
  have c2: "list_all2 represents ((buckets h)[?i := s']) ?bs"
    using assms(1) s'(2) by (simp add: in_buckets_def list_all2_update_cong)
  have c3: "slot_of h (getKey h y) = i" if "i < length bs" "y \<in> set (?bs ! i)" for i y
    using that assms(1) unfolding in_buckets_def by (cases "i = ?i") auto
  have "in_buckets (h\<lparr>buckets := (buckets h)[?i := s']\<rparr>) ?bs"
    by (rule in_buckets_upd [OF assms(1) length_list_update c2 _ c1], rule c3) (simp_all only: length_list_update)
  moreover have "arr_get (buckets h) b = Ok (buckets h ! ?i)"
      "arr_set (buckets h) b s' = Ok ((buckets h)[?i := s'])"
    using l by (simp_all add: b_def arr_get_nat)
  ultimately show ?thesis using s'(1) m that by blast
qed

section \<open>Growing the table\<close>

lemma SanityCheck_ok:
  assumes "wf_table h bs"
  shows "HashTable_SanityCheck h = Ok ()"
proof -
  note w = assms [unfolded wf_table_def in_buckets_def]
  have ib: "in_buckets h bs" using assms by (simp add: wf_table_def)
  let ?body = "\<lambda>i numFound. rbind (arr_get (buckets h) i) (\<lambda>s. rbind (List_SanityCheck s) (\<lambda>_.
      let numFound = numFound + numInList s in
      rbind (HashCheck_loop (Linked_List.fresh s) h i s (ListIterator_new s)) (\<lambda>_. Ok numFound)))"
  have "\<exists>n. for_loop (int 0) (int (length bs)) ?body 0 = Ok n \<and> n = int (length (concat (take (length bs) bs)))"
  proof (rule for_loop_nat)
    fix i n assume i: "0 \<le> i" "i < length bs" and n: "n = int (length (concat (take i bs)))"
    have "\<forall>x\<in>set (bs ! i). HashValue h (getKey h x) = Ok (int i)"
      using w i by (simp add: HashValue_slot)
    then show "\<exists>n'. ?body (int i) n = Ok n' \<and> n' = int (length (concat (take (Suc i) bs)))"
      using bucket_walks(2) [OF in_buckets_nth [OF ib i(2)], of h "int i"]
        bucket_walks(4,5) [OF in_buckets_nth [OF ib i(2)]] in_buckets_length [OF ib] i(2) n
      by (simp add: arr_get_nat take_Suc_conv_app_nth)
  qed simp_all
  with w show ?thesis by (simp add: HashTable_SanityCheck_def)
qed

lemma ReHash_loop_spec:
  assumes "represents old xs" "in_buckets h bs" "distinct (map (getKey h) (xs @ concat bs))"
  shows "\<exists>bl bs'. ReHash_loop (length xs) old h = Ok (h\<lparr>buckets := bl\<rparr>) \<and> in_buckets (h\<lparr>buckets := bl\<rparr>) bs'
    \<and> mset (concat bs') = mset xs + mset (concat bs)"
  using assms
proof (induction xs arbitrary: old h bs)
  case Nil
  then show ?case using IsEmpty_represents [OF Nil(1)]
    by (intro exI [of _ "buckets h"] exI [of _ bs]) simp
next
  case (Cons x xs)
  obtain old' where old': "List_RemoveFront old = Ok (x, old')" "represents old' xs"
    using RemoveFront_represents(1) [OF Cons.prems(1) refl] by blast
  have new: "getKey h x \<notin> getKey h ` set (concat bs)" using Cons.prems(3) by auto
  obtain s s' bl bs1 where a: "arr_get (buckets h) (int (slot_of h (getKey h x))) = Ok s" "List_Append s x = Ok s'"
      "arr_set (buckets h) (int (slot_of h (getKey h x))) s' = Ok bl" "in_buckets (h\<lparr>buckets := bl\<rparr>) bs1"
      "mset (concat bs1) = add_mset x (mset (concat bs))"
    using bucket_append [OF Cons.prems(2) new] by metis
  have m: "mset (map (getKey h) (xs @ concat bs1)) = mset (map (getKey h) ((x # xs) @ concat bs))"
    using a(5) by (simp only: mset_map mset_append mset.simps image_mset_union image_mset_add_mset
        union_mset_add_mset_left union_mset_add_mset_right)
  have "distinct (map (getKey h) (xs @ concat bs1))"
    using Cons.prems(3) unfolding mset_eq_imp_distinct_iff [OF m] .
  then have "distinct (map (getKey (h\<lparr>buckets := bl\<rparr>)) (xs @ concat bs1))" by simp
  from Cons.IH [OF old'(2) a(4) this] obtain bl' bs' where
    "ReHash_loop (length xs) old' (h\<lparr>buckets := bl\<rparr>) = Ok (h\<lparr>buckets := bl'\<rparr>)"
    "in_buckets (h\<lparr>buckets := bl'\<rparr>) bs'" "mset (concat bs') = mset xs + mset (concat bs1)"
    by auto
  moreover have "\<not> List_IsEmpty old" using IsEmpty_represents [OF Cons.prems(1)] by simp
  moreover have "HashValue h (getKey h x) = Ok (int (slot_of h (getKey h x)))"
    using Cons.prems(2) by (simp add: HashValue_slot in_buckets_def)
  ultimately show ?case using old' a by (intro exI [of _ bl'] exI [of _ bs']) simp
qed

lemma empty_buckets:
  "0 < n \<Longrightarrow> in_buckets (InitBuckets n h) (replicate (nat n) [])"
  by (auto simp: in_buckets_def InitBuckets_def list_all2_conv_all_nth represents_new)

lemma ReHash_spec:
  assumes "wf_table h bs"
  obtains h' bs' where "ReHash h = Ok h'" "wf_table h' bs'" "mset (concat bs') = mset (concat bs)"
    "getKey h' = getKey h" "hash h' = hash h" "numBuckets h' = 4 * numBuckets h" "numItems h' = numItems h"
proof -
  have ib: "in_buckets h bs" and n: "0 < numBuckets h" "int (length bs) = numBuckets h"
    using assms by (simp_all add: wf_table_def in_buckets_def)
  let ?h0 = "InitBuckets (numBuckets h * IncreaseSizeBy) h"
  let ?body = "\<lambda>i t. rbind (arr_get (buckets h) i) (\<lambda>old. ReHash_loop (nat (numInList old)) old t)"
  let ?I = "\<lambda>i t. \<exists>bl bs'. t = ?h0\<lparr>buckets := bl\<rparr> \<and> in_buckets t bs' \<and> mset (concat bs') = mset (concat (take i bs))"
  have "\<exists>t. for_loop (int 0) (int (length bs)) ?body ?h0 = Ok t \<and> ?I (length bs) t"
  proof (rule for_loop_nat)
    have "in_buckets ?h0 (replicate (nat (numBuckets h * IncreaseSizeBy)) [])"
      by (rule empty_buckets) (use n(1) in \<open>simp add: IncreaseSizeBy_def\<close>)
    then show "?I 0 ?h0" by (intro exI [of _ "buckets ?h0"]) auto
    fix i t assume i: "0 \<le> i" "i < length bs" and "?I i t"
    then obtain bl bs' where t: "t = ?h0\<lparr>buckets := bl\<rparr>" "in_buckets t bs'"
        "mset (concat bs') = mset (concat (take i bs))" by blast
    have k: "getKey t = getKey h" by (simp add: t(1) InitBuckets_def)
    have "concat bs = concat (take i bs) @ bs ! i @ concat (drop (Suc i) bs)"
      using id_take_nth_drop [OF i(2)] by (metis concat.simps(2) concat_append)
    then have "distinct (map (getKey h) (concat (take i bs) @ bs ! i))"
      using in_buckets_keys [OF ib] by (metis append_assoc distinct_append map_append)
    moreover have "mset (map (getKey h) (bs ! i @ concat bs')) = mset (map (getKey h) (concat (take i bs) @ bs ! i))"
      by (simp only: mset_map mset_append t(3) image_mset_union add.commute)
    ultimately have "distinct (map (getKey t) (bs ! i @ concat bs'))"
      unfolding k using mset_eq_imp_distinct_iff by blast
    from ReHash_loop_spec [OF in_buckets_nth [OF ib i(2)] t(2) this] obtain bl1 bs1 where
      "ReHash_loop (length (bs ! i)) (buckets h ! i) t = Ok (t\<lparr>buckets := bl1\<rparr>)" "in_buckets (t\<lparr>buckets := bl1\<rparr>) bs1"
      "mset (concat bs1) = mset (bs ! i) + mset (concat bs')" by blast
    moreover have "mset (concat (take (Suc i) bs)) = mset (bs ! i) + mset (concat (take i bs))"
      using i(2) by (simp add: take_Suc_conv_app_nth)
    ultimately show "\<exists>t'. ?body (int i) t = Ok t' \<and> ?I (Suc i) t'"
      using bucket_walks(5) [OF in_buckets_nth [OF ib i(2)]] in_buckets_length [OF ib] i(2) t
      by (simp add: arr_get_nat) (metis HashTable.surjective)
  qed simp
  then obtain t bl bs' where t: "for_loop 0 (numBuckets h) ?body ?h0 = Ok t" "t = ?h0\<lparr>buckets := bl\<rparr>"
      "in_buckets t bs'" "mset (concat bs') = mset (concat bs)" unfolding n(2) by auto
  have w: "wf_table t bs'"
    using assms t(2-4) mset_eq_length [OF t(4)] n(1) by (simp add: wf_table_def InitBuckets_def IncreaseSizeBy_def ResizeRatio_def)
  have "ReHash h = Ok t"
    using t(1) SanityCheck_ok [OF assms] SanityCheck_ok [OF w] by (simp add: ReHash_def Let_def)
  from that [OF this w t(4)] t(2) show ?thesis by (simp add: InitBuckets_def IncreaseSizeBy_def)
qed

section \<open>Insert and Remove\<close>

lemma table_Insert_spec:
  assumes "wf_table h bs" "getKey h x \<notin> getKey h ` set (concat bs)"
  obtains h' bs' where "HashTable_Insert h x = Ok h'" "wf_table h' bs'" "getKey h' = getKey h"
    "mset (concat bs') = add_mset x (mset (concat bs))"
proof -
  have ib: "in_buckets h bs" and n: "0 < numBuckets h" "0 \<le> numItems h" "numItems h \<le> 3 * numBuckets h"
    using assms(1) by (simp_all add: wf_table_def in_buckets_def ResizeRatio_def)
  have "\<exists>h1 bs1. (if numItems h sdiv numBuckets h \<ge> ResizeRatio then ReHash h else Ok h) = Ok h1
      \<and> wf_table h1 bs1 \<and> getKey h1 = getKey h \<and> mset (concat bs1) = mset (concat bs) \<and> numItems h1 < 3 * numBuckets h1"
  proof (cases "numItems h sdiv numBuckets h \<ge> ResizeRatio")
    case True
    then show ?thesis using ReHash_spec [OF assms(1)] n
      by (smt (verit, best))
  next
    case False
    then have "numItems h div numBuckets h < 3" using n by (simp add: sdiv_nonneg ResizeRatio_def)
    then have "numItems h < 3 * numBuckets h" using zdiv_mono1 [of "3 * numBuckets h" "numItems h" "numBuckets h"] n(1)
      by (cases "numItems h < 3 * numBuckets h") simp_all
    with False assms(1) show ?thesis by auto
  qed
  then obtain h1 bs1 where h1: "(if numItems h sdiv numBuckets h \<ge> ResizeRatio then ReHash h else Ok h) = Ok h1"
      "wf_table h1 bs1" "getKey h1 = getKey h" "mset (concat bs1) = mset (concat bs)" "numItems h1 < 3 * numBuckets h1"
    by blast
  have ib1: "in_buckets h1 bs1" and n1: "0 < numBuckets h1"
    using h1(2) by (simp_all add: wf_table_def in_buckets_def)
  have "getKey h1 x \<notin> getKey h1 ` set (concat bs1)"
    using assms(2) mset_eq_setD [OF h1(4)] h1(3) by simp
  then obtain s s' bl bs' where a: "arr_get (buckets h1) (int (slot_of h1 (getKey h1 x))) = Ok s"
      "List_Append s x = Ok s'" "arr_set (buckets h1) (int (slot_of h1 (getKey h1 x))) s' = Ok bl"
      "in_buckets (h1\<lparr>buckets := bl\<rparr>) bs'" "mset (concat bs') = add_mset x (mset (concat bs1))"
    by (rule bucket_append [OF ib1])
  let ?h = "h1\<lparr>buckets := bl, numItems := numItems h1 + 1\<rparr>"
  have ibh: "in_buckets ?h bs'" using a(4) by (simp only: in_buckets_fields)
  have "length (concat bs') = Suc (length (concat bs1))"
    using arg_cong [OF a(5), of size] by (simp only: size_mset size_add_mset)
  then have w: "wf_table ?h bs'"
    using h1(2,5) ibh by (simp add: wf_table_def ResizeRatio_def)
  have "x \<in> set (concat bs')" using a(5) by (metis set_mset_mset union_single_eq_member)
  then have "IsInTable ?h (getKey h x) = Ok True" using table_Find_spec(3) [OF ibh, of "getKey h x"] h1(3) by simp
  moreover have "IsInTable h (getKey h x) = Ok False" using table_Find_spec(3) [OF ib] assms(2) by simp
  ultimately have "HashTable_Insert h x = Ok ?h"
    using h1(1,3) a(1-3) n(1) n1 by (simp add: HashTable_Insert_def Let_def HashValue_slot)
  then show ?thesis using that [OF _ w] h1(3,4) a(5) by simp
qed

lemma Insert_twice: "wf_table h bs \<Longrightarrow> getKey h x \<in> getKey h ` set (concat bs) \<Longrightarrow>
    HashTable_Insert h x = Fault AssertFailed"
  using table_Find_spec(3) [of h bs "getKey h x"] by (simp add: HashTable_Insert_def Let_def wf_table_def)

lemma table_Remove_spec:
  assumes "wf_table h bs" "x \<in> set (concat bs)"
  obtains h' bs' where "HashTable_Remove h (getKey h x) = Ok (x, h')" "wf_table h' bs'" "getKey h' = getKey h"
    "mset (concat bs) = add_mset x (mset (concat bs'))"
proof -
  let ?k = "getKey h x" and ?i = "slot_of h (getKey h x)"
  have ib: "in_buckets h bs" and n: "0 < numBuckets h" using assms(1) by (simp_all add: wf_table_def in_buckets_def)
  have l: "?i < length bs" "length (buckets h) = length bs"
    using slot_of_less [OF ib] in_buckets_length [OF ib] by simp_all
  have "List.find (\<lambda>y. ?k = getKey h y) (concat bs) = Some x"
    using find_key [OF in_buckets_keys [OF ib]] assms(2) by blast
  then have f: "FindInBucket h (int ?i) ?k = Ok (Some x)" "List.find (\<lambda>y. ?k = getKey h y) (bs ! ?i) = Some x"
    using table_Find_spec(2) [OF ib, of ?k] by (simp_all add: find_in_slot [OF ib])
  note f = f(1) find_mem [OF f(2)]
  have "distinct (bs ! ?i)"
    using in_buckets_keys [OF ib] l(1) by (auto simp: distinct_map distinct_concat_iff)
  then obtain s' where s': "List_Remove (buckets h ! ?i) x = Ok s'" "represents s' (remove1 x (bs ! ?i))"
    using Remove_represents(1) [OF in_buckets_nth [OF ib l(1)]] f(2) by blast
  let ?bs = "bs[?i := remove1 x (bs ! ?i)]"
  have "mset (bs ! ?i) = add_mset x (mset (remove1 x (bs ! ?i)))" using f(2) by simp
  then have m: "mset (concat bs) = add_mset x (mset (concat ?bs))"
    using mset_concat_update [OF l(1), of "remove1 x (bs ! ?i)"] by (simp del: mset_remove1)
  have me: "mset (map (getKey h) (concat bs)) = mset (map (getKey h) (x # concat ?bs))"
    by (simp only: mset_map m mset.simps)
  have d: "distinct (map (getKey h) (x # concat ?bs))"
    using in_buckets_keys [OF ib] unfolding mset_eq_imp_distinct_iff [OF me] .
  let ?h = "h\<lparr>buckets := (buckets h)[?i := s'], numItems := numItems h - 1\<rparr>"
  have c1: "distinct (map (getKey h) (concat ?bs))" using d [unfolded list.map distinct.simps] by (rule conjunct2)
  have c2: "list_all2 represents ((buckets h)[?i := s']) ?bs"
    using ib s'(2) by (simp add: in_buckets_def list_all2_update_cong)
  have c3: "slot_of h (getKey h y) = i" if "i < length bs" "y \<in> set (?bs ! i)" for i y
  proof -
    have "set (?bs ! i) \<subseteq> set (bs ! i)"
      using that(1) set_remove1_subset by (cases "i = ?i") simp_all
    with that(2) show ?thesis by (intro in_slot [OF ib that(1) subsetD])
  qed
  have "in_buckets (h\<lparr>buckets := (buckets h)[?i := s']\<rparr>) ?bs"
    by (rule in_buckets_upd [OF ib length_list_update c2 _ c1], rule c3) (simp_all only: length_list_update)
  then have ibh: "in_buckets ?h ?bs" by (simp only: in_buckets_fields)
  have "length (concat bs) = Suc (length (concat ?bs))"
    using arg_cong [OF m, of size] by (simp only: size_mset size_add_mset)
  then have w: "wf_table ?h ?bs" using assms(1) ibh by (simp add: wf_table_def)
  have "?k \<notin> getKey h ` set (concat ?bs)" using d by (simp only: list.map distinct.simps set_map) simp
  then have "IsInTable ?h ?k = Ok False" using table_Find_spec(3) [OF ibh, of ?k] by (simp del: set_concat)
  then have "HashTable_Remove h ?k = Ok (x, ?h)"
    using f(1) s'(1) l n by (simp add: HashTable_Remove_def HashValue_slot arr_get_nat Let_def)
  then show ?thesis using that [OF _ w _ m] by simp
qed

lemma Remove_missing: "wf_table h bs \<Longrightarrow> k \<notin> getKey h ` set (concat bs) \<Longrightarrow>
    HashTable_Remove h k = Fault AssertFailed"
  using table_Find_spec(2) [of h bs k] find_key_None [of k "getKey h" "concat bs"]
  by (simp add: HashTable_Remove_def wf_table_def HashValue_slot in_buckets_def)

lemma HashTable_new_wf: "wf_table (HashTable_new get hFunc) (replicate 4 [])"
  using empty_buckets [of 4 "\<lparr>buckets = [], numBuckets = 0, numItems = 0, getKey = get, hash = hFunc\<rparr>"]
  by (simp add: HashTable_new_def InitialBuckets_def wf_table_def InitBuckets_def ResizeRatio_def numeral_eq_Suc)

section \<open>The contract of a table with keys\<close>

text \<open>
  What a client of the table relies on: \<open>rep t m\<close> says that the table \<open>t\<close> holds the items \<open>m\<close>. The self
  test of the class is such a client.
\<close>

locale keyed_table =
  fixes key :: "'a \<Rightarrow> 'k" and rep :: "'t \<Rightarrow> ('k \<rightharpoonup> 'a) \<Rightarrow> bool" and keyof :: "'t \<Rightarrow> 'a \<Rightarrow> 'k"
    and ins :: "'t \<Rightarrow> 'a \<Rightarrow> 't result" and rem :: "'t \<Rightarrow> 'k \<Rightarrow> ('a \<times> 't) result"
    and find :: "'t \<Rightarrow> 'k \<Rightarrow> 'a option result" and isin :: "'t \<Rightarrow> 'k \<Rightarrow> bool result" and empty :: "'t \<Rightarrow> bool"
  assumes rep_ins: "rep t m \<Longrightarrow> m (key x) = None \<Longrightarrow> \<exists>t'. ins t x = Ok t' \<and> rep t' (m(key x \<mapsto> x))"
    and rep_rem: "rep t m \<Longrightarrow> m k = Some x \<Longrightarrow> \<exists>t'. rem t k = Ok (x, t') \<and> rep t' (m(k := None))"
    and rep_find: "rep t m \<Longrightarrow> find t k = Ok (m k)"
    and rep_isin: "rep t m \<Longrightarrow> isin t k = Ok (m k \<noteq> None)"
    and rep_empty: "rep t m \<Longrightarrow> empty t = (m = Map.empty)"
    and rep_key: "rep t m \<Longrightarrow> keyof t = key"
begin

definition holds :: "'a list \<Rightarrow> ('k \<rightharpoonup> 'a)" where
  "holds xs = map_of (map (\<lambda>x. (key x, x)) xs)"

lemma holds_snoc: "key x \<notin> key ` set xs \<Longrightarrow> holds (xs @ [x]) = (holds xs)(key x \<mapsto> x)"
  by (induction xs) (auto simp: holds_def fun_upd_twist)

lemma holds_None: "key x \<notin> key ` set xs \<Longrightarrow> holds xs (key x) = None"
  by (simp add: holds_def map_of_eq_None_iff image_image)

lemma holds_Cons_rem: "key x \<notin> key ` set xs \<Longrightarrow> (holds (x # xs))(key x := None) = holds xs"
  using holds_None [of x xs] by (auto simp: holds_def fun_eq_iff)

text \<open>Putting in items with different keys, and taking them out again.\<close>

lemma fill:
  assumes "rep t Map.empty" "distinct (map key p)"
  shows "\<exists>t'. for_loop 0 (int (length p)) (\<lambda>i t. rbind (arr_get p i) (\<lambda>x. rbind (ins t x) (\<lambda>t.
      rbind (isin t (keyof t x)) (\<lambda>b. ASSERT b (ASSERT (\<not> empty t) (Ok t)))))) t = Ok t' \<and> rep t' (holds p)"
proof -
  let ?body = "\<lambda>i t. rbind (arr_get p i) (\<lambda>x. rbind (ins t x) (\<lambda>t.
      rbind (isin t (keyof t x)) (\<lambda>b. ASSERT b (ASSERT (\<not> empty t) (Ok t)))))"
  have "\<exists>t'. for_loop (int 0) (int (length p)) ?body t = Ok t' \<and> rep t' (holds (take (length p) p))"
  proof (rule for_loop_nat)
    show "rep t (holds (take 0 p))" using assms(1) by (simp add: holds_def)
    fix i t assume i: "0 \<le> i" "i < length p" and r: "rep t (holds (take i p))"
    have "distinct (map key (take (Suc i) p))" using assms(2) by (metis distinct_take take_map)
    then have n: "key (p ! i) \<notin> key ` set (take i p)" using i(2) by (simp add: take_Suc_conv_app_nth)
    obtain t' where t': "ins t (p ! i) = Ok t'" "rep t' ((holds (take i p))(key (p ! i) \<mapsto> p ! i))"
      using rep_ins [OF r holds_None [OF n]] by blast
    then have "rep t' (holds (take (Suc i) p))" using i(2) by (simp add: take_Suc_conv_app_nth holds_snoc [OF n])
    with t' i(2) show "\<exists>t'. ?body (int i) t = Ok t' \<and> rep t' (holds (take (Suc i) p))"
      using rep_isin [OF t'(2)] rep_empty [OF t'(2)] rep_key [OF t'(2)] by (simp add: arr_get_nat)
  qed simp
  then show ?thesis by simp
qed

lemma drain:
  assumes "rep t (holds p)" "distinct (map key p)"
  shows "\<exists>t'. for_loop 0 (int (length p)) (\<lambda>i t. rbind (arr_get p i) (\<lambda>x. rbind (rem t (keyof t x)) (\<lambda>(y, t).
      ASSERT (y = x) (Ok t)))) t = Ok t' \<and> rep t' Map.empty"
proof -
  let ?body = "\<lambda>i t. rbind (arr_get p i) (\<lambda>x. rbind (rem t (keyof t x)) (\<lambda>(y, t). ASSERT (y = x) (Ok t)))"
  have "\<exists>t'. for_loop (int 0) (int (length p)) ?body t = Ok t' \<and> rep t' (holds (drop (length p) p))"
  proof (rule for_loop_nat)
    show "rep t (holds (drop 0 p))" using assms(1) by simp
    fix i t assume i: "0 \<le> i" "i < length p" and r: "rep t (holds (drop i p))"
    have d: "drop i p = p ! i # drop (Suc i) p" using i(2) by (simp add: Cons_nth_drop_Suc)
    have "distinct (map key (drop i p))" using assms(2) by (metis distinct_drop drop_map)
    then have n: "key (p ! i) \<notin> key ` set (drop (Suc i) p)" by (simp add: d)
    have "holds (drop i p) (key (p ! i)) = Some (p ! i)" by (simp add: d holds_def)
    from rep_rem [OF r this] obtain t' where t': "rem t (key (p ! i)) = Ok (p ! i, t')"
        "rep t' ((holds (drop i p))(key (p ! i) := None))" by blast
    then have "rep t' (holds (drop (Suc i) p))" unfolding d holds_Cons_rem [OF n] by simp
    with t' i(2) show "\<exists>t'. ?body (int i) t = Ok t' \<and> rep t' (holds (drop (Suc i) p))"
      by (simp add: arr_get_nat rep_key [OF r])
  qed simp
  then show ?thesis by (simp add: holds_def)
qed

end

lemma key_map_mset:
  "distinct (map get xs) \<Longrightarrow> mset xs = mset ys \<Longrightarrow> key_map get xs = key_map get ys"
  unfolding key_map_def by (rule ext) (rule find_key_mset)

lemma key_map_None: "key_map get xs k = None \<longleftrightarrow> k \<notin> get ` set xs"
  unfolding key_map_def by (rule find_key_None)

lemma key_map_Nil: "key_map get [] = Map.empty"
  by (simp add: key_map_def fun_eq_iff)

lemma key_map_Cons: "key_map get (x # xs) = (key_map get xs)(get x \<mapsto> x)"
  by (auto simp: key_map_def fun_eq_iff)

lemma wf_table_keys: "wf_table h bs \<Longrightarrow> distinct (map (getKey h) (concat bs))"
  by (simp add: wf_table_def in_buckets_def)

lemma Insert_is_table:
  assumes "is_table get h m"
  shows "m (get x) = None \<Longrightarrow> \<exists>h'. HashTable_Insert h x = Ok h' \<and> is_table get h' (m(get x \<mapsto> x))"
    and "m (get x) \<noteq> None \<Longrightarrow> HashTable_Insert h x = Fault AssertFailed"
proof -
  obtain bs where bs: "wf_table h bs" "m = key_map get (concat bs)" and g: "getKey h = get"
    using assms by (auto simp: is_table_def)
  show "HashTable_Insert h x = Fault AssertFailed" if "m (get x) \<noteq> None"
    using Insert_twice [OF bs(1)] that unfolding bs(2) key_map_None g by blast
  assume "m (get x) = None"
  then have "getKey h x \<notin> getKey h ` set (concat bs)" unfolding bs(2) key_map_None g .
  then obtain h' bs' where h': "HashTable_Insert h x = Ok h'" "wf_table h' bs'" "getKey h' = getKey h"
      "mset (concat bs') = add_mset x (mset (concat bs))" by (rule table_Insert_spec [OF bs(1)])
  have "key_map get (concat bs') = key_map get (x # concat bs)"
    by (rule key_map_mset) (use wf_table_keys [OF h'(2)] h'(3,4) g in simp_all)
  with h' g show "\<exists>h'. HashTable_Insert h x = Ok h' \<and> is_table get h' (m(get x \<mapsto> x))"
    unfolding is_table_def bs(2) key_map_Cons by metis
qed

lemma Remove_is_table:
  assumes "is_table get h m"
  shows "m k = Some x \<Longrightarrow> \<exists>h'. HashTable_Remove h k = Ok (x, h') \<and> is_table get h' (m(k := None))"
    and "m k = None \<Longrightarrow> HashTable_Remove h k = Fault AssertFailed"
proof -
  obtain bs where bs: "wf_table h bs" "m = key_map get (concat bs)" and g: "getKey h = get"
    using assms by (auto simp: is_table_def)
  show "HashTable_Remove h k = Fault AssertFailed" if "m k = None"
    using Remove_missing [OF bs(1)] that unfolding bs(2) key_map_None g by blast
  assume "m k = Some x"
  then have x: "x \<in> set (concat bs)" "getKey h x = k"
    using find_key [OF wf_table_keys [OF bs(1)], of k x] unfolding bs(2) key_map_def g by auto
  from x(1) obtain h' bs' where h': "HashTable_Remove h (getKey h x) = Ok (x, h')" "wf_table h' bs'" "getKey h' = getKey h"
      "mset (concat bs) = add_mset x (mset (concat bs'))" by (rule table_Remove_spec [OF bs(1)])
  have d: "key_map get (concat bs) = key_map get (x # concat bs')"
    by (rule key_map_mset) (use wf_table_keys [OF bs(1)] h'(4) g in simp_all)
  have "mset (map get (concat bs)) = mset (map get (x # concat bs'))" by (simp only: mset_map h'(4) mset.simps)
  then have "get x \<notin> get ` set (concat bs')"
    using wf_table_keys [OF bs(1)] mset_eq_imp_distinct_iff unfolding g by fastforce
  then have "key_map get (concat bs') (get x) = None" unfolding key_map_None .
  then have "m(k := None) = key_map get (concat bs')"
    using x(2) g unfolding bs(2) d key_map_Cons by (auto simp: fun_eq_iff)
  with h' x(2) g show "\<exists>h'. HashTable_Remove h k = Ok (x, h') \<and> is_table get h' (m(k := None))"
    unfolding is_table_def by metis
qed

lemma Find_is_table:
  assumes "is_table get h m"
  shows "HashTable_Find h k = Ok (m k)" "IsInTable h k = Ok (m k \<noteq> None)"
proof -
  obtain bs where bs: "in_buckets h bs" "m = key_map get (concat bs)" "getKey h = get"
    using assms by (auto simp: is_table_def wf_table_def)
  show f: "HashTable_Find h k = Ok (m k)" using table_Find_spec(1) [OF bs(1)] bs(2,3) by (simp add: key_map_def)
  show "IsInTable h k = Ok (m k \<noteq> None)" by (simp add: IsInTable_def f)
qed

lemma IsEmpty_is_table: "is_table get h m \<Longrightarrow> HashTable_IsEmpty h = (m = Map.empty)"
proof -
  assume "is_table get h m"
  then obtain bs where "wf_table h bs" "m = key_map get (concat bs)" by (auto simp: is_table_def)
  moreover have "key_map get (concat bs) = Map.empty \<longleftrightarrow> concat bs = []"
    by (cases "concat bs") (simp_all only: key_map_Nil key_map_Cons map_upd_nonempty list.distinct simp_thms)
  ultimately show ?thesis by (simp add: HashTable_IsEmpty_def wf_table_def)
qed

interpretation ht: keyed_table get "is_table get" getKey HashTable_Insert HashTable_Remove HashTable_Find IsInTable HashTable_IsEmpty
  for get
  by unfold_locales
     (simp_all add: Insert_is_table(1) Remove_is_table(1) Find_is_table IsEmpty_is_table, simp add: is_table_def)

lemma new_is_table: "is_table get (HashTable_new get hFunc) Map.empty"
  using HashTable_new_wf [of get hFunc]
  by (auto simp: is_table_def HashTable_new_def InitBuckets_def key_map_def intro!: exI [of _ "replicate 4 []"])

section \<open>Visiting all items\<close>

lemma table_Apply_spec:
  assumes "in_buckets h bs"
  shows "HashTable_Apply h = Ok (concat bs)"
proof -
  let ?body = "\<lambda>b xs. rbind (arr_get (buckets h) b) (\<lambda>s. rbind (List_Apply s) (\<lambda>ys. Ok (xs @ ys)))"
  have "\<exists>xs. for_loop (int 0) (int (length bs)) ?body [] = Ok xs \<and> xs = concat (take (length bs) bs)"
  proof (rule for_loop_nat)
    fix i xs assume "0 \<le> i" "i < length bs" "xs = concat (take i bs)"
    then show "\<exists>ys. ?body (int i) xs = Ok ys \<and> ys = concat (take (Suc i) bs)"
      using bucket_walks(3) [OF in_buckets_nth [OF assms]] in_buckets_length [OF assms]
      by (simp add: arr_get_nat take_Suc_conv_app_nth)
  qed simp_all
  then show ?thesis using assms by (simp add: HashTable_Apply_def in_buckets_def)
qed

text \<open>
  The loop \<^verbatim>\<open>for (; !iter->IsDone(); iter->Next())\<close> over \<^verbatim>\<open>iter->Item()\<close> that the comment of
  \<open>HashIterator\<close> shows, for at most \<open>n\<close> items: the items it visits.
\<close>

primrec iterate :: "nat \<Rightarrow> ('k, 'a) HashTable \<Rightarrow> HashIterator \<Rightarrow> 'a list result" where
  "iterate 0 tbl it = (if HashIterator_IsDone tbl it then Ok [] else Fault Diverges)"
| "iterate (Suc n) tbl it =
     (if HashIterator_IsDone tbl it then Ok []
      else rbind (HashIterator_Item tbl it) (\<lambda>x.
           rbind (HashIterator_Next tbl it) (\<lambda>it.
           rbind (iterate n tbl it) (\<lambda>xs. Ok (x # xs)))))"

text \<open>Where an iterator stands: the items it has still to visit.\<close>

definition stands :: "('k, 'a) HashTable \<Rightarrow> 'a list list \<Rightarrow> HashIterator \<Rightarrow> 'a list \<Rightarrow> bool" where
  "stands h bs it xs \<longleftrightarrow>
     (if xs = [] then it = \<lparr>bucket = numBuckets h, bucketIter = None\<rparr>
      else \<exists>i p as. i < length bs \<and> it = \<lparr>bucket = int i, bucketIter = Some p\<rparr> \<and> as \<noteq> []
             \<and> path (cells (buckets h ! i)) p as None \<and> xs = items (buckets h ! i) as @ concat (drop (Suc i) bs))"

lemma FindNextFullBucket_spec:
  assumes "in_buckets h bs" "i \<le> length bs"
  shows "\<exists>it. rbind (FindNextFullBucket h (int i)) (HashIterator_at h) = Ok it \<and> stands h bs it (concat (drop i bs))"
  using assms(2)
proof (induction "length bs - i" arbitrary: i)
  case 0
  then show ?case
    using assms(1) by (subst FindNextFullBucket.simps) (simp add: HashIterator_at_def stands_def in_buckets_def)
next
  case (Suc n)
  then have i: "i < length bs" "int i < numBuckets h" using assms(1) by (auto simp: in_buckets_def)
  note r = in_buckets_nth [OF assms(1) i(1)]
  have d: "drop i bs = bs ! i # drop (Suc i) bs" using i(1) by (simp add: Cons_nth_drop_Suc)
  have g: "arr_get (buckets h) (int i) = Ok (buckets h ! i)"
    using in_buckets_length [OF assms(1)] i(1) by (simp add: arr_get_nat)
  show ?case
  proof (cases "bs ! i = []")
    case True
    then show ?thesis
      using Suc i g IsEmpty_represents [OF r] Suc.hyps(1) [of "Suc i"]
      by (subst FindNextFullBucket.simps) (simp add: d add.commute)
  next
    case False
    obtain as where as: "shape (buckets h ! i) as" "items (buckets h ! i) as = bs ! i"
      using r by (auto simp: represents_def)
    then have "path (cells (buckets h ! i)) (first (buckets h ! i)) as None" "as \<noteq> []"
      using False by (auto simp: shape_def)
    with as(2) False i have "stands h bs \<lparr>bucket = int i, bucketIter = Some (ListIterator_new (buckets h ! i))\<rparr> (concat (drop i bs))"
      unfolding stands_def d ListIterator_new_def by (simp add: del: HashIterator.ext_inject) (metis HashIterator.ext_inject)
    moreover have "rbind (FindNextFullBucket h (int i)) (HashIterator_at h)
        = Ok \<lparr>bucket = int i, bucketIter = Some (ListIterator_new (buckets h ! i))\<rparr>"
      using i g False IsEmpty_represents [OF r]
      by (subst FindNextFullBucket.simps) (simp add: HashIterator_at_def)
    ultimately show ?thesis by blast
  qed
qed

lemma Next_spec:
  assumes "in_buckets h bs" "stands h bs it (x # xs)"
  shows "\<not> HashIterator_IsDone h it" "HashIterator_Item h it = Ok x"
    "\<exists>it'. HashIterator_Next h it = Ok it' \<and> stands h bs it' xs"
proof -
  obtain i p a as where i: "i < length bs" "it = \<lparr>bucket = int i, bucketIter = Some p\<rparr>"
      "path (cells (buckets h ! i)) p (a # as) None"
      "x # xs = items (buckets h ! i) (a # as) @ concat (drop (Suc i) bs)"
    using assms(2) unfolding stands_def by (auto simp: neq_Nil_conv)
  obtain c where c: "p = Some a" "cells (buckets h ! i) a = Some c" "path (cells (buckets h ! i)) (next c) as None"
    using i(3) by auto
  have g: "arr_get (buckets h) (int i) = Ok (buckets h ! i)"
    using in_buckets_length [OF assms(1)] i(1) by (simp add: arr_get_nat)
  show d: "\<not> HashIterator_IsDone h it"
    using i(1,2) assms(1) by (auto simp: HashIterator_IsDone_def in_buckets_def)
  show "HashIterator_Item h it = Ok x"
    using d i(2,4) c g by (simp add: HashIterator_Item_def ListIterator_Item_def ListIterator_IsDone_def deref_Some)
  show "\<exists>it'. HashIterator_Next h it = Ok it' \<and> stands h bs it' xs"
  proof (cases as)
    case Nil
    with c have "next c = None" by simp
    then show ?thesis
      using FindNextFullBucket_spec [OF assms(1), of "Suc i"] i c g Nil
      by (simp add: HashIterator_Next_def ListIterator_Next_def ListIterator_IsDone_def deref_Some add.commute)
  next
    case (Cons b cs)
    with c obtain q where n: "next c = Some q" by auto
    have "stands h bs (it\<lparr>bucketIter := Some (next c)\<rparr>) xs"
      using i c Cons unfolding stands_def by (intro if_not_P [THEN iffD2] exI [of _ i] exI [of _ "next c"] exI [of _ as]) auto
    with i(2) c g n show ?thesis
      by (simp add: HashIterator_Next_def ListIterator_Next_def ListIterator_IsDone_def deref_Some)
  qed
qed

lemma iterate_spec:
  assumes "in_buckets h bs"
  shows "stands h bs it xs \<Longrightarrow> iterate (length xs) h it = Ok xs"
proof (induction xs arbitrary: it)
  case Nil
  then show ?case by (simp add: stands_def HashIterator_IsDone_def)
next
  case (Cons x xs)
  then show ?case using Next_spec [OF assms Cons.prems] by auto
qed

lemma HashIterator_new_spec:
  "in_buckets h bs \<Longrightarrow> \<exists>it. HashIterator_new h = Ok it \<and> stands h bs it (concat bs)"
  using FindNextFullBucket_spec [of h bs 0] by (simp add: HashIterator_new_def)

section \<open>Properties\<close>

text \<open>C40: The hash table implements a map from keys to items, whatever the hash function. \<open>Insert\<close> adds
  an item under its key and is refused by the assertion when the key is there already, also when it makes
  the table grow and moves all items; \<open>Find\<close> and \<open>IsInTable\<close> look an item up; \<open>Remove\<close> takes it
  out and is refused when it is not there; and no operation leaves more than three items per bucket.\<close>

theorem HashTable_refines_map:
  fixes h :: "('k, 'a) HashTable"
  assumes "is_table get h m"
  shows "is_table get (HashTable_new get hFunc) Map.empty
    \<and> HashTable_IsEmpty h = (m = Map.empty)
    \<and> HashTable_Find h k = Ok (m k) \<and> IsInTable h k = Ok (m k \<noteq> None)
    \<and> (case m (get x) of
         None \<Rightarrow> \<exists>h'. HashTable_Insert h x = Ok h' \<and> is_table get h' (m(get x \<mapsto> x))
       | Some y \<Rightarrow> HashTable_Insert h x = Fault AssertFailed)
    \<and> (case m k of
         None \<Rightarrow> HashTable_Remove h k = Fault AssertFailed
       | Some y \<Rightarrow> \<exists>h'. HashTable_Remove h k = Ok (y, h') \<and> is_table get h' (m(k := None)))
    \<and> 0 < numBuckets h \<and> numItems h \<le> 3 * numBuckets h \<and> numItems h = int (card (dom m))"
proof -
  obtain bs where bs: "wf_table h bs" "m = key_map get (concat bs)" "getKey h = get"
    using assms by (auto simp: is_table_def)
  have "dom m = get ` set (concat bs)" unfolding bs(2) by (simp only: dom_def key_map_None not_not Collect_mem_eq)
  then have "card (dom m) = length (concat bs)"
    using wf_table_keys [OF bs(1)] unfolding bs(3) by (metis distinct_card length_map list.set_map)
  with bs(1) have n: "0 < numBuckets h \<and> numItems h \<le> 3 * numBuckets h \<and> numItems h = int (card (dom m))"
    by (simp add: wf_table_def in_buckets_def ResizeRatio_def)
  show ?thesis
    using n new_is_table [of get hFunc] Find_is_table [OF assms] IsEmpty_is_table [OF assms]
      Insert_is_table [OF assms, of x] Remove_is_table [OF assms, of k]
    by (cases "m (get x)"; cases "m k") simp_all
qed

definition demo_table :: "(nat, nat \<times> nat) HashTable" where
  "demo_table = HashTable_new fst of_nat"

theorem HashTable_refines_map_witness:
  "\<exists>h. HashTable_Insert demo_table (5, 7) = Ok h \<and> is_table fst h [5 \<mapsto> (5, 7)]"
  using HashTable_refines_map [OF new_is_table [of fst of_nat], of _ _ "(5, 7 :: nat)"] by (simp add: demo_table_def)

text \<open>Visiting all items: \<open>Apply\<close> calls its function once on every item of the table, and an iterator
  goes through the same items in the same order and then is done.\<close>

theorem HashTable_visits_all:
  fixes h :: "('k, 'a) HashTable"
  assumes "is_table get h m"
  shows "\<exists>xs it. HashTable_Apply h = Ok xs \<and> set xs = ran m \<and> distinct (map get xs)
    \<and> HashIterator_new h = Ok it \<and> iterate (length xs) h it = Ok xs"
proof -
  obtain bs where bs: "wf_table h bs" "in_buckets h bs" "m = key_map get (concat bs)" "getKey h = get"
    using assms by (auto simp: is_table_def wf_table_def)
  obtain it where it: "HashIterator_new h = Ok it" "stands h bs it (concat bs)"
    using HashIterator_new_spec [OF bs(2)] by blast
  have d: "distinct (map get (concat bs))" using wf_table_keys [OF bs(1)] bs(4) by simp
  have "set (concat bs) = ran m"
    unfolding bs(3) ran_def key_map_def using find_key [OF d] by blast
  with d it iterate_spec [OF bs(2) it(2)] table_Apply_spec [OF bs(2)] show ?thesis by blast
qed

theorem HashTable_visits_all_witness:
  "\<exists>it. HashTable_Apply demo_table = Ok [] \<and> HashIterator_new demo_table = Ok it \<and> iterate 0 demo_table it = Ok []"
  using HashTable_visits_all [OF new_is_table [of fst of_nat]] by (auto simp: demo_table_def)

end
