(* ===== verification/Lib_Tests.thy ===== *)
theory Lib_Tests
  imports Bitmap Hash_Table
begin

text \<open>
  The self tests of the library, \<^verbatim>\<open>lib/libtest.cc\<close>, with those of \<open>List\<close>, \<open>SortedList\<close>
  (\<^verbatim>\<open>lib/list.cc\<close>) and \<open>HashTable\<close> (\<^verbatim>\<open>lib/hash.cc\<close>), and the function
  \<^verbatim>\<open>atoi\<close> of the C library they use. They are shown to pass, which runs every class on its
  contract: the self test of \<open>List\<close> on the locale \<open>list_class\<close>, what a subclass may do in its virtual
  methods, and the one of \<open>HashTable\<close> on \<open>keyed_table\<close>.
\<close>

section \<open>Self tests\<close>

text \<open>
  \<open>Append\<close> and \<open>SanityCheck\<close> are virtual in \<open>List\<close>: the self test of \<open>List\<close> takes them from
  the object it is called on.
\<close>

definition List_SelfTest_with ::
  "('a LList \<Rightarrow> 'a \<Rightarrow> 'a LList result) \<Rightarrow> ('a LList \<Rightarrow> unit result) \<Rightarrow> 'a list \<Rightarrow> int \<Rightarrow> 'a LList \<Rightarrow> 'a LList result"
where
  "List_SelfTest_with put check p numEntries s =
     (let iterator = ListIterator_new s in
      rbind (check s) (\<lambda>_. ASSERT (List_IsEmpty s \<and> first s = None)
     (ASSERT (ListIterator_IsDone iterator)
     (rbind (for_loop 0 numEntries (\<lambda>i s.
        rbind (arr_get p i) (\<lambda>x. rbind (put s x) (\<lambda>s.
        rbind (List_IsInList s x) (\<lambda>t. ASSERT t (ASSERT (\<not> List_IsEmpty s) (Ok s)))))) s) (\<lambda>s.
      rbind (check s) (\<lambda>_.
      rbind (for_loop 0 numEntries (\<lambda>i s.
        rbind (arr_get p i) (\<lambda>x. rbind (List_Remove s x) (\<lambda>s.
        rbind (List_IsInList s x) (\<lambda>t. ASSERT (\<not> t) (Ok s))))) s) (\<lambda>s.
      ASSERT (List_IsEmpty s) (rbind (check s) (\<lambda>_. Ok s)))))))))"

definition List_SelfTest :: "'a list \<Rightarrow> int \<Rightarrow> 'a LList \<Rightarrow> 'a LList result" where
  "List_SelfTest = List_SelfTest_with List_Append List_SanityCheck"

definition SortedList_SelfTest :: "('a \<Rightarrow> 'a \<Rightarrow> int) \<Rightarrow> 'a list \<Rightarrow> int \<Rightarrow> 'a LList \<Rightarrow> 'a LList result" where
  "SortedList_SelfTest compare p numEntries s =
     rbind (List_SelfTest_with (SortedList_Insert compare) (SortedList_SanityCheck compare) p numEntries s) (\<lambda>s.
     rbind (for_loop 0 numEntries (\<lambda>i s.
       rbind (arr_get p i) (\<lambda>x. rbind (SortedList_Insert compare s x) (\<lambda>s.
       rbind (List_IsInList s x) (\<lambda>t. ASSERT t (Ok s))))) s) (\<lambda>s.
     rbind (SortedList_SanityCheck compare s) (\<lambda>_.
     rbind (for_loop 0 numEntries (\<lambda>i (q, s).
       rbind (List_RemoveFront s) (\<lambda>(x, s).
       rbind (List_IsInList s x) (\<lambda>t. ASSERT (\<not> t) (Ok (q @ [x], s))))) ([], s)) (\<lambda>(q, s).
     ASSERT (List_IsEmpty s)
    (rbind (for_loop 0 (numEntries - 1) (\<lambda>i _.
       rbind (arr_get q i) (\<lambda>x. rbind (arr_get q (i + 1)) (\<lambda>y. ASSERT (compare x y \<le> 0) (Ok ())))) ()) (\<lambda>_.
     rbind (SortedList_SanityCheck compare s) (\<lambda>_. Ok s)))))))"

definition HashTable_SelfTest :: "'a list \<Rightarrow> int \<Rightarrow> ('k, 'a) HashTable \<Rightarrow> ('k, 'a) HashTable result" where
  "HashTable_SelfTest p numEntries h =
     rbind (HashIterator_new h) (\<lambda>iterator.
     rbind (HashTable_SanityCheck h) (\<lambda>_. ASSERT (HashTable_IsEmpty h)
    (ASSERT (HashIterator_IsDone h iterator)
    (rbind (for_loop 0 numEntries (\<lambda>i h.
       rbind (arr_get p i) (\<lambda>x. rbind (HashTable_Insert h x) (\<lambda>h.
       rbind (IsInTable h (getKey h x)) (\<lambda>t. ASSERT t (ASSERT (\<not> HashTable_IsEmpty h) (Ok h)))))) h) (\<lambda>h.
     rbind (for_loop 0 numEntries (\<lambda>i h.
       rbind (arr_get p i) (\<lambda>x. rbind (HashTable_Remove h (getKey h x)) (\<lambda>(y, h).
       ASSERT (y = x) (Ok h)))) h) (\<lambda>h.
     ASSERT (HashTable_IsEmpty h) (rbind (HashTable_SanityCheck h) (\<lambda>_. Ok h))))))))"

section \<open>libtest.cc\<close>

text \<open>A C string is the bytes before its terminator. \<^verbatim>\<open>atoi\<close> skips white space, takes a sign and reads
  digits up to the first other character.\<close>

type_synonym cstring = "8 word list"

definition cstr :: "string \<Rightarrow> cstring" where
  "cstr s = map (\<lambda>c. word_of_nat (of_char c)) s"

definition isdigit :: "8 word \<Rightarrow> bool" where
  "isdigit c \<longleftrightarrow> 48 \<le> c \<and> c \<le> 57"

definition isspace :: "8 word \<Rightarrow> bool" where
  "isspace c \<longleftrightarrow> c = 32 \<or> 9 \<le> c \<and> c \<le> 13"

definition digits_value :: "cstring \<Rightarrow> int" where
  "digits_value s = foldl (\<lambda>n c. 10 * n + (uint c - 48)) 0 (takeWhile isdigit s)"

definition atoi :: "cstring \<Rightarrow> int" where
  "atoi s = (case dropWhile isspace s of
       [] \<Rightarrow> 0
     | c # cs \<Rightarrow> if c = 45 then - digits_value cs else if c = 43 then digits_value cs else digits_value (c # cs))"

definition HashInt :: "int \<Rightarrow> 32 word" where
  "HashInt k = word_of_int k"

definition HashKey :: "cstring \<Rightarrow> int" where
  "HashKey str = atoi str"

definition listTestVector :: "int list" where
  "listTestVector = [9, 5, 7]"

definition hashTestVector :: "cstring list" where
  "hashTestVector = map cstr [''0'', ''1'', ''2'', ''3'', ''4'', ''5'', ''6'', ''7'', ''8'', ''9'', ''10'', ''11'', ''12'', ''13'', ''14'']"

definition LibSelfTest :: "unit result" where
  "LibSelfTest =
     rbind (Bitmap_new 200) (\<lambda>bmap.
     let list = List_new; sortList = List_new; hashTable = HashTable_new HashKey HashInt in
     rbind (Bitmap_SelfTest bmap) (\<lambda>bmap.
     rbind (List_SelfTest listTestVector (int (length listTestVector)) list) (\<lambda>list.
     rbind (SortedList_SelfTest IntCompare listTestVector (int (length listTestVector)) sortList) (\<lambda>sortList.
     rbind (HashTable_SelfTest hashTestVector (int (length hashTestVector)) hashTable) (\<lambda>hashTable.
     HashTable_delete hashTable)))))"

section \<open>Lists and what subclasses make of them\<close>

text \<open>\<open>inv\<close> is what a class keeps of its items, beside their being a list.\<close>

locale list_class =
  fixes put :: "'a LList \<Rightarrow> 'a \<Rightarrow> 'a LList result" and check :: "'a LList \<Rightarrow> unit result" and inv :: "'a list \<Rightarrow> bool"
  assumes put_ok: "represents s xs \<Longrightarrow> inv xs \<Longrightarrow> x \<notin> set xs \<Longrightarrow>
      \<exists>s' ys. put s x = Ok s' \<and> represents s' ys \<and> inv ys \<and> mset ys = add_mset x (mset xs)"
    and check_ok: "represents s xs \<Longrightarrow> inv xs \<Longrightarrow> check s = Ok ()"
    and inv_Nil: "inv []"
begin

lemma fill_list:
  assumes "represents s []" "distinct p"
    and step: "\<And>s xs x. represents s xs \<Longrightarrow> xs \<noteq> [] \<Longrightarrow> x \<in> set xs \<Longrightarrow> after x s = Ok s"
  shows "\<exists>s' ys. for_loop 0 (int (length p)) (\<lambda>i s. rbind (arr_get p i) (\<lambda>x. rbind (put s x) (after x))) s = Ok s'
    \<and> represents s' ys \<and> inv ys \<and> mset ys = mset p"
proof -
  let ?body = "\<lambda>i s. rbind (arr_get p i) (\<lambda>x. rbind (put s x) (after x))"
  let ?I = "\<lambda>i s. \<exists>ys. represents s ys \<and> inv ys \<and> mset ys = mset (take i p)"
  have "\<exists>s'. for_loop (int 0) (int (length p)) ?body s = Ok s' \<and> ?I (length p) s'"
  proof (rule for_loop_nat)
    show "?I 0 s" using assms(1) inv_Nil by auto
    fix i t assume i: "0 \<le> i" "i < length p" and "?I i t"
    then obtain ys where ys: "represents t ys" "inv ys" "mset ys = mset (take i p)" by blast
    have "p ! i \<notin> set (take i p)"
      using assms(2) i(2) by (metis distinct_take take_Suc_conv_app_nth not_distinct_conv_prefix)
    then have "p ! i \<notin> set ys" using mset_eq_setD [OF ys(3)] by simp
    then obtain t' zs where t': "put t (p ! i) = Ok t'" "represents t' zs" "inv zs" "mset zs = add_mset (p ! i) (mset ys)"
      using put_ok [OF ys(1,2)] by blast
    have "p ! i \<in> set zs" "zs \<noteq> []" using t'(4) by (metis set_mset_mset union_single_eq_member, auto)
    then have "after (p ! i) t' = Ok t'" using step [OF t'(2)] by blast
    moreover have "mset zs = mset (take (Suc i) p)" using t'(4) ys(3) i(2) by (simp add: take_Suc_conv_app_nth)
    ultimately show "\<exists>t'. ?body (int i) t = Ok t' \<and> ?I (Suc i) t'"
      using t'(1-3) i(2) by (auto simp: arr_get_nat)
  qed simp
  then show ?thesis by simp
qed

lemma drain_list:
  assumes "represents s ys" "mset ys = mset p" "distinct p"
  shows "\<exists>s'. for_loop 0 (int (length p)) (\<lambda>i s. rbind (arr_get p i) (\<lambda>x. rbind (List_Remove s x) (\<lambda>s.
      rbind (List_IsInList s x) (\<lambda>t. ASSERT (\<not> t) (Ok s))))) s = Ok s' \<and> represents s' []"
proof -
  let ?body = "\<lambda>i s. rbind (arr_get p i) (\<lambda>x. rbind (List_Remove s x) (\<lambda>s.
      rbind (List_IsInList s x) (\<lambda>t. ASSERT (\<not> t) (Ok s))))"
  let ?I = "\<lambda>i s. \<exists>zs. represents s zs \<and> mset zs = mset (drop i p)"
  have "\<exists>s'. for_loop (int 0) (int (length p)) ?body s = Ok s' \<and> ?I (length p) s'"
  proof (rule for_loop_nat)
    show "?I 0 s" using assms(1,2) by auto
    fix i t assume i: "0 \<le> i" "i < length p" and "?I i t"
    then obtain zs where zs: "represents t zs" "mset zs = mset (drop i p)" by blast
    have d: "drop i p = p ! i # drop (Suc i) p" using i(2) by (simp add: Cons_nth_drop_Suc)
    have dz: "distinct zs" using mset_eq_imp_distinct_iff [OF zs(2)] assms(3) by simp
    have "p ! i \<in> set zs" using mset_eq_setD [OF zs(2)] by (simp add: d)
    then obtain t' where t': "List_Remove t (p ! i) = Ok t'" "represents t' (remove1 (p ! i) zs)"
      using Remove_represents(1) [OF zs(1) dz] by blast
    have "mset (remove1 (p ! i) zs) = mset (drop (Suc i) p)" using zs(2) by (simp add: d)
    then show "\<exists>t'. ?body (int i) t = Ok t' \<and> ?I (Suc i) t'"
      using t' i(2) IsInList_represents [OF t'(2), of "p ! i"] dz by (auto simp: arr_get_nat)
  qed simp
  then show ?thesis by simp
qed

lemma list_test_passes:
  assumes "represents s []" "distinct p"
  shows "\<exists>s'. List_SelfTest_with put check p (int (length p)) s = Ok s' \<and> represents s' []"
proof -
  have f: "first s = None" using assms(1) by (auto simp: represents_def shape_def items_def)
  have e: "List_IsEmpty s" using IsEmpty_represents [OF assms(1)] by simp
  obtain s1 ys where s1: "for_loop 0 (int (length p)) (\<lambda>i s. rbind (arr_get p i) (\<lambda>x. rbind (put s x) (\<lambda>s.
        rbind (List_IsInList s x) (\<lambda>t. ASSERT t (ASSERT (\<not> List_IsEmpty s) (Ok s)))))) s = Ok s1"
      "represents s1 ys" "inv ys" "mset ys = mset p"
    using fill_list [OF assms, of "\<lambda>x s. rbind (List_IsInList s x) (\<lambda>t. ASSERT t (ASSERT (\<not> List_IsEmpty s) (Ok s)))"]
      IsInList_represents IsEmpty_represents by fastforce
  obtain s2 where s2: "for_loop 0 (int (length p)) (\<lambda>i s. rbind (arr_get p i) (\<lambda>x. rbind (List_Remove s x) (\<lambda>s.
      rbind (List_IsInList s x) (\<lambda>t. ASSERT (\<not> t) (Ok s))))) s1 = Ok s2" "represents s2 []"
    using drain_list [OF s1(2,4) assms(2)] by blast
  have "List_IsEmpty s2" using IsEmpty_represents [OF s2(2)] by simp
  with s2 s1(1) f e check_ok [OF assms(1) inv_Nil] check_ok [OF s1(2,3)] check_ok [OF s2(2) inv_Nil] show ?thesis
    by (simp add: List_SelfTest_with_def Let_def ListIterator_new_def ListIterator_IsDone_def)
qed

end

interpretation plain: list_class List_Append List_SanityCheck "\<lambda>_. True"
proof
  show "\<exists>s' ys. List_Append s x = Ok s' \<and> represents s' ys \<and> True \<and> mset ys = add_mset x (mset xs)"
    if "represents s xs" "x \<notin> set xs" for s xs x
    using Append_represents(1) [OF that] by force
qed (simp_all add: bucket_walks(4))

sublocale comparator \<subseteq> sorted: list_class "SortedList_Insert cmp" "SortedList_SanityCheck cmp" "in_order cmp"
proof
  have m: "mset (sl_insert cmp x xs) = add_mset x (mset xs)" for x xs by (induction xs) auto
  show "\<exists>s' ys. SortedList_Insert cmp s x = Ok s' \<and> represents s' ys \<and> in_order cmp ys \<and> mset ys = add_mset x (mset xs)"
    if "represents s xs" "in_order cmp xs" "x \<notin> set xs" for s xs x
    using Insert_represents(1) [OF that(1,3)] in_order_insert [OF that(2)] m by blast
  show "SortedList_SanityCheck cmp s = Ok ()" if "represents s xs" "in_order cmp xs" for s xs
    using that Sorted_SanityCheck_shape by (fastforce simp: represents_def)
qed simp

context comparator
begin

lemma in_order_nth: "in_order cmp xs \<Longrightarrow> Suc i < length xs \<Longrightarrow> cmp (xs ! i) (xs ! Suc i) \<le> 0"
proof (induction xs arbitrary: i)
  case (Cons x xs)
  then show ?case by (cases i; cases xs) (auto simp: in_order_Cons)
qed simp

lemma drain_sorted:
  assumes "represents s ys" "distinct ys"
  shows "\<exists>s'. for_loop 0 (int (length ys)) (\<lambda>i (q, s). rbind (List_RemoveFront s) (\<lambda>(x, s).
      rbind (List_IsInList s x) (\<lambda>t. ASSERT (\<not> t) (Ok (q @ [x], s))))) ([], s) = Ok (ys, s') \<and> represents s' []"
proof -
  let ?body = "\<lambda>i (q, s). rbind (List_RemoveFront s) (\<lambda>(x, s).
      rbind (List_IsInList s x) (\<lambda>t. ASSERT (\<not> t) (Ok (q @ [x], s))))"
  let ?I = "\<lambda>i (q, s). q = take i ys \<and> represents s (drop i ys)"
  have "\<exists>r. for_loop (int 0) (int (length ys)) ?body ([], s) = Ok r \<and> ?I (length ys) r"
  proof (rule for_loop_nat)
    fix i r assume i: "0 \<le> i" "i < length ys" and "?I i r"
    then obtain t where r: "r = (take i ys, t)" "represents t (ys ! i # drop (Suc i) ys)"
      by (cases r) (auto simp: Cons_nth_drop_Suc)
    obtain t' where t': "List_RemoveFront t = Ok (ys ! i, t')" "represents t' (drop (Suc i) ys)"
      using RemoveFront_represents(1) [OF r(2) refl] by blast
    have "ys ! i \<notin> set (drop (Suc i) ys)"
      using assms(2) i(2) by (metis Cons_nth_drop_Suc distinct.simps(2) distinct_drop)
    then show "\<exists>r'. ?body (int i) r = Ok r' \<and> ?I (Suc i) r'"
      using r(1) t' i(2) IsInList_represents [OF t'(2)] by (simp add: take_Suc_conv_app_nth)
  qed (use assms(1) in simp_all)
  then show ?thesis by auto
qed

lemma sorted_test_passes:
  assumes "represents s []" "distinct p"
  shows "\<exists>s'. SortedList_SelfTest cmp p (int (length p)) s = Ok s' \<and> represents s' []"
proof -
  obtain s1 where s1: "List_SelfTest_with (SortedList_Insert cmp) (SortedList_SanityCheck cmp) p (int (length p)) s = Ok s1"
      "represents s1 []" using sorted.list_test_passes [OF assms] by blast
  obtain s2 ys where s2: "for_loop 0 (int (length p)) (\<lambda>i s. rbind (arr_get p i) (\<lambda>x. rbind (SortedList_Insert cmp s x) (\<lambda>s.
       rbind (List_IsInList s x) (\<lambda>t. ASSERT t (Ok s))))) s1 = Ok s2"
      "represents s2 ys" "in_order cmp ys" "mset ys = mset p"
    using sorted.fill_list [OF s1(2) assms(2), of "\<lambda>x s. rbind (List_IsInList s x) (\<lambda>t. ASSERT t (Ok s))"]
      IsInList_represents by fastforce
  have d: "distinct ys" "length ys = length p"
    using mset_eq_imp_distinct_iff [OF s2(4)] assms(2) mset_eq_length [OF s2(4)] by simp_all
  obtain s3 where s3: "for_loop 0 (int (length p)) (\<lambda>i (q, s). rbind (List_RemoveFront s) (\<lambda>(x, s).
      rbind (List_IsInList s x) (\<lambda>t. ASSERT (\<not> t) (Ok (q @ [x], s))))) ([], s2) = Ok (ys, s3)" "represents s3 []"
    using drain_sorted [OF s2(2) d(1)] unfolding d(2) by blast
  have "for_loop 0 (int (length p) - 1) (\<lambda>i _. rbind (arr_get ys i) (\<lambda>x. rbind (arr_get ys (i + 1)) (\<lambda>y.
      ASSERT (cmp x y \<le> 0) (Ok ())))) () = Ok ()"
  proof (cases "p = []")
    case False
    let ?body = "\<lambda>i _. rbind (arr_get ys i) (\<lambda>x. rbind (arr_get ys (i + 1)) (\<lambda>y. ASSERT (cmp x y \<le> 0) (Ok ())))"
    have "\<exists>u. for_loop (int 0) (int (length p - 1)) ?body () = Ok u \<and> True"
    proof (rule for_loop_nat)
      fix i u assume "0 \<le> i" "i < length p - 1"
      then have "Suc i < length ys" using d(2) by simp
      then show "\<exists>u'. ?body (int i) u = Ok u' \<and> True"
        using in_order_nth [OF s2(3), of i] arr_get_nat [of "Suc i" ys] by (simp add: arr_get_nat add.commute)
    qed simp_all
    with False show ?thesis by (simp add: of_nat_diff Suc_leI)
  qed simp
  moreover have "List_IsEmpty s3" using IsEmpty_represents [OF s3(2)] by simp
  ultimately show ?thesis
    using s1(1) s2(1) s3 sorted.check_ok [OF s2(2,3)] sorted.check_ok [OF s3(2)]
    by (simp add: SortedList_SelfTest_def)
qed

end

section \<open>The hash table\<close>

lemma table_test_passes:
  assumes "is_table get h Map.empty" "distinct (map get p)"
  shows "\<exists>h'. HashTable_SelfTest p (int (length p)) h = Ok h' \<and> is_table get h' Map.empty"
proof -
  obtain bs where bs: "wf_table h bs" "in_buckets h bs" "getKey h = get" "key_map get (concat bs) = Map.empty"
    using assms(1) by (auto simp: is_table_def wf_table_def)
  have "concat bs = []" using bs(4) by (cases "concat bs") (auto simp: key_map_Cons)
  then obtain it where it: "HashIterator_new h = Ok it" "HashIterator_IsDone h it"
    using HashIterator_new_spec [OF bs(2)] by (auto simp: stands_def HashIterator_IsDone_def)
  obtain h1 where h1: "for_loop 0 (int (length p)) (\<lambda>i t. rbind (arr_get p i) (\<lambda>x. rbind (HashTable_Insert t x) (\<lambda>t.
      rbind (IsInTable t (getKey t x)) (\<lambda>b. ASSERT b (ASSERT (\<not> HashTable_IsEmpty t) (Ok t)))))) h = Ok h1"
      "is_table get h1 (ht.holds get p)" using ht.fill [OF assms] by blast
  obtain h2 where h2: "for_loop 0 (int (length p)) (\<lambda>i t. rbind (arr_get p i) (\<lambda>x. rbind (HashTable_Remove t (getKey t x)) (\<lambda>(y, t).
      ASSERT (y = x) (Ok t)))) h1 = Ok h2" "is_table get h2 Map.empty" using ht.drain [OF h1(2) assms(2)] by blast
  obtain bs2 where "wf_table h2 bs2" using h2(2) by (auto simp: is_table_def)
  then have "HashTable_SanityCheck h2 = Ok ()" by (rule SanityCheck_ok)
  moreover have "HashTable_IsEmpty h" "HashTable_IsEmpty h2"
    using IsEmpty_is_table [OF assms(1)] IsEmpty_is_table [OF h2(2)] by simp_all
  ultimately show ?thesis
    using h1(1) h2 it SanityCheck_ok [OF bs(1)] by (simp add: HashTable_SelfTest_def)
qed

section \<open>Properties\<close>

lemma test_keys: "distinct (map HashKey hashTestVector)"
  by code_simp

text \<open>C38: The self test of the library returns: none of its assertions on bitmaps, lists, sorted lists and hash
  tables fails, no list is walked for ever, and everything that was put into the hash table, which grows on
  the way, is taken out again.\<close>

theorem LibSelfTest_passes: "LibSelfTest = Ok ()"
proof -
  have n: "BitsInWord \<le> 200" by (simp add: BitsInWord_def BitsInByte_def)
  then obtain b where b: "Bitmap_new 200 = Ok b" "wf_bitmap b" "marked b = {}" "numBits b = 200"
    using Bitmap_new_correct [of 200] by (auto simp: BitsInWord_def BitsInByte_def)
  obtain b' where "Bitmap_SelfTest b = Ok b'" using SelfTest_passes [of b] b n by auto
  moreover obtain l where "List_SelfTest listTestVector (int (length listTestVector)) List_new = Ok l"
    using plain.list_test_passes [OF represents_new, of listTestVector]
    by (auto simp: List_SelfTest_def listTestVector_def)
  moreover obtain l where "SortedList_SelfTest IntCompare listTestVector (int (length listTestVector)) List_new = Ok l"
    using ic.sorted_test_passes [OF represents_new, of listTestVector] by (auto simp: listTestVector_def)
  moreover obtain h where "HashTable_SelfTest hashTestVector (int (length hashTestVector)) (HashTable_new HashKey HashInt) = Ok h"
      "is_table HashKey h Map.empty"
    using table_test_passes [OF new_is_table test_keys] by blast
  moreover have "HashTable_delete h = Ok ()" if "is_table HashKey h Map.empty" for h
    using IsEmpty_is_table [OF that] by (simp add: HashTable_delete_def)
  ultimately show ?thesis using b(1) by (simp add: LibSelfTest_def Let_def)
qed

end
