(* ===== verification/Coff2noff.thy ===== *)
theory Coff2noff
  imports Addr_Space Lib_Tests
begin

text \<open>
  The tool that makes the executables of the kernel, \<^verbatim>\<open>coff2noff/coff2noff.c\<close>: it reads the object file
  of the cross compiler, in COFF format, and writes the NOFF file that \<open>AddrSpace::Load\<close> reads. It runs on
  the host, built with \<^verbatim>\<open>-m32\<close> and \<^verbatim>\<open>-DRDATA\<close> on a little-endian machine, so that \<^verbatim>\<open>long\<close> has
  32 bits.

  The host's files are those of the theory \<open>Stub_FS\<close>; opening for reading, opening a new file and
  \<^verbatim>\<open>unlink\<close> are further arguments, with a missing name as \<open>None\<close>. \<open>exit\<close> is the left value of a sum,
  with the exit code. What the header holds before it is filled in is the argument \<open>junk\<close>.
\<close>

section \<open>coff.h\<close>

record filehdr =
  f_magic :: "16 word"
  f_nscns :: "16 word"

record scnhdr =
  s_name :: bytes
  s_paddr :: "32 word"
  s_size :: "32 word"
  s_scnptr :: "32 word"

definition MIPSELMAGIC :: "16 word" where "MIPSELMAGIC = 0x0162"
definition OMAGIC :: "16 word" where "OMAGIC = 0x107"

text \<open>The structures as they lie in the file; the fields that the tool does not use are left out.\<close>

definition filehdr_size :: nat where "filehdr_size = 20"
definition aouthdr_size :: nat where "aouthdr_size = 56"
definition scnhdr_size :: nat where "scnhdr_size = 40"

definition get_filehdr :: "bytes \<Rightarrow> filehdr" where
  "get_filehdr b = \<lparr>f_magic = fetch2 b 0, f_nscns = fetch2 b 2\<rparr>"

definition get_scnhdr :: "bytes \<Rightarrow> nat \<Rightarrow> scnhdr" where
  "get_scnhdr b p = \<lparr>s_name = take 8 (drop p b), s_paddr = fetch4 b (p + 8), s_size = fetch4 b (p + 16),
     s_scnptr = fetch4 b (p + 20)\<rparr>"

text \<open>\<^verbatim>\<open>!strcmp(s_name, str)\<close> for a string of less than eight characters.\<close>

definition is_named :: "scnhdr \<Rightarrow> cstring \<Rightarrow> bool" where
  "is_named s str \<longleftrightarrow> take (length str + 1) (s_name s) = str @ [0]"

section \<open>coff2noff.c\<close>

record 'h tool_host =
  tfiles :: "'h unix"
  open_read :: "bytes \<Rightarrow> 'h \<Rightarrow> int \<times> 'h"
  open_new :: "bytes option \<Rightarrow> 'h \<Rightarrow> int \<times> 'h"
  unlink_file :: "bytes option \<Rightarrow> 'h \<Rightarrow> 'h"

primrec unless_exit :: "'e + 'a \<Rightarrow> ('a \<Rightarrow> 'e + 'b) \<Rightarrow> 'e + 'b" where
  "unless_exit (Inl e) k = Inl e"
| "unless_exit (Inr x) k = k x"

definition fail_exit :: "'h tool_host \<Rightarrow> bytes option \<Rightarrow> 'h \<Rightarrow> (int \<times> 'h) + 'a" where
  "fail_exit T noffFileName h = Inl (1, unlink_file T noffFileName h)"

definition Coff_Read :: "'h tool_host \<Rightarrow> bytes option \<Rightarrow> int \<Rightarrow> int \<Rightarrow> 'h \<Rightarrow> (int \<times> 'h) + (bytes \<times> 'h)" where
  "Coff_Read T noffFileName fd nBytes h =
     (let ((r, buf), h) = u_read (tfiles T) fd nBytes h in
      if r \<noteq> nBytes then fail_exit T noffFileName h else Inr (buf, h))"

definition Coff_Write :: "'h tool_host \<Rightarrow> bytes option \<Rightarrow> int \<Rightarrow> bytes \<Rightarrow> int \<Rightarrow> 'h \<Rightarrow> (int \<times> 'h) + 'h" where
  "Coff_Write T noffFileName fd buf nBytes h =
     (let (r, h) = u_write (tfiles T) fd buf h in
      if r \<noteq> nBytes then fail_exit T noffFileName h else Inr h)"

text \<open>The steps that the three segments with contents share.\<close>

definition copy_section :: "'h tool_host \<Rightarrow> bytes option \<Rightarrow> int \<Rightarrow> int \<Rightarrow> scnhdr \<Rightarrow> 'h \<Rightarrow> (int \<times> 'h) + 'h" where
  "copy_section T noffFileName fdIn fdOut s h =
     (let (r, h) = u_lseek (tfiles T) fdIn (sint (s_scnptr s)) 0 h in
      unless_exit (Coff_Read T noffFileName fdIn (sint (s_size s)) h) (\<lambda>(buffer, h).
      Coff_Write T noffFileName fdOut buffer (sint (s_size s)) h))"

definition segment_at :: "scnhdr \<Rightarrow> int \<Rightarrow> Segment" where
  "segment_at s inNoffFile =
     \<lparr>virtualAddr = s_paddr s, inFileAddr = word_of_int inNoffFile, seg_size = s_size s\<rparr>"

primrec copy_sections ::
  "'h tool_host \<Rightarrow> bytes option \<Rightarrow> int \<Rightarrow> int \<Rightarrow> scnhdr list \<Rightarrow> NoffHeader \<Rightarrow> int \<Rightarrow> 'h
    \<Rightarrow> (int \<times> 'h) + (NoffHeader \<times> 'h)" where
  "copy_sections T nm fdIn fdOut [] n pos h = Inr (n, h)"
| "copy_sections T nm fdIn fdOut (s # ss) n pos h =
     (if s_size s = 0 then copy_sections T nm fdIn fdOut ss n pos h
      else if is_named s (cstr ''.text'')
      then unless_exit (copy_section T nm fdIn fdOut s h) (\<lambda>h.
           copy_sections T nm fdIn fdOut ss (n\<lparr>code := segment_at s pos\<rparr>) (pos + sint (s_size s)) h)
      else if is_named s (cstr ''.data'')
      then unless_exit (copy_section T nm fdIn fdOut s h) (\<lambda>h.
           copy_sections T nm fdIn fdOut ss (n\<lparr>initData := segment_at s pos\<rparr>) (pos + sint (s_size s)) h)
      else if is_named s (cstr ''.rdata'')
      then unless_exit (copy_section T nm fdIn fdOut s h) (\<lambda>h.
           copy_sections T nm fdIn fdOut ss (n\<lparr>readonlyData := segment_at s pos\<rparr>) (pos + sint (s_size s)) h)
      else if is_named s (cstr ''.bss'')
      then let u = uninitData n in
           if seg_size u \<noteq> 0
           then if s_paddr s = virtualAddr u + seg_size u then fail_exit T nm h
                else copy_sections T nm fdIn fdOut ss (n\<lparr>uninitData := u\<lparr>seg_size := seg_size u + s_size s\<rparr>\<rparr>) pos h
           else copy_sections T nm fdIn fdOut ss
                  (n\<lparr>uninitData := u\<lparr>virtualAddr := s_paddr s, seg_size := s_size s\<rparr>\<rparr>) pos h
      else fail_exit T nm h)"

definition word_bytes :: "32 word \<Rightarrow> bytes" where
  "word_bytes w = [ucast w, ucast (drop_bit 8 w), ucast (drop_bit 16 w), ucast (drop_bit 24 w)]"

definition segment_words :: "Segment \<Rightarrow> 32 word list" where
  "segment_words s = [virtualAddr s, inFileAddr s, seg_size s]"

definition noff_bytes :: "NoffHeader \<Rightarrow> bytes" where
  "noff_bytes n = concat (map word_bytes
     (noffMagic n # segment_words (code n) @ segment_words (initData n) @ segment_words (readonlyData n)
        @ segment_words (uninitData n)))"

definition empty_noff :: "NoffHeader \<Rightarrow> NoffHeader" where
  "empty_noff junk = junk\<lparr>noffMagic := NOFFMAGIC, code := (code junk)\<lparr>seg_size := 0\<rparr>,
     initData := (initData junk)\<lparr>seg_size := 0\<rparr>, uninitData := (uninitData junk)\<lparr>seg_size := 0\<rparr>,
     readonlyData := (readonlyData junk)\<lparr>seg_size := 0\<rparr>\<rparr>"

text \<open>\<open>main\<close> after the two files are open. Whether the second one is, is not tested: the test names the first.\<close>

definition convert :: "'h tool_host \<Rightarrow> bytes option \<Rightarrow> int \<Rightarrow> int \<Rightarrow> NoffHeader \<Rightarrow> 'h \<Rightarrow> (int \<times> 'h) + 'h" where
  "convert T nm fdIn fdOut junk h =
     unless_exit (Coff_Read T nm fdIn (int filehdr_size) h) (\<lambda>(b, h).
     let fileh = get_filehdr b in
     if ShortToHost (f_magic fileh) \<noteq> MIPSELMAGIC then fail_exit T nm h
     else
     unless_exit (Coff_Read T nm fdIn (int aouthdr_size) h) (\<lambda>(b, h).
     if ShortToHost (fetch2 b 0) \<noteq> OMAGIC then fail_exit T nm h
     else
     let numsections = unat (ShortToHost (f_nscns fileh)) in
     unless_exit (Coff_Read T nm fdIn (int (numsections * scnhdr_size)) h) (\<lambda>(b, h).
     let sections = map (\<lambda>i. get_scnhdr b (i * scnhdr_size)) [0..<numsections];
         (r, h) = u_lseek (tfiles T) fdOut 52 0 h in
     unless_exit (copy_sections T nm fdIn fdOut sections (empty_noff junk) 52 h) (\<lambda>(noffH, h).
     let (r, h) = u_lseek (tfiles T) fdOut 0 0 h in
     unless_exit (Coff_Write T nm fdOut (noff_bytes (SwapHeader noffH)) 52 h) (\<lambda>h.
     let (r, h) = u_close (tfiles T) fdIn h; (r, h) = u_close (tfiles T) fdOut h in
     Inr h)))))"

definition coff2noff_main :: "'h tool_host \<Rightarrow> bytes list \<Rightarrow> NoffHeader \<Rightarrow> 'h \<Rightarrow> int \<times> 'h" where
  "coff2noff_main T argv junk h =
     (if length argv < 2 then (1, h)
      else let (fdIn, h) = open_read T (argv ! 1) h in
      if fdIn = -1 then (1, h)
      else let noffFileName = (if 2 < length argv then Some (argv ! 2) else None);
               (fdOut, h) = open_new T noffFileName h in
      case convert T noffFileName fdIn fdOut junk h of Inl e \<Rightarrow> e | Inr h \<Rightarrow> (0, h))"

section \<open>The header that is written is the one the loader reads\<close>

lemma length_word_bytes [simp]: "length (word_bytes w) = 4"
  by (simp add: word_bytes_def)

lemma word_of_bytes:
  fixes w :: "32 word"
  shows "ucast (ucast (ucast w :: 8 word) OR push_bit 8 (ucast (ucast (drop_bit 8 w) :: 8 word)) :: 16 word)
    OR push_bit 16 (ucast (ucast (ucast (drop_bit 16 w) :: 8 word) OR push_bit 8 (ucast (ucast (drop_bit 24 w) :: 8 word))
         :: 16 word)) = w" (is "?l = w")
proof (rule bit_word_eqI)
  fix n assume n: "n < LENGTH(32)"
  consider "n < 8" | "8 \<le> n" "n < 16" | "16 \<le> n" "n < 24" | "24 \<le> n" by linarith
  then show "bit ?l n = bit w n" using n by cases (auto simp: bit_simps)
qed

lemma fetch4_word_bytes: "fetch4 (word_bytes w @ r) 0 = w"
  using word_of_bytes [of w] by (simp add: word_bytes_def fetch4_def fetch2_def numeral_eq_Suc)

lemma fetch4_append: "fetch4 (a @ b) (length a + p) = fetch4 b p"
  by (simp add: fetch4_def fetch2_def nth_append add.assoc numeral_3_eq_3)

lemma fetch4_words: "i < length ws \<Longrightarrow> fetch4 (concat (map word_bytes ws) @ r) (4 * i) = ws ! i"
proof (induction ws arbitrary: i)
  case (Cons w ws)
  show ?case
  proof (cases i)
    case 0
    then show ?thesis by (simp add: fetch4_word_bytes)
  next
    case (Suc j)
    then show ?thesis
      using Cons fetch4_append [of "word_bytes w" "concat (map word_bytes ws) @ r" "4 * j"] by simp
  qed
qed simp

lemma length_noff_bytes [simp]: "length (noff_bytes n) = 52"
  by (simp add: noff_bytes_def segment_words_def)

lemma parse_noff_bytes: "parse_header (noff_bytes n @ r) = Ok n"
proof -
  let ?ws = "noffMagic n # segment_words (code n) @ segment_words (initData n) @ segment_words (readonlyData n)
        @ segment_words (uninitData n)"
  have "header_word (noff_bytes n @ r) i = ?ws ! i" if "i < 13" for i
    using fetch4_words [of i ?ws r] that by (simp add: header_word_def noff_bytes_def segment_words_def)
  then show ?thesis
    by (simp add: parse_header_def header_segment_def segment_words_def numeral_eq_Suc)
qed

lemma SwapHeader_id: "SwapHeader n = n"
  by (simp add: SwapHeader_def SwapSegment_def WordToHost_def)

section \<open>What an object file says\<close>

text \<open>
  The host's files: descriptor \<open>fi\<close> is the file seen by \<open>vi\<close>, \<open>fo\<close> the one seen by \<open>vo\<close>, and they are
  different files.
\<close>

definition two_files :: "'h unix \<Rightarrow> int \<Rightarrow> int \<Rightarrow> ('h \<Rightarrow> bytes \<times> nat) \<Rightarrow> ('h \<Rightarrow> bytes \<times> nat) \<Rightarrow> bool" where
  "two_files U fi fo vi vo \<longleftrightarrow> posix_file U fi vi \<and> posix_file U fo vo
     \<and> (\<forall>h n. vo (snd (u_read U fi n h)) = vo h) \<and> (\<forall>h off. vo (snd (u_lseek U fi off 0 h)) = vo h)
     \<and> (\<forall>h b. vi (snd (u_write U fo b h)) = vi h) \<and> (\<forall>h off. vi (snd (u_lseek U fo off 0 h)) = vi h)
     \<and> (\<forall>h fd. vo (snd (u_close U fd h)) = vo h)"

text \<open>The kind of a section, the sections that are not empty, and the one of a kind.\<close>

definition kind :: "scnhdr \<Rightarrow> nat" where
  "kind s = (if is_named s (cstr ''.text'') then 0 else if is_named s (cstr ''.data'') then 1
     else if is_named s (cstr ''.rdata'') then 2 else if is_named s (cstr ''.bss'') then 3 else 4)"

definition coff_count :: "bytes \<Rightarrow> nat" where
  "coff_count c = unat (f_nscns (get_filehdr (take 20 c)))"

definition coff_sections :: "bytes \<Rightarrow> scnhdr list" where
  "coff_sections c = map (\<lambda>i. get_scnhdr (take (coff_count c * 40) (drop 76 c)) (i * 40)) [0..<coff_count c]"

definition used :: "scnhdr list \<Rightarrow> scnhdr list" where
  "used ss = filter (\<lambda>s. s_size s \<noteq> 0) ss"

definition section_ok :: "bytes \<Rightarrow> scnhdr \<Rightarrow> bool" where
  "section_ok c s \<longleftrightarrow> kind s < 4 \<and> 0 < sint (s_size s)
     \<and> (kind s \<noteq> 3 \<longrightarrow> 0 \<le> sint (s_scnptr s) \<and> sint (s_scnptr s) + sint (s_size s) \<le> int (length c))"

definition coff_ok :: "bytes \<Rightarrow> bool" where
  "coff_ok c \<longleftrightarrow> 76 + coff_count c * 40 \<le> length c \<and> f_magic (get_filehdr (take 20 c)) = MIPSELMAGIC
     \<and> fetch2 (take 56 (drop 20 c)) 0 = OMAGIC
     \<and> (\<forall>s\<in>set (used (coff_sections c)). section_ok c s) \<and> distinct (map kind (used (coff_sections c)))
     \<and> 52 + (\<Sum>s\<leftarrow>used (coff_sections c). sint (s_size s)) < 2 ^ 31"

definition section_bytes :: "bytes \<Rightarrow> scnhdr \<Rightarrow> bytes" where
  "section_bytes c s = take (nat (sint (s_size s))) (drop (nat (sint (s_scnptr s))) c)"

definition seg_no :: "NoffHeader \<Rightarrow> nat \<Rightarrow> Segment" where
  "seg_no n i = (if i = 0 then code n else if i = 1 then initData n else if i = 2 then readonlyData n else uninitData n)"

text \<open>A segment of the NOFF file \<open>out\<close> describes the section.\<close>

definition describes :: "bytes \<Rightarrow> bytes \<Rightarrow> scnhdr \<Rightarrow> nat \<Rightarrow> Segment \<Rightarrow> bool" where
  "describes c out s i g \<longleftrightarrow> virtualAddr g = s_paddr s \<and> seg_size g = s_size s
     \<and> (i \<noteq> 3 \<longrightarrow> 52 \<le> sint (inFileAddr g) \<and> sint (inFileAddr g) + sint (s_size s) \<le> int (length out)
          \<and> take (nat (sint (s_size s))) (drop (nat (sint (inFileAddr g))) out) = section_bytes c s)"

definition converted :: "bytes \<Rightarrow> bytes \<Rightarrow> scnhdr list \<Rightarrow> NoffHeader \<Rightarrow> bool" where
  "converted c out ss n \<longleftrightarrow> noffMagic n = NOFFMAGIC
     \<and> (\<forall>i<4. case key_map kind ss i of None \<Rightarrow> seg_size (seg_no n i) = 0 | Some s \<Rightarrow> describes c out s i (seg_no n i))"

section \<open>Copying the sections\<close>

definition padded :: "bytes \<Rightarrow> bytes" where
  "padded b = b @ replicate (52 - length b) 0"

lemma write_padded: "length (padded b) = pos \<Longrightarrow> padded (write_at b pos d) = padded b @ d"
  by (auto simp: padded_def write_at_def)

lemma length_section_bytes: "section_ok c s \<Longrightarrow> kind s \<noteq> 3 \<Longrightarrow> length (section_bytes c s) = nat (sint (s_size s))"
  unfolding section_bytes_def section_ok_def length_take length_drop by (intro min_absorb2) linarith

lemma copy_section_ok:
  assumes "two_files (tfiles T) fi fo vi vo" "fst (vi h) = c" "snd (vo h) = length (padded (fst (vo h)))"
    "section_ok c s" "kind s \<noteq> 3"
  shows "\<exists>h'. copy_section T nm fi fo s h = Inr h' \<and> fst (vi h') = c
    \<and> padded (fst (vo h')) = padded (fst (vo h)) @ section_bytes c s \<and> snd (vo h') = length (padded (fst (vo h')))"
proof -
  note t = assms(1) [unfolded two_files_def]
  have k: "0 \<le> sint (s_scnptr s)" "0 < sint (s_size s)"
      "sint (s_scnptr s) + sint (s_size s) \<le> int (length c)" using assms(4,5) by (auto simp: section_ok_def)
  note l = length_section_bytes [OF assms(4,5)]
  obtain h1 where h1: "u_lseek (tfiles T) fi (sint (s_scnptr s)) 0 h = (sint (s_scnptr s), h1)"
      "vi h1 = (c, nat (sint (s_scnptr s)))" using posix_fileD(1) [of "tfiles T" fi vi] t k(1) assms(2) by metis
  have o1: "vo h1 = vo h" using t h1(1) by (metis snd_conv)
  obtain h2 where h2: "u_read (tfiles T) fi (sint (s_size s)) h1
      = ((int (length (section_bytes c s)), section_bytes c s), h2)" "fst (vi h2) = c"
    using posix_fileD(4) [of "tfiles T" fi vi "sint (s_size s)" h1] t k(2) h1(2) by (auto simp: section_bytes_def)
  have o2: "vo h2 = vo h" using t h2(1) o1 by (metis snd_conv)
  obtain h3 where h3: "u_write (tfiles T) fo (section_bytes c s) h2 = (int (length (section_bytes c s)), h3)"
      "vo h3 = (write_at (fst (vo h2)) (snd (vo h2)) (section_bytes c s), snd (vo h2) + length (section_bytes c s))"
    using posix_fileD(5) [of "tfiles T" fo vo] t by metis
  have i3: "fst (vi h3) = c" using t h2(2) h3(1) by (metis snd_conv)
  have "copy_section T nm fi fo s h = Inr h3"
    using h1(1) h2(1) h3(1) l k(2) by (simp add: copy_section_def Coff_Read_def Coff_Write_def)
  moreover have p: "padded (fst (vo h3)) = padded (fst (vo h)) @ section_bytes c s"
    using h3(2) o2 write_padded [of "fst (vo h)" "snd (vo h)"] assms(3) by simp
  moreover have "snd (vo h3) = length (padded (fst (vo h3)))" unfolding p using h3(2) o2 assms(3) by simp
  ultimately show ?thesis using i3 by blast
qed

lemma key_map_snoc: "get x \<notin> get ` set xs \<Longrightarrow> key_map get (xs @ [x]) = (key_map get xs)(get x \<mapsto> x)"
  by (induction xs) (auto simp: key_map_Cons key_map_Nil fun_upd_twist)

lemma describes_append: "describes c out s i g \<Longrightarrow> describes c (out @ d) s i g"
  by (auto simp: describes_def nat_add_distrib)

lemma converted_step:
  assumes "converted c out ss n" "kind s \<notin> kind ` set ss" "kind s < 4" "noffMagic n' = noffMagic n"
    "describes c (out @ d) s (kind s) (seg_no n' (kind s))" "\<And>i. i < 4 \<Longrightarrow> i \<noteq> kind s \<Longrightarrow> seg_no n' i = seg_no n i"
  shows "converted c (out @ d) (ss @ [s]) n'"
proof -
  have "case key_map kind (ss @ [s]) i of None \<Rightarrow> seg_size (seg_no n' i) = 0
      | Some s \<Rightarrow> describes c (out @ d) s i (seg_no n' i)" if i: "i < 4" for i
  proof (cases "i = kind s")
    case True
    then show ?thesis using assms(5) by (simp add: key_map_snoc [OF assms(2)])
  next
    case False
    have "case key_map kind ss i of None \<Rightarrow> seg_size (seg_no n i) = 0 | Some s \<Rightarrow> describes c out s i (seg_no n i)"
      using assms(1) i unfolding converted_def by blast
    then show ?thesis
      using False assms(6) [OF i False] by (auto simp: key_map_snoc [OF assms(2)] describes_append split: option.splits)
  qed
  then show ?thesis using assms(1,4) by (simp add: converted_def)
qed

lemma sint_word_of_int: "0 \<le> x \<Longrightarrow> x < 2 ^ 31 \<Longrightarrow> sint (word_of_int x :: 32 word) = x"
  by (simp add: signed_of_int signed_take_bit_int_eq_self)

lemma segment_described:
  assumes "section_ok c s" "52 \<le> length out" "int (length out) + sint (s_size s) < 2 ^ 31" "kind s \<noteq> 3"
  shows "describes c (out @ section_bytes c s) s i (segment_at s (int (length out)))"
proof -
  have k: "0 \<le> sint (s_scnptr s)" "0 < sint (s_size s)"
      "sint (s_scnptr s) + sint (s_size s) \<le> int (length c)" using assms(1,4) by (auto simp: section_ok_def)
  moreover note length_section_bytes [OF assms(1,4)]
  moreover have "sint (word_of_int (int (length out)) :: 32 word) = int (length out)"
    by (rule sint_word_of_int) (use assms(3) k(2) in simp_all)
  ultimately show ?thesis using k assms(2) by (simp add: describes_def segment_at_def)
qed

lemma kind_tests:
  "kind s = 0 \<longleftrightarrow> is_named s (cstr ''.text'')"
  "\<not> is_named s (cstr ''.text'') \<Longrightarrow> kind s = Suc 0 \<longleftrightarrow> is_named s (cstr ''.data'')"
  "\<not> is_named s (cstr ''.text'') \<Longrightarrow> \<not> is_named s (cstr ''.data'') \<Longrightarrow> kind s = 2 \<longleftrightarrow> is_named s (cstr ''.rdata'')"
  "\<not> is_named s (cstr ''.text'') \<Longrightarrow> \<not> is_named s (cstr ''.data'') \<Longrightarrow> \<not> is_named s (cstr ''.rdata'')
    \<Longrightarrow> kind s = 3 \<longleftrightarrow> is_named s (cstr ''.bss'')"
  by (simp_all add: kind_def)

text \<open>Filling in the segment of a kind.\<close>

definition set_seg :: "nat \<Rightarrow> Segment \<Rightarrow> NoffHeader \<Rightarrow> NoffHeader" where
  "set_seg i g n = (if i = 0 then n\<lparr>code := g\<rparr> else if i = 1 then n\<lparr>initData := g\<rparr>
     else if i = 2 then n\<lparr>readonlyData := g\<rparr> else n\<lparr>uninitData := g\<rparr>)"

lemma set_seg_simps:
  "noffMagic (set_seg i g n) = noffMagic n" "i < 4 \<Longrightarrow> seg_no (set_seg i g n) i = g"
  "i < 4 \<Longrightarrow> j < 4 \<Longrightarrow> j \<noteq> i \<Longrightarrow> seg_no (set_seg i g n) j = seg_no n j"
  by (auto simp: set_seg_def seg_no_def)

lemma copy_sections_data:
  assumes "s_size s \<noteq> 0" "kind s < 3"
  shows "copy_sections T nm fi fo (s # ss) n pos h =
    unless_exit (copy_section T nm fi fo s h) (\<lambda>h.
      copy_sections T nm fi fo ss (set_seg (kind s) (segment_at s pos) n) (pos + sint (s_size s)) h)"
proof -
  consider "kind s = 0" | "kind s = 1" | "kind s = 2" using assms(2) by linarith
  then show ?thesis using assms(1) by cases (auto simp: set_seg_def kind_def split: if_splits)
qed

lemma copy_sections_bss:
  assumes "s_size s \<noteq> 0" "kind s = 3" "seg_size (uninitData n) = 0"
  shows "copy_sections T nm fi fo (s # ss) n pos h = copy_sections T nm fi fo ss
    (set_seg 3 ((uninitData n)\<lparr>virtualAddr := s_paddr s, seg_size := s_size s\<rparr>) n) pos h"
  using assms by (auto simp: set_seg_def kind_def Let_def split: if_splits)

lemma copy_sections_ok:
  assumes "two_files (tfiles T) fi fo vi vo"
  shows "fst (vi h) = c \<Longrightarrow> snd (vo h) = length (padded (fst (vo h))) \<Longrightarrow> \<forall>s\<in>set (used ss). section_ok c s
    \<Longrightarrow> distinct (map kind (done @ used ss)) \<Longrightarrow> converted c (padded (fst (vo h))) done n
    \<Longrightarrow> int (length (padded (fst (vo h)))) + (\<Sum>s\<leftarrow>used ss. sint (s_size s)) < 2 ^ 31
    \<Longrightarrow> \<exists>n' h'. copy_sections T nm fi fo ss n (int (length (padded (fst (vo h))))) h = Inr (n', h')
      \<and> converted c (padded (fst (vo h'))) (done @ used ss) n'"
proof (induction ss arbitrary: "done" n h)
  case Nil
  then show ?case by (simp add: used_def)
next
  case (Cons s ss)
  let ?o = "padded (fst (vo h))"
  show ?case
  proof (cases "s_size s = 0")
    case True
    then show ?thesis using Cons by (simp add: used_def)
  next
    case False
    then have u: "used (s # ss) = s # used ss" by (simp add: used_def)
    have ok: "section_ok c s" "kind s < 4" "0 < sint (s_size s)" and oks: "\<forall>s\<in>set (used ss). section_ok c s"
      using Cons.prems(3) unfolding u by (auto simp: section_ok_def)
    have new: "kind s \<notin> kind ` set done" and d: "distinct (map kind ((done @ [s]) @ used ss))"
      using Cons.prems(4) unfolding u by auto
    have pos: "0 \<le> (\<Sum>s\<leftarrow>used ss. sint (s_size s))"
      using oks by (intro sum_list_nonneg) (auto simp: section_ok_def)
    have l: "52 \<le> length ?o" by (simp add: padded_def)
    show ?thesis
    proof (cases "kind s = 3")
      case True
      have k3: "key_map kind done 3 = None" using new unfolding True key_map_None .
      have "case key_map kind done 3 of None \<Rightarrow> seg_size (seg_no n 3) = 0 | Some s \<Rightarrow> describes c ?o s 3 (seg_no n 3)"
        using Cons.prems(5) unfolding converted_def by (simp del: seg_no_def)
      then have z: "seg_size (uninitData n) = 0" by (simp add: k3 seg_no_def)
      let ?n = "set_seg 3 ((uninitData n)\<lparr>virtualAddr := s_paddr s, seg_size := s_size s\<rparr>) n"
      have "converted c (?o @ []) (done @ [s]) ?n"
      proof (rule converted_step [OF Cons.prems(5) new ok(2)])
        show "describes c (?o @ []) s (kind s) (seg_no ?n (kind s))"
          by (simp add: True set_seg_simps(2) describes_def)
      qed (simp_all add: set_seg_simps True)
      then have "\<exists>n' h'. copy_sections T nm fi fo ss ?n (int (length ?o)) h = Inr (n', h')
          \<and> converted c (padded (fst (vo h'))) ((done @ [s]) @ used ss) n'"
        by (intro Cons.IH [OF Cons.prems(1,2) oks d]) (use Cons.prems(6) ok(3) u in simp_all)
      then show ?thesis using copy_sections_bss [OF False True z, of T nm fi fo ss "int (length ?o)" h] u by simp
    next
      case data: False
      obtain h1 where h1: "copy_section T nm fi fo s h = Inr h1" "fst (vi h1) = c"
          "padded (fst (vo h1)) = ?o @ section_bytes c s" "snd (vo h1) = length (padded (fst (vo h1)))"
        using copy_section_ok [OF assms Cons.prems(1,2) ok(1) data] by blast
      let ?n = "set_seg (kind s) (segment_at s (int (length ?o))) n"
      have len: "int (length (padded (fst (vo h1)))) = int (length ?o) + sint (s_size s)"
        unfolding h1(3) using length_section_bytes [OF ok(1) data] ok(3) by simp
      have "converted c (?o @ section_bytes c s) (done @ [s]) ?n"
      proof (rule converted_step [OF Cons.prems(5) new ok(2)])
        show "describes c (?o @ section_bytes c s) s (kind s) (seg_no ?n (kind s))"
          unfolding set_seg_simps(2) [OF ok(2)]
          by (rule segment_described [OF ok(1) l _ data]) (use Cons.prems(6) pos u in simp)
      qed (simp_all add: set_seg_simps ok(2))
      then have "\<exists>n' h'. copy_sections T nm fi fo ss ?n (int (length (padded (fst (vo h1))))) h1 = Inr (n', h')
          \<and> converted c (padded (fst (vo h'))) ((done @ [s]) @ used ss) n'"
        unfolding h1(3) [symmetric]
        by (rule Cons.IH [OF h1(2,4) oks d]) (use Cons.prems(6) len u in simp)
      then show ?thesis
        using h1(1) len False data ok(2) copy_sections_data [of s T nm fi fo ss n "int (length ?o)" h] u by simp
    qed
  qed
qed

section \<open>The whole conversion\<close>

lemma converted_header:
  assumes "converted c out ss n" "length hdr = 52" "52 \<le> length out"
  shows "converted c (hdr @ drop 52 out) ss n"
proof -
  have "describes c (hdr @ drop 52 out) s i g" if "describes c out s i g" for s i g
    using that assms(2,3) by (auto simp: describes_def nat_less_iff)
  then show ?thesis using assms(1) unfolding converted_def by (auto split: option.splits)
qed

lemma empty_converted: "converted c out [] (empty_noff junk)"
  by (auto simp: converted_def empty_noff_def seg_no_def key_map_Nil)

lemma read_next:
  assumes "two_files (tfiles T) fi fo vi vo" "vi h = (c, p)" "p + k \<le> length c"
  shows "\<exists>h'. Coff_Read T nm fi (int k) h = Inr (take k (drop p c), h') \<and> vi h' = (c, p + k) \<and> vo h' = vo h"
proof -
  note t = assms(1) [unfolded two_files_def]
  obtain h' where h': "u_read (tfiles T) fi (int k) h = ((int (length (take k (drop p c))), take k (drop p c)), h')"
      "vi h' = (c, p + length (take k (drop p c)))"
    using posix_fileD(4) [of "tfiles T" fi vi "int k" h] t assms(2) by auto
  moreover have "vo h' = vo h" using t h'(1) by (metis snd_conv)
  ultimately show ?thesis using assms(3) by (simp add: Coff_Read_def)
qed

lemma convert_ok:
  assumes t: "two_files (tfiles T) fi fo vi vo" and v: "vi h = (c, 0)" "vo h = ([], 0)" and ok: "coff_ok c"
  shows "\<exists>h' n. convert T nm fi fo junk h = Inr h' \<and> parse_header (take 52 (fst (vo h'))) = Ok n
    \<and> converted c (fst (vo h')) (used (coff_sections c)) n"
proof -
  note tt = t [unfolded two_files_def] and k = ok [unfolded coff_ok_def]
  let ?m = "coff_count c"
  obtain h1 where h1: "Coff_Read T nm fi (int filehdr_size) h = Inr (take 20 c, h1)" "vi h1 = (c, 20)" "vo h1 = ([], 0)"
    using read_next [OF t v(1), of 20 nm] k v(2) by (auto simp: filehdr_size_def)
  obtain h2 where h2: "Coff_Read T nm fi (int aouthdr_size) h1 = Inr (take 56 (drop 20 c), h2)" "vi h2 = (c, 76)" "vo h2 = ([], 0)"
    using read_next [OF t h1(2), of 56 nm] k h1(3) by (auto simp: aouthdr_size_def)
  obtain h3 where h3: "Coff_Read T nm fi (int (?m * scnhdr_size)) h2 = Inr (take (?m * 40) (drop 76 c), h3)"
      "fst (vi h3) = c" "vo h3 = ([], 0)"
    using read_next [OF t h2(2), of "?m * 40" nm] k h2(3) by (auto simp: scnhdr_size_def)
  obtain h4 where h4: "u_lseek (tfiles T) fo 52 0 h3 = (52, h4)" "vo h4 = ([], 52)"
    using posix_fileD(1) [of "tfiles T" fo vo 52 h3] tt h3(3) by auto
  have i4: "fst (vi h4) = c" using tt h4(1) h3(2) by (metis snd_conv)
  have o4: "snd (vo h4) = length (padded (fst (vo h4)))" "padded (fst (vo h4)) = replicate 52 0"
    using h4(2) by (simp_all add: padded_def)
  obtain n h5 where h5: "copy_sections T nm fi fo (coff_sections c) (empty_noff junk) (int (length (padded (fst (vo h4))))) h4 = Inr (n, h5)"
      "converted c (padded (fst (vo h5))) ([] @ used (coff_sections c)) n"
  proof -
    have "\<forall>s\<in>set (used (coff_sections c)). section_ok c s" "distinct (map kind ([] @ used (coff_sections c)))"
      using k by simp_all
    moreover have "int (length (padded (fst (vo h4)))) + (\<Sum>s\<leftarrow>used (coff_sections c). sint (s_size s)) < 2 ^ 31"
      using k o4(2) by simp
    ultimately show thesis using copy_sections_ok [OF t i4 o4(1) _ _ empty_converted] that by blast
  qed
  obtain h6 where h6: "u_lseek (tfiles T) fo 0 0 h5 = (0, h6)" "vo h6 = (fst (vo h5), 0)"
    using posix_fileD(1) [of "tfiles T" fo vo 0 h5] tt by auto
  obtain h7 where h7: "u_write (tfiles T) fo (noff_bytes n) h6 = (52, h7)" "fst (vo h7) = noff_bytes n @ drop 52 (fst (vo h5))"
    using posix_fileD(5) [of "tfiles T" fo vo "noff_bytes n" h6] tt h6(2) by (auto simp: write_at_def)
  obtain r8 h8 r9 h9 where c: "u_close (tfiles T) fi h7 = (r8, h8)" "u_close (tfiles T) fo h8 = (r9, h9)" by fastforce
  then have out: "fst (vo h9) = noff_bytes n @ drop 52 (fst (vo h5))" using tt h7(2) by (metis snd_conv)
  have d: "drop 52 (padded (fst (vo h5))) = drop 52 (fst (vo h5))" by (simp add: padded_def)
  have "convert T nm fi fo junk h = Inr h9"
    using h1(1) h2(1) h3(1) h4(1) h5(1) h6(1) h7(1) c k o4(2)
    by (simp add: convert_def Let_def ShortToHost_def SwapHeader_id Coff_Write_def coff_count_def coff_sections_def
        scnhdr_size_def)
  moreover have "converted c (fst (vo h9)) (used (coff_sections c)) n"
    unfolding out d [symmetric] using h5(2) by (intro converted_header) (simp_all add: padded_def)
  moreover have "parse_header (take 52 (fst (vo h9))) = Ok n" using parse_noff_bytes [of n "[]"] by (simp add: out)
  ultimately show ?thesis by blast
qed

text \<open>The sections of a kind, found again in the image of the converted file.\<close>

lemma section_of_kind:
  assumes "coff_ok c" "s \<in> set (used (coff_sections c))"
  shows "key_map kind (used (coff_sections c)) (kind s) = Some s" "section_ok c s"
  using assms find_key [of kind "used (coff_sections c)" "kind s" s] by (auto simp: coff_ok_def key_map_def)

lemma nth_described:
  assumes "describes c out s i g" "i \<noteq> 3" "section_ok c s" "kind s \<noteq> 3" "j < nat (sint (s_size s))"
  shows "out ! (nat (sint (inFileAddr g)) + j) = section_bytes c s ! j"
proof -
  have d: "section_bytes c s = take (nat (sint (s_size s))) (drop (nat (sint (inFileAddr g))) out)"
    "sint (inFileAddr g) + sint (s_size s) \<le> int (length out)" "52 \<le> sint (inFileAddr g)"
    using assms(1,2) by (auto simp: describes_def)
  then show ?thesis using assms(5) by simp
qed

lemma image_section:
  assumes "coff_ok c" "converted c out (used (coff_sections c)) n" "well_formed_image n out"
    "s \<in> set (used (coff_sections c))" "kind s < 2" "j < nat (sint (s_size s))"
  shows "image n out (unat (s_paddr s) + j) = section_bytes c s ! j"
proof -
  have s: "section_ok c s" "key_map kind (used (coff_sections c)) (kind s) = Some s"
    using section_of_kind [OF assms(1,4)] by simp_all
  have "case key_map kind (used (coff_sections c)) (kind s) of None \<Rightarrow> seg_size (seg_no n (kind s)) = 0
      | Some s' \<Rightarrow> describes c out s' (kind s) (seg_no n (kind s))"
    using assms(2,5) unfolding converted_def by (meson less_trans one_less_numeral_iff semiring_norm numeral_less_iff)
  then have d: "describes c out s (kind s) (seg_no n (kind s))" using s(2) by simp
  then have i: "in_seg (seg_no n (kind s)) (unat (s_paddr s) + j)" using assms(6) by (simp add: describes_def in_seg_def)
  have v: "virtualAddr (seg_no n (kind s)) = s_paddr s" using d by (simp add: describes_def)
  have b: "out ! (nat (sint (inFileAddr (seg_no n (kind s)))) + j) = section_bytes c s ! j"
    by (rule nth_described [OF d _ s(1) _ assms(6)]) (use assms(5) in simp_all)
  consider "kind s = 0" | "kind s = 1" using assms(5) by linarith
  then show ?thesis
  proof cases
    case 1
    then show ?thesis using i v b by (simp add: image_def seg_no_def)
  next
    case 2
    have "\<not> in_seg (code n) (unat (s_paddr s) + j)"
      using assms(3) i seg_disjointD unfolding well_formed_image_def Let_def 2 seg_no_def by auto
    then show ?thesis using 2 i v b by (simp add: image_def seg_no_def)
  qed
qed

lemma image_elsewhere:
  assumes "converted c out (used (coff_sections c)) n"
    "\<And>s. s \<in> set (used (coff_sections c)) \<Longrightarrow> kind s < 2 \<Longrightarrow>
      \<not> (unat (s_paddr s) \<le> w \<and> w < unat (s_paddr s) + nat (sint (s_size s)))"
  shows "image n out w = 0"
proof -
  have "\<not> in_seg (seg_no n i) w" if i: "i < 2" for i
  proof (cases "key_map kind (used (coff_sections c)) i")
    case None
    have "i < 4" using i by simp
    then have "seg_size (seg_no n i) = 0" using assms(1) None unfolding converted_def by fastforce
    then show ?thesis by (simp add: in_seg_def)
  next
    case (Some s)
    have "i < 4" using i by simp
    then have "describes c out s i (seg_no n i)" using assms(1) Some unfolding converted_def by fastforce
    moreover have "s \<in> set (used (coff_sections c))" "kind s = i"
      using Some find_mem [of _ _ s] unfolding key_map_def by (auto simp: find_Some_iff)
    ultimately show ?thesis using assms(2) [of s] i by (auto simp: describes_def in_seg_def)
  qed
  from this [of 0] this [of 1] show ?thesis by (simp add: image_def seg_no_def)
qed

section \<open>A small object file\<close>

definition demo_scnhdr :: "string \<Rightarrow> 32 word \<Rightarrow> 32 word \<Rightarrow> 32 word \<Rightarrow> bytes" where
  "demo_scnhdr name addr sz p = take 8 (cstr name @ replicate 8 0) @ word_bytes addr @ word_bytes 0
     @ word_bytes sz @ word_bytes p @ replicate 16 0"

definition demo_coff :: bytes where
  "demo_coff = [0x62, 1, 3, 0] @ replicate 16 0 @ [7, 1] @ replicate 54 0
     @ demo_scnhdr ''.text'' 0 3 196 @ demo_scnhdr ''.data'' 128 2 199 @ demo_scnhdr ''.bss'' 256 16 0
     @ [1, 2, 3, 4, 5]"

lemma demo_coff_ok: "coff_ok demo_coff"
  by code_simp

text \<open>A host with two open files, descriptors 3 and 4.\<close>

definition on_fd :: "int \<Rightarrow> (bytes \<times> nat \<Rightarrow> 'r \<times> bytes \<times> nat) \<Rightarrow> (bytes \<times> nat) \<times> (bytes \<times> nat)
    \<Rightarrow> 'r \<times> (bytes \<times> nat) \<times> (bytes \<times> nat)" where
  "on_fd fd f h = (if fd = 3 then let (r, a) = f (fst h) in (r, (a, snd h)) else let (r, b) = f (snd h) in (r, (fst h, b)))"

definition two_host :: "((bytes \<times> nat) \<times> (bytes \<times> nat)) tool_host" where
  "two_host = \<lparr>tfiles = \<lparr>u_open = (\<lambda>name trunc h. (3, h)),
     u_read = (\<lambda>fd n. on_fd fd (u_read one_file fd n)), u_write = (\<lambda>fd b. on_fd fd (u_write one_file fd b)),
     u_lseek = (\<lambda>fd off whence. on_fd fd (u_lseek one_file fd off whence)), u_close = (\<lambda>fd h. (0, h)),
     u_unlink = (\<lambda>name h. (0, h)), u_socket = (\<lambda>h. (5, h)), u_connect = (\<lambda>fd ip port h. (0, h)),
     u_send = (\<lambda>fd b h. (int (length b), h)), u_recv = (\<lambda>fd n h. ((0, []), h))\<rparr>,
   open_read = (\<lambda>name h. (3, h)), open_new = (\<lambda>name h. (4, (fst h, ([], 0)))), unlink_file = (\<lambda>name h. h)\<rparr>"

lemma on_fd_simps [simp]:
  "fst (on_fd 3 f h) = fst (f (fst h))" "fst (snd (on_fd 3 f h)) = snd (f (fst h))" "snd (snd (on_fd 3 f h)) = snd h"
  "fst (on_fd 4 f h) = fst (f (snd h))" "snd (snd (on_fd 4 f h)) = snd (f (snd h))" "fst (snd (on_fd 4 f h)) = fst h"
  by (simp_all add: on_fd_def split: prod.split)

lemma two_host_files: "two_files (tfiles two_host) 3 4 fst snd"
  using one_file_posix [of 3] one_file_posix [of 4]
  unfolding two_files_def posix_file_def by (simp add: two_host_def)

section \<open>Properties\<close>

text \<open>C36: The converter turns an object file into an executable that describes it. For a COFF file with the
  right magic numbers, whose sections are the known ones, each at most once and with its contents in the
  file, it ends with exit code 0; the header at the front of the new file parses to the magic number of
  NOFF and, for each kind of section, to its address and size and to a place in the file where its bytes
  are; a kind that is missing has size 0.\<close>

theorem Coff2noff_converts:
  assumes "2 < length argv" "open_read T (argv ! 1) h0 = (fi, h1)" "fi \<noteq> -1"
    and "open_new T (Some (argv ! 2)) h1 = (fo, h)"
    and "two_files (tfiles T) fi fo vi vo" "vi h = (c, 0)" "vo h = ([], 0)" "coff_ok c"
  shows "\<exists>h' n. coff2noff_main T argv junk h0 = (0, h') \<and> parse_header (take 52 (fst (vo h'))) = Ok n
    \<and> converted c (fst (vo h')) (used (coff_sections c)) n"
  using convert_ok [OF assms(5-8), of "Some (argv ! 2)" junk] assms(1-4)
  by (auto simp: coff2noff_main_def)

definition junk_header :: NoffHeader where
  "junk_header = (let g = \<lparr>virtualAddr = 7, inFileAddr = 7, seg_size = 7\<rparr> in
     \<lparr>noffMagic = 7, code = g, initData = g, readonlyData = g, uninitData = g\<rparr>)"

theorem Coff2noff_converts_witness:
  "\<exists>h' n. coff2noff_main two_host [[], [97], [98]] junk_header ((demo_coff, 0), ([], 0)) = (0, h')
     \<and> parse_header (take 52 (fst (snd h'))) = Ok n \<and> noffMagic n = NOFFMAGIC"
proof -
  let ?h = "((demo_coff, 0), ([], 0)) :: (bytes \<times> nat) \<times> (bytes \<times> nat)"
  have "2 < length [[], [97], [98 :: 8 word]]" "open_read two_host ([[], [97], [98]] ! 1) ?h = (3, ?h)" "(3 :: int) \<noteq> -1"
    "open_new two_host (Some ([[], [97], [98]] ! 2)) ?h = (4, ?h)"
    by (simp_all add: two_host_def)
  from Coff2noff_converts [OF this two_host_files _ _ demo_coff_ok, of junk_header] show ?thesis
    by (auto simp: converted_def)
qed


lemma demo_sections:
  "map (\<lambda>s. (kind s, s_paddr s, s_size s)) (used (coff_sections demo_coff)) = [(0, 0, 3), (1, 128, 2), (3, 256, 16)]"
  "section_bytes demo_coff (used (coff_sections demo_coff) ! 0) = [1, 2, 3]"
  by code_simp+


end
