(* ===== verification/Kernel_Start.thy ===== *)
theory Kernel_Start
  imports Lib_Tests
begin

text \<open>
  The command line: the loop of the constructor of \<open>Kernel\<close> (\<^verbatim>\<open>threads/kernel.cc\<close>), the loop of
  \<^verbatim>\<open>main\<close> (\<^verbatim>\<open>threads/main.cc\<close>) and the debug flags (\<^verbatim>\<open>lib/debug.cc\<close>). Both loops go over the same
  arguments, each with the options it knows, so that one may take for an option what the other took for
  the value of one. \<open>stub\<close> says whether the kernel is built with \<^verbatim>\<open>FILESYS_STUB\<close>; the functions take the
  arguments behind the name of the program. \<^verbatim>\<open>atof\<close> is a parameter, as are its numbers. Seeding the random
  numbers of the host is the field \<open>seed\<close>; what is printed is left out.
\<close>

record 'f KernelOptions =
  randomSlice :: bool
  seed :: "int option"
  debugUserProg :: bool
  consoleIn :: "cstring option"
  consoleOut :: "cstring option"
  formatFlag :: bool
  reliability :: 'f
  machineId :: int

definition Kernel_defaults :: "'f \<Rightarrow> 'f KernelOptions" where
  "Kernel_defaults one = \<lparr>randomSlice = False, seed = None, debugUserProg = False, consoleIn = None, consoleOut = None,
     formatFlag = False, reliability = one, machineId = 0\<rparr>"

text \<open>An option with a value that is the last argument fails the assertion \<^verbatim>\<open>i + 1 < argc\<close>.\<close>

fun Kernel_loop :: "bool \<Rightarrow> (cstring \<Rightarrow> 'f) \<Rightarrow> cstring list \<Rightarrow> 'f KernelOptions \<Rightarrow> 'f KernelOptions result" where
  "Kernel_loop stub atof [] k = Ok k"
| "Kernel_loop stub atof (a # as) k =
     (if a = cstr ''-rs''
      then (case as of [] \<Rightarrow> Fault AssertFailed
            | v # rest \<Rightarrow> Kernel_loop stub atof rest (k\<lparr>seed := Some (atoi v), randomSlice := True\<rparr>))
      else if a = cstr ''-s'' then Kernel_loop stub atof as (k\<lparr>debugUserProg := True\<rparr>)
      else if a = cstr ''-ci''
      then (case as of [] \<Rightarrow> Fault AssertFailed | v # rest \<Rightarrow> Kernel_loop stub atof rest (k\<lparr>consoleIn := Some v\<rparr>))
      else if a = cstr ''-co''
      then (case as of [] \<Rightarrow> Fault AssertFailed | v # rest \<Rightarrow> Kernel_loop stub atof rest (k\<lparr>consoleOut := Some v\<rparr>))
      else if \<not> stub \<and> a = cstr ''-f'' then Kernel_loop stub atof as (k\<lparr>formatFlag := True\<rparr>)
      else if a = cstr ''-n''
      then (case as of [] \<Rightarrow> Fault AssertFailed | v # rest \<Rightarrow> Kernel_loop stub atof rest (k\<lparr>reliability := atof v\<rparr>))
      else if a = cstr ''-m''
      then (case as of [] \<Rightarrow> Fault AssertFailed | v # rest \<Rightarrow> Kernel_loop stub atof rest (k\<lparr>machineId := atoi v\<rparr>))
      else Kernel_loop stub atof as k)"

definition Kernel_new :: "bool \<Rightarrow> (cstring \<Rightarrow> 'f) \<Rightarrow> 'f \<Rightarrow> cstring list \<Rightarrow> 'f KernelOptions result" where
  "Kernel_new stub atof one argv = Kernel_loop stub atof (tl argv) (Kernel_defaults one)"

record MainOptions =
  debugArg :: cstring
  userProgName :: "cstring option"
  progArgs :: "cstring list"
  threadTestFlag :: bool
  consoleTestFlag :: bool
  networkTestFlag :: bool
  copyFileNames :: "(cstring \<times> cstring) option"
  printFileName :: "cstring option"
  removeFileName :: "cstring option"
  dirListFlag :: bool
  dumpFlag :: bool

definition Main_defaults :: MainOptions where
  "Main_defaults = \<lparr>debugArg = [], userProgName = None, progArgs = [], threadTestFlag = False, consoleTestFlag = False,
     networkTestFlag = False, copyFileNames = None, printFileName = None, removeFileName = None,
     dirListFlag = False, dumpFlag = False\<rparr>"

text \<open>\<^verbatim>\<open>strcpy(args[c++], s)\<close> into the array \<^verbatim>\<open>char args[10][100]\<close>: past its end the outcome is
  \<open>OutOfRange\<close>.\<close>

definition push_arg :: "cstring \<Rightarrow> MainOptions \<Rightarrow> MainOptions result" where
  "push_arg s m =
     (if 10 \<le> length (progArgs m) \<or> 100 < length s + 1 then Fault OutOfRange
      else Ok (m\<lparr>progArgs := progArgs m @ [s]\<rparr>))"

fun Main_loop :: "bool \<Rightarrow> cstring list \<Rightarrow> MainOptions \<Rightarrow> MainOptions result" where
  "Main_loop stub [] m = Ok m"
| "Main_loop stub (a # as) m =
     (if a = cstr ''-d''
      then (case as of [] \<Rightarrow> Fault AssertFailed | v # rest \<Rightarrow> Main_loop stub rest (m\<lparr>debugArg := v\<rparr>))
      else if a = cstr ''-z'' then Main_loop stub as m
      else if a = cstr ''-x''
      then (case as of [] \<Rightarrow> Fault AssertFailed
            | v # rest \<Rightarrow> (case push_arg v (m\<lparr>userProgName := Some v\<rparr>) of
                           Fault f \<Rightarrow> Fault f | Ok m \<Rightarrow> Main_loop stub rest m))
      else if a = cstr ''-K'' then Main_loop stub as (m\<lparr>threadTestFlag := True\<rparr>)
      else if a = cstr ''-C'' then Main_loop stub as (m\<lparr>consoleTestFlag := True\<rparr>)
      else if a = cstr ''-N'' then Main_loop stub as (m\<lparr>networkTestFlag := True\<rparr>)
      else if \<not> stub \<and> a = cstr ''-cp''
      then (case as of v # w # rest \<Rightarrow> Main_loop stub rest (m\<lparr>copyFileNames := Some (v, w)\<rparr>)
            | _ \<Rightarrow> Fault AssertFailed)
      else if \<not> stub \<and> a = cstr ''-p''
      then (case as of [] \<Rightarrow> Fault AssertFailed | v # rest \<Rightarrow> Main_loop stub rest (m\<lparr>printFileName := Some v\<rparr>))
      else if \<not> stub \<and> a = cstr ''-r''
      then (case as of [] \<Rightarrow> Fault AssertFailed | v # rest \<Rightarrow> Main_loop stub rest (m\<lparr>removeFileName := Some v\<rparr>))
      else if \<not> stub \<and> a = cstr ''-l'' then Main_loop stub as (m\<lparr>dirListFlag := True\<rparr>)
      else if \<not> stub \<and> a = cstr ''-D'' then Main_loop stub as (m\<lparr>dumpFlag := True\<rparr>)
      else Main_loop stub as m)"

definition main_options :: "bool \<Rightarrow> cstring list \<Rightarrow> MainOptions result" where
  "main_options stub argv = Main_loop stub (tl argv) Main_defaults"

definition Debug_IsEnabled :: "cstring option \<Rightarrow> 8 word \<Rightarrow> bool" where
  "Debug_IsEnabled enableFlags flag =
     (case enableFlags of None \<Rightarrow> False | Some s \<Rightarrow> flag \<in> set (s @ [0]) \<or> 43 \<in> set s)"

declare Kernel_loop.simps(2) [simp del] Main_loop.simps(2) [simp del]

section \<open>Properties\<close>

text \<open>The program that is run and the arguments it gets: after the loop there are at most ten arguments of
  at most 99 characters, they are the values of \<^verbatim>\<open>-x\<close> in their order, and the program is the last of
  them. So \<^verbatim>\<open>nachos -x a -x b\<close> runs \<^verbatim>\<open>b\<close> with the arguments \<^verbatim>\<open>a\<close> and \<^verbatim>\<open>b\<close>.\<close>

definition args_ok :: "MainOptions \<Rightarrow> bool" where
  "args_ok m \<longleftrightarrow> length (progArgs m) \<le> 10 \<and> (\<forall>s\<in>set (progArgs m). length s \<le> 99)
     \<and> userProgName m = (if progArgs m = [] then None else Some (List.last (progArgs m)))"

lemma push_arg_ok: "args_ok m \<Longrightarrow> push_arg v (m\<lparr>userProgName := Some v\<rparr>) = Ok m' \<Longrightarrow> args_ok m'"
  by (auto simp: push_arg_def args_ok_def split: if_splits)

lemma args_ok_fields [simp]:
  "args_ok (m\<lparr>debugArg := d\<rparr>) = args_ok m" "args_ok (m\<lparr>threadTestFlag := b\<rparr>) = args_ok m"
  "args_ok (m\<lparr>consoleTestFlag := b\<rparr>) = args_ok m" "args_ok (m\<lparr>networkTestFlag := b\<rparr>) = args_ok m"
  "args_ok (m\<lparr>copyFileNames := p\<rparr>) = args_ok m" "args_ok (m\<lparr>printFileName := c\<rparr>) = args_ok m"
  "args_ok (m\<lparr>removeFileName := c\<rparr>) = args_ok m" "args_ok (m\<lparr>dirListFlag := b\<rparr>) = args_ok m"
  "args_ok (m\<lparr>dumpFlag := b\<rparr>) = args_ok m"
  by (simp_all add: args_ok_def)

lemma Main_loop_args: "Main_loop stub as m = Ok m' \<Longrightarrow> args_ok m \<Longrightarrow> args_ok m'"
proof (induction as arbitrary: m rule: length_induct)
  case (1 as)
  have IH: "Main_loop stub ys n = Ok m' \<Longrightarrow> length ys < length as \<Longrightarrow> args_ok n \<Longrightarrow> args_ok m'" for ys n
    using "1.IH" by blast
  show ?case
  proof (cases as)
    case Nil
    with "1.prems" show ?thesis by simp
  next
    case (Cons a bs)
    from "1.prems"(1) show ?thesis unfolding Cons
      by (simp only: Main_loop.simps(2) split: if_splits list.splits result.splits)
         (use "1.prems"(2) in \<open>auto simp: Cons intro: IH dest: push_arg_ok\<close>)
  qed
qed

theorem Main_runs_last_program:
  assumes "main_options stub argv = Ok m"
  shows "length (progArgs m) \<le> 10 \<and> (\<forall>s\<in>set (progArgs m). length s \<le> 99)
    \<and> userProgName m = (if progArgs m = [] then None else Some (List.last (progArgs m)))"
  using Main_loop_args [OF assms [unfolded main_options_def]] by (simp add: args_ok_def Main_defaults_def)

theorem Main_runs_last_program_witness:
  "\<exists>m. main_options True (map cstr [''nachos'', ''-x'', ''a'', ''-x'', ''b'']) = Ok m \<and> userProgName m = Some (cstr ''b'')
     \<and> progArgs m = map cstr [''a'', ''b'']"
proof -
  obtain m where m: "main_options True (map cstr [''nachos'', ''-x'', ''a'', ''-x'', ''b'']) = Ok m"
      "progArgs m = map cstr [''a'', ''b'']"
    by (simp add: main_options_def Main_loop.simps(2) cstr_def push_arg_def Main_defaults_def)
  from Main_runs_last_program [OF m(1)] m show ?thesis by (auto simp: cstr_def)
qed

text \<open>The eleventh program name is written past the end of the array.\<close>

theorem Main_overruns_args:
  "main_options stub (cstr ''nachos'' # concat (replicate 11 [cstr ''-x'', cstr ''p''])) = Fault OutOfRange"
proof -
  have "replicate 11 x = [x, x, x, x, x, x, x, x, x, x, x]" for x :: "cstring list" by (simp add: numeral_eq_Suc)
  then show ?thesis
    by (simp add: main_options_def Main_loop.simps(2) cstr_def push_arg_def Main_defaults_def)
qed

text \<open>The two loops disagree: in \<^verbatim>\<open>nachos -x -s\<close> the program is called \<^verbatim>\<open>-s\<close> for one and single
  stepping is on for the other.\<close>

theorem Loops_disagree:
  "\<exists>m k. main_options stub (map cstr [''nachos'', ''-x'', ''-s'']) = Ok m \<and> userProgName m = Some (cstr ''-s'')
     \<and> Kernel_new stub atof one (map cstr [''nachos'', ''-x'', ''-s'']) = Ok k \<and> debugUserProg k"
  by (simp add: main_options_def Kernel_new_def Main_loop.simps(2) Kernel_loop.simps(2) cstr_def push_arg_def
      Main_defaults_def Kernel_defaults_def)

end
