(* ===== verification/Spec2Isabelle.thy ===== *)
theory Spec2Isabelle
  imports Prelude Bitmap Linked_List Machine_Memory Mips_Sim Stub_FS Addr_Space Threads Processes Syscalls
    Interrupts Device_State Waiting Consoles Disk_Device Synch_List Network Devices
    Disk_Files Disk_Tables Disk_FS Synch_Disk File_System
    Hash_Table Lib_Tests Coff2noff Kernel_Start
begin

text \<open>
  NachOS-4.0, an instructional operating system kernel in C++ that runs as one process of its host, on a
  simulated MIPS machine with simulated devices. All paths below are relative to
  \<^verbatim>\<open>NachOS-4.0/code\<close>.

  \<^bold>\<open>The program.\<close> The simulated machine runs the instructions of user programs and calls the kernel for
  every exception (\<^verbatim>\<open>Machine::Run\<close>, \<^verbatim>\<open>OneInstruction\<close>, \<^verbatim>\<open>RaiseException\<close>). The kernel answers
  system calls (\<^verbatim>\<open>ExceptionHandler\<close>) with its process table, its named semaphores and a file
  system; processes are threads with an address space, scheduled by the kernel and synchronised by
  semaphores, locks and condition variables. After every instruction and every time interrupts are enabled the
  clock ticks (\<^verbatim>\<open>Interrupt::OneTick\<close>) and runs the handlers of the interrupts that are due; when no
  thread is ready, the clock is moved to the next interrupt (\<^verbatim>\<open>Idle\<close>). The timer, the consoles, the
  disk and the network are objects that schedule such interrupts; the synchronous consoles, the synchronous disk
  and the post office make threads wait for them. The host's system calls are below all of it.

  \<^bold>\<open>State.\<close> The objects the code reaches through the global \<^verbatim>\<open>kernel\<close> are one record that grows
  with the layers: \<open>Machine\<close> (registers, memory, page table, TLB, page frames), \<open>MachineFS\<close> (with
  the file system), \<open>ThreadKernel\<close> (threads, ready list, semaphores, locks), then either
  \<open>ProcKernel\<close> and \<open>Kernel\<close> (processes, named semaphores, consoles as system calls see them)
  or \<open>ClockKernel\<close> and \<open>IOKernel\<close> (statistics, pending interrupts, devices). Operations of
  a lower layer are polymorphic in the extension. Code that may abort or leave the defined behaviour of C++
  returns a \<open>result\<close>: a failed \<^verbatim>\<open>ASSERT\<close>, a null, dangling or uninitialised pointer, an index
  out of range, a division that traps and the end of the simulation are \<open>Fault\<close> values.

  \<^bold>\<open>Theories.\<close>
  \<^item> \<open>Prelude\<close>: outcomes, array access, loops and the macros of \<^verbatim>\<open>lib/utility.h\<close>, with the
    collections \<open>result_simps\<close> and \<open>wf_intros\<close>.
  \<^item> \<open>Bitmap\<close> (\<^verbatim>\<open>lib/bitmap.cc\<close>): 32-bit words refine a set of slots; the contract of an
    allocator is the locale \<open>slot_allocator\<close>.
  \<^item> \<open>Linked_List\<close> (\<^verbatim>\<open>lib/list.cc\<close>): cells in a store refine the sequence of items; locales
    \<open>comparator\<close> (sorted lists) and \<open>fifo\<close> (queues), interpreted on the cells and on item lists.
  \<^item> \<open>Hash_Table\<close> (\<^verbatim>\<open>lib/hash.cc\<close>): chained buckets refine a map from keys to items; the
    contract of a table with keys is the locale \<open>keyed_table\<close>.
  \<^item> \<open>Lib_Tests\<close> (\<^verbatim>\<open>lib/libtest.cc\<close>): the self tests of the library, run on these contracts;
    \<open>list_class\<close> is what a subclass of \<open>List\<close> may do in its virtual methods.
  \<^item> \<open>Machine_Memory\<close> (\<^verbatim>\<open>machine/machine.cc\<close>, \<^verbatim>\<open>machine/translate.cc\<close>): registers,
    translation, confined reads and writes.
  \<^item> \<open>Mips_Sim\<close> (\<^verbatim>\<open>machine/mipssim.cc\<close>): decoding, every instruction, the 64-bit product by
    repeated addition. \<open>exception_handler\<close> is what the simulator needs of the kernel.
  \<^item> \<open>Stub_FS\<close> (\<^verbatim>\<open>filesys/openfile.h\<close>, \<^verbatim>\<open>filesys/filesys.h\<close>,
    \<^verbatim>\<open>lib/sysdep.cc\<close>): the file system the kernel is built with, on files of the host.
  \<^item> \<open>Addr_Space\<close> (\<^verbatim>\<open>userprog/addrspace.cc\<close>): loading, page tables, isolation of processes.
  \<^item> \<open>Threads\<close> (\<^verbatim>\<open>threads/thread.cc\<close>, \<^verbatim>\<open>scheduler.cc\<close>, \<^verbatim>\<open>synch.cc\<close>): the operations,
    and the step relation \<open>step\<close> of their interleavings with time slices and interrupts, which refines the
    abstract machine \<open>astep\<close>.
  \<^item> \<open>Processes\<close> (\<^verbatim>\<open>threads/pcb.cc\<close>, \<^verbatim>\<open>ptable.cc\<close>, \<^verbatim>\<open>stable.cc\<close>, \<^verbatim>\<open>sem.cc\<close>):
    \<open>Exec\<close>, \<open>Join\<close>, \<open>Exit\<close> and named semaphores.
  \<^item> \<open>Syscalls\<close> (\<^verbatim>\<open>userprog/exception.cc\<close>, \<^verbatim>\<open>ksyscall.h\<close>): every handler; interprets
    \<open>exception_handler\<close>, so the kernel keeps the machine well-formed.
  \<^item> \<open>Interrupts\<close> (\<^verbatim>\<open>machine/interrupt.cc\<close>, \<^verbatim>\<open>timer.cc\<close>, \<^verbatim>\<open>threads/alarm.cc\<close>):
    simulated time, over an arbitrary handler. Three contracts of increasing strength on the handlers are
    the locales \<open>device_handlers\<close> (a handler schedules only for later), \<open>device_invariant\<close> (it keeps
    an invariant) and \<open>live_devices\<close> (it returns).
  \<^item> \<open>Device_State\<close>, \<open>Waiting\<close>, \<open>Consoles\<close>, \<open>Disk_Device\<close>, \<open>Network\<close>,
    \<open>Synch_List\<close>: the devices (\<^verbatim>\<open>machine/console.cc\<close>, \<^verbatim>\<open>disk.cc\<close>, \<^verbatim>\<open>network.cc\<close>),
    a thread that waits (\<^verbatim>\<open>threads/synch.cc\<close> with \<^verbatim>\<open>Thread::Sleep\<close>), and what is built of
    both (\<^verbatim>\<open>userprog/synchconsole.cc\<close>, \<^verbatim>\<open>filesys/synchdisk.cc\<close>, \<^verbatim>\<open>network/post.cc\<close>,
    \<^verbatim>\<open>threads/synchlist.cc\<close>).
  \<^item> \<open>Devices\<close>: the dispatch of interrupts to the devices; interprets the three contracts of
    \<open>Interrupts\<close> on it, with the invariants \<open>dev_inv\<close>, \<open>io_ok\<close> and \<open>silent\<close>, and relates
    the clock to the steps of \<open>Threads\<close>.
  \<^item> \<open>Disk_Files\<close>, \<open>Disk_Tables\<close>, \<open>Disk_FS\<close> (\<^verbatim>\<open>filesys/filehdr.cc\<close>,
    \<^verbatim>\<open>openfile.cc\<close>, \<^verbatim>\<open>pbitmap.cc\<close>, \<^verbatim>\<open>directory.cc\<close>, \<^verbatim>\<open>filesys.cc\<close>): the disk file
    system of a build without \<^verbatim>\<open>FILESYS_STUB\<close>, over the interface \<open>sector_disk\<close>.
  \<^item> \<open>Synch_Disk\<close>, \<open>File_System\<close>: the synchronous disk, with the thread that waits and the clock
    that goes on, interprets \<open>sector_disk\<close>; the file system on it is a map from names to contents.

  \<^item> \<open>Coff2noff\<close> (\<^verbatim>\<open>../coff2noff/coff2noff.c\<close>): the tool that makes the executables, and what the
    loader of \<open>Addr_Space\<close> makes of them.
  \<^item> \<open>Kernel_Start\<close> (\<^verbatim>\<open>threads/kernel.cc\<close>, \<^verbatim>\<open>threads/main.cc\<close>, \<^verbatim>\<open>lib/debug.cc\<close>): the
    command line.

  \<^bold>\<open>What is shown.\<close> Every component has its invariant and the lemma that each operation keeps it, the
  outcome of its operations on every branch with the faults they can meet, and where it has a contract a
  refinement: bitmap to set, list to sequence, hash table to map, page table to the kernel's own translation,
  threads to an abstract machine of values and queues, disk to an array of sectors, file system to a map, sockets
  and mail boxes to the transport of letters, object files to the memory of the loaded program, ticks to the device steps of the thread machine. Across components:
  a busy device has exactly one interrupt pending, an interrupt fires exactly on its time, a request to the disk
  ends, wake-ups are not lost, locks exclude, what is written to a file is read back. Where the code does
  something else than it means to, the theorem states what it does.

  \<^bold>\<open>The host.\<close> System calls of the host are the records \<open>unix\<close> and \<open>io\<close>, arguments of the
  operations that reach them, over an arbitrary type of host states. What a property relies on is a named
  hypothesis: \<open>posix_files\<close> and \<open>posix_file\<close> (seek, read and write of an open file), and
  \<open>io_ok\<close> (calls that succeed). The witnesses instantiate them with concrete hosts. The contents of
  memory that the code does not initialise are parameters too (\<open>heap\<close>, \<open>junk\<close>).

  \<^bold>\<open>Bounds and termination.\<close> Registers, memory words, \<^verbatim>\<open>size_t\<close> and \<^verbatim>\<open>unsigned\<close> values are
  words of their width. Plain \<^verbatim>\<open>int\<close> counters, the clock and the values of semaphores are mathematical
  integers; the model ends where they would leave 32 bits. A walk over list cells has the number of addresses in
  use as fuel: a longer walk visits a cell twice and never ends. The copying of strings is bounded by the limits the
  code passes. Loops that may not end are \<open>partial_function\<close>s (\<open>fire_loop\<close>, \<open>Sleep_loop\<close>,
  \<open>P_loop\<close>, \<open>ConsoleTest\<close>), whose value \<open>None\<close> or \<open>Fault Diverges\<close> is the endless loop; that
  they end is proved from the contract of the devices.

  \<^bold>\<open>Not modelled.\<close> \<^verbatim>\<open>switch.S\<close>, assembly code of the host, is the change of the current thread.
  Printing, the debugger of the simulated machine and the debug flags have no effect on the state. Destructors that
  only free memory and run when the kernel ends are left out, and so are signals and the wrappers of
  \<^verbatim>\<open>sysdep.cc\<close> that nothing calls. \<^verbatim>\<open>ExecV\<close>'s handler lacks a semicolon in its output
  statement; the model is of the file with it. \<^verbatim>\<open>FileSystem::Open\<close> with a type and
  \<^verbatim>\<open>FindFreeSlot\<close> name a variable that no file declares, and have no meaning to model. User
  programs, the examples and the cross compiler under \<^verbatim>\<open>usr\<close> are not parts of the kernel. Of the start
  of the kernel, \<^verbatim>\<open>Copy\<close> and \<^verbatim>\<open>Print\<close> in \<^verbatim>\<open>main.cc\<close> end in the destructor of
  \<open>OpenFile\<close>, which frees a pointer that was never set, and are left out with \<^verbatim>\<open>NetworkTest\<close>.
\<close>

end
